(* ===== verification/LB_Prelude.thy ===== *)
theory LB_Prelude
  imports Main "HOL-Library.Word" "HOL-Library.AList"
begin

text \<open>
  Shared vocabulary of the development: the machine types of the C++ sources, time, byte
  buffers, hash maps and the parts of the C++ string library the sources use, with the
  generic lemmas on them. Nothing here is specific to one component.

  \<^item> A file descriptor is a C++ \<open>int\<close> and is modelled as an unbounded \<open>int\<close>: the code
    never computes with descriptors, it only compares and stores them.
  \<^item> A time point (\<open>std::chrono::steady_clock::time_point\<close>) is an \<open>int\<close> counting
    nanoseconds, the clock's period on the platform; each operation that reads the clock
    takes the reading as an argument.
  \<^item> A byte buffer (\<open>std::vector<uint8_t>\<close> or \<open>std::string\<close>) is a \<open>string\<close>, a list of
    8-bit characters.
  \<^item> A hash map (\<open>std::unordered_map\<close>) that the code iterates is an association list with
    distinct keys whose order stands for the unspecified iteration order; one that is
    only searched is a partial function.
\<close>

named_theorems lb_invs \<open>preservation of the components' invariants\<close>
named_theorems lb_frames \<open>what an operation leaves unchanged\<close>

subsection \<open>Machine types and time\<close>

type_synonym u16 = "16 word"
type_synonym u32 = "32 word"
type_synonym u64 = "64 word"
type_synonym fd = int
type_synonym time = int
type_synonym bytes = string

definition duration_seconds :: "u32 \<Rightarrow> time" where
  "duration_seconds n = int (unat n) * 1000000000"

definition duration_cast_ms :: "time \<Rightarrow> int" where
  "duration_cast_ms d = sgn d * (\<bar>d\<bar> div 1000000)"

definition duration_cast_us :: "time \<Rightarrow> int" where
  "duration_cast_us d = sgn d * (\<bar>d\<bar> div 1000)"

definition elapsed_at_least_ms :: "time \<Rightarrow> time \<Rightarrow> u32 \<Rightarrow> bool" where
  "elapsed_at_least_ms now start limit_ms \<longleftrightarrow> int (unat limit_ms) \<le> duration_cast_ms (now - start)"

subsection \<open>Decimal printing: std::to_string and stream output of unsigned numbers\<close>

definition digit_char :: "nat \<Rightarrow> char" where
  "digit_char d = char_of (48 + d)"

fun nat_to_string :: "nat \<Rightarrow> string" where
  "nat_to_string n =
     (if n < 10 then [digit_char n] else nat_to_string (n div 10) @ [digit_char (n mod 10)])"

declare nat_to_string.simps [simp del]

definition int_to_string :: "int \<Rightarrow> string" where
  "int_to_string i =
     (if i < 0 then CHR ''-'' # nat_to_string (nat (- i)) else nat_to_string (nat i))"

subsection \<open>Characters and string searching\<close>

definition is_digit :: "char \<Rightarrow> bool" where
  "is_digit c \<longleftrightarrow> 48 \<le> (of_char c :: nat) \<and> (of_char c :: nat) \<le> 57"

definition digit_val :: "char \<Rightarrow> nat" where
  "digit_val c = of_char c - 48"

definition tolower :: "char \<Rightarrow> char" where
  "tolower c = (if 65 \<le> (of_char c :: nat) \<and> (of_char c :: nat) \<le> 90
                then char_of ((of_char c :: nat) + 32) else c)"

definition lower :: "string \<Rightarrow> string" where
  "lower s = map tolower s"

fun find_char :: "char \<Rightarrow> string \<Rightarrow> nat option" where
  "find_char c [] = None"
| "find_char c (x # xs) = (if x = c then Some 0 else map_option Suc (find_char c xs))"

fun find_sub :: "string \<Rightarrow> string \<Rightarrow> nat option" where
  "find_sub pat [] = (if pat = [] then Some 0 else None)"
| "find_sub pat (c # cs) =
     (if take (length pat) (c # cs) = pat then Some 0 else map_option Suc (find_sub pat cs))"

definition find_char_from :: "char \<Rightarrow> string \<Rightarrow> nat \<Rightarrow> nat option" where
  "find_char_from c s pos = map_option (\<lambda>i. pos + i) (find_char c (drop pos s))"

fun strip_front :: "(char \<Rightarrow> bool) \<Rightarrow> string \<Rightarrow> string" where
  "strip_front p [] = []"
| "strip_front p (x # xs) = (if p x then strip_front p xs else x # xs)"

definition strip_back :: "(char \<Rightarrow> bool) \<Rightarrow> string \<Rightarrow> string" where
  "strip_back p s = rev (strip_front p (rev s))"

subsection \<open>Erasing the entries of a hash map\<close>

definition erase_key :: "('k \<rightharpoonup> 'v) \<Rightarrow> 'k \<Rightarrow> ('k \<rightharpoonup> 'v)" where
  "erase_key m k = m(k := None)"

definition erase_where :: "('v \<Rightarrow> bool) \<Rightarrow> ('k \<rightharpoonup> 'v) \<Rightarrow> ('k \<rightharpoonup> 'v)" where
  "erase_where p m = (\<lambda>k. case m k of None \<Rightarrow> None | Some v \<Rightarrow> if p v then None else Some v)"

subsection \<open>Lemmas on time\<close>

lemma duration_cast_ms_nonneg: "0 \<le> d \<Longrightarrow> duration_cast_ms d = d div 1000000"
  by (cases "d = 0") (simp_all add: duration_cast_ms_def)

lemma duration_cast_ms_mono:
  assumes "a \<le> b" shows "duration_cast_ms a \<le> duration_cast_ms b"
proof -
  have pos: "0 \<le> x div 1000000" if "0 \<le> x" for x :: int
    using that by (simp add: pos_imp_zdiv_nonneg_iff)
  consider "0 \<le> a" | "a < 0" "0 \<le> b" | "a < 0" "b < 0"
    by linarith
  then show ?thesis
  proof cases
    case 1
    with assms show ?thesis by (simp add: duration_cast_ms_nonneg zdiv_mono1)
  next
    case 2
    with pos [of "- a"] pos [of b] show ?thesis
      by (simp add: duration_cast_ms_nonneg) (simp add: duration_cast_ms_def)
  next
    case 3
    with assms have "(- b) div 1000000 \<le> (- a) div 1000000"
      by (intro zdiv_mono1) auto
    with 3 show ?thesis by (simp add: duration_cast_ms_def)
  qed
qed

lemma elapsed_at_least_ms_mono:
  assumes "now \<le> now'" and "elapsed_at_least_ms now start ms"
  shows "elapsed_at_least_ms now' start ms"
  using assms duration_cast_ms_mono [of "now - start" "now' - start"]
  by (auto simp: elapsed_at_least_ms_def)

lemma duration_seconds_nonneg [simp]: "0 \<le> duration_seconds n"
  by (simp add: duration_seconds_def)

subsection \<open>Lemmas on maps\<close>

lemma erase_key_same [simp]: "erase_key m k k = None"
  by (simp add: erase_key_def)

lemma erase_key_other [simp]: "j \<noteq> k \<Longrightarrow> erase_key m k j = m j"
  by (simp add: erase_key_def)

lemma dom_erase_key [simp]: "dom (erase_key m k) = dom m - {k}"
  by (auto simp: erase_key_def)

lemma erase_where_Some: "erase_where p m k = Some v \<longleftrightarrow> m k = Some v \<and> \<not> p v"
  by (auto simp: erase_where_def split: option.splits)

lemma erase_where_None: "erase_where p m k = None \<longleftrightarrow> (\<forall>v. m k = Some v \<longrightarrow> p v)"
  by (auto simp: erase_where_def split: option.splits)

subsection \<open>Lemmas on strings\<close>

lemma lower_Nil [simp]: "lower [] = []"
  by (simp add: lower_def)

lemma length_lower [simp]: "length (lower s) = length s"
  by (simp add: lower_def)

lemma tolower_idem [simp]: "tolower (tolower c) = tolower c"
  by (cases "65 \<le> (of_char c :: nat) \<and> (of_char c :: nat) \<le> 90") (auto simp: tolower_def)

lemma lower_idem [simp]: "lower (lower s) = lower s"
  by (simp add: lower_def)

lemma take_before_suffix: "s = h @ m \<Longrightarrow> take (length s - length m) s = h"
  by simp

lemma drop_before_suffix: "s = h @ m \<Longrightarrow> drop (length s - length m) s = m"
  by simp

lemma find_char_None_iff: "find_char c s = None \<longleftrightarrow> c \<notin> set s"
  by (induction s) auto

lemma find_char_Some:
  "find_char c s = Some i \<Longrightarrow> i < length s \<and> s ! i = c \<and> c \<notin> set (take i s)"
  by (induction s arbitrary: i) (auto split: if_splits)

lemma find_char_append_first: "c \<notin> set s \<Longrightarrow> find_char c (s @ c # t) = Some (length s)"
  by (induction s) auto

lemma find_sub_Some_iff: "(\<exists>i. find_sub pat s = Some i) \<longleftrightarrow> (\<exists>u v. s = u @ pat @ v)"
proof (induction s)
  case (Cons c s)
  show ?case
  proof (cases "take (length pat) (c # s) = pat")
    case True
    then have "c # s = [] @ pat @ drop (length pat) (c # s)" by (metis append_Nil append_take_drop_id)
    then show ?thesis using True by (metis find_sub.simps(2))
  next
    case False
    then have "(\<exists>u v. c # s = u @ pat @ v) \<longleftrightarrow> (\<exists>u v. s = u @ pat @ v)"
      by (metis Cons_eq_append_conv append_Cons append_eq_conv_conj)
    then show ?thesis using False Cons.IH by simp
  qed
qed simp

lemma find_sub_None_iff: "find_sub pat s = None \<longleftrightarrow> (\<forall>u v. s \<noteq> u @ pat @ v)"
  using find_sub_Some_iff [of pat s] by auto

lemma find_sub_mono: "find_sub pat s \<noteq> None \<Longrightarrow> find_sub pat (s @ t) \<noteq> None"
  by (metis append_assoc find_sub_None_iff)

lemma strip_front_suffix: "\<exists>t. s = t @ strip_front p s \<and> (\<forall>x \<in> set t. p x)"
proof (induction s)
  case (Cons a s)
  then obtain t where "s = t @ strip_front p s" and "\<forall>x \<in> set t. p x" by blast
  then have "p a \<Longrightarrow> a # s = (a # t) @ strip_front p (a # s) \<and> (\<forall>x \<in> set (a # t). p x)"
    by simp
  then show ?case by (cases "p a") (blast, simp)
qed simp

lemma strip_front_id: "s = [] \<or> \<not> p (hd s) \<Longrightarrow> strip_front p s = s"
  by (cases s) auto

lemma strip_back_id: "s = [] \<or> \<not> p (last s) \<Longrightarrow> strip_back p s = s"
  by (auto simp: strip_back_def strip_front_id hd_rev)

lemma strip_front_hd: "strip_front p s = [] \<or> \<not> p (hd (strip_front p s))"
  by (induction s) auto

lemma length_strip_front: "length (strip_front p s) \<le> length s"
  by (induction s) auto

lemma length_strip_back: "length (strip_back p s) \<le> length s"
  using length_strip_front [of p "rev s"] by (simp add: strip_back_def)

lemma digit_char_is_digit: "d < 10 \<Longrightarrow> is_digit (digit_char d)"
  by (simp add: is_digit_def digit_char_def)

lemma digit_val_digit_char: "d < 10 \<Longrightarrow> digit_val (digit_char d) = d"
  by (simp add: digit_val_def digit_char_def)

lemma nat_to_string_digits: "\<forall>c \<in> set (nat_to_string n). is_digit c"
proof (induction n rule: nat_to_string.induct)
  case (1 n)
  show ?case
  proof (cases "n < 10")
    case True
    then show ?thesis by (subst nat_to_string.simps) (simp add: digit_char_is_digit)
  next
    case False
    with 1 show ?thesis by (subst nat_to_string.simps) (auto simp: digit_char_is_digit)
  qed
qed

lemma nat_to_string_nonempty [simp]: "nat_to_string n \<noteq> []"
  by (subst nat_to_string.simps) simp

subsection \<open>Lemmas on words\<close>

lemma unat_add_no_wrap:
  fixes a b :: u64
  assumes "unat a + unat b < 2 ^ 64"
  shows "unat (a + b) = unat a + unat b"
  using assms by (simp add: unat_word_ariths)

lemma uint_plus_no_wrap:
  fixes w :: u64
  assumes "0 \<le> n" and "uint w + n < 2 ^ 64"
  shows "uint (w + of_int n) = uint w + n"
proof -
  have "0 \<le> uint w" by (rule uint_ge_0)
  have "w + of_int n = word_of_int (uint w + n)" by simp
  also have "uint \<dots> = (uint w + n) mod 2 ^ 64" by (simp only: uint_word_of_int) simp
  also have "\<dots> = uint w + n" using assms \<open>0 \<le> uint w\<close> by (intro mod_pos_pos_trivial) linarith+
  finally show ?thesis .
qed

lemma uint_minus_no_wrap:
  fixes w :: u64
  assumes "0 \<le> n" and "n \<le> uint w"
  shows "uint (w - of_int n) = uint w - n"
proof -
  have "uint w < 2 ^ 64" using uint_lt2p [of w] by simp
  have "w - of_int n = word_of_int (uint w - n)" by simp
  also have "uint \<dots> = (uint w - n) mod 2 ^ 64" by (simp only: uint_word_of_int) simp
  also have "\<dots> = uint w - n" using assms \<open>uint w < 2 ^ 64\<close> by (intro mod_pos_pos_trivial) linarith+
  finally show ?thesis .
qed
lemma unat_of_nat_u64: "n < 2 ^ 64 \<Longrightarrow> unat (of_nat n :: u64) = n"
  by (simp add: unat_of_nat)

lemma unat_diff_le:
  fixes a b :: "'a::len word"
  assumes "b \<le> a"
  shows "unat (a - b) = unat a - unat b"
  using assms by (rule unat_sub)

subsection \<open>Invariants of transition systems\<close>

text \<open>What holds at the start and is kept by every step holds in every state that can be reached.\<close>

locale step_invariant =
  fixes init :: "'s \<Rightarrow> bool" and step :: "'s \<Rightarrow> 's \<Rightarrow> bool" and inv :: "'s \<Rightarrow> bool"
  assumes start: "init s \<Longrightarrow> inv s"
    and kept: "step s s' \<Longrightarrow> inv s \<Longrightarrow> inv s'"
begin

lemma from_any: "step\<^sup>*\<^sup>* s s' \<Longrightarrow> inv s \<Longrightarrow> inv s'"
  by (induction rule: rtranclp_induct) (auto intro: kept)

lemma reachable: "step\<^sup>*\<^sup>* s s' \<Longrightarrow> init s \<Longrightarrow> inv s'"
  using from_any start by blast

end

end
