(* ===== verification/Memory_Budget.thy ===== *)
theory Memory_Budget
  imports LB_Prelude
begin

text \<open>
  \<^verbatim>\<open>core/memory_budget.h\<close>: the global byte budget. The two atomics are a record of 64-bit
  words. The sequential operations are the results of \<open>try_reserve\<close> and \<open>release\<close> when no
  other thread touches the counter; \<open>try_reserve_loop\<close> and \<open>release_loop\<close> are the
  compare-exchange loops themselves, run against a schedule of interferences, and
  \<open>budget_step\<close> is the interleaving semantics of any number of threads calling them.
  The locale \<open>byte_accounting\<close> is the contract the buffers of a connection rely on.
\<close>

record budget =
  used_bytes :: u64
  limit_bytes :: u64

definition new_budget :: budget where
  "new_budget = \<lparr>used_bytes = 0, limit_bytes = 0\<rparr>"

definition set_limit_bytes :: "u64 \<Rightarrow> budget \<Rightarrow> budget" where
  "set_limit_bytes n b = b\<lparr>limit_bytes := n\<rparr>"

definition set_limit_mb :: "u32 \<Rightarrow> budget \<Rightarrow> budget" where
  "set_limit_mb mb b = set_limit_bytes (ucast mb * 1024 * 1024) b"

definition is_exceeded :: "budget \<Rightarrow> bool" where
  "is_exceeded b \<longleftrightarrow> limit_bytes b > 0 \<and> used_bytes b \<ge> limit_bytes b"

definition try_reserve :: "u64 \<Rightarrow> budget \<Rightarrow> bool \<times> budget" where
  "try_reserve n b =
     (if limit_bytes b = 0 \<or> n = 0 then (True, b)
      else if used_bytes b + n > limit_bytes b then (False, b)
      else (True, b\<lparr>used_bytes := used_bytes b + n\<rparr>))"

definition release_next :: "u64 \<Rightarrow> u64 \<Rightarrow> u64" where
  "release_next cur n = (if cur > n then cur - n else 0)"

definition release :: "u64 \<Rightarrow> budget \<Rightarrow> budget" where
  "release n b = (if n = 0 then b else b\<lparr>used_bytes := release_next (used_bytes b) n\<rparr>)"

subsection \<open>The compare-exchange loops\<close>

text \<open>
  One element of a schedule is what happens before one \<open>compare_exchange_weak\<close>: another
  thread may store a new value, and the exchange may fail spuriously. A failed exchange
  loads the current value into \<open>cur\<close>. An exhausted schedule is a loop that is still
  spinning.
\<close>

datatype cas_env = CasEnv (stored: "u64 option") (spurious: bool)

definition interfere :: "cas_env \<Rightarrow> budget \<Rightarrow> budget" where
  "interfere e b = (case stored e of None \<Rightarrow> b | Some v \<Rightarrow> b\<lparr>used_bytes := v\<rparr>)"

fun try_reserve_loop :: "cas_env list \<Rightarrow> u64 \<Rightarrow> u64 \<Rightarrow> u64 \<Rightarrow> budget \<Rightarrow> (bool \<times> budget) option" where
  "try_reserve_loop es lim n cur b =
     (if cur + n > lim then Some (False, b)
      else case es of
        [] \<Rightarrow> None
      | e # es' \<Rightarrow>
          (let b' = interfere e b in
           if \<not> spurious e \<and> used_bytes b' = cur
           then Some (True, b'\<lparr>used_bytes := cur + n\<rparr>)
           else try_reserve_loop es' lim n (used_bytes b') b'))"

fun release_loop :: "cas_env list \<Rightarrow> u64 \<Rightarrow> u64 \<Rightarrow> budget \<Rightarrow> budget option" where
  "release_loop [] n cur b = None"
| "release_loop (e # es) n cur b =
     (let b' = interfere e b in
      if \<not> spurious e \<and> used_bytes b' = cur
      then Some (b'\<lparr>used_bytes := release_next cur n\<rparr>)
      else release_loop es n (used_bytes b') b')"

declare try_reserve_loop.simps [simp del]

definition quiet :: "cas_env \<Rightarrow> bool" where
  "quiet e \<longleftrightarrow> stored e = None"

subsection \<open>Interleavings of any number of threads\<close>

datatype budget_pc =
    Idle
  | Reserving (rsv_n: u64) (rsv_lim: u64) (rsv_cur: u64)
  | Releasing (rel_n: u64) (rel_cur: u64)

record budget_sys =
  shared :: budget
  pcs :: "nat \<Rightarrow> budget_pc"
  granted :: nat
  returned :: nat

definition budget_init :: "u64 \<Rightarrow> budget_sys" where
  "budget_init lim =
     \<lparr>shared = \<lparr>used_bytes = 0, limit_bytes = lim\<rparr>, pcs = (\<lambda>_. Idle), granted = 0, returned = 0\<rparr>"

text \<open>
  \<open>budget_step reqs\<close> is one atomic action of one thread; \<open>reqs\<close> holds the sizes the
  callers ask for. \<open>granted\<close> and \<open>returned\<close> record the bytes the successful calls
  reserved and the completed calls gave back.
\<close>

inductive budget_step :: "(u64 \<Rightarrow> bool) \<Rightarrow> budget_sys \<Rightarrow> budget_sys \<Rightarrow> bool" for reqs where
  reserve_load:
    "pcs s t = Idle \<Longrightarrow> reqs n \<Longrightarrow> n \<noteq> 0 \<Longrightarrow> limit_bytes (shared s) \<noteq> 0 \<Longrightarrow>
     budget_step reqs s
       (s\<lparr>pcs := (pcs s)(t := Reserving n (limit_bytes (shared s)) (used_bytes (shared s)))\<rparr>)"
| reserve_refused:
    "pcs s t = Reserving n lim cur \<Longrightarrow> cur + n > lim \<Longrightarrow>
     budget_step reqs s (s\<lparr>pcs := (pcs s)(t := Idle)\<rparr>)"
| reserve_exchanged:
    "pcs s t = Reserving n lim cur \<Longrightarrow> \<not> cur + n > lim \<Longrightarrow> used_bytes (shared s) = cur \<Longrightarrow>
     budget_step reqs s
       (s\<lparr>shared := (shared s)\<lparr>used_bytes := cur + n\<rparr>, pcs := (pcs s)(t := Idle),
          granted := granted s + unat n\<rparr>)"
| reserve_retry:
    "pcs s t = Reserving n lim cur \<Longrightarrow> \<not> cur + n > lim \<Longrightarrow>
     budget_step reqs s
       (s\<lparr>pcs := (pcs s)(t := Reserving n lim (used_bytes (shared s)))\<rparr>)"
| release_load:
    "pcs s t = Idle \<Longrightarrow> n \<noteq> 0 \<Longrightarrow>
     budget_step reqs s (s\<lparr>pcs := (pcs s)(t := Releasing n (used_bytes (shared s)))\<rparr>)"
| release_exchanged:
    "pcs s t = Releasing n cur \<Longrightarrow> used_bytes (shared s) = cur \<Longrightarrow>
     budget_step reqs s
       (s\<lparr>shared := (shared s)\<lparr>used_bytes := release_next cur n\<rparr>, pcs := (pcs s)(t := Idle),
          returned := returned s + unat n\<rparr>)"
| release_retry:
    "pcs s t = Releasing n cur \<Longrightarrow>
     budget_step reqs s (s\<lparr>pcs := (pcs s)(t := Releasing n (used_bytes (shared s)))\<rparr>)"

inductive budget_reachable :: "(u64 \<Rightarrow> bool) \<Rightarrow> u64 \<Rightarrow> budget_sys \<Rightarrow> bool" for reqs lim where
  budget_start: "budget_reachable reqs lim (budget_init lim)"
| budget_next: "budget_reachable reqs lim s \<Longrightarrow> budget_step reqs s s' \<Longrightarrow> budget_reachable reqs lim s'"

subsection \<open>Sequential laws\<close>

definition budget_ok :: "nat \<Rightarrow> budget \<Rightarrow> bool" where
  "budget_ok bound b \<longleftrightarrow>
     limit_bytes b \<noteq> 0 \<and> used_bytes b \<le> limit_bytes b \<and> unat (limit_bytes b) + bound < 2 ^ 64"

lemma budget_sum_no_wrap:
  assumes "budget_ok bound b" and "unat n \<le> bound"
  shows "unat (used_bytes b + n) = unat (used_bytes b) + unat n"
proof (rule unat_add_no_wrap)
  from assms(1) have "unat (used_bytes b) \<le> unat (limit_bytes b)"
    by (simp add: budget_ok_def word_le_nat_alt)
  with assms show "unat (used_bytes b) + unat n < 2 ^ 64"
    by (simp add: budget_ok_def)
qed

lemma try_reserve_True:
  assumes "budget_ok bound b" and "unat n \<le> bound" and "try_reserve n b = (True, b')"
  shows "unat (used_bytes b') = unat (used_bytes b) + unat n" and "budget_ok bound b'"
proof -
  have "n = 0 \<and> b' = b \<or>
        used_bytes b + n \<le> limit_bytes b \<and> b' = b\<lparr>used_bytes := used_bytes b + n\<rparr>"
    using assms by (auto simp: try_reserve_def budget_ok_def split: if_splits)
  with assms budget_sum_no_wrap [OF assms(1,2)]
  show "unat (used_bytes b') = unat (used_bytes b) + unat n" and "budget_ok bound b'"
    by (auto simp: budget_ok_def)
qed

lemma try_reserve_False: "try_reserve n b = (False, b') \<Longrightarrow> b' = b"
  by (auto simp: try_reserve_def split: if_splits)

lemma try_reserve_frame [lb_frames]: "limit_bytes (snd (try_reserve n b)) = limit_bytes b"
  by (simp add: try_reserve_def)

lemma unat_release_next: "unat (release_next cur n) = unat cur - unat n"
  by (auto simp: release_next_def word_less_nat_alt unat_sub word_le_nat_alt)

lemma release_next_le: "release_next cur n \<le> cur"
  by (simp add: word_le_nat_alt unat_release_next)

lemma unat_used_release: "unat (used_bytes (release n b)) = unat (used_bytes b) - unat n"
  by (simp add: release_def unat_release_next)

lemma release_frame [lb_frames]: "limit_bytes (release n b) = limit_bytes b"
  by (simp add: release_def)

lemma budget_ok_release [lb_invs]: "budget_ok bound b \<Longrightarrow> budget_ok bound (release n b)"
  using release_next_le [of "used_bytes b" n]
  by (auto simp: budget_ok_def release_def)

subsection \<open>The contract of the byte accounting\<close>

text \<open>
  What a connection's buffers rely on: a granted reservation adds exactly what was asked
  for, a refused one changes nothing, and giving back what is held subtracts exactly
  that. \<open>bound\<close> is the largest amount a client asks for at once.
\<close>

locale byte_accounting =
  fixes reserve :: "nat \<Rightarrow> 'b \<Rightarrow> bool \<times> 'b"
    and give_back :: "nat \<Rightarrow> 'b \<Rightarrow> 'b"
    and in_use :: "'b \<Rightarrow> nat"
    and ok :: "'b \<Rightarrow> bool"
    and bound :: nat
  assumes reserve_granted:
      "ok b \<Longrightarrow> n \<le> bound \<Longrightarrow> reserve n b = (True, b') \<Longrightarrow> ok b' \<and> in_use b' = in_use b + n"
    and reserve_refused: "reserve n b = (False, b') \<Longrightarrow> b' = b"
    and give_back_exact:
      "ok b \<Longrightarrow> n \<le> bound \<Longrightarrow> n \<le> in_use b \<Longrightarrow> ok (give_back n b) \<and> in_use (give_back n b) = in_use b - n"
begin

lemma reserve_then_return:
  assumes "ok b" and "n \<le> bound" and "reserve n b = (True, b')"
  shows "in_use (give_back n b') = in_use b"
  using reserve_granted [OF assms] give_back_exact [of b' n] assms(2) by simp

lemma reserve_keeps_part:
  assumes "ok b" and "n \<le> bound" and "reserve n b = (True, b')" and "k \<le> n"
  shows "ok (give_back (n - k) b') \<and> in_use (give_back (n - k) b') = in_use b + k"
  using reserve_granted [OF assms(1-3)] give_back_exact [of b' "n - k"] assms(2,4) by simp

end

definition reserve_bytes :: "nat \<Rightarrow> budget \<Rightarrow> bool \<times> budget" where
  "reserve_bytes n b = try_reserve (of_nat n) b"

definition release_bytes :: "nat \<Rightarrow> budget \<Rightarrow> budget" where
  "release_bytes n b = release (of_nat n) b"

interpretation mb: byte_accounting reserve_bytes release_bytes
  "\<lambda>b. unat (used_bytes b)" "budget_ok (2 ^ 32)" "2 ^ 32"
proof (unfold_locales, goal_cases)
  case (1 b n b')
  then have "unat (of_nat n :: u64) = n" by (simp add: unat_of_nat_u64)
  with 1 try_reserve_True [of "2 ^ 32" b "of_nat n" b'] show ?case
    by (simp add: reserve_bytes_def)
next
  case (2 n b b')
  then show ?case by (simp add: reserve_bytes_def try_reserve_False)
next
  case (3 b n)
  then have "unat (of_nat n :: u64) = n" by (simp add: unat_of_nat_u64)
  with 3 show ?case by (simp add: release_bytes_def unat_used_release budget_ok_release)
qed

subsection \<open>The loops compute the sequential results\<close>

lemma interfere_quiet [simp]: "quiet e \<Longrightarrow> interfere e b = b"
  by (simp add: quiet_def interfere_def)

lemma interfere_limit [simp]: "limit_bytes (interfere e b) = limit_bytes b"
  by (simp add: interfere_def split: option.splits)

lemma try_reserve_above:
  "used_bytes b + n > limit_bytes b \<Longrightarrow> limit_bytes b \<noteq> 0 \<Longrightarrow> n \<noteq> 0 \<Longrightarrow> try_reserve n b = (False, b)"
  by (simp add: try_reserve_def)

lemma try_reserve_below:
  "\<not> used_bytes b + n > limit_bytes b \<Longrightarrow> limit_bytes b \<noteq> 0 \<Longrightarrow> n \<noteq> 0 \<Longrightarrow>
   try_reserve n b = (True, b\<lparr>used_bytes := used_bytes b + n\<rparr>)"
  by (simp add: try_reserve_def)

text \<open>Linearisation: a loop that returns has taken effect at one instant of the schedule.\<close>

lemma try_reserve_loop_linearizes:
  assumes "try_reserve_loop es (limit_bytes b) n (used_bytes b) b = Some res"
    and "limit_bytes b \<noteq> 0" and "n \<noteq> 0"
  shows "\<exists>m \<le> length es. try_reserve n (fold interfere (take m es) b) = res"
  using assms
proof (induction es arbitrary: b)
  case Nil
  then show ?case by (subst (asm) try_reserve_loop.simps) (auto simp: try_reserve_above split: if_splits)
next
  case (Cons e es)
  let ?b' = "interfere e b"
  consider "used_bytes b + n > limit_bytes b"
    | "\<not> used_bytes b + n > limit_bytes b" "\<not> spurious e" "used_bytes ?b' = used_bytes b"
    | "\<not> used_bytes b + n > limit_bytes b" "\<not> (\<not> spurious e \<and> used_bytes ?b' = used_bytes b)" by blast
  then show ?case
  proof cases
    case 1
    with Cons.prems have "try_reserve n (fold interfere (take 0 (e # es)) b) = res"
      by (subst (asm) try_reserve_loop.simps) (simp add: try_reserve_above)
    then show ?thesis by blast
  next
    case 2
    with Cons.prems have "try_reserve n (fold interfere (take 1 (e # es)) b) = res"
      by (subst (asm) try_reserve_loop.simps) (simp add: try_reserve_below Let_def)
    then show ?thesis by force
  next
    case 3
    with Cons.prems(1) have "try_reserve_loop es (limit_bytes ?b') n (used_bytes ?b') ?b' = Some res"
      by (subst (asm) try_reserve_loop.simps) (auto simp: Let_def)
    from Cons.IH [OF this] Cons.prems(2,3) obtain m where
      "m \<le> length es" "try_reserve n (fold interfere (take m es) ?b') = res" by auto
    then show ?thesis by (intro exI [of _ "Suc m"]) simp
  qed
qed

lemma release_loop_linearizes:
  assumes "release_loop es n (used_bytes b) b = Some b'" and "n \<noteq> 0"
  shows "\<exists>m \<le> length es. release n (fold interfere (take m es) b) = b'"
  using assms
proof (induction es arbitrary: b)
  case (Cons e es)
  let ?b1 = "interfere e b"
  show ?case
  proof (cases "\<not> spurious e \<and> used_bytes ?b1 = used_bytes b")
    case True
    with Cons.prems have "release n (fold interfere (take 1 (e # es)) b) = b'" by (simp add: release_def Let_def)
    then show ?thesis by force
  next
    case False
    with Cons.prems have "release_loop es n (used_bytes ?b1) ?b1 = Some b'" by (auto simp: Let_def)
    from Cons.IH [OF this Cons.prems(2)] obtain m where
      "m \<le> length es" "release n (fold interfere (take m es) ?b1) = b'" by auto
    then show ?thesis by (intro exI [of _ "Suc m"]) simp
  qed
qed simp

text \<open>Progress: one undisturbed exchange that does not fail spuriously ends a loop.\<close>

lemma try_reserve_loop_returns:
  "\<exists>e \<in> set es. quiet e \<and> \<not> spurious e \<Longrightarrow> \<exists>res. try_reserve_loop es lim n (used_bytes b) b = Some res"
proof (induction es arbitrary: b)
  case (Cons e es)
  then show ?case by (subst try_reserve_loop.simps) (auto simp: Let_def)
qed simp

lemma release_loop_returns:
  "\<exists>e \<in> set es. quiet e \<and> \<not> spurious e \<Longrightarrow> \<exists>b'. release_loop es n (used_bytes b) b = Some b'"
  by (induction es arbitrary: b) (auto simp: Let_def)

subsection \<open>The interleaving invariant\<close>

fun pc_ok :: "(u64 \<Rightarrow> bool) \<Rightarrow> u64 \<Rightarrow> budget_pc \<Rightarrow> bool" where
  "pc_ok reqs lim (Reserving n l cur) \<longleftrightarrow> reqs n \<and> l = lim \<and> cur \<le> lim"
| "pc_ok reqs lim _ \<longleftrightarrow> True"

definition budget_inv :: "(u64 \<Rightarrow> bool) \<Rightarrow> u64 \<Rightarrow> budget_sys \<Rightarrow> bool" where
  "budget_inv reqs lim s \<longleftrightarrow>
     limit_bytes (shared s) = lim \<and> used_bytes (shared s) \<le> lim \<and>
     (\<forall>t. pc_ok reqs lim (pcs s t))"

lemma budget_inv_init: "budget_inv reqs lim (budget_init lim)"
  by (simp add: budget_inv_def budget_init_def)

lemma budget_inv_pc: "budget_inv reqs lim s \<Longrightarrow> pcs s t = p \<Longrightarrow> pc_ok reqs lim p"
  by (auto simp: budget_inv_def)

lemma budget_inv_step [lb_invs]:
  assumes "budget_step reqs s s'" and inv: "budget_inv reqs lim s"
  shows "budget_inv reqs lim s'"
  using assms(1)
proof cases
  case (reserve_exchanged t n l cur)
  with budget_inv_pc [OF inv reserve_exchanged(2)] inv show ?thesis
    by (simp add: budget_inv_def)
next
  case (reserve_retry t n l cur)
  with budget_inv_pc [OF inv reserve_retry(2)] inv show ?thesis
    by (simp add: budget_inv_def)
next
  case (release_exchanged t n cur)
  with inv have "cur \<le> lim" by (simp add: budget_inv_def)
  with release_next_le [of cur n] have "release_next cur n \<le> lim" by (rule order_trans)
  with release_exchanged inv show ?thesis by (simp add: budget_inv_def)
qed (use inv in \<open>simp_all add: budget_inv_def\<close>)

lemma budget_reachable_inv: "budget_reachable reqs lim s \<Longrightarrow> budget_inv reqs lim s"
  by (induction rule: budget_reachable.induct) (auto intro: budget_inv_init budget_inv_step)

text \<open>The part of the invariant that survives a change of the limit: every limit is at most \<open>lim\<close>.\<close>

fun pc_within :: "(u64 \<Rightarrow> bool) \<Rightarrow> u64 \<Rightarrow> budget_pc \<Rightarrow> bool" where
  "pc_within reqs lim (Reserving n l cur) \<longleftrightarrow> reqs n \<and> l \<le> lim \<and> cur \<le> lim"
| "pc_within reqs lim _ \<longleftrightarrow> True"

definition within_inv :: "(u64 \<Rightarrow> bool) \<Rightarrow> u64 \<Rightarrow> budget_sys \<Rightarrow> bool" where
  "within_inv reqs lim s \<longleftrightarrow>
     limit_bytes (shared s) \<le> lim \<and> used_bytes (shared s) \<le> lim \<and> (\<forall>t. pc_within reqs lim (pcs s t))"

lemma within_inv_pc: "within_inv reqs lim s \<Longrightarrow> pcs s t = p \<Longrightarrow> pc_within reqs lim p"
  by (auto simp: within_inv_def)

lemma budget_inv_within: "budget_inv reqs lim s \<Longrightarrow> within_inv reqs lim s"
proof -
  have "pc_ok reqs lim p \<Longrightarrow> pc_within reqs lim p" for p by (cases p) simp_all
  then show "budget_inv reqs lim s \<Longrightarrow> within_inv reqs lim s" by (simp add: budget_inv_def within_inv_def)
qed

text \<open>
  The bytes reserved are at most the bytes granted, and at least what has not been given
  back: \<open>release\<close> saturates at zero, it never wraps below it.
\<close>

definition ledger_ok :: "budget_sys \<Rightarrow> bool" where
  "ledger_ok s \<longleftrightarrow>
     unat (used_bytes (shared s)) \<le> granted s \<and>
     granted s \<le> unat (used_bytes (shared s)) + returned s"

lemma ledger_ok_step:
  assumes "budget_step reqs s s'" and "within_inv reqs lim s" and "ledger_ok s"
    and "\<And>n. reqs n \<Longrightarrow> unat n + unat lim < 2 ^ 64"
  shows "ledger_ok s'"
  using assms
proof (induction rule: budget_step.induct)
  case (reserve_exchanged s t n l cur)
  then have "reqs n" and "cur \<le> lim"
    using within_inv_pc [OF reserve_exchanged.prems(1) reserve_exchanged.hyps(1)] by simp_all
  with reserve_exchanged.prems(3) have "unat cur + unat n < 2 ^ 64"
    by (fastforce simp: word_le_nat_alt)
  then have "unat (cur + n) = unat cur + unat n" by (rule unat_add_no_wrap)
  with reserve_exchanged show ?case by (auto simp: ledger_ok_def)
next
  case (release_exchanged s t n cur)
  then show ?case by (auto simp: ledger_ok_def unat_release_next)
qed (auto simp: ledger_ok_def)

lemma budget_reachable_ledger:
  assumes "budget_reachable reqs lim s" and "\<And>n. reqs n \<Longrightarrow> unat n + unat lim < 2 ^ 64"
  shows "ledger_ok s"
  using assms(1)
proof (induction rule: budget_reachable.induct)
  case budget_start
  show ?case by (simp add: ledger_ok_def budget_init_def)
next
  case (budget_next s s')
  then show ?case using ledger_ok_step assms(2) budget_inv_within budget_reachable_inv by blast
qed

subsection \<open>Limits that change\<close>

text \<open>
  A reload stores a new limit between the atomic actions of the other threads; a reservation
  under way still compares with the limit it loaded. \<open>limits\<close> holds the limits that are
  ever set.
\<close>

inductive reloaded_step :: "(u64 \<Rightarrow> bool) \<Rightarrow> (u64 \<Rightarrow> bool) \<Rightarrow> budget_sys \<Rightarrow> budget_sys \<Rightarrow> bool" for reqs limits where
  operation: "budget_step reqs s s' \<Longrightarrow> reloaded_step reqs limits s s'"
| limit_stored: "limits l \<Longrightarrow> reloaded_step reqs limits s (s\<lparr>shared := set_limit_bytes l (shared s)\<rparr>)"

inductive reloaded_reachable :: "(u64 \<Rightarrow> bool) \<Rightarrow> (u64 \<Rightarrow> bool) \<Rightarrow> budget_sys \<Rightarrow> bool" for reqs limits where
  reloaded_start: "limits l \<Longrightarrow> reloaded_reachable reqs limits (budget_init l)"
| reloaded_next: "reloaded_reachable reqs limits s \<Longrightarrow> reloaded_step reqs limits s s' \<Longrightarrow>
    reloaded_reachable reqs limits s'"

lemma within_inv_step:
  assumes "budget_step reqs s s'" and inv: "within_inv reqs lim s"
  shows "within_inv reqs lim s'"
  using assms(1)
proof cases
  case (reserve_exchanged t n l cur)
  then have "cur + n \<le> l" "l \<le> lim" using within_inv_pc [OF inv reserve_exchanged(2)] by simp_all
  then have "cur + n \<le> lim" by (rule order_trans)
  with reserve_exchanged inv show ?thesis by (simp add: within_inv_def)
next
  case (reserve_retry t n l cur)
  with within_inv_pc [OF inv reserve_retry(2)] inv show ?thesis by (simp add: within_inv_def)
next
  case (release_exchanged t n cur)
  with inv have "cur \<le> lim" by (simp add: within_inv_def)
  with release_next_le [of cur n] have "release_next cur n \<le> lim" by (rule order_trans)
  with release_exchanged inv show ?thesis by (simp add: within_inv_def)
qed (use inv in \<open>simp_all add: within_inv_def\<close>)

text \<open>Through any sequence of reloads the reserved bytes stay within the largest limit that was
  set and the ledger balances; they may exceed a limit that was lowered below them.\<close>

lemma reloaded_budget_within:
  assumes "reloaded_reachable reqs limits s"
    and lim: "\<And>l. limits l \<Longrightarrow> l \<le> lim" and req: "\<And>n. reqs n \<Longrightarrow> unat n + unat lim < 2 ^ 64"
  shows "within_inv reqs lim s \<and> ledger_ok s"
  using assms(1)
proof (induction rule: reloaded_reachable.induct)
  case (reloaded_start l)
  then show ?case using lim by (simp add: within_inv_def ledger_ok_def budget_init_def)
next
  case (reloaded_next s s')
  from reloaded_next.hyps(2) show ?case
  proof cases
    case operation
    then show ?thesis using within_inv_step ledger_ok_step reloaded_next.IH req by blast
  next
    case (limit_stored l)
    then show ?thesis using lim reloaded_next.IH by (simp add: within_inv_def ledger_ok_def set_limit_bytes_def)
  qed
qed

section \<open>Properties\<close>

lemma unat_limit_mb: "unat (1048576 * ucast mb :: u64) = unat (mb :: u32) * 1048576"
proof -
  have "unat mb < 2 ^ 32" using unsigned_less [of mb] by simp
  then show ?thesis by (simp add: unat_word_ariths unsigned_ucast_eq take_bit_nat_eq_self)
qed

text \<open>C11: whatever the interleaving of the threads' atomic steps, the reserved bytes never
  exceed the limit, are at most the bytes granted, and are at least the bytes granted
  less the bytes given back, as long as no request is so large that it could wrap the
  64-bit sum. The limit is fixed here; \<open>reloaded_budget_within\<close> has the case of limits that
  change.\<close>

theorem budget_never_overcommitted:
  assumes "budget_reachable reqs lim s" and "\<forall>n. reqs n \<longrightarrow> unat n + unat lim < 2 ^ 64"
  shows "used_bytes (shared s) \<le> limit_bytes (shared s) \<and> limit_bytes (shared s) = lim \<and>
    unat (used_bytes (shared s)) \<le> granted s \<and>
    granted s \<le> unat (used_bytes (shared s)) + returned s"
  using budget_reachable_inv [OF assms(1)] budget_reachable_ledger [OF assms(1)] assms(2)
  by (auto simp: budget_inv_def ledger_ok_def)

lemma two_reservations_reachable:
  "budget_reachable (\<lambda>n. n = 6) 10
     \<lparr>shared = \<lparr>used_bytes = 6, limit_bytes = 10\<rparr>, pcs = (\<lambda>_. Idle), granted = 6, returned = 0\<rparr>"
proof -
  let ?s0 = "budget_init 10"
  let ?s1 = "?s0\<lparr>pcs := (pcs ?s0)(0 := Reserving 6 (limit_bytes (shared ?s0)) (used_bytes (shared ?s0)))\<rparr>"
  let ?s2 = "?s1\<lparr>shared := (shared ?s1)\<lparr>used_bytes := 0 + 6\<rparr>, pcs := (pcs ?s1)(0 := Idle),
      granted := granted ?s1 + unat (6 :: u64)\<rparr>"
  have "budget_reachable (\<lambda>n. n = 6) 10 ?s1"
    by (rule budget_next [OF budget_start reserve_load]) (simp_all add: budget_init_def)
  then have "budget_reachable (\<lambda>n. n = 6) 10 ?s2"
    by (rule budget_next [OF _ budget_step.reserve_exchanged [where t = 0 and lim = 10]])
       (simp_all add: budget_init_def)
  then show ?thesis by (simp add: budget_init_def fun_upd_idem)
qed

theorem budget_never_overcommitted_witness:
  "\<exists>s. budget_reachable (\<lambda>n. n = 6) 10 s \<and> unat (used_bytes (shared s)) = 6 \<and>
     used_bytes (shared s) \<le> limit_bytes (shared s)"
  using budget_never_overcommitted [OF two_reservations_reachable] two_reservations_reachable
  by (intro exI [of _ "\<lparr>shared = \<lparr>used_bytes = 6, limit_bytes = 10\<rparr>, pcs = (\<lambda>_. Idle),
        granted = 6, returned = 0\<rparr>"]) simp



text \<open>The guard of \<open>try_reserve\<close> adds in 64 bits without an overflow check: a request close
  to 2^64 wraps, is granted, and leaves fewer bytes reserved than before; and a release of
  more than is reserved saturates at zero.\<close>

theorem try_reserve_wraps_release_saturates:
  "try_reserve (- 1) \<lparr>used_bytes = 5, limit_bytes = 10\<rparr> = (True, \<lparr>used_bytes = 4, limit_bytes = 10\<rparr>) \<and>
   release 7 \<lparr>used_bytes = 5, limit_bytes = 10\<rparr> = \<lparr>used_bytes = 0, limit_bytes = 10\<rparr>"
  by (simp add: try_reserve_def release_def release_next_def)

end
