(* ===== verification/Backend_Node.thy ===== *)
theory Backend_Node
  imports LB_Prelude
begin

text \<open>
  \<^verbatim>\<open>core/backend_node.h\<close>, \<^verbatim>\<open>core/backend_node.cpp\<close>: one backend. Nodes are shared
  (\<open>std::shared_ptr\<close>) between the pool, the health checker and the connections, so they live
  in a heap \<open>node_heap\<close> and everything else refers to them by \<open>node_id\<close>.
\<close>

datatype BackendState = HEALTHY | UNHEALTHY | DRAINING

record BackendNode =
  host :: string
  port :: u16
  weight :: u32
  state :: BackendState
  active_connections :: u32
  failure_count :: u32

type_synonym node_id = nat
type_synonym node_heap = "node_id \<Rightarrow> BackendNode"

definition new_backend_node :: "string \<Rightarrow> u16 \<Rightarrow> u32 \<Rightarrow> BackendNode" where
  "new_backend_node h p w =
     \<lparr>host = h, port = p, weight = (if w > 0 then w else 1),
      state = HEALTHY, active_connections = 0, failure_count = 0\<rparr>"

definition set_state :: "BackendState \<Rightarrow> BackendNode \<Rightarrow> BackendNode" where
  "set_state st n = n\<lparr>state := st\<rparr>"

definition increment_connections :: "BackendNode \<Rightarrow> BackendNode" where
  "increment_connections n = n\<lparr>active_connections := active_connections n + 1\<rparr>"

definition decrement_connections :: "BackendNode \<Rightarrow> BackendNode" where
  "decrement_connections n =
     (if active_connections n > 0 then n\<lparr>active_connections := active_connections n - 1\<rparr> else n)"

definition increment_failures :: "BackendNode \<Rightarrow> BackendNode" where
  "increment_failures n = n\<lparr>failure_count := failure_count n + 1\<rparr>"

definition reset_failures :: "BackendNode \<Rightarrow> BackendNode" where
  "reset_failures n = n\<lparr>failure_count := 0\<rparr>"

text \<open>Updating one node of the heap, and the textual key \<open>host:port\<close> of the metrics.\<close>

definition upd_node :: "node_id \<Rightarrow> (BackendNode \<Rightarrow> BackendNode) \<Rightarrow> node_heap \<Rightarrow> node_heap" where
  "upd_node i f h = h(i := f (h i))"

definition backend_key :: "string \<Rightarrow> u16 \<Rightarrow> string" where
  "backend_key h p = h @ '':'' @ nat_to_string (unat p)"

definition node_ok :: "BackendNode \<Rightarrow> bool" where
  "node_ok n \<longleftrightarrow> 0 < weight n"

subsection \<open>Invariant and counters\<close>

lemma new_backend_node_ok [lb_invs]: "node_ok (new_backend_node h p w)"
  by (simp add: node_ok_def new_backend_node_def)

lemma node_ok_updates [lb_invs, simp]:
  "node_ok (set_state st n) = node_ok n"
  "node_ok (increment_connections n) = node_ok n"
  "node_ok (decrement_connections n) = node_ok n"
  "node_ok (increment_failures n) = node_ok n"
  "node_ok (reset_failures n) = node_ok n"
  by (simp_all add: node_ok_def set_state_def increment_connections_def
      decrement_connections_def increment_failures_def reset_failures_def)

lemma unat_pred: "0 < n \<Longrightarrow> unat (n - 1 :: u32) = unat n - 1"
  by (simp add: unat_minus_one word_neq_0_conv)

lemma unat_decrement_connections [simp]:
  "unat (active_connections (decrement_connections n)) = unat (active_connections n) - 1"
  by (cases "active_connections n = 0") (auto simp: decrement_connections_def unat_pred word_neq_0_conv)

lemma unat_increment_connections:
  assumes "unat (active_connections n) + 1 < 2 ^ 32"
  shows "unat (active_connections (increment_connections n)) = unat (active_connections n) + 1"
  using assms by (simp add: increment_connections_def unat_word_ariths)

lemma decrement_increment:
  "unat (active_connections n) + 1 < 2 ^ 32 \<Longrightarrow>
   decrement_connections (increment_connections n) = n"
proof -
  assume "unat (active_connections n) + 1 < 2 ^ 32"
  then have "unat (active_connections (increment_connections n)) \<noteq> 0"
    by (simp add: unat_increment_connections)
  then have "active_connections n + 1 > 0"
    by (simp add: increment_connections_def word_less_nat_alt)
  then show ?thesis by (simp add: decrement_connections_def increment_connections_def)
qed

lemma upd_node_same [simp]: "upd_node i f h i = f (h i)"
  by (simp add: upd_node_def)

lemma upd_node_other [simp]: "j \<noteq> i \<Longrightarrow> upd_node i f h j = h j"
  by (simp add: upd_node_def)

end
