(* ===== verification/Double_Quotient.thy ===== *)
theory Double_Quotient
  imports LB_Prelude
begin

text \<open>
  The IEEE double quotient \<open>static_cast<double>(a) / w\<close> of two 32-bit unsigned numbers, as
  the least-connections comparison of \<^verbatim>\<open>core/backend_pool.cpp\<close> uses it. Both operands are
  exact doubles and the quotient lies between \<open>2^-32\<close> and \<open>2^32\<close> or is zero, so it is
  rounded to 53 significant bits, to nearest, ties to even, and never leaves the normal
  range. Every such double is a multiple of \<open>2^-84\<close>; \<open>double_quotient a w\<close> is that
  multiple, a natural number, so comparing two quotients is comparing two naturals.
\<close>

fun flog2 :: "nat \<Rightarrow> nat" where
  "flog2 n = (if n < 2 then 0 else Suc (flog2 (n div 2)))"

declare flog2.simps [simp del]

definition round_half_even :: "nat \<Rightarrow> nat \<Rightarrow> nat" where
  "round_half_even n d =
     (let q = n div d; r = n mod d in
      if 2 * r < d then q
      else if d < 2 * r then q + 1
      else if even q then q else q + 1)"

definition quotient_exp :: "nat \<Rightarrow> nat \<Rightarrow> nat" where
  "quotient_exp a w = flog2 (a * 2 ^ 32 div w)"

definition double_quotient :: "nat \<Rightarrow> nat \<Rightarrow> nat" where
  "double_quotient a w =
     (if a = 0 then 0
      else round_half_even (a * 2 ^ (84 - quotient_exp a w)) w * 2 ^ quotient_exp a w)"

subsection \<open>The exponent\<close>

lemma flog2_bounds: "0 < n \<Longrightarrow> 2 ^ flog2 n \<le> n \<and> n < 2 ^ Suc (flog2 n)"
proof (induction n rule: flog2.induct)
  case (1 n)
  show ?case
  proof (cases "n < 2")
    case True
    with 1(2) show ?thesis by (simp add: flog2.simps [of n])
  next
    case False
    with 1 have "2 ^ flog2 (n div 2) \<le> n div 2 \<and> n div 2 < 2 ^ Suc (flog2 (n div 2))"
      by simp
    with False show ?thesis by (auto simp: flog2.simps [of n])
  qed
qed

lemma flog2_mono:
  assumes "0 < m" and "m \<le> n"
  shows "flog2 m \<le> flog2 n"
proof -
  from assms flog2_bounds [of m] flog2_bounds [of n]
  have "(2::nat) ^ flog2 m < 2 ^ Suc (flog2 n)" by simp
  then have "flog2 m < Suc (flog2 n)" by (rule power_less_imp_less_exp [rotated]) simp
  then show ?thesis by simp
qed

lemma quotient_scaled_pos:
  fixes a w :: nat
  assumes "0 < a" "w \<le> 2 ^ 32" "0 < w"
  shows "0 < a * 2 ^ 32 div w"
proof -
  have "w \<le> a * 2 ^ 32" using assms(1,2) by (cases a) simp_all
  with assms(3) show ?thesis by (simp add: div_greater_zero_iff)
qed

lemma quotient_exp_lower:
  assumes "0 < a" "0 < w" "w \<le> 2 ^ 32"
  shows "w * 2 ^ quotient_exp a w \<le> a * 2 ^ 32"
proof -
  have "2 ^ quotient_exp a w \<le> a * 2 ^ 32 div w"
    using flog2_bounds [OF quotient_scaled_pos] assms by (simp add: quotient_exp_def)
  then have "w * 2 ^ quotient_exp a w \<le> w * (a * 2 ^ 32 div w)" by simp
  also have "\<dots> \<le> a * 2 ^ 32" by simp
  finally show ?thesis .
qed

lemma quotient_exp_upper:
  assumes "0 < a" "0 < w" "w \<le> 2 ^ 32"
  shows "a * 2 ^ 32 < w * 2 ^ Suc (quotient_exp a w)"
proof -
  have "a * 2 ^ 32 div w < 2 ^ Suc (quotient_exp a w)"
    using flog2_bounds [OF quotient_scaled_pos] assms by (simp add: quotient_exp_def)
  with assms(2) show ?thesis
    by (metis div_less_iff_less_mult mult.commute)
qed

lemma quotient_exp_bound:
  assumes "0 < a" "a < 2 ^ 32" "0 < w" "w \<le> 2 ^ 32"
  shows "quotient_exp a w < 64"
proof -
  have "2 ^ quotient_exp a w \<le> a * 2 ^ 32 div w"
    using flog2_bounds [OF quotient_scaled_pos] assms by (simp add: quotient_exp_def)
  also have "\<dots> \<le> a * 2 ^ 32" by simp
  also have "\<dots> < 2 ^ 64" using assms(2) by simp
  finally show ?thesis by (rule power_less_imp_less_exp [rotated]) simp
qed

lemma quotient_exp_mono:
  assumes "0 < a" "0 < w" "w \<le> 2 ^ 32" "0 < w'" "a * w' \<le> b * w"
  shows "quotient_exp a w \<le> quotient_exp b w'"
proof -
  have "a * 2 ^ 32 div w \<le> b * 2 ^ 32 div w'"
  proof -
    have "(a * 2 ^ 32 div w) * w \<le> a * 2 ^ 32" by simp
    then have "(a * 2 ^ 32 div w) * w * w' \<le> a * 2 ^ 32 * w'" by (rule mult_le_mono1)
    also have "\<dots> = (a * w') * 2 ^ 32" by simp
    also have "\<dots> \<le> (b * w) * 2 ^ 32" using assms(5) by (rule mult_le_mono1)
    finally have "((a * 2 ^ 32 div w) * w') * w \<le> (b * 2 ^ 32) * w" by (simp add: ac_simps)
    with assms(2) have "(a * 2 ^ 32 div w) * w' \<le> b * 2 ^ 32" by (simp only: mult_le_cancel2)
    with assms(4) show ?thesis by (simp only: less_eq_div_iff_mult_less_eq)
  qed
  with quotient_scaled_pos [OF assms(1,3,2)] show ?thesis
    by (simp only: quotient_exp_def flog2_mono)
qed

subsection \<open>Rounding\<close>

lemma round_half_even_cases:
  "round_half_even n d = n div d \<or> round_half_even n d = n div d + 1"
  by (simp add: round_half_even_def Let_def)

lemma round_half_even_mono:
  assumes "0 < d" "0 < d'" "n * d' \<le> n' * d"
  shows "round_half_even n d \<le> round_half_even n' d'"
proof -
  let ?q = "n div d" and ?q' = "n' div d'"
  have "?q * d * d' \<le> n * d'" by simp
  with assms(3) have "(?q * d') * d \<le> n' * d" by (metis le_trans mult.commute mult.left_commute)
  with assms(1) have "?q * d' \<le> n'" by (simp only: mult_le_cancel2)
  with assms(2) have qq: "?q \<le> ?q'" by (simp only: less_eq_div_iff_mult_less_eq)
  show ?thesis
  proof (cases "?q < ?q'")
    case True
    with round_half_even_cases [of n d] round_half_even_cases [of n' d'] show ?thesis by linarith
  next
    case False
    with qq have eq: "?q' = ?q" by simp
    let ?r = "n mod d" and ?r' = "n' mod d'"
    have "n = ?q * d + ?r" "n' = ?q * d' + ?r'"
      using eq by (metis div_mult_mod_eq)+
    with assms(3) have "(?q * d + ?r) * d' \<le> (?q * d' + ?r') * d" by metis
    then have "?q * d * d' + ?r * d' \<le> ?q * d * d' + ?r' * d"
      by (simp only: add_mult_distrib add_mult_distrib2 mult.commute mult.left_commute)
    then have rr: "?r * d' \<le> ?r' * d" by simp
    have strict: "d < 2 * ?r \<Longrightarrow> d' < 2 * ?r'"
    proof -
      assume "d < 2 * ?r"
      then have "d * d' < 2 * ?r * d'" using assms(2) by simp
      also have "\<dots> \<le> 2 * ?r' * d" using rr by simp
      finally show "d' < 2 * ?r'" using assms(1) by (simp add: mult.commute)
    qed
    have weak: "d \<le> 2 * ?r \<Longrightarrow> d' \<le> 2 * ?r'"
    proof -
      assume "d \<le> 2 * ?r"
      then have "d * d' \<le> 2 * ?r * d'" by simp
      also have "\<dots> \<le> 2 * ?r' * d" using rr by simp
      finally show "d' \<le> 2 * ?r'" using assms(1) by (simp add: mult.commute)
    qed
    from strict weak eq show ?thesis
      by (auto simp: round_half_even_def Let_def not_less)
  qed
qed

lemma round_half_even_error:
  assumes "0 < d"
  shows "2 * n \<le> 2 * round_half_even n d * d + d" and "2 * round_half_even n d * d \<le> 2 * n + d"
proof -
  define q r where "q = n div d" and "r = n mod d"
  then have n: "n = q * d + r" and r: "r < d"
    using assms by simp_all
  have R: "round_half_even n d = (if 2 * r < d \<or> 2 * r = d \<and> even q then q else q + 1)"
    by (auto simp: round_half_even_def Let_def q_def r_def)
  show "2 * n \<le> 2 * round_half_even n d * d + d" and "2 * round_half_even n d * d \<le> 2 * n + d"
    using r unfolding R by (auto simp: n add_mult_distrib)
qed

subsection \<open>Rounding keeps the order, and small operands are compared exactly\<close>

lemma double_quotient_scaled:
  assumes "0 < a" "a < 2 ^ 32" "0 < w" "w \<le> 2 ^ 32"
  shows "2 * (a * 2 ^ 84) \<le> 2 * double_quotient a w * w + w * 2 ^ quotient_exp a w"
    and "2 * double_quotient a w * w \<le> 2 * (a * 2 ^ 84) + w * 2 ^ quotient_exp a w"
proof -
  let ?e = "quotient_exp a w" and ?n = "a * 2 ^ (84 - quotient_exp a w)"
  have e: "(2::nat) ^ (84 - ?e) * 2 ^ ?e = 2 ^ 84"
    using quotient_exp_bound [OF assms] by (simp only: power_add [symmetric]) simp
  note err = round_half_even_error [OF assms(3), of ?n]
  have dq: "double_quotient a w = round_half_even ?n w * 2 ^ ?e"
    using assms(1) by (simp add: double_quotient_def)
  have n84: "?n * 2 ^ ?e = a * 2 ^ 84" by (simp only: mult.assoc e)
  from err(1) have "2 * ?n * 2 ^ ?e \<le> (2 * round_half_even ?n w * w + w) * 2 ^ ?e"
    by (rule mult_le_mono1)
  then show "2 * (a * 2 ^ 84) \<le> 2 * double_quotient a w * w + w * 2 ^ ?e"
    unfolding dq n84 [symmetric] by (simp only: add_mult_distrib add_mult_distrib2 ac_simps)
  from err(2) have "2 * round_half_even ?n w * w * 2 ^ ?e \<le> (2 * ?n + w) * 2 ^ ?e"
    by (rule mult_le_mono1)
  then show "2 * double_quotient a w * w \<le> 2 * (a * 2 ^ 84) + w * 2 ^ ?e"
    unfolding dq n84 [symmetric] by (simp only: add_mult_distrib add_mult_distrib2 ac_simps)
qed

lemma double_quotient_range:
  assumes "0 < a" "a < 2 ^ 32" "0 < w" "w \<le> 2 ^ 32"
  shows "2 ^ (quotient_exp a w + 52) \<le> double_quotient a w"
    and "double_quotient a w \<le> 2 ^ (quotient_exp a w + 53)"
proof -
  let ?e = "quotient_exp a w" and ?n = "a * 2 ^ (84 - quotient_exp a w)"
  have dq: "double_quotient a w = round_half_even ?n w * 2 ^ ?e"
    using assms(1) by (simp add: double_quotient_def)
  have sp: "(2::nat) ^ (84 - ?e) = 2 ^ (64 - ?e) * 2 ^ 20"
    using quotient_exp_bound [OF assms] by (simp only: power_add [symmetric]) simp
  have e: "(2::nat) ^ (84 - ?e) * 2 ^ ?e = 2 ^ 52 * 2 ^ 32"
    using quotient_exp_bound [OF assms] by (simp only: power_add [symmetric]) simp
  have one: "round_half_even (k * 1) 1 = k" for k
    by (simp add: round_half_even_def)
  have "2 ^ 52 * w * 2 ^ ?e \<le> ?n * 2 ^ ?e"
    using quotient_exp_lower [OF assms(1,3,4)] unfolding mult.assoc e by simp
  then have "2 ^ 52 * w \<le> ?n * 1" by simp
  from round_half_even_mono [of 1 w "2 ^ 52 * 1" ?n] this assms(3)
  have "2 ^ 52 \<le> round_half_even ?n w" unfolding one by simp
  then show "2 ^ (?e + 52) \<le> double_quotient a w"
    unfolding dq by (simp add: power_add)
  have "?n * 2 ^ ?e \<le> 2 ^ 53 * w * 2 ^ ?e"
    using quotient_exp_upper [OF assms(1,3,4)] unfolding mult.assoc e by simp
  then have "?n * 1 \<le> 2 ^ 53 * w" by simp
  from round_half_even_mono [of w 1 ?n "2 ^ 53 * 1"] this assms(3)
  have "round_half_even ?n w \<le> 2 ^ 53" unfolding one by simp
  then show "double_quotient a w \<le> 2 ^ (?e + 53)"
    unfolding dq by (simp add: power_add)
qed

lemma double_quotient_mono:
  assumes "a < 2 ^ 32" "b < 2 ^ 32" "0 < w" "w \<le> 2 ^ 32" "0 < w'" "w' \<le> 2 ^ 32"
    and "a * w' \<le> b * w"
  shows "double_quotient a w \<le> double_quotient b w'"
proof (cases "a = 0")
  case True
  then show ?thesis by (simp add: double_quotient_def)
next
  case False
  with assms have pos: "0 < a" "0 < b" by (auto intro: gr0I)
  let ?e = "quotient_exp a w" and ?e' = "quotient_exp b w'"
  have le: "?e \<le> ?e'" using quotient_exp_mono [OF pos(1) assms(3,4,5,7)] .
  show ?thesis
  proof (cases "?e = ?e'")
    case True
    have "a * 2 ^ (84 - ?e) * w' \<le> b * 2 ^ (84 - ?e) * w"
      using mult_le_mono1 [OF assms(7), of "2 ^ (84 - ?e)"] by (simp only: ac_simps)
    from round_half_even_mono [OF assms(3,5) this] show ?thesis
      using True pos by (simp add: double_quotient_def)
  next
    case False
    with le have "?e + 53 \<le> ?e' + 52" by simp
    then have "(2::nat) ^ (?e + 53) \<le> 2 ^ (?e' + 52)" by (rule power_increasing) simp
    with double_quotient_range(2) [OF pos(1) assms(1,3,4)]
         double_quotient_range(1) [OF pos(2) assms(2,5,6)]
    show ?thesis by linarith
  qed
qed

lemma double_quotient_strict:
  assumes big: "a < 2 ^ 32" "b < 2 ^ 32" "w \<le> 2 ^ 32" "w' \<le> 2 ^ 32" and pos: "0 < w" "0 < w'"
    and small: "w * b < 2 ^ 52" and less: "a * w' < b * w"
  shows "double_quotient a w < double_quotient b w'"
proof (rule ccontr)
  assume "\<not> ?thesis"
  then have ge: "double_quotient b w' \<le> double_quotient a w" by simp
  from less have b: "0 < b" by (cases b) auto
  let ?A = "double_quotient a w" and ?B = "double_quotient b w'" and ?e' = "quotient_exp b w'"
  have "0 < ?B" using double_quotient_range(1) [OF b big(2) pos(2) big(4)] by (auto intro: gr0I)
  with ge have a: "0 < a" by (cases a) (auto simp: double_quotient_def)
  have ee: "quotient_exp a w \<le> ?e'"
    using quotient_exp_mono [OF a pos(1) big(3) pos(2)] less by simp
  have A: "2 * ?A * w \<le> 2 * (a * 2 ^ 84) + w * 2 ^ ?e'"
    using double_quotient_scaled(2) [OF a big(1) pos(1) big(3)]
      power_increasing [OF ee, of "2::nat"]
    by (meson add_left_mono le_trans mult_le_mono2 one_le_numeral)
  have B: "2 * (b * 2 ^ 84) \<le> 2 * ?B * w' + w' * 2 ^ ?e'"
    by (rule double_quotient_scaled(1) [OF b big(2) pos(2) big(4)])
  have up: "w * (w' * 2 ^ ?e') < 2 ^ 84"
  proof -
    have "w * (w' * 2 ^ ?e') \<le> w * (b * 2 ^ 32)"
      using quotient_exp_lower [OF b pos(2) big(4)] by (rule mult_le_mono2)
    also have "\<dots> = (w * b) * 2 ^ 32" by simp
    also have "\<dots> < 2 ^ 52 * 2 ^ 32" using small by (simp add: mult.commute)
    finally show ?thesis by simp
  qed
  have "2 * (b * w) * 2 ^ 84 = 2 * (b * 2 ^ 84) * w" by simp
  also have "\<dots> \<le> (2 * ?B * w' + w' * 2 ^ ?e') * w" using B by (rule mult_le_mono1)
  also have "\<dots> = 2 * ?B * w * w' + w * (w' * 2 ^ ?e')" by (simp only: add_mult_distrib add_mult_distrib2 ac_simps)
  also have "\<dots> \<le> 2 * ?A * w * w' + w * (w' * 2 ^ ?e')" using ge by simp
  also have "\<dots> \<le> (2 * (a * 2 ^ 84) + w * 2 ^ ?e') * w' + w * (w' * 2 ^ ?e')"
    using A by simp
  also have "\<dots> = 2 * (a * w') * 2 ^ 84 + 2 * (w * (w' * 2 ^ ?e'))"
    by (simp only: add_mult_distrib add_mult_distrib2 ac_simps)
  also have "\<dots> < 2 * (a * w' + 1) * 2 ^ 84" using up by simp
  also have "\<dots> \<le> 2 * (b * w) * 2 ^ 84" using less by simp
  finally show False by simp
qed

lemma double_quotient_exact:
  assumes "a < 2 ^ 26" "b < 2 ^ 26" "0 < w" "w < 2 ^ 26" "0 < w'" "w' < 2 ^ 26" and "a * w' < b * w"
  shows "double_quotient a w < double_quotient b w'"
proof (rule double_quotient_strict)
  have "w * b < 2 ^ 26 * 2 ^ 26" using assms(2,4) by (intro mult_strict_mono) simp_all
  then show "w * b < 2 ^ 52" by simp
qed (use assms in simp_all)

text \<open>An integral quotient is exact, so truncating a quotient gives the integer division.\<close>

lemma double_quotient_one: "a < 2 ^ 32 \<Longrightarrow> double_quotient a 1 = a * 2 ^ 84"
proof (cases "a = 0")
  case False
  assume "a < 2 ^ 32"
  then have "quotient_exp a 1 < 64" using quotient_exp_bound [of a 1] False by simp
  then have "(2::nat) ^ (84 - quotient_exp a 1) * 2 ^ quotient_exp a 1 = 2 ^ 84" by (simp only: power_add [symmetric]) simp
  then show ?thesis using False by (simp add: double_quotient_def round_half_even_def)
qed (simp add: double_quotient_def)

lemma double_quotient_floor:
  assumes "a < 2 ^ 32" "0 < w" "w \<le> 2 ^ 32" "w * (a div w + 1) < 2 ^ 52" "a div w + 1 < 2 ^ 32"
  shows "double_quotient a w div 2 ^ 84 = a div w"
proof -
  let ?q = "a div w"
  have "double_quotient ?q 1 \<le> double_quotient a w" by (rule double_quotient_mono) (use assms in simp_all)
  then have "?q * 2 ^ 84 \<le> double_quotient a w"
    using double_quotient_one [of ?q] assms(5) by (simp only: less_imp_le_nat add_lessD1)
  moreover have "a < (?q + 1) * w" using assms(2) by (simp add: dividend_less_div_times)
  then have "double_quotient a w < double_quotient (?q + 1) 1"
    by (intro double_quotient_strict) (use assms in simp_all)
  then have "double_quotient a w < (?q + 1) * 2 ^ 84" using assms(5) by (simp only: double_quotient_one)
  ultimately show ?thesis by (intro div_nat_eqI) (simp_all add: mult.commute)
qed

end
