(* ===== verification/Backend_Pool.thy ===== *)
theory Backend_Pool
  imports Backend_Node Double_Quotient "HOL-Library.Multiset"
begin

text \<open>
  \<^verbatim>\<open>core/backend_pool.h\<close>, \<^verbatim>\<open>core/backend_pool.cpp\<close>: the pool and its routing. The pool holds
  node ids; \<open>select_backend\<close> reads the nodes from the heap and updates the pool's counter.
\<close>

datatype RoutingAlgorithm = ROUND_ROBIN | LEAST_CONNECTIONS

record BackendPool =
  backends :: "node_id list"
  algorithm :: RoutingAlgorithm
  round_robin_index :: u32
  weighted_counter :: u32

definition new_pool :: "RoutingAlgorithm \<Rightarrow> BackendPool" where
  "new_pool alg = \<lparr>backends = [], algorithm = alg, round_robin_index = 0, weighted_counter = 0\<rparr>"

definition pool_add_backend :: "node_id \<Rightarrow> BackendPool \<Rightarrow> BackendPool" where
  "pool_add_backend b p = p\<lparr>backends := backends p @ [b]\<rparr>"

definition pool_remove_backend :: "node_heap \<Rightarrow> string \<Rightarrow> u16 \<Rightarrow> BackendPool \<Rightarrow> BackendPool" where
  "pool_remove_backend h hst prt p =
     p\<lparr>backends := filter (\<lambda>i. \<not> (host (h i) = hst \<and> port (h i) = prt)) (backends p)\<rparr>"

definition set_algorithm :: "RoutingAlgorithm \<Rightarrow> BackendPool \<Rightarrow> BackendPool" where
  "set_algorithm alg p = p\<lparr>algorithm := alg\<rparr>"

definition find_backend :: "node_heap \<Rightarrow> string \<Rightarrow> u16 \<Rightarrow> BackendPool \<Rightarrow> node_id option" where
  "find_backend h hst prt p = find (\<lambda>i. host (h i) = hst \<and> port (h i) = prt) (backends p)"

definition below_cap :: "u32 \<Rightarrow> BackendNode \<Rightarrow> bool" where
  "below_cap max_conns n \<longleftrightarrow> max_conns = 0 \<or> active_connections n < max_conns"

definition eligible :: "u32 \<Rightarrow> BackendNode \<Rightarrow> bool" where
  "eligible max_conns n \<longleftrightarrow> state n = HEALTHY \<and> below_cap max_conns n"

fun rr_walk :: "node_heap \<Rightarrow> u32 \<Rightarrow> u32 \<Rightarrow> node_id list \<Rightarrow> node_id option" where
  "rr_walk h target cumulative [] = None"
| "rr_walk h target cumulative (b # bs) =
     (let cumulative' = cumulative + weight (h b) in
      if target < cumulative' then Some b else rr_walk h target cumulative' bs)"

definition select_weighted_round_robin ::
    "node_heap \<Rightarrow> node_id list \<Rightarrow> BackendPool \<Rightarrow> node_id \<times> BackendPool" where
  "select_weighted_round_robin h healthy p =
     (let total_weight = sum_list (map (\<lambda>b. weight (h b)) healthy) in
      if total_weight = 0 then (healthy ! 0, p)
      else
        let target = weighted_counter p mod total_weight;
            p' = p\<lparr>weighted_counter := weighted_counter p + 1\<rparr>
        in (case rr_walk h target 0 healthy of
              Some b \<Rightarrow> (b, p')
            | None \<Rightarrow> (healthy ! 0, p')))"

definition load :: "node_heap \<Rightarrow> node_id \<Rightarrow> nat" where
  "load h b = double_quotient (unat (active_connections (h b))) (unat (weight (h b)))"

fun min_element :: "('a \<Rightarrow> nat) \<Rightarrow> 'a \<Rightarrow> 'a list \<Rightarrow> 'a" where
  "min_element f best [] = best"
| "min_element f best (x # xs) = (if f x < f best then min_element f x xs else min_element f best xs)"

definition sticky_choice ::
    "node_heap \<Rightarrow> u32 \<Rightarrow> string \<Rightarrow> u16 \<Rightarrow> BackendPool \<Rightarrow> node_id option" where
  "sticky_choice h max_conns sticky_host sticky_port p =
     (if sticky_host \<noteq> [] \<and> sticky_port > 0 then
        (case find_backend h sticky_host sticky_port p of
           None \<Rightarrow> None
         | Some b \<Rightarrow> if state (h b) = HEALTHY \<and> below_cap max_conns (h b) then Some b else None)
      else None)"

definition select_backend ::
    "node_heap \<Rightarrow> u32 \<Rightarrow> string \<Rightarrow> u16 \<Rightarrow> BackendPool \<Rightarrow> node_id option \<times> BackendPool" where
  "select_backend h max_conns sticky_host sticky_port p =
     (if backends p = [] then (None, p)
      else case sticky_choice h max_conns sticky_host sticky_port p of
        Some b \<Rightarrow> (Some b, p)
      | None \<Rightarrow>
          (let healthy = filter (\<lambda>b. eligible max_conns (h b)) (backends p) in
           case healthy of
             [] \<Rightarrow> (None, p)
           | b0 # bs \<Rightarrow>
               (case algorithm p of
                  ROUND_ROBIN \<Rightarrow>
                    (let (b, p') = select_weighted_round_robin h healthy p in (Some b, p'))
                | LEAST_CONNECTIONS \<Rightarrow> (Some (min_element (load h) b0 bs), p))))"

text \<open>The reference: every backend repeated as often as its weight says.\<close>

definition expand_weights :: "node_heap \<Rightarrow> node_id list \<Rightarrow> node_id list" where
  "expand_weights h bs = concat (map (\<lambda>b. replicate (unat (weight (h b))) b) bs)"

text \<open>Repeated selection while the nodes do not change.\<close>

fun select_run ::
    "nat \<Rightarrow> node_heap \<Rightarrow> u32 \<Rightarrow> BackendPool \<Rightarrow> node_id option list" where
  "select_run 0 h m p = []"
| "select_run (Suc k) h m p =
     (let (r, p') = select_backend h m [] 0 p in r # select_run k h m p')"

subsection \<open>Total weight and the walk\<close>

abbreviation healthy_backends :: "node_heap \<Rightarrow> u32 \<Rightarrow> BackendPool \<Rightarrow> node_id list" where
  "healthy_backends h m p \<equiv> filter (\<lambda>b. eligible m (h b)) (backends p)"

definition total_weight_nat :: "node_heap \<Rightarrow> node_id list \<Rightarrow> nat" where
  "total_weight_nat h bs = sum_list (map (\<lambda>b. unat (weight (h b))) bs)"

lemma length_expand_weights: "length (expand_weights h bs) = total_weight_nat h bs"
  by (induction bs) (simp_all add: expand_weights_def total_weight_nat_def)

lemma unat_total_weight:
  assumes "total_weight_nat h bs < 2 ^ 32"
  shows "unat (sum_list (map (\<lambda>b. weight (h b)) bs)) = total_weight_nat h bs"
  using assms
proof (induction bs)
  case (Cons b bs)
  then show ?case by (simp add: total_weight_nat_def unat_word_ariths)
qed (simp add: total_weight_nat_def)

lemma rr_walk_expand:
  assumes "unat c + total_weight_nat h bs < 2 ^ 32" and "c \<le> t"
  shows "rr_walk h t c bs =
           (if unat t - unat c < total_weight_nat h bs
            then Some (expand_weights h bs ! (unat t - unat c)) else None)"
  using assms
proof (induction bs arbitrary: c)
  case Nil
  then show ?case by (simp add: total_weight_nat_def)
next
  case (Cons b bs)
  let ?w = "weight (h b)"
  from Cons.prems(1) have sum: "unat (c + ?w) = unat c + unat ?w"
    by (simp add: total_weight_nat_def unat_word_ariths)
  have ct: "unat c \<le> unat t" using Cons.prems(2) by (simp add: word_le_nat_alt)
  show ?case
  proof (cases "t < c + ?w")
    case True
    with sum ct have "unat t - unat c < unat ?w" by (simp add: word_less_nat_alt)
    with True show ?thesis
      by (simp add: total_weight_nat_def expand_weights_def nth_append)
  next
    case False
    with sum have "unat c + unat ?w \<le> unat t" by (simp add: word_less_nat_alt)
    moreover from False have "c + ?w \<le> t" by simp
    moreover from Cons.prems(1) sum have "unat (c + ?w) + total_weight_nat h bs < 2 ^ 32"
      by (simp add: total_weight_nat_def)
    ultimately show ?thesis
      using Cons.IH [of "c + ?w"] False sum ct
      by (auto simp: total_weight_nat_def expand_weights_def nth_append)
  qed
qed

lemma total_weight_pos:
  assumes "b \<in> set bs" and "node_ok (h b)"
  shows "0 < total_weight_nat h bs"
proof -
  from assms(2) have "0 < unat (weight (h b))" by (simp add: node_ok_def unat_gt_0)
  also have "\<dots> \<le> total_weight_nat h bs"
    unfolding total_weight_nat_def using assms(1) by (intro member_le_sum_list) auto
  finally show ?thesis .
qed

text \<open>
  The weighted round robin equals indexing the reference list, as long as the weights add
  up below \<open>2^32\<close>: the walk never falls through to the first backend.
\<close>

lemma select_weighted_round_robin_eq:
  assumes "bs \<noteq> []" and "\<forall>b \<in> set bs. node_ok (h b)" and "total_weight_nat h bs < 2 ^ 32"
  shows "select_weighted_round_robin h bs p =
     (expand_weights h bs ! (unat (weighted_counter p) mod total_weight_nat h bs),
      p\<lparr>weighted_counter := weighted_counter p + 1\<rparr>)"
proof -
  let ?W = "sum_list (map (\<lambda>b. weight (h b)) bs)"
  have pos: "0 < total_weight_nat h bs"
    using assms(1,2) by (intro total_weight_pos [of "hd bs"]) auto
  have W: "unat ?W = total_weight_nat h bs" by (rule unat_total_weight [OF assms(3)])
  then have "?W \<noteq> 0" using pos by auto
  moreover have "unat (weighted_counter p mod ?W) = unat (weighted_counter p) mod total_weight_nat h bs"
    by (simp add: unat_mod W)
  moreover have "rr_walk h (weighted_counter p mod ?W) 0 bs =
      Some (expand_weights h bs ! (unat (weighted_counter p) mod total_weight_nat h bs))"
    using rr_walk_expand [of 0 h bs "weighted_counter p mod ?W"] assms(3) pos
    by (simp add: unat_mod W)
  ultimately show ?thesis by (simp add: select_weighted_round_robin_def Let_def)
qed

lemma set_expand_weights: "set (expand_weights h bs) \<subseteq> set bs"
  by (auto simp: expand_weights_def)

lemma rr_walk_member: "rr_walk h t c bs = Some b \<Longrightarrow> b \<in> set bs"
  by (induction bs arbitrary: c) (auto simp: Let_def split: if_splits)

lemma select_weighted_round_robin_member:
  assumes "bs \<noteq> []"
  shows "fst (select_weighted_round_robin h bs p) \<in> set bs"
  using assms by (auto simp: select_weighted_round_robin_def Let_def dest: rr_walk_member
      split: option.splits)

lemma select_weighted_round_robin_frame [lb_frames]:
  "backends (snd (select_weighted_round_robin h bs p)) = backends p"
  "algorithm (snd (select_weighted_round_robin h bs p)) = algorithm p"
  by (auto simp: select_weighted_round_robin_def Let_def split: option.splits)

subsection \<open>The least loaded element\<close>

lemma min_element_member: "min_element f x xs \<in> set (x # xs)"
  by (induction xs arbitrary: x) auto

lemma min_element_le: "y \<in> set (x # xs) \<Longrightarrow> f (min_element f x xs) \<le> f y"
proof (induction xs arbitrary: x y)
  case (Cons z zs)
  let ?best = "if f z < f x then z else x"
  have step: "min_element f x (z # zs) = min_element f ?best zs" by simp
  have best: "f (min_element f ?best zs) \<le> f ?best" by (rule Cons.IH) simp
  from Cons.prems consider "y = x" | "y = z" | "y \<in> set zs" by auto
  then show ?case
  proof cases
    case 3
    then show ?thesis unfolding step by (intro Cons.IH) simp
  qed (use best in \<open>auto simp: step split: if_splits\<close>)
qed simp

subsection \<open>What select_backend returns\<close>

lemma sticky_choice_eligible:
  "sticky_choice h m sh sp p = Some b \<Longrightarrow> b \<in> set (backends p) \<and> eligible m (h b)"
  by (auto simp: sticky_choice_def eligible_def find_backend_def find_Some_iff
      split: if_splits option.splits)

lemma select_backend_eligible:
  assumes "select_backend h m sh sp p = (Some b, p')"
  shows "b \<in> set (healthy_backends h m p)"
proof (cases "sticky_choice h m sh sp p")
  case (Some b')
  with assms have "b = b'" by (auto simp: select_backend_def split: if_splits)
  with sticky_choice_eligible [OF Some] show ?thesis by simp
next
  case None
  obtain b0 bs where hb: "healthy_backends h m p = b0 # bs"
    using assms None
    by (cases "healthy_backends h m p") (auto simp: select_backend_def Let_def split: if_splits)
  have "b \<in> set (b0 # bs)"
  proof (cases "algorithm p")
    case ROUND_ROBIN
    with assms None hb have "b = fst (select_weighted_round_robin h (b0 # bs) p)"
      by (auto simp: select_backend_def Let_def split: if_splits prod.splits)
    then show ?thesis using select_weighted_round_robin_member [of "b0 # bs" h p] by simp
  next
    case LEAST_CONNECTIONS
    with assms None hb have "b = min_element (load h) b0 bs"
      by (auto simp: select_backend_def Let_def split: if_splits)
    then show ?thesis using min_element_member [of "load h" b0 bs] by simp
  qed
  with hb show ?thesis by simp
qed

lemma select_backend_None_iff:
  "fst (select_backend h m sh sp p) = None \<longleftrightarrow> healthy_backends h m p = []"
proof (cases "sticky_choice h m sh sp p")
  case (Some b)
  with sticky_choice_eligible [OF Some] show ?thesis
    by (auto simp: select_backend_def filter_empty_conv)
next
  case None
  then show ?thesis
    by (cases "healthy_backends h m p"; cases "algorithm p")
       (auto simp: select_backend_def Let_def split: prod.splits)
qed

lemma select_backend_frame [lb_frames]:
  "backends (snd (select_backend h m sh sp p)) = backends p"
  "algorithm (snd (select_backend h m sh sp p)) = algorithm p"
proof -
  let ?hb = "healthy_backends h m p"
  have "backends (snd (select_backend h m sh sp p)) = backends p \<and>
        algorithm (snd (select_backend h m sh sp p)) = algorithm p"
    using select_weighted_round_robin_frame [of h ?hb p]
    by (cases "sticky_choice h m sh sp p"; cases ?hb; cases "algorithm p")
       (auto simp: select_backend_def Let_def split: prod.splits)
  then show "backends (snd (select_backend h m sh sp p)) = backends p"
    and "algorithm (snd (select_backend h m sh sp p)) = algorithm p" by simp_all
qed

subsection \<open>Repeated selection\<close>

lemma select_backend_round_robin:
  assumes "algorithm p = ROUND_ROBIN" and "healthy_backends h m p \<noteq> []"
    and "\<forall>b \<in> set (backends p). node_ok (h b)"
    and "total_weight_nat h (healthy_backends h m p) < 2 ^ 32"
  shows "select_backend h m [] 0 p =
     (Some (expand_weights h (healthy_backends h m p)
              ! (unat (weighted_counter p) mod total_weight_nat h (healthy_backends h m p))),
      p\<lparr>weighted_counter := weighted_counter p + 1\<rparr>)"
proof -
  let ?hb = "healthy_backends h m p"
  have "select_weighted_round_robin h ?hb p =
     (expand_weights h ?hb ! (unat (weighted_counter p) mod total_weight_nat h ?hb),
      p\<lparr>weighted_counter := weighted_counter p + 1\<rparr>)"
    using assms by (intro select_weighted_round_robin_eq) auto
  with assms show ?thesis
    by (cases ?hb) (auto simp: select_backend_def sticky_choice_def Let_def)
qed

lemma select_run_round_robin:
  assumes "algorithm p = ROUND_ROBIN" and "healthy_backends h m p = bs" and "bs \<noteq> []"
    and "\<forall>b \<in> set (backends p). node_ok (h b)"
    and "total_weight_nat h bs < 2 ^ 32"
    and "unat (weighted_counter p) + k \<le> 2 ^ 32"
  shows "select_run k h m p =
     map (\<lambda>i. Some (expand_weights h bs ! ((unat (weighted_counter p) + i) mod total_weight_nat h bs)))
       [0..<k]"
  using assms
proof (induction k arbitrary: p)
  case (Suc k)
  let ?p = "p\<lparr>weighted_counter := weighted_counter p + 1\<rparr>"
  let ?g = "\<lambda>c i. Some (expand_weights h bs ! ((c + i) mod total_weight_nat h bs))"
  have sel: "select_backend h m [] 0 p = (?g (unat (weighted_counter p)) 0, ?p)"
    using select_backend_round_robin [where p = p and h = h and m = m] Suc.prems by simp
  show ?case
  proof (cases "k = 0")
    case True
    with sel show ?thesis by simp
  next
    case False
    with Suc.prems(6) have c: "unat (weighted_counter p + 1) = unat (weighted_counter p) + 1"
      by (simp add: unat_word_ariths)
    have "select_run k h m ?p = map (?g (unat (weighted_counter ?p))) [0..<k]"
      using Suc.prems c by (intro Suc.IH) auto
    with sel c show ?thesis
      by (simp add: map_upt_Suc del: upt_Suc)
  qed
qed simp

lemma mset_cyclic_window:
  assumes "xs \<noteq> []"
  shows "mset (map (\<lambda>i. f (xs ! ((c + i) mod length xs))) [0..<length xs]) = mset (map f xs)"
proof -
  have "map (\<lambda>i. f (xs ! ((c + i) mod length xs))) [0..<length xs] = map f (rotate c xs)"
    using assms by (intro nth_equalityI) (auto simp: nth_rotate)
  moreover have "mset (rotate c xs) = mset xs"
    by (simp add: rotate_drop_take mset_append [symmetric] add.commute del: mset_append)
       (metis add.commute append_take_drop_id mset_append)
  ultimately show ?thesis by simp
qed

lemma count_list_expand_weights:
  assumes "distinct bs" and "b \<in> set bs"
  shows "count_list (expand_weights h bs) b = unat (weight (h b))"
proof -
  have rep: "count_list (replicate n x) b = (if x = b then n else 0)" for n and x :: node_id
    by (induction n) auto
  have none: "b \<notin> set cs \<Longrightarrow> count_list (expand_weights h cs) b = 0" for cs
    using set_expand_weights [of h cs] by (auto simp: count_list_0_iff)
  have cons: "expand_weights h (c # cs) = replicate (unat (weight (h c))) c @ expand_weights h cs" for c cs
    by (simp add: expand_weights_def)
  show ?thesis
    using assms by (induction bs) (auto simp: cons rep none)
qed

lemma count_list_map_Some: "count_list (map Some xs) (Some b) = count_list xs b"
  by (induction xs) auto

section \<open>Properties\<close>

text \<open>C6: whatever the algorithm and the sticky hint, select_backend returns no backend exactly
  when none is HEALTHY and below the per-backend cap, and otherwise returns a backend of the
  pool that is HEALTHY and below the cap; the pool's members and algorithm do not change.\<close>

theorem select_backend_sound:
  "(case fst (select_backend h m sh sp p) of
      None \<Rightarrow> \<not> (\<exists>b \<in> set (backends p). state (h b) = HEALTHY \<and> below_cap m (h b))
    | Some b \<Rightarrow> b \<in> set (backends p) \<and> state (h b) = HEALTHY \<and> below_cap m (h b)) \<and>
   backends (snd (select_backend h m sh sp p)) = backends p \<and>
   algorithm (snd (select_backend h m sh sp p)) = algorithm p"
proof (cases "fst (select_backend h m sh sp p)")
  case None
  then show ?thesis
    using select_backend_None_iff [of h m sh sp p]
    by (simp add: select_backend_frame) (fastforce simp: filter_empty_conv eligible_def)
next
  case (Some b)
  then have "select_backend h m sh sp p = (Some b, snd (select_backend h m sh sp p))"
    by (metis prod.collapse)
  from select_backend_eligible [OF this] Some show ?thesis
    by (simp add: select_backend_frame eligible_def)
qed

text \<open>C8: over one full cycle of selections (as many as the weights add up to) with unchanged
  nodes, the weighted round robin picks every eligible backend exactly as often as its
  weight, wherever the cycle starts, provided the weights and the counter stay below 2^32.\<close>

theorem round_robin_weighted_fair:
  assumes "algorithm p = ROUND_ROBIN" and "distinct (backends p)"
    and "\<forall>b \<in> set (backends p). node_ok (h b)"
    and "b \<in> set (backends p)" and "eligible m (h b)"
    and "total_weight_nat h (filter (\<lambda>b. eligible m (h b)) (backends p)) < 2 ^ 32"
    and "unat (weighted_counter p) +
         total_weight_nat h (filter (\<lambda>b. eligible m (h b)) (backends p)) \<le> 2 ^ 32"
  shows "count_list
           (select_run (total_weight_nat h (filter (\<lambda>b. eligible m (h b)) (backends p))) h m p)
           (Some b) = unat (weight (h b))"
proof -
  let ?bs = "healthy_backends h m p"
  let ?xs = "expand_weights h ?bs"
  from assms(4,5) have b: "b \<in> set ?bs" by simp
  then have ne: "?bs \<noteq> []" by (metis list.set_cases list.distinct(1))
  have "0 < total_weight_nat h ?bs"
    using b assms(3) by (intro total_weight_pos) auto
  then have xs: "?xs \<noteq> []" using length_expand_weights [of h ?bs] by auto
  have "select_run (total_weight_nat h ?bs) h m p =
      map (\<lambda>i. Some (?xs ! ((unat (weighted_counter p) + i) mod total_weight_nat h ?bs)))
        [0..<total_weight_nat h ?bs]"
    using assms ne by (intro select_run_round_robin) auto
  then have "mset (select_run (total_weight_nat h ?bs) h m p) = mset (map Some ?xs)"
    using mset_cyclic_window [OF xs, of Some] by (simp only: length_expand_weights)
  then have "count_list (select_run (total_weight_nat h ?bs) h m p) (Some b) =
      count_list (map Some ?xs) (Some b)"
    by (metis count_mset)
  also have "\<dots> = unat (weight (h b))"
    using assms(2) b by (simp only: count_list_map_Some) (intro count_list_expand_weights; simp)
  finally show ?thesis .
qed

definition example_heap :: node_heap where
  "example_heap = (\<lambda>_. new_backend_node ''10.0.0.9'' 80 1)
     (0 := new_backend_node ''10.0.0.1'' 8000 3,
      1 := new_backend_node ''10.0.0.2'' 8001 1,
      2 := set_state UNHEALTHY (new_backend_node ''10.0.0.3'' 8002 5))"

definition example_pool :: BackendPool where
  "example_pool = pool_add_backend 2 (pool_add_backend 1 (pool_add_backend 0 (new_pool ROUND_ROBIN)))"

lemmas example_defs = example_heap_def example_pool_def pool_add_backend_def new_pool_def
  new_backend_node_def set_state_def node_ok_def eligible_def below_cap_def total_weight_nat_def

theorem round_robin_weighted_fair_witness:
  "total_weight_nat example_heap
     (filter (\<lambda>b. eligible 100 (example_heap b)) (backends example_pool)) = 4 \<and>
   count_list (select_run 4 example_heap 100 example_pool) (Some 0) = 3"
proof -
  have w: "total_weight_nat example_heap
     (filter (\<lambda>b. eligible 100 (example_heap b)) (backends example_pool)) = 4"
    by (simp add: example_defs)
  have "count_list (select_run 4 example_heap 100 example_pool) (Some 0) =
      unat (weight (example_heap 0))"
    using round_robin_weighted_fair [where p = example_pool and h = example_heap and b = 0 and m = 100]
    unfolding w
    by (simp add: example_defs)
  with w show ?thesis by (simp add: example_defs)
qed

text \<open>C7: weighted round robin, which walks the backends subtracting their weights from the
  remainder of a 32-bit counter, picks exactly what a table would: the entry at the counter
  modulo its length of the table that lists every eligible backend as many times in a row as
  its weight says; the counter advances by one and wraps at 32 bits.\<close>

theorem round_robin_equals_table_lookup:
  assumes "algorithm p = ROUND_ROBIN" and "filter (\<lambda>b. eligible m (h b)) (backends p) = bs" and "bs \<noteq> []"
    and "\<forall>b \<in> set (backends p). node_ok (h b)" and "total_weight_nat h bs < 2 ^ 32"
  shows "select_backend h m [] 0 p =
     (Some (expand_weights h bs ! (unat (weighted_counter p) mod length (expand_weights h bs))),
      p\<lparr>weighted_counter := weighted_counter p + 1\<rparr>)"
  using select_backend_round_robin [where p = p and h = h and m = m] assms by (simp add: length_expand_weights)

theorem round_robin_equals_table_lookup_witness:
  "expand_weights example_heap [0, 1] = [0, 0, 0, 1] \<and>
   fst (select_backend example_heap 100 [] 0 (example_pool\<lparr>weighted_counter := 7\<rparr>)) = Some 1"
proof -
  let ?p = "example_pool\<lparr>weighted_counter := 7\<rparr>"
  have x: "expand_weights example_heap [0, 1] = [0, 0, 0, 1]"
  proof -
    have "unat (weight (example_heap 0)) = 3" "unat (weight (example_heap 1)) = 1" by (simp_all add: example_defs)
    moreover have "replicate 3 (0 :: nat) = [0, 0, 0]" by (simp add: numeral_3_eq_3)
    ultimately show ?thesis by (simp add: expand_weights_def)
  qed
  have "filter (\<lambda>b. eligible 100 (example_heap b)) (backends ?p) = [0, 1]" by (simp add: example_defs)
  moreover have "algorithm ?p = ROUND_ROBIN" "\<forall>b \<in> set (backends ?p). node_ok (example_heap b)"
    "total_weight_nat example_heap [0, 1] < 2 ^ 32" "unat (weighted_counter ?p) = 7" by (simp_all add: example_defs)
  ultimately have "fst (select_backend example_heap 100 [] 0 ?p) = Some ([0, 0, 0, 1 :: nat] ! (7 mod 4))"
    using round_robin_equals_table_lookup [of ?p 100 example_heap "[0, 1]"] x by simp
  then show ?thesis using x by simp
qed

text \<open>C9: with LEAST_CONNECTIONS and no sticky hint the chosen backend is eligible and no
  eligible backend has a smaller ratio of active connections to weight, exactly, as long as
  connection counts and weights stay below 2^26: the rounding of the double division never
  decides the choice in that range.\<close>

theorem least_connections_minimal:
  assumes "algorithm p = LEAST_CONNECTIONS"
    and "\<forall>b \<in> set (backends p). 0 < weight (h b) \<and> unat (weight (h b)) < 2 ^ 26 \<and>
           unat (active_connections (h b)) < 2 ^ 26"
    and "fst (select_backend h m [] 0 p) = Some b"
    and "c \<in> set (backends p)" and "eligible m (h c)"
  shows "eligible m (h b) \<and>
    unat (active_connections (h b)) * unat (weight (h c)) \<le>
    unat (active_connections (h c)) * unat (weight (h b))"
proof -
  have c: "c \<in> set (healthy_backends h m p)" using assms(4,5) by simp
  then obtain b0 bs where hb: "healthy_backends h m p = b0 # bs"
    by (cases "healthy_backends h m p") auto
  from assms(4) have ne: "backends p \<noteq> []" by auto
  have b: "b = min_element (load h) b0 bs"
    using assms(1,3) hb ne by (simp add: select_backend_def sticky_choice_def Let_def)
  have bin: "b \<in> set (healthy_backends h m p)"
    unfolding b hb by (rule min_element_member)
  have "load h b \<le> load h c"
    unfolding b using c hb by (intro min_element_le) simp
  then have "\<not> unat (active_connections (h c)) * unat (weight (h b)) <
               unat (active_connections (h b)) * unat (weight (h c))"
    using double_quotient_exact [of "unat (active_connections (h c))"
        "unat (active_connections (h b))" "unat (weight (h c))" "unat (weight (h b))"]
      assms(2) bin c
    by (auto simp: load_def unat_gt_0 word_neq_0_conv)
  with bin show ?thesis by simp
qed

theorem least_connections_minimal_witness:
  "fst (select_backend (upd_node 0 increment_connections example_heap) 100 [] 0
      (set_algorithm LEAST_CONNECTIONS example_pool)) = Some 1 \<and>
   (0::nat) * 3 \<le> 1 * 1"
proof -
  let ?h = "upd_node 0 increment_connections example_heap"
  let ?p = "set_algorithm LEAST_CONNECTIONS example_pool"
  have sel: "fst (select_backend ?h 100 [] 0 ?p) = Some 1"
    by (simp add: example_defs set_algorithm_def select_backend_def sticky_choice_def Let_def
        load_def double_quotient_def quotient_exp_def flog2.simps round_half_even_def
        upd_node_def increment_connections_def)
  have "unat (active_connections (?h 1)) * unat (weight (?h 0)) \<le>
        unat (active_connections (?h 0)) * unat (weight (?h 1))"
    using least_connections_minimal [OF _ _ sel, where c = 0]
    by (simp add: example_defs set_algorithm_def upd_node_def increment_connections_def)
  with sel show ?thesis
    by (simp add: example_defs upd_node_def increment_connections_def)
qed

text \<open>A sticky hint that names a HEALTHY backend below the cap is always followed, whatever
  the algorithm would have chosen, and does not advance the round-robin counter.\<close>

theorem sticky_hint_followed:
  assumes "sh \<noteq> []" and "sp > 0" and "find_backend h sh sp p = Some b" and "eligible m (h b)"
  shows "select_backend h m sh sp p = (Some b, p)"
proof -
  from assms(3) have "backends p \<noteq> []" by (auto simp: find_backend_def)
  with assms show ?thesis
    by (simp add: select_backend_def sticky_choice_def eligible_def)
qed

theorem sticky_hint_followed_witness:
  "select_backend example_heap 100 ''10.0.0.2'' 8001 example_pool = (Some 1, example_pool)"
  by (rule sticky_hint_followed) (simp_all add: example_defs find_backend_def)

end
