(* ===== verification/Config_Manager.thy ===== *)
theory Config_Manager
  imports LB_Prelude "HOL-Library.Monad_Syntax"
begin

text \<open>
  \<^verbatim>\<open>config/config.h\<close>, \<^verbatim>\<open>config/config.cpp\<close>: the configuration record, its defaults, the
  translation of a YAML document into it and the reload protocol. yaml-cpp is a parameter:
  \<open>yaml_api\<close> holds the accessors the source calls, each returning \<open>None\<close> where yaml-cpp
  throws; \<open>load_from_file\<close> catches every exception, so a throw anywhere abandons the load.
  The file system (the modification time and the loaded document) is an argument of the
  operations that read it.
\<close>

record BackendConfig =
  bc_host :: string
  bc_port :: u16
  bc_weight :: u32

record Config =
  listen_host :: string
  listen_port :: u16
  tls_enabled :: bool
  tls_cert_path :: string
  tls_key_path :: string
  tls_handshake_timeout_ms :: u32
  cfg_mode :: string
  cfg_use_splice :: bool
  cfg_backends :: "BackendConfig list"
  routing_algorithm :: string
  max_connections_per_backend :: u32
  max_global_connections :: u32
  connection_pool_enabled :: bool
  pool_min_connections :: u32
  pool_max_connections :: u32
  pool_idle_timeout_ms :: u32
  pool_connect_timeout_ms :: u32
  health_check_interval_ms :: u32
  health_check_timeout_ms :: u32
  health_check_failure_threshold :: u32
  health_check_success_threshold :: u32
  health_check_type :: string
  health_check_path :: string
  thread_pool_worker_count :: u32
  metrics_enabled :: bool
  metrics_port :: u16
  log_level :: string
  log_file :: string
  access_log_enabled :: bool
  access_log_file :: string
  request_timeout_ms :: u32
  global_buffer_budget_mb :: u32
  global_buffer_budget_kb :: u32
  backend_socket_sndbuf :: u32
  backpressure_timeout_ms :: u32
  graceful_shutdown_timeout_seconds :: u32
  ip_whitelist :: "string list"
  ip_blacklist :: "string list"
  http_request_headers_add :: "(string \<times> string) list"
  http_request_headers_remove :: "string list"
  http_response_headers_add :: "(string \<times> string) list"
  http_response_headers_remove :: "string list"
  rate_limit_enabled :: bool
  rate_limit_max_connections :: u32
  rate_limit_window_seconds :: u32
  queue_enabled :: bool
  queue_max_size :: u32
  queue_max_wait_ms :: u32
  sticky_sessions_enabled :: bool
  sticky_sessions_method :: string
  sticky_sessions_cookie_name :: string
  sticky_sessions_ttl_seconds :: u32

definition default_config :: Config where
  "default_config = \<lparr>
     listen_host = ''0.0.0.0'',
     listen_port = 8080,
     tls_enabled = False,
     tls_cert_path = [],
     tls_key_path = [],
     tls_handshake_timeout_ms = 10000,
     cfg_mode = ''tcp'',
     cfg_use_splice = False,
     cfg_backends = [],
     routing_algorithm = ''round_robin'',
     max_connections_per_backend = 100,
     max_global_connections = 1000,
     connection_pool_enabled = True,
     pool_min_connections = 0,
     pool_max_connections = 10,
     pool_idle_timeout_ms = 60000,
     pool_connect_timeout_ms = 5000,
     health_check_interval_ms = 5000,
     health_check_timeout_ms = 500,
     health_check_failure_threshold = 3,
     health_check_success_threshold = 2,
     health_check_type = ''tcp'',
     health_check_path = ''/health'',
     thread_pool_worker_count = 4,
     metrics_enabled = True,
     metrics_port = 9090,
     log_level = ''info'',
     log_file = [],
     access_log_enabled = False,
     access_log_file = [],
     request_timeout_ms = 30000,
     global_buffer_budget_mb = 512,
     global_buffer_budget_kb = 0,
     backend_socket_sndbuf = 0,
     backpressure_timeout_ms = 10000,
     graceful_shutdown_timeout_seconds = 30,
     ip_whitelist = [],
     ip_blacklist = [],
     http_request_headers_add = [],
     http_request_headers_remove = [],
     http_response_headers_add = [],
     http_response_headers_remove = [],
     rate_limit_enabled = False,
     rate_limit_max_connections = 100,
     rate_limit_window_seconds = 60,
     queue_enabled = False,
     queue_max_size = 0,
     queue_max_wait_ms = 0,
     sticky_sessions_enabled = False,
     sticky_sessions_method = ''cookie'',
     sticky_sessions_cookie_name = ''LB_SESSION'',
     sticky_sessions_ttl_seconds = 3600\<rparr>"

subsection \<open>yaml-cpp as a parameter\<close>

text \<open>
  \<open>y_get n k\<close> is \<open>n[k]\<close> tested for being defined; \<open>y_items\<close> and \<open>y_pairs\<close> are the
  iterations over a sequence and a map.
\<close>

record 'y yaml_api =
  y_get :: "'y \<Rightarrow> string \<Rightarrow> 'y option option"
  y_as_string :: "'y \<Rightarrow> string option"
  y_as_bool :: "'y \<Rightarrow> bool option"
  y_as_u16 :: "'y \<Rightarrow> u16 option"
  y_as_u32 :: "'y \<Rightarrow> u32 option"
  y_is_sequence :: "'y \<Rightarrow> bool"
  y_is_map :: "'y \<Rightarrow> bool"
  y_items :: "'y \<Rightarrow> 'y list"
  y_pairs :: "'y \<Rightarrow> ('y \<times> 'y) list"

definition read_key :: "'y yaml_api \<Rightarrow> 'y \<Rightarrow> string \<Rightarrow> ('y \<Rightarrow> 'v option) \<Rightarrow> 'v \<Rightarrow> 'v option" where
  "read_key Y n k conv old = do {
     d \<leftarrow> y_get Y n k;
     (case d of None \<Rightarrow> Some old | Some v \<Rightarrow> conv v)
   }"

definition in_section :: "'y yaml_api \<Rightarrow> 'y \<Rightarrow> string \<Rightarrow> 'c \<Rightarrow> ('y \<Rightarrow> 'c option) \<Rightarrow> 'c option" where
  "in_section Y n k c body = do {
     d \<leftarrow> y_get Y n k;
     (case d of None \<Rightarrow> Some c | Some s \<Rightarrow> body s)
   }"

fun map_as :: "('y \<Rightarrow> 'v option) \<Rightarrow> 'y list \<Rightarrow> 'v list option" where
  "map_as conv [] = Some []"
| "map_as conv (y # ys) = do { v \<leftarrow> conv y; vs \<leftarrow> map_as conv ys; Some (v # vs) }"

definition as_string_seq :: "'y yaml_api \<Rightarrow> string list \<Rightarrow> 'y \<Rightarrow> string list option" where
  "as_string_seq Y old n =
     (if y_is_sequence Y n then map_as (y_as_string Y) (y_items Y n) else Some old)"

fun fold_pairs :: "'y yaml_api \<Rightarrow> ('y \<times> 'y) list \<Rightarrow> (string \<times> string) list \<Rightarrow>
    (string \<times> string) list option" where
  "fold_pairs Y [] m = Some m"
| "fold_pairs Y ((k, v) # ps) m = do {
     key \<leftarrow> y_as_string Y k;
     value \<leftarrow> y_as_string Y v;
     fold_pairs Y ps (AList.update key value m)
   }"

definition as_string_map :: "'y yaml_api \<Rightarrow> (string \<times> string) list \<Rightarrow> 'y \<Rightarrow>
    (string \<times> string) list option" where
  "as_string_map Y old n = (if y_is_map Y n then fold_pairs Y (y_pairs Y n) [] else Some old)"

subsection \<open>Paths: std::filesystem on POSIX\<close>

definition is_slash :: "char \<Rightarrow> bool" where
  "is_slash c \<longleftrightarrow> c = CHR ''/''"

definition is_absolute :: "string \<Rightarrow> bool" where
  "is_absolute p \<longleftrightarrow> p \<noteq> [] \<and> is_slash (hd p)"

definition parent_path :: "string \<Rightarrow> string" where
  "parent_path p =
     (let dir = strip_back is_slash (strip_back (\<lambda>c. \<not> is_slash c) p) in
      if dir = [] \<and> is_absolute p then ''/'' else dir)"

definition path_append :: "string \<Rightarrow> string \<Rightarrow> string" where
  "path_append dir rel =
     (if is_absolute rel then rel
      else if dir \<noteq> [] \<and> \<not> is_slash (last dir) then dir @ ''/'' @ rel
      else dir @ rel)"

definition resolve_tls_path :: "string \<Rightarrow> string \<Rightarrow> string" where
  "resolve_tls_path path file =
     (if file \<noteq> [] \<and> path \<noteq> [] then
        (if \<not> is_absolute file then
           (if parent_path path \<noteq> [] then path_append (parent_path path) file else file)
         else file)
      else file)"

subsection \<open>The sections of the document\<close>

definition load_listener :: "'y yaml_api \<Rightarrow> string \<Rightarrow> 'y \<Rightarrow> Config \<Rightarrow> Config option" where
  "load_listener Y path root c = in_section Y root ''listener'' c (\<lambda>s. do {
     v1 \<leftarrow> read_key Y s ''host'' (y_as_string Y) (listen_host c);
     v2 \<leftarrow> read_key Y s ''port'' (y_as_u16 Y) (listen_port c);
     v3 \<leftarrow> read_key Y s ''tls_enabled'' (y_as_bool Y) (tls_enabled c);
     v4 \<leftarrow> read_key Y s ''tls_cert''
              (\<lambda>n. map_option (resolve_tls_path path) (y_as_string Y n)) (tls_cert_path c);
     v5 \<leftarrow> read_key Y s ''tls_key''
              (\<lambda>n. map_option (resolve_tls_path path) (y_as_string Y n)) (tls_key_path c);
     v6 \<leftarrow> read_key Y s ''mode'' (y_as_string Y) (cfg_mode c);
     v7 \<leftarrow> read_key Y s ''use_splice'' (y_as_bool Y) (cfg_use_splice c);
     Some (c\<lparr>listen_host := v1, listen_port := v2, tls_enabled := v3, tls_cert_path := v4,
             tls_key_path := v5, cfg_mode := v6, cfg_use_splice := v7\<rparr>)
   })"

definition load_tls :: "'y yaml_api \<Rightarrow> 'y \<Rightarrow> Config \<Rightarrow> Config option" where
  "load_tls Y root c = in_section Y root ''tls'' c (\<lambda>s. do {
     v1 \<leftarrow> read_key Y s ''handshake_timeout_ms'' (y_as_u32 Y) (tls_handshake_timeout_ms c);
     Some (c\<lparr>tls_handshake_timeout_ms := v1\<rparr>)
   })"

text \<open>
  A backend entry without a \<open>port\<close> keeps the indeterminate value of the uninitialised
  local \<open>BackendConfig\<close>; the argument \<open>junk\<close> is that value.
\<close>

definition load_backend :: "'y yaml_api \<Rightarrow> u16 \<Rightarrow> 'y \<Rightarrow> BackendConfig option" where
  "load_backend Y junk n = do {
     h \<leftarrow> read_key Y n ''host'' (y_as_string Y) [];
     p \<leftarrow> read_key Y n ''port'' (y_as_u16 Y) junk;
     w \<leftarrow> read_key Y n ''weight'' (y_as_u32 Y) 1;
     Some \<lparr>bc_host = h, bc_port = p, bc_weight = w\<rparr>
   }"

definition load_backends :: "'y yaml_api \<Rightarrow> u16 \<Rightarrow> 'y \<Rightarrow> Config \<Rightarrow> Config option" where
  "load_backends Y junk root c = in_section Y root ''backends'' c (\<lambda>s.
     if y_is_sequence Y s
     then do { bs \<leftarrow> map_as (load_backend Y junk) (y_items Y s); Some (c\<lparr>cfg_backends := bs\<rparr>) }
     else Some c)"

definition load_sticky_sessions :: "'y yaml_api \<Rightarrow> 'y \<Rightarrow> Config \<Rightarrow> Config option" where
  "load_sticky_sessions Y routing c = in_section Y routing ''sticky_sessions'' c (\<lambda>s. do {
     v1 \<leftarrow> read_key Y s ''enabled'' (y_as_bool Y) (sticky_sessions_enabled c);
     v2 \<leftarrow> read_key Y s ''method'' (y_as_string Y) (sticky_sessions_method c);
     v3 \<leftarrow> read_key Y s ''cookie_name'' (y_as_string Y) (sticky_sessions_cookie_name c);
     v4 \<leftarrow> read_key Y s ''ttl_seconds'' (y_as_u32 Y) (sticky_sessions_ttl_seconds c);
     Some (c\<lparr>sticky_sessions_enabled := v1, sticky_sessions_method := v2,
             sticky_sessions_cookie_name := v3, sticky_sessions_ttl_seconds := v4\<rparr>)
   })"

definition load_routing :: "'y yaml_api \<Rightarrow> 'y \<Rightarrow> Config \<Rightarrow> Config option" where
  "load_routing Y root c = in_section Y root ''routing'' c (\<lambda>s. do {
     v1 \<leftarrow> read_key Y s ''algorithm'' (y_as_string Y) (routing_algorithm c);
     v2 \<leftarrow> read_key Y s ''max_connections_per_backend'' (y_as_u32 Y) (max_connections_per_backend c);
     v3 \<leftarrow> read_key Y s ''max_global_connections'' (y_as_u32 Y) (max_global_connections c);
     load_sticky_sessions Y s
       (c\<lparr>routing_algorithm := v1, max_connections_per_backend := v2, max_global_connections := v3\<rparr>)
   })"

definition load_connection_pool :: "'y yaml_api \<Rightarrow> 'y \<Rightarrow> Config \<Rightarrow> Config option" where
  "load_connection_pool Y root c = in_section Y root ''connection_pool'' c (\<lambda>s. do {
     v1 \<leftarrow> read_key Y s ''enabled'' (y_as_bool Y) (connection_pool_enabled c);
     v2 \<leftarrow> read_key Y s ''min_connections'' (y_as_u32 Y) (pool_min_connections c);
     v3 \<leftarrow> read_key Y s ''max_connections'' (y_as_u32 Y) (pool_max_connections c);
     v4 \<leftarrow> read_key Y s ''idle_timeout_ms'' (y_as_u32 Y) (pool_idle_timeout_ms c);
     v5 \<leftarrow> read_key Y s ''connect_timeout_ms'' (y_as_u32 Y) (pool_connect_timeout_ms c);
     Some (c\<lparr>connection_pool_enabled := v1, pool_min_connections := v2,
             pool_max_connections := v3, pool_idle_timeout_ms := v4,
             pool_connect_timeout_ms := v5\<rparr>)
   })"

definition load_health_check :: "'y yaml_api \<Rightarrow> 'y \<Rightarrow> Config \<Rightarrow> Config option" where
  "load_health_check Y root c = in_section Y root ''health_check'' c (\<lambda>s. do {
     v1 \<leftarrow> read_key Y s ''interval_ms'' (y_as_u32 Y) (health_check_interval_ms c);
     v2 \<leftarrow> read_key Y s ''timeout_ms'' (y_as_u32 Y) (health_check_timeout_ms c);
     v3 \<leftarrow> read_key Y s ''failure_threshold'' (y_as_u32 Y) (health_check_failure_threshold c);
     v4 \<leftarrow> read_key Y s ''success_threshold'' (y_as_u32 Y) (health_check_success_threshold c);
     v5 \<leftarrow> read_key Y s ''type'' (y_as_string Y) (health_check_type c);
     v6 \<leftarrow> read_key Y s ''path'' (y_as_string Y) (health_check_path c);
     Some (c\<lparr>health_check_interval_ms := v1, health_check_timeout_ms := v2,
             health_check_failure_threshold := v3, health_check_success_threshold := v4,
             health_check_type := v5, health_check_path := v6\<rparr>)
   })"

definition load_thread_pool :: "'y yaml_api \<Rightarrow> 'y \<Rightarrow> Config \<Rightarrow> Config option" where
  "load_thread_pool Y root c = in_section Y root ''thread_pool'' c (\<lambda>s. do {
     v1 \<leftarrow> read_key Y s ''worker_count'' (y_as_u32 Y) (thread_pool_worker_count c);
     Some (c\<lparr>thread_pool_worker_count := v1\<rparr>)
   })"

definition load_metrics :: "'y yaml_api \<Rightarrow> 'y \<Rightarrow> Config \<Rightarrow> Config option" where
  "load_metrics Y root c = in_section Y root ''metrics'' c (\<lambda>s. do {
     v1 \<leftarrow> read_key Y s ''enabled'' (y_as_bool Y) (metrics_enabled c);
     v2 \<leftarrow> read_key Y s ''port'' (y_as_u16 Y) (metrics_port c);
     Some (c\<lparr>metrics_enabled := v1, metrics_port := v2\<rparr>)
   })"

definition load_logging :: "'y yaml_api \<Rightarrow> 'y \<Rightarrow> Config \<Rightarrow> Config option" where
  "load_logging Y root c = in_section Y root ''logging'' c (\<lambda>s. do {
     v1 \<leftarrow> read_key Y s ''level'' (y_as_string Y) (log_level c);
     v2 \<leftarrow> read_key Y s ''file'' (y_as_string Y) (log_file c);
     v3 \<leftarrow> read_key Y s ''access_log_enabled'' (y_as_bool Y) (access_log_enabled c);
     v4 \<leftarrow> read_key Y s ''access_log_file'' (y_as_string Y) (access_log_file c);
     Some (c\<lparr>log_level := v1, log_file := v2, access_log_enabled := v3, access_log_file := v4\<rparr>)
   })"

definition load_timeouts :: "'y yaml_api \<Rightarrow> 'y \<Rightarrow> Config \<Rightarrow> Config option" where
  "load_timeouts Y root c = in_section Y root ''timeouts'' c (\<lambda>s. do {
     v1 \<leftarrow> read_key Y s ''request_ms'' (y_as_u32 Y) (request_timeout_ms c);
     Some (c\<lparr>request_timeout_ms := v1\<rparr>)
   })"

definition load_memory :: "'y yaml_api \<Rightarrow> 'y \<Rightarrow> Config \<Rightarrow> Config option" where
  "load_memory Y root c = in_section Y root ''memory'' c (\<lambda>s. do {
     v1 \<leftarrow> read_key Y s ''global_buffer_budget_mb'' (y_as_u32 Y) (global_buffer_budget_mb c);
     v2 \<leftarrow> read_key Y s ''global_buffer_budget_kb'' (y_as_u32 Y) (global_buffer_budget_kb c);
     v3 \<leftarrow> read_key Y s ''backend_socket_sndbuf'' (y_as_u32 Y) (backend_socket_sndbuf c);
     Some (c\<lparr>global_buffer_budget_mb := v1, global_buffer_budget_kb := v2,
             backend_socket_sndbuf := v3\<rparr>)
   })"

definition load_backpressure :: "'y yaml_api \<Rightarrow> 'y \<Rightarrow> Config \<Rightarrow> Config option" where
  "load_backpressure Y root c = in_section Y root ''backpressure'' c (\<lambda>s. do {
     v1 \<leftarrow> read_key Y s ''timeout_ms'' (y_as_u32 Y) (backpressure_timeout_ms c);
     Some (c\<lparr>backpressure_timeout_ms := v1\<rparr>)
   })"

definition load_graceful_shutdown :: "'y yaml_api \<Rightarrow> 'y \<Rightarrow> Config \<Rightarrow> Config option" where
  "load_graceful_shutdown Y root c = in_section Y root ''graceful_shutdown'' c (\<lambda>s. do {
     v1 \<leftarrow> read_key Y s ''timeout_seconds'' (y_as_u32 Y) (graceful_shutdown_timeout_seconds c);
     Some (c\<lparr>graceful_shutdown_timeout_seconds := v1\<rparr>)
   })"

definition load_ip_filter :: "'y yaml_api \<Rightarrow> 'y \<Rightarrow> Config \<Rightarrow> Config option" where
  "load_ip_filter Y root c = in_section Y root ''ip_filter'' c (\<lambda>s. do {
     v1 \<leftarrow> read_key Y s ''whitelist'' (as_string_seq Y (ip_whitelist c)) (ip_whitelist c);
     v2 \<leftarrow> read_key Y s ''blacklist'' (as_string_seq Y (ip_blacklist c)) (ip_blacklist c);
     Some (c\<lparr>ip_whitelist := v1, ip_blacklist := v2\<rparr>)
   })"

definition load_request_headers :: "'y yaml_api \<Rightarrow> 'y \<Rightarrow> Config \<Rightarrow> Config option" where
  "load_request_headers Y root c = in_section Y root ''http_headers'' c (\<lambda>hs.
     in_section Y hs ''request'' c (\<lambda>s. do {
       v1 \<leftarrow> read_key Y s ''add'' (as_string_map Y (http_request_headers_add c))
                (http_request_headers_add c);
       v2 \<leftarrow> read_key Y s ''remove'' (as_string_seq Y (http_request_headers_remove c))
                (http_request_headers_remove c);
       Some (c\<lparr>http_request_headers_add := v1, http_request_headers_remove := v2\<rparr>)
     }))"

definition load_response_headers :: "'y yaml_api \<Rightarrow> 'y \<Rightarrow> Config \<Rightarrow> Config option" where
  "load_response_headers Y root c = in_section Y root ''http_headers'' c (\<lambda>hs.
     in_section Y hs ''response'' c (\<lambda>s. do {
       v1 \<leftarrow> read_key Y s ''add'' (as_string_map Y (http_response_headers_add c))
                (http_response_headers_add c);
       v2 \<leftarrow> read_key Y s ''remove'' (as_string_seq Y (http_response_headers_remove c))
                (http_response_headers_remove c);
       Some (c\<lparr>http_response_headers_add := v1, http_response_headers_remove := v2\<rparr>)
     }))"

definition load_rate_limit :: "'y yaml_api \<Rightarrow> 'y \<Rightarrow> Config \<Rightarrow> Config option" where
  "load_rate_limit Y root c = in_section Y root ''rate_limit'' c (\<lambda>s. do {
     v1 \<leftarrow> read_key Y s ''enabled'' (y_as_bool Y) (rate_limit_enabled c);
     v2 \<leftarrow> read_key Y s ''max_connections'' (y_as_u32 Y) (rate_limit_max_connections c);
     v3 \<leftarrow> read_key Y s ''window_seconds'' (y_as_u32 Y) (rate_limit_window_seconds c);
     Some (c\<lparr>rate_limit_enabled := v1, rate_limit_max_connections := v2,
             rate_limit_window_seconds := v3\<rparr>)
   })"

definition load_queue :: "'y yaml_api \<Rightarrow> 'y \<Rightarrow> Config \<Rightarrow> Config option" where
  "load_queue Y root c = in_section Y root ''queue'' c (\<lambda>s. do {
     v1 \<leftarrow> read_key Y s ''enabled'' (y_as_bool Y) (queue_enabled c);
     v2 \<leftarrow> read_key Y s ''max_queue_size'' (y_as_u32 Y) (queue_max_size c);
     v3 \<leftarrow> read_key Y s ''max_wait_ms'' (y_as_u32 Y) (queue_max_wait_ms c);
     Some (c\<lparr>queue_enabled := v1, queue_max_size := v2, queue_max_wait_ms := v3\<rparr>)
   })"

definition load_sections :: "'y yaml_api \<Rightarrow> u16 \<Rightarrow> string \<Rightarrow> 'y \<Rightarrow> Config \<Rightarrow> Config option" where
  "load_sections Y junk path root c0 = do {
     c \<leftarrow> load_listener Y path root c0;
     c \<leftarrow> load_tls Y root c;
     c \<leftarrow> load_backends Y junk root c;
     c \<leftarrow> load_routing Y root c;
     c \<leftarrow> load_connection_pool Y root c;
     c \<leftarrow> load_health_check Y root c;
     c \<leftarrow> load_thread_pool Y root c;
     c \<leftarrow> load_metrics Y root c;
     c \<leftarrow> load_logging Y root c;
     c \<leftarrow> load_timeouts Y root c;
     c \<leftarrow> load_memory Y root c;
     c \<leftarrow> load_backpressure Y root c;
     c \<leftarrow> load_graceful_shutdown Y root c;
     c \<leftarrow> load_ip_filter Y root c;
     c \<leftarrow> load_request_headers Y root c;
     c \<leftarrow> load_response_headers Y root c;
     c \<leftarrow> load_rate_limit Y root c;
     load_queue Y root c
   }"

subsection \<open>The manager\<close>

record ConfigManager =
  config :: Config
  config_path :: string
  last_modified_time :: int
  config_deleted_warning_shown :: bool

definition new_config_manager :: ConfigManager where
  "new_config_manager =
     \<lparr>config = default_config, config_path = [], last_modified_time = 0,
      config_deleted_warning_shown = False\<rparr>"

text \<open>
  What the file system answers during one call: the document \<open>YAML::LoadFile\<close> returns
  (\<open>None\<close> when it throws), the modification time \<open>get_file_mtime\<close> computes (0 when
  the file cannot be opened or stat fails), and the junk of an uninitialised port.
\<close>

record 'y file_view =
  fv_doc :: "'y option"
  fv_mtime :: int
  fv_junk :: u16

definition load_from_file ::
    "'y yaml_api \<Rightarrow> 'y file_view \<Rightarrow> string \<Rightarrow> ConfigManager \<Rightarrow> bool \<times> ConfigManager" where
  "load_from_file Y fv path m =
     (case do { root \<leftarrow> fv_doc fv; load_sections Y (fv_junk fv) path root (config m) } of
        None \<Rightarrow> (False, m)
      | Some c \<Rightarrow>
          (True, m\<lparr>config := c, config_path := path, last_modified_time := fv_mtime fv,
                   config_deleted_warning_shown := False\<rparr>))"

definition start_reload_watcher :: "'y file_view \<Rightarrow> ConfigManager \<Rightarrow> ConfigManager" where
  "start_reload_watcher fv m =
     (if config_path m \<noteq> [] then m\<lparr>last_modified_time := fv_mtime fv\<rparr> else m)"

definition check_and_reload ::
    "'y yaml_api \<Rightarrow> 'y file_view \<Rightarrow> ConfigManager \<Rightarrow> bool \<times> ConfigManager" where
  "check_and_reload Y fv m =
     (if config_path m = [] then (False, m)
      else if fv_mtime fv = 0 \<and> last_modified_time m > 0 then
        (False, if \<not> config_deleted_warning_shown m
                then m\<lparr>config_deleted_warning_shown := True\<rparr> else m)
      else
        let m' = (if fv_mtime fv > 0 \<and> config_deleted_warning_shown m
                  then m\<lparr>config_deleted_warning_shown := False\<rparr> else m)
        in if fv_mtime fv > last_modified_time m'
           then load_from_file Y fv (config_path m') m'
           else (False, m'))"

subsection \<open>Reading a key\<close>

text \<open>
  \<open>settled Y n k conv v\<close> says that reading the key again over the value \<open>v\<close> gives \<open>v\<close>.
\<close>

definition settled :: "'y yaml_api \<Rightarrow> 'y \<Rightarrow> string \<Rightarrow> ('v \<Rightarrow> 'y \<Rightarrow> 'v option) \<Rightarrow> 'v \<Rightarrow> bool" where
  "settled Y n k conv v \<longleftrightarrow> read_key Y n k (conv v) v = Some v"

lemma settled_scalar: "read_key Y n k conv old = Some v \<Longrightarrow> settled Y n k (\<lambda>_. conv) v"
  by (auto simp: settled_def read_key_def bind_eq_Some_conv split: option.splits)

lemma settled_seq:
  "read_key Y n k (as_string_seq Y old) old = Some v \<Longrightarrow> settled Y n k (as_string_seq Y) v"
  by (auto simp: settled_def read_key_def as_string_seq_def bind_eq_Some_conv
      split: option.splits if_splits)

lemma settled_map:
  "read_key Y n k (as_string_map Y old) old = Some v \<Longrightarrow> settled Y n k (as_string_map Y) v"
  by (auto simp: settled_def read_key_def as_string_map_def bind_eq_Some_conv
      split: option.splits if_splits)

lemma settled_read:
  "settled Y n k (\<lambda>_. conv) v \<Longrightarrow> read_key Y n k conv v = Some v"
  "settled Y n k (as_string_seq Y) w \<Longrightarrow> read_key Y n k (as_string_seq Y w) w = Some w"
  "settled Y n k (as_string_map Y) m \<Longrightarrow> read_key Y n k (as_string_map Y m) m = Some m"
  by (simp_all add: settled_def)

lemma in_section_Some:
  "in_section Y n k c body = Some c' \<longleftrightarrow>
     (y_get Y n k = Some None \<and> c' = c) \<or> (\<exists>s. y_get Y n k = Some (Some s) \<and> body s = Some c')"
  by (auto simp: in_section_def bind_eq_Some_conv split: option.splits)

text \<open>
  A section reads and writes its own fields only. With \<open>copy\<close> overwriting exactly those
  fields, running the section on any configuration that carries its results again changes
  nothing: the form of idempotence that survives the later sections.
\<close>

definition settles :: "(Config \<Rightarrow> Config option) \<Rightarrow> (Config \<Rightarrow> 'a) \<Rightarrow> bool" where
  "settles sec view \<longleftrightarrow>
     (\<forall>c c' d. sec c = Some c' \<longrightarrow> view d = view c' \<longrightarrow> sec d = Some d)"

lemma settlesD: "settles sec view \<Longrightarrow> sec c = Some c' \<Longrightarrow> view d = view c' \<Longrightarrow> sec d = Some d"
  by (auto simp: settles_def)

lemma settles_tls: "settles (load_tls Y root) tls_handshake_timeout_ms"
  by (auto simp: settles_def load_tls_def in_section_Some bind_eq_Some_conv
      settled_read dest!: settled_scalar)

lemma settles_listener:
  "settles (load_listener Y path root)
     (\<lambda>c. (listen_host c, listen_port c, tls_enabled c, tls_cert_path c, tls_key_path c, cfg_mode c,
           cfg_use_splice c))"
  by (auto simp: settles_def load_listener_def in_section_Some bind_eq_Some_conv
      settled_read dest!: settled_scalar)

lemma settles_backends: "settles (load_backends Y junk root) cfg_backends"
proof -
  let ?bs = "\<lambda>n. map_as (load_backend Y junk) (y_items Y n)"
  have "load_backends Y junk root d = Some d"
    if c: "load_backends Y junk root c = Some c'" and d: "cfg_backends d = cfg_backends c'" for c c' d
  proof (cases "\<exists>n. y_get Y root ''backends'' = Some (Some n) \<and> y_is_sequence Y n")
    case True
    then obtain n where n: "y_get Y root ''backends'' = Some (Some n)" "y_is_sequence Y n" by blast
    with c have "?bs n = Some (cfg_backends c')"
      by (auto simp: load_backends_def in_section_def bind_eq_Some_conv)
    with n d show ?thesis
      by (simp add: load_backends_def in_section_def flip: d)
  next
    case False
    with c show ?thesis
      by (auto simp: load_backends_def in_section_def bind_eq_Some_conv split: option.splits)
  qed
  then show ?thesis unfolding settles_def by blast
qed

lemma settles_routing:
  "settles (load_routing Y root)
     (\<lambda>c. (routing_algorithm c, max_connections_per_backend c, max_global_connections c,
           sticky_sessions_enabled c, sticky_sessions_method c, sticky_sessions_cookie_name c,
           sticky_sessions_ttl_seconds c))"
  by (auto simp: settles_def load_routing_def load_sticky_sessions_def in_section_Some
      bind_eq_Some_conv settled_read dest!: settled_scalar)

lemma settles_connection_pool:
  "settles (load_connection_pool Y root)
     (\<lambda>c. (connection_pool_enabled c, pool_min_connections c, pool_max_connections c,
           pool_idle_timeout_ms c, pool_connect_timeout_ms c))"
  by (auto simp: settles_def load_connection_pool_def in_section_Some bind_eq_Some_conv
      settled_read dest!: settled_scalar)

lemma settles_health_check:
  "settles (load_health_check Y root)
     (\<lambda>c. (health_check_interval_ms c, health_check_timeout_ms c, health_check_failure_threshold c,
           health_check_success_threshold c, health_check_type c, health_check_path c))"
  by (auto simp: settles_def load_health_check_def in_section_Some bind_eq_Some_conv
      settled_read dest!: settled_scalar)

lemma settles_thread_pool: "settles (load_thread_pool Y root) thread_pool_worker_count"
  by (auto simp: settles_def load_thread_pool_def in_section_Some bind_eq_Some_conv
      settled_read dest!: settled_scalar)

lemma settles_metrics: "settles (load_metrics Y root) (\<lambda>c. (metrics_enabled c, metrics_port c))"
  by (auto simp: settles_def load_metrics_def in_section_Some bind_eq_Some_conv
      settled_read dest!: settled_scalar)

lemma settles_logging:
  "settles (load_logging Y root)
     (\<lambda>c. (log_level c, log_file c, access_log_enabled c, access_log_file c))"
  by (auto simp: settles_def load_logging_def in_section_Some bind_eq_Some_conv
      settled_read dest!: settled_scalar)

lemma settles_timeouts: "settles (load_timeouts Y root) request_timeout_ms"
  by (auto simp: settles_def load_timeouts_def in_section_Some bind_eq_Some_conv
      settled_read dest!: settled_scalar)

lemma settles_memory:
  "settles (load_memory Y root)
     (\<lambda>c. (global_buffer_budget_mb c, global_buffer_budget_kb c, backend_socket_sndbuf c))"
  by (auto simp: settles_def load_memory_def in_section_Some bind_eq_Some_conv
      settled_read dest!: settled_scalar)

lemma settles_backpressure: "settles (load_backpressure Y root) backpressure_timeout_ms"
  by (auto simp: settles_def load_backpressure_def in_section_Some bind_eq_Some_conv
      settled_read dest!: settled_scalar)

lemma settles_graceful_shutdown:
  "settles (load_graceful_shutdown Y root) graceful_shutdown_timeout_seconds"
  by (auto simp: settles_def load_graceful_shutdown_def in_section_Some bind_eq_Some_conv
      settled_read dest!: settled_scalar)

lemma settles_ip_filter: "settles (load_ip_filter Y root) (\<lambda>c. (ip_whitelist c, ip_blacklist c))"
  by (auto simp: settles_def load_ip_filter_def in_section_Some bind_eq_Some_conv
      settled_read dest!: settled_seq)

lemma settles_request_headers:
  "settles (load_request_headers Y root)
     (\<lambda>c. (http_request_headers_add c, http_request_headers_remove c))"
  by (auto simp: settles_def load_request_headers_def in_section_Some bind_eq_Some_conv
      settled_read dest!: settled_seq settled_map)

lemma settles_response_headers:
  "settles (load_response_headers Y root)
     (\<lambda>c. (http_response_headers_add c, http_response_headers_remove c))"
  by (auto simp: settles_def load_response_headers_def in_section_Some bind_eq_Some_conv
      settled_read dest!: settled_seq settled_map)

lemma settles_rate_limit:
  "settles (load_rate_limit Y root)
     (\<lambda>c. (rate_limit_enabled c, rate_limit_max_connections c, rate_limit_window_seconds c))"
  by (auto simp: settles_def load_rate_limit_def in_section_Some bind_eq_Some_conv
      settled_read dest!: settled_scalar)

lemma settles_queue:
  "settles (load_queue Y root) (\<lambda>c. (queue_enabled c, queue_max_size c, queue_max_wait_ms c))"
  by (auto simp: settles_def load_queue_def in_section_Some bind_eq_Some_conv
      settled_read dest!: settled_scalar)

text \<open>
  What each section leaves alone: any view of the configuration that does not depend on the
  fields the section sets.
\<close>

definition independent :: "(Config \<Rightarrow> Config option) \<Rightarrow> (Config \<Rightarrow> 'a) \<Rightarrow> bool" where
  "independent sec view \<longleftrightarrow> (\<forall>c c'. sec c = Some c' \<longrightarrow> view c' = view c)"

lemma independent_bind:
  "independent f view \<Longrightarrow> independent g view \<Longrightarrow> independent (\<lambda>c. f c \<bind> g) view"
  by (fastforce simp: independent_def bind_eq_Some_conv)

lemma settles_bind:
  assumes "settles f v" and "independent g v" and "settles g w"
  shows "settles (\<lambda>c. f c \<bind> g) (\<lambda>c. (v c, w c))"
proof -
  have "f d \<bind> g = Some d"
    if f: "f c = Some c1" and g: "g c1 = Some c2" and d: "v d = v c2" "w d = w c2" for c c1 c2 d
  proof -
    from assms(2) g have "v c2 = v c1" by (auto simp: independent_def)
    with d have "f d = Some d" using settlesD [OF assms(1) f] by simp
    moreover have "g d = Some d" using settlesD [OF assms(3) g] d by simp
    ultimately show ?thesis by simp
  qed
  then show ?thesis unfolding settles_def [of "\<lambda>c. f c \<bind> g"] by (auto simp: bind_eq_Some_conv)
qed

lemma independent_tls:
  assumes "\<And>c x1. view (c\<lparr>tls_handshake_timeout_ms := x1\<rparr>) = view c"
  shows "independent (load_tls Y root) view"
  using assms
  by (auto simp: independent_def load_tls_def in_section_Some bind_eq_Some_conv split: if_splits)

lemma independent_backends:
  assumes "\<And>c x1. view (c\<lparr>cfg_backends := x1\<rparr>) = view c"
  shows "independent (load_backends Y junk root) view"
  using assms
  by (auto simp: independent_def load_backends_def in_section_Some bind_eq_Some_conv split: if_splits)

lemma independent_routing:
  assumes "\<And>c x1 x2 x3. view (c\<lparr>routing_algorithm := x1, max_connections_per_backend := x2,
       max_global_connections := x3\<rparr>) = view c"
    and "\<And>c x4 x5 x6 x7. view (c\<lparr>sticky_sessions_enabled := x4, sticky_sessions_method := x5,
       sticky_sessions_cookie_name := x6, sticky_sessions_ttl_seconds := x7\<rparr>) = view c"
  shows "independent (load_routing Y root) view"
proof -
  have "view c' = view c" if "load_sticky_sessions Y s c = Some c'" for s c c'
    using that assms(2) by (auto simp: load_sticky_sessions_def in_section_Some bind_eq_Some_conv)
  with assms(1) show ?thesis
    by (fastforce simp: independent_def load_routing_def in_section_Some bind_eq_Some_conv)
qed

lemma independent_connection_pool:
  assumes "\<And>c x1 x2 x3 x4 x5. view (c\<lparr>connection_pool_enabled := x1, pool_min_connections := x2, pool_max_connections
       := x3, pool_idle_timeout_ms := x4, pool_connect_timeout_ms := x5\<rparr>) = view c"
  shows "independent (load_connection_pool Y root) view"
  using assms
  by (auto simp: independent_def load_connection_pool_def in_section_Some bind_eq_Some_conv split: if_splits)

lemma independent_health_check:
  assumes "\<And>c x1 x2 x3 x4 x5 x6. view (c\<lparr>health_check_interval_ms := x1, health_check_timeout_ms := x2,
       health_check_failure_threshold := x3, health_check_success_threshold := x4,
       health_check_type := x5, health_check_path := x6\<rparr>) = view c"
  shows "independent (load_health_check Y root) view"
  using assms
  by (auto simp: independent_def load_health_check_def in_section_Some bind_eq_Some_conv split: if_splits)

lemma independent_thread_pool:
  assumes "\<And>c x1. view (c\<lparr>thread_pool_worker_count := x1\<rparr>) = view c"
  shows "independent (load_thread_pool Y root) view"
  using assms
  by (auto simp: independent_def load_thread_pool_def in_section_Some bind_eq_Some_conv split: if_splits)

lemma independent_metrics:
  assumes "\<And>c x1 x2. view (c\<lparr>metrics_enabled := x1, metrics_port := x2\<rparr>) = view c"
  shows "independent (load_metrics Y root) view"
  using assms
  by (auto simp: independent_def load_metrics_def in_section_Some bind_eq_Some_conv split: if_splits)

lemma independent_logging:
  assumes "\<And>c x1 x2 x3 x4. view (c\<lparr>log_level := x1, log_file := x2, access_log_enabled := x3, access_log_file := x4\<rparr>) = view c"
  shows "independent (load_logging Y root) view"
  using assms
  by (auto simp: independent_def load_logging_def in_section_Some bind_eq_Some_conv split: if_splits)

lemma independent_timeouts:
  assumes "\<And>c x1. view (c\<lparr>request_timeout_ms := x1\<rparr>) = view c"
  shows "independent (load_timeouts Y root) view"
  using assms
  by (auto simp: independent_def load_timeouts_def in_section_Some bind_eq_Some_conv split: if_splits)

lemma independent_memory:
  assumes "\<And>c x1 x2 x3. view (c\<lparr>global_buffer_budget_mb := x1, global_buffer_budget_kb := x2,
       backend_socket_sndbuf := x3\<rparr>) = view c"
  shows "independent (load_memory Y root) view"
  using assms
  by (auto simp: independent_def load_memory_def in_section_Some bind_eq_Some_conv split: if_splits)

lemma independent_backpressure:
  assumes "\<And>c x1. view (c\<lparr>backpressure_timeout_ms := x1\<rparr>) = view c"
  shows "independent (load_backpressure Y root) view"
  using assms
  by (auto simp: independent_def load_backpressure_def in_section_Some bind_eq_Some_conv split: if_splits)

lemma independent_graceful_shutdown:
  assumes "\<And>c x1. view (c\<lparr>graceful_shutdown_timeout_seconds := x1\<rparr>) = view c"
  shows "independent (load_graceful_shutdown Y root) view"
  using assms
  by (auto simp: independent_def load_graceful_shutdown_def in_section_Some bind_eq_Some_conv split: if_splits)

lemma independent_ip_filter:
  assumes "\<And>c x1 x2. view (c\<lparr>ip_whitelist := x1, ip_blacklist := x2\<rparr>) = view c"
  shows "independent (load_ip_filter Y root) view"
  using assms
  by (auto simp: independent_def load_ip_filter_def in_section_Some bind_eq_Some_conv split: if_splits)

lemma independent_request_headers:
  assumes "\<And>c x1 x2. view (c\<lparr>http_request_headers_add := x1, http_request_headers_remove := x2\<rparr>) = view c"
  shows "independent (load_request_headers Y root) view"
  using assms
  by (auto simp: independent_def load_request_headers_def in_section_Some bind_eq_Some_conv split: if_splits)

lemma independent_response_headers:
  assumes "\<And>c x1 x2. view (c\<lparr>http_response_headers_add := x1, http_response_headers_remove := x2\<rparr>) = view c"
  shows "independent (load_response_headers Y root) view"
  using assms
  by (auto simp: independent_def load_response_headers_def in_section_Some bind_eq_Some_conv split: if_splits)

lemma independent_rate_limit:
  assumes "\<And>c x1 x2 x3. view (c\<lparr>rate_limit_enabled := x1, rate_limit_max_connections := x2,
       rate_limit_window_seconds := x3\<rparr>) = view c"
  shows "independent (load_rate_limit Y root) view"
  using assms
  by (auto simp: independent_def load_rate_limit_def in_section_Some bind_eq_Some_conv split: if_splits)

lemma independent_queue:
  assumes "\<And>c x1 x2 x3. view (c\<lparr>queue_enabled := x1, queue_max_size := x2, queue_max_wait_ms := x3\<rparr>) = view c"
  shows "independent (load_queue Y root) view"
  using assms
  by (auto simp: independent_def load_queue_def in_section_Some bind_eq_Some_conv split: if_splits)

lemmas independent_sections = independent_tls independent_backends independent_routing independent_connection_pool
  independent_health_check independent_thread_pool independent_metrics independent_logging
  independent_timeouts independent_memory independent_backpressure
  independent_graceful_shutdown independent_ip_filter independent_request_headers
  independent_response_headers independent_rate_limit independent_queue

lemmas settles_sections = settles_listener settles_tls settles_backends settles_routing settles_connection_pool
  settles_health_check settles_thread_pool settles_metrics settles_logging settles_timeouts
  settles_memory settles_backpressure settles_graceful_shutdown settles_ip_filter
  settles_request_headers settles_response_headers settles_rate_limit settles_queue

lemma settles_again: "settles sec view \<Longrightarrow> sec c = Some d \<Longrightarrow> sec d = Some d"
  by (rule settlesD) simp_all

lemma load_sections_settled:
  assumes "load_sections Y junk path root c = Some d"
  shows "load_sections Y junk path root d = Some d"
  using assms unfolding load_sections_def
  by (rule settles_again [rotated])
     (rule settles_bind settles_sections independent_bind independent_sections | (simp; fail))+

subsection \<open>A concrete document type\<close>

text \<open>
  A small instance of the yaml-cpp interface, for evaluating the operations on concrete
  documents: scalars, sequences and maps, with subscripts of a scalar throwing and decimal
  conversions checked for range, as yaml-cpp documents.
\<close>

datatype ynode = YScalar string | YSeq "ynode list" | YMap "(string \<times> ynode) list"

fun parse_digits :: "nat \<Rightarrow> string \<Rightarrow> nat option" where
  "parse_digits acc [] = Some acc"
| "parse_digits acc (c # cs) =
     (if is_digit c then parse_digits (acc * 10 + digit_val c) cs else None)"

definition scalar_nat :: "nat \<Rightarrow> ynode \<Rightarrow> nat option" where
  "scalar_nat bound n = (case n of
     YScalar s \<Rightarrow> (case (if s = [] then None else parse_digits 0 s) of
        Some v \<Rightarrow> if v < bound then Some v else None | None \<Rightarrow> None)
   | _ \<Rightarrow> None)"

definition ynode_api :: "ynode yaml_api" where
  "ynode_api = \<lparr>
     y_get = (\<lambda>n k. case n of YScalar _ \<Rightarrow> None | YSeq _ \<Rightarrow> Some None | YMap m \<Rightarrow> Some (map_of m k)),
     y_as_string = (\<lambda>n. case n of YScalar s \<Rightarrow> Some s | _ \<Rightarrow> None),
     y_as_bool = (\<lambda>n. case n of YScalar s \<Rightarrow>
        if s = ''true'' then Some True else if s = ''false'' then Some False else None | _ \<Rightarrow> None),
     y_as_u16 = (\<lambda>n. map_option of_nat (scalar_nat (2 ^ 16) n)),
     y_as_u32 = (\<lambda>n. map_option of_nat (scalar_nat (2 ^ 32) n)),
     y_is_sequence = (\<lambda>n. case n of YSeq _ \<Rightarrow> True | _ \<Rightarrow> False),
     y_is_map = (\<lambda>n. case n of YMap _ \<Rightarrow> True | _ \<Rightarrow> False),
     y_items = (\<lambda>n. case n of YSeq ns \<Rightarrow> ns | _ \<Rightarrow> []),
     y_pairs = (\<lambda>n. case n of YMap m \<Rightarrow> map (\<lambda>(k, v). (YScalar k, v)) m | _ \<Rightarrow> [])\<rparr>"

definition example_doc :: ynode where
  "example_doc = YMap
     [(''backends'', YSeq
        [YMap [(''host'', YScalar ''10.0.0.1''), (''port'', YScalar ''8000''), (''weight'', YScalar ''3'')],
         YMap [(''host'', YScalar ''10.0.0.2''), (''port'', YScalar ''8001'')]]),
      (''queue'', YMap [(''enabled'', YScalar ''true''), (''max_queue_size'', YScalar ''16'')])]"

definition example_view :: "ynode file_view" where
  "example_view = \<lparr>fv_doc = Some example_doc, fv_mtime = 100, fv_junk = 0\<rparr>"

lemmas example_config_defs = example_view_def example_doc_def ynode_api_def scalar_nat_def is_digit_def digit_val_def
  in_section_def read_key_def load_sections_def load_listener_def load_tls_def load_backends_def
  load_backend_def load_routing_def load_sticky_sessions_def load_connection_pool_def
  load_health_check_def load_thread_pool_def load_metrics_def load_logging_def load_timeouts_def
  load_memory_def load_backpressure_def load_graceful_shutdown_def load_ip_filter_def
  load_request_headers_def load_response_headers_def load_rate_limit_def load_queue_def

lemma example_load:
  "load_sections ynode_api 0 ''lb.yaml'' example_doc default_config =
     Some (default_config
       \<lparr>cfg_backends := [\<lparr>bc_host = ''10.0.0.1'', bc_port = 8000, bc_weight = 3\<rparr>,
                        \<lparr>bc_host = ''10.0.0.2'', bc_port = 8001, bc_weight = 1\<rparr>],
        queue_enabled := True, queue_max_size := 16\<rparr>)"
  by (simp add: example_config_defs default_config_def)

section \<open>Properties\<close>

text \<open>C25: loading is all or nothing and idempotent: a load that throws anywhere returns false
  and leaves the manager as it was; a load that succeeds records the path and the
  modification time, and loading the same document again succeeds without changing
  anything.\<close>

theorem load_from_file_atomic_idempotent:
  "case load_from_file Y fv path m of
     (False, m') \<Rightarrow> m' = m
   | (True, m') \<Rightarrow> config_path m' = path \<and> last_modified_time m' = fv_mtime fv \<and>
       load_from_file Y fv path m' = (True, m')"
proof (cases "fv_doc fv \<bind> (\<lambda>root. load_sections Y (fv_junk fv) path root (config m))")
  case (Some c)
  then obtain root where "fv_doc fv = Some root" and "load_sections Y (fv_junk fv) path root (config m) = Some c"
    by (auto simp: bind_eq_Some_conv)
  then show ?thesis
    using load_sections_settled [of Y "fv_junk fv" path root "config m" c]
    by (simp add: load_from_file_def)
qed (simp add: load_from_file_def)

text \<open>The reload check never disturbs the running configuration unless it returns true: then
  the file is newer than the recorded time, the recorded time becomes the file's, and the
  next check of the same file does nothing. When it returns false the configuration, the
  path and the recorded time are unchanged, so a newer file that failed to load is tried
  again at the next check, and a deleted file keeps the previous configuration.\<close>

theorem check_and_reload_safe:
  "case check_and_reload Y fv m of
     (True, m') \<Rightarrow> last_modified_time m < fv_mtime fv \<and> last_modified_time m' = fv_mtime fv \<and>
       config_path m' = config_path m \<and> load_from_file Y fv (config_path m) m = (True, m') \<and>
       check_and_reload Y fv m' = (False, m')
   | (False, m') \<Rightarrow> config m' = config m \<and> config_path m' = config_path m \<and>
       last_modified_time m' = last_modified_time m \<and>
       (config_path m \<noteq> [] \<and> fv_mtime fv = 0 \<and> last_modified_time m > 0 \<longrightarrow>
          config_deleted_warning_shown m')"
  by (auto simp: check_and_reload_def load_from_file_def Let_def split: option.splits if_splits)

theorem check_and_reload_safe_witness:
  "let m = new_config_manager\<lparr>config_path := ''lb.yaml'', last_modified_time := 7\<rparr>;
       r = check_and_reload ynode_api (example_view\<lparr>fv_mtime := 0\<rparr>) m
   in fst r = False \<and> config (snd r) = default_config \<and> config_deleted_warning_shown (snd r)"
  using check_and_reload_safe [where Y = ynode_api and fv = "example_view\<lparr>fv_mtime := 0\<rparr>" and m =
      "new_config_manager\<lparr>config_path := ''lb.yaml'', last_modified_time := 7\<rparr>"]
  by (auto simp: Let_def new_config_manager_def check_and_reload_def split: prod.splits bool.splits)

text \<open>A section that a new version of the file no longer has keeps its previous values: a
  reload of a document without \<open>backends\<close> keeps every backend, whatever else changes.\<close>

theorem reload_without_backends_keeps_them:
  assumes "fv_doc fv = Some root" and "y_get Y root ''backends'' = Some None"
  shows "cfg_backends (config (snd (load_from_file Y fv path m))) = cfg_backends (config m)"
proof -
  have keep: "independent sec cfg_backends \<Longrightarrow> sec c = Some c' \<Longrightarrow> cfg_backends c' = cfg_backends c" for sec c c'
    by (simp add: independent_def)
  have none: "load_backends Y junk root = Some" for junk
    using assms(2) by (auto simp: load_backends_def in_section_def)
  have "cfg_backends c' = cfg_backends c" if "load_sections Y junk path root c = Some c'" for junk c c'
    using that unfolding load_sections_def none
    by (rule keep [rotated])
       (rule independent_bind independent_sections | (simp add: independent_def; fail) | (auto simp: independent_def load_listener_def in_section_Some bind_eq_Some_conv; fail))+
  with assms(1) show ?thesis by (auto simp: load_from_file_def split: option.splits)
qed

theorem reload_without_backends_keeps_them_witness:
  "cfg_backends (config (snd (load_from_file ynode_api
      \<lparr>fv_doc = Some (YMap [(''listener'', YMap [(''mode'', YScalar ''http'')])]), fv_mtime = 200, fv_junk = 0\<rparr>
      ''lb.yaml''
      (new_config_manager\<lparr>config := default_config\<lparr>cfg_backends :=
         [\<lparr>bc_host = ''10.0.0.1'', bc_port = 8000, bc_weight = 3\<rparr>]\<rparr>\<rparr>)))) =
   [\<lparr>bc_host = ''10.0.0.1'', bc_port = 8000, bc_weight = 3\<rparr>]"
  by (subst reload_without_backends_keeps_them [where root = "YMap [(''listener'', YMap [(''mode'', YScalar ''http'')])]"])
     (simp_all add: ynode_api_def)

end
