(* ===== verification/Session_Manager.thy ===== *)
theory Session_Manager
  imports LB_Prelude
begin

text \<open>
  \<^verbatim>\<open>core/session_manager.h\<close>, \<^verbatim>\<open>core/session_manager.cpp\<close>: the sticky-session table. Every
  operation holds the manager's mutex for its whole body, so each is one atomic function
  on the table; the clock reading is its first argument. The locale \<open>session_store\<close> is
  what the backend connector relies on.
\<close>

record SessionInfo =
  backend_host :: string
  backend_port :: u16
  expires_at :: time

type_synonym sessions = "string \<rightharpoonup> SessionInfo"

definition get_session :: "time \<Rightarrow> string \<Rightarrow> sessions \<Rightarrow> SessionInfo option" where
  "get_session now key s =
     (case s key of
        None \<Rightarrow> None
      | Some session \<Rightarrow> if now \<ge> expires_at session then None else Some session)"

definition set_session :: "time \<Rightarrow> string \<Rightarrow> string \<Rightarrow> u16 \<Rightarrow> u32 \<Rightarrow> sessions \<Rightarrow> sessions" where
  "set_session now key hst prt ttl_seconds s =
     s(key \<mapsto> \<lparr>backend_host = hst, backend_port = prt,
               expires_at = now + duration_seconds ttl_seconds\<rparr>)"

definition clear_session :: "string \<Rightarrow> sessions \<Rightarrow> sessions" where
  "clear_session key s = erase_key s key"

definition cleanup_expired_sessions :: "time \<Rightarrow> sessions \<Rightarrow> sessions" where
  "cleanup_expired_sessions now s = erase_where (\<lambda>v. now \<ge> expires_at v) s"

definition clear_all_sessions :: "sessions \<Rightarrow> sessions" where
  "clear_all_sessions s = (\<lambda>_. None)"

subsection \<open>The contract of a session store\<close>

locale session_store =
  fixes lookup :: "time \<Rightarrow> string \<Rightarrow> 's \<Rightarrow> SessionInfo option"
    and store :: "time \<Rightarrow> string \<Rightarrow> string \<Rightarrow> u16 \<Rightarrow> u32 \<Rightarrow> 's \<Rightarrow> 's"
    and forget :: "string \<Rightarrow> 's \<Rightarrow> 's"
    and sweep :: "time \<Rightarrow> 's \<Rightarrow> 's"
  assumes lookup_store_same:
      "lookup t k (store t0 k h p ttl s) =
         (if t < t0 + duration_seconds ttl
          then Some \<lparr>backend_host = h, backend_port = p, expires_at = t0 + duration_seconds ttl\<rparr>
          else None)"
    and lookup_store_other: "k' \<noteq> k \<Longrightarrow> lookup t k' (store t0 k h p ttl s) = lookup t k' s"
    and lookup_forget: "lookup t k' (forget k s) = (if k' = k then None else lookup t k' s)"
    and lookup_sweep: "t0 \<le> t \<Longrightarrow> lookup t k (sweep t0 s) = lookup t k s"
begin

lemma lookup_sweeps:
  assumes "\<forall>t0 \<in> set ts. t0 \<le> t"
  shows "lookup t k (fold sweep ts s) = lookup t k s"
  using assms by (induction ts arbitrary: s) (simp_all add: lookup_sweep)

text \<open>A stored session is found until it expires, whatever is stored, forgotten or swept
  under other keys in between.\<close>

lemma lookup_survives:
  assumes "\<forall>t0 \<in> set ts. t0 \<le> t" and "k' \<noteq> k" and "k'' \<noteq> k"
  shows "lookup t k (fold sweep ts (forget k'' (store tb k' h' p' ttl' (store ta k h p ttl s)))) =
    (if t < ta + duration_seconds ttl
     then Some \<lparr>backend_host = h, backend_port = p, expires_at = ta + duration_seconds ttl\<rparr>
     else None)"
  using assms by (simp add: lookup_sweeps lookup_forget lookup_store_other lookup_store_same)

end

lemmas session_defs = get_session_def set_session_def clear_session_def
  cleanup_expired_sessions_def clear_all_sessions_def

interpretation sm: session_store get_session set_session clear_session cleanup_expired_sessions
  by unfold_locales
     (auto simp: session_defs erase_key_def erase_where_def split: option.splits if_splits)

section \<open>Properties\<close>

text \<open>C26: a sticky session is returned exactly until its time to live has passed since it was
  last stored, with the host and port it was stored with, whatever the periodic cleanup
  and operations under other keys do in between; clearing all sessions forgets it.\<close>

theorem session_lives_until_expiry:
  assumes "\<forall>t0 \<in> set ts. t0 \<le> t" and "k' \<noteq> k" and "k'' \<noteq> k"
  shows "get_session t k (fold cleanup_expired_sessions ts
      (clear_session k'' (set_session tb k' h' p' ttl' (set_session ta k h p ttl s)))) =
    (if t < ta + int (unat ttl) * 1000000000
     then Some \<lparr>backend_host = h, backend_port = p, expires_at = ta + int (unat ttl) * 1000000000\<rparr>
     else None) \<and>
    get_session t k (clear_all_sessions s) = None"
  using sm.lookup_survives [OF assms, of tb h' p' ttl' ta h p ttl s]
  by (simp add: duration_seconds_def session_defs(1,5))

theorem session_lives_until_expiry_witness:
  "get_session 1500000000 ''10.0.0.7'' (fold cleanup_expired_sessions [0, 1000000000]
      (clear_session ''x'' (set_session 0 ''y'' ''b2'' 8001 5
         (set_session 0 ''10.0.0.7'' ''b1'' 8000 2 (\<lambda>_. None))))) =
    Some \<lparr>backend_host = ''b1'', backend_port = 8000, expires_at = 2000000000\<rparr>"
  using session_lives_until_expiry [where ts = "[0, 1000000000]" and t = 1500000000
      and k = "''10.0.0.7''" and k' = "''y''" and k'' = "''x''" and ttl = 2 and ttl' = 5
      and ta = 0 and tb = 0 and h = "''b1''" and h' = "''b2''" and p = 8000 and p' = 8001
      and s = "\<lambda>_. None"]
  by simp

end
