(* ===== verification/Backpressure_Manager.thy ===== *)
theory Backpressure_Manager
  imports LB_Prelude
begin

text \<open>
  \<^verbatim>\<open>core/backpressure_manager.h\<close>, \<^verbatim>\<open>core/backpressure_manager.cpp\<close>: since when a descriptor
  has been under backpressure. The table is the load balancer's
  \<open>backpressure_start_times_\<close>, shared by reference; \<open>check_timeout\<close> takes the close
  callback as a function on the state of its caller.
\<close>

type_synonym start_times = "fd \<rightharpoonup> time"

definition timed_out :: "time \<Rightarrow> u32 \<Rightarrow> fd \<Rightarrow> start_times \<Rightarrow> bool" where
  "timed_out now timeout_ms f m =
     (case m f of None \<Rightarrow> False | Some start \<Rightarrow> elapsed_at_least_ms now start timeout_ms)"

definition check_timeout ::
    "time \<Rightarrow> u32 \<Rightarrow> fd \<Rightarrow> start_times \<Rightarrow> (fd \<Rightarrow> 's \<Rightarrow> 's) \<Rightarrow> 's \<Rightarrow> 's" where
  "check_timeout now timeout_ms f m close_callback s =
     (if timed_out now timeout_ms f m then close_callback f s else s)"

definition start_tracking :: "time \<Rightarrow> fd \<Rightarrow> start_times \<Rightarrow> bool \<times> start_times" where
  "start_tracking now f m =
     (case m f of None \<Rightarrow> (True, m(f \<mapsto> now)) | Some _ \<Rightarrow> (False, m))"

definition clear_tracking :: "fd \<Rightarrow> start_times \<Rightarrow> bool \<times> start_times" where
  "clear_tracking f m = (m f \<noteq> None, m(f := None))"

subsection \<open>The number of tracked descriptors\<close>

lemma start_tracking_dom:
  "dom (snd (start_tracking now f m)) = insert f (dom m)"
  "fst (start_tracking now f m) \<longleftrightarrow> f \<notin> dom m"
  by (auto simp: start_tracking_def split: option.splits)

lemma clear_tracking_dom:
  "dom (snd (clear_tracking f m)) = dom m - {f}"
  "fst (clear_tracking f m) \<longleftrightarrow> f \<in> dom m"
  by (auto simp: clear_tracking_def split: if_splits)

text \<open>
  A gauge that is incremented when \<open>start_tracking\<close> returns true and decremented when
  \<open>clear_tracking\<close> does counts the tracked descriptors.
\<close>

lemma start_tracking_card:
  assumes "finite (dom m)"
  shows "card (dom (snd (start_tracking now f m))) =
           (if fst (start_tracking now f m) then card (dom m) + 1 else card (dom m))"
  using assms by (simp add: start_tracking_dom card_insert_if)

lemma clear_tracking_card:
  assumes "finite (dom m)"
  shows "card (dom (snd (clear_tracking f m))) =
           (if fst (clear_tracking f m) then card (dom m) - 1 else card (dom m))"
  using assms by (simp add: clear_tracking_dom card_Diff_singleton_if)

lemma timed_out_persists:
  assumes "timed_out now ms f m" and "now \<le> now'"
  shows "timed_out now' ms f (snd (start_tracking now'' f m))"
  using assms elapsed_at_least_ms_mono
  by (auto simp: timed_out_def start_tracking_def split: option.splits)

end
