(* ===== verification/Admission.thy ===== *)
theory Admission
  imports Config_Manager
begin

text \<open>
  The admission decisions of \<^verbatim>\<open>core/load_balancer.cpp\<close> that do not touch a connection:
  the IP filter (\<open>is_ip_allowed\<close>), the sliding-window rate limit (\<open>check_rate_limit\<close>,
  \<open>cleanup_rate_limit_entries\<close>) and the choice of the session key (\<open>get_session_key\<close>).
  The configuration argument is an option: the source passes a null pointer when there is
  no configuration manager.
\<close>

type_synonym rate_tracker = "string \<rightharpoonup> time list"

definition is_ip_allowed :: "string \<Rightarrow> Config option \<Rightarrow> bool" where
  "is_ip_allowed client_ip cfg =
     (case cfg of
        None \<Rightarrow> True
      | Some c \<Rightarrow>
          if client_ip = [] then True
          else if list_ex (\<lambda>b. client_ip = b) (ip_blacklist c) then False
          else if ip_whitelist c \<noteq> [] then list_ex (\<lambda>w. client_ip = w) (ip_whitelist c)
          else True)"

definition drop_before :: "time \<Rightarrow> time list \<Rightarrow> time list" where
  "drop_before cutoff_time timestamps = filter (\<lambda>ts. \<not> ts < cutoff_time) timestamps"

definition check_rate_limit ::
    "time \<Rightarrow> string \<Rightarrow> Config option \<Rightarrow> rate_tracker \<Rightarrow> bool \<times> rate_tracker" where
  "check_rate_limit now client_ip cfg tr =
     (case cfg of
        None \<Rightarrow> (True, tr)
      | Some c \<Rightarrow>
          if \<not> rate_limit_enabled c \<or> client_ip = [] \<or> client_ip = ''unknown'' then (True, tr)
          else
            let cutoff_time = now - duration_seconds (rate_limit_window_seconds c);
                old = (case tr client_ip of None \<Rightarrow> [] | Some l \<Rightarrow> l);
                timestamps = drop_before cutoff_time old
            in if length timestamps \<ge> unat (rate_limit_max_connections c)
               then (False, tr(client_ip \<mapsto> timestamps))
               else (True, tr(client_ip \<mapsto> timestamps @ [now])))"

definition cleanup_rate_limit_entries :: "time \<Rightarrow> Config option \<Rightarrow> rate_tracker \<Rightarrow> rate_tracker" where
  "cleanup_rate_limit_entries now cfg tr =
     (case cfg of
        None \<Rightarrow> tr
      | Some c \<Rightarrow>
          if \<not> rate_limit_enabled c then tr
          else
            let cutoff_time = now - duration_seconds (rate_limit_window_seconds c)
            in (\<lambda>ip. case tr ip of
                  None \<Rightarrow> None
                | Some ts \<Rightarrow> (let ts' = drop_before cutoff_time ts in if ts' = [] then None else Some ts')))"

definition get_session_key ::
    "fd \<Rightarrow> string \<Rightarrow> Config option \<Rightarrow> (fd \<rightharpoonup> string) \<Rightarrow> string" where
  "get_session_key client_fd client_ip cfg keys =
     (case cfg of
        None \<Rightarrow> []
      | Some c \<Rightarrow>
          if \<not> sticky_sessions_enabled c then []
          else if sticky_sessions_method c = ''ip'' then client_ip
          else (case keys client_fd of
                  Some k \<Rightarrow> if k \<noteq> [] then k else client_ip
                | None \<Rightarrow> client_ip))"

subsection \<open>Histories of attempts and cleanups\<close>

datatype rate_event = Attempt time string | Cleanup time

fun event_time :: "rate_event \<Rightarrow> time" where
  "event_time (Attempt t ip) = t"
| "event_time (Cleanup t) = t"

text \<open>\<open>rate_run\<close> returns the attempts that were admitted, oldest first, and the tracker.\<close>

fun rate_run ::
    "Config \<Rightarrow> rate_event list \<Rightarrow> (time \<times> string) list \<Rightarrow> rate_tracker \<Rightarrow>
     (time \<times> string) list \<times> rate_tracker" where
  "rate_run c [] acc tr = (acc, tr)"
| "rate_run c (Attempt t ip # es) acc tr =
     (let (ok, tr') = check_rate_limit t ip (Some c) tr
      in rate_run c es (if ok then acc @ [(t, ip)] else acc) tr')"
| "rate_run c (Cleanup t # es) acc tr =
     rate_run c es acc (cleanup_rate_limit_entries t (Some c) tr)"

definition admitted_times :: "string \<Rightarrow> (time \<times> string) list \<Rightarrow> time list" where
  "admitted_times ip acc = map fst (filter (\<lambda>(t, i). i = ip) acc)"

definition in_window :: "time \<Rightarrow> time \<Rightarrow> time list \<Rightarrow> time list" where
  "in_window w t ts = filter (\<lambda>x. t - w \<le> x \<and> x \<le> t) ts"

abbreviation tracked :: "rate_tracker \<Rightarrow> string \<Rightarrow> time list" where
  "tracked tr ip \<equiv> (case tr ip of None \<Rightarrow> [] | Some l \<Rightarrow> l)"

text \<open>
  The invariant after the last event at time \<open>now\<close>: every admitted time still inside the
  window is tracked, nothing tracked or admitted lies in the future, and no window ever
  held more than the maximum.
\<close>

definition rate_inv ::
    "Config \<Rightarrow> string \<Rightarrow> time \<Rightarrow> (time \<times> string) list \<Rightarrow> rate_tracker \<Rightarrow> bool" where
  "rate_inv c ip now acc tr \<longleftrightarrow>
     (let w = duration_seconds (rate_limit_window_seconds c) in
      drop_before (now - w) (admitted_times ip acc) = drop_before (now - w) (tracked tr ip) \<and>
      (\<forall>x \<in> set (admitted_times ip acc). x \<le> now) \<and>
      (\<forall>t. length (in_window w t (admitted_times ip acc)) \<le> unat (rate_limit_max_connections c)))"

lemma drop_before_twice: "a \<le> b \<Longrightarrow> drop_before b (drop_before a xs) = drop_before b xs"
  by (simp add: drop_before_def conj_commute) (metis (mono_tags, lifting) linorder_not_less order.trans)

lemma drop_before_later:
  assumes "a \<le> b" and "drop_before a xs = drop_before a ys"
  shows "drop_before b xs = drop_before b ys"
  using drop_before_twice [OF assms(1), of xs] drop_before_twice [OF assms(1), of ys] assms(2) by simp

lemma rate_inv_later:
  assumes "rate_inv c ip now acc tr" and "now \<le> now'"
  shows "rate_inv c ip now' acc tr"
proof -
  let ?w = "duration_seconds (rate_limit_window_seconds c)"
  from assms(1) have d: "drop_before (now - ?w) (admitted_times ip acc) = drop_before (now - ?w) (tracked tr ip)"
    and le: "\<forall>x \<in> set (admitted_times ip acc). x \<le> now"
    and cap: "\<forall>t. length (in_window ?w t (admitted_times ip acc)) \<le> unat (rate_limit_max_connections c)"
    unfolding rate_inv_def Let_def by blast+
  have "drop_before (now' - ?w) (admitted_times ip acc) = drop_before (now' - ?w) (tracked tr ip)"
    using assms(2) by (intro drop_before_later [OF _ d]) simp
  moreover from le assms(2) have "\<forall>x \<in> set (admitted_times ip acc). x \<le> now'"
    by (auto intro: order.trans)
  ultimately show ?thesis using cap by (simp add: rate_inv_def Let_def)
qed

lemma tracked_cleanup:
  assumes "rate_limit_enabled c"
  shows "tracked (cleanup_rate_limit_entries now (Some c) tr) ip =
    drop_before (now - duration_seconds (rate_limit_window_seconds c)) (tracked tr ip)"
  using assms
  by (auto simp: cleanup_rate_limit_entries_def Let_def drop_before_def split: option.splits)

lemma rate_inv_cleanup:
  assumes "rate_limit_enabled c" and "rate_inv c ip now acc tr"
  shows "rate_inv c ip now acc (cleanup_rate_limit_entries now (Some c) tr)"
  using assms(2) by (simp add: rate_inv_def Let_def tracked_cleanup [OF assms(1)] drop_before_twice)

lemma rate_inv_other:
  assumes "rate_inv c ip now acc tr" and "ip' \<noteq> ip"
  shows "rate_inv c ip now (acc @ [(t, ip')]) (tr(ip' \<mapsto> l))" and "rate_inv c ip now acc (tr(ip' \<mapsto> l))"
  using assms by (simp_all add: rate_inv_def Let_def admitted_times_def)

lemma rate_inv_refused:
  assumes "rate_inv c ip now acc tr"
  shows "rate_inv c ip now acc
    (tr(ip \<mapsto> drop_before (now - duration_seconds (rate_limit_window_seconds c)) (tracked tr ip)))"
  using assms by (simp add: rate_inv_def Let_def drop_before_twice)

text \<open>
  One more admission at \<open>now\<close>: a window that ends before \<open>now\<close> is unchanged, one that ends
  later lies within the admitted times the tracker holds.
\<close>

lemma window_after_admission:
  assumes le: "\<forall>x \<in> set xs. x \<le> now" and cap: "\<And>t. length (in_window w t xs) \<le> n"
    and room: "length (drop_before (now - w) xs) < n"
  shows "length (in_window w t (xs @ [now])) \<le> n"
proof (cases "t < now")
  case True
  with cap [of t] show ?thesis by (simp add: in_window_def)
next
  case False
  then have "\<forall>x \<in> set (in_window w t xs). \<not> x < now - w"
    by (auto simp: in_window_def)
  then have "in_window w t xs = filter (\<lambda>x. t - w \<le> x \<and> x \<le> t) (drop_before (now - w) xs)"
    by (auto simp: in_window_def drop_before_def intro!: filter_cong)
  then have "length (in_window w t xs) \<le> length (drop_before (now - w) xs)"
    by (metis length_filter_le)
  with room show ?thesis by (simp add: in_window_def)
qed

lemma rate_inv_admitted:
  assumes inv: "rate_inv c ip now acc tr"
    and room: "length (drop_before (now - duration_seconds (rate_limit_window_seconds c)) (tracked tr ip))
           < unat (rate_limit_max_connections c)"
  shows "rate_inv c ip now (acc @ [(now, ip)])
    (tr(ip \<mapsto> drop_before (now - duration_seconds (rate_limit_window_seconds c)) (tracked tr ip) @ [now]))"
proof -
  let ?w = "duration_seconds (rate_limit_window_seconds c)"
  let ?xs = "admitted_times ip acc"
  have new: "admitted_times ip (acc @ [(now, ip)]) = ?xs @ [now]"
    by (simp add: admitted_times_def)
  have tracks: "drop_before (now - ?w) ?xs = drop_before (now - ?w) (tracked tr ip)"
    using inv by (simp add: rate_inv_def Let_def)
  have "length (in_window ?w t (?xs @ [now])) \<le> unat (rate_limit_max_connections c)" for t
    using inv room tracks by (intro window_after_admission) (simp_all add: rate_inv_def Let_def)
  with inv tracks show ?thesis
    unfolding rate_inv_def new by (simp add: Let_def drop_before_def)
qed

lemma rate_inv_attempt:
  assumes "rate_limit_enabled c" and "rate_inv c ip now acc tr" and "ip \<noteq> []" and "ip \<noteq> ''unknown''"
    and "check_rate_limit now ip' (Some c) tr = (ok, tr')"
  shows "rate_inv c ip now (if ok then acc @ [(now, ip')] else acc) tr'"
proof (cases "ip' = ip")
  case True
  with assms rate_inv_refused [OF assms(2)] rate_inv_admitted [OF assms(2)] show ?thesis
    by (auto simp: check_rate_limit_def Let_def split: if_splits)
next
  case False
  have "rate_inv c ip now (acc @ [(now, ip')]) tr"
    using assms(2) False by (simp add: rate_inv_def Let_def admitted_times_def)
  with assms(1,2,5) False show ?thesis
    by (auto simp: check_rate_limit_def Let_def rate_inv_other split: if_splits)
qed

lemma rate_run_inv:
  assumes "rate_limit_enabled c" and "ip \<noteq> []" and "ip \<noteq> ''unknown''"
    and "rate_inv c ip now acc tr"
    and "sorted (now # map event_time es)"
  shows "\<exists>now'. rate_inv c ip now' (fst (rate_run c es acc tr)) (snd (rate_run c es acc tr))"
  using assms(4,5)
proof (induction es arbitrary: now acc tr)
  case Nil
  then show ?case by auto
next
  case (Cons e es)
  have inv: "rate_inv c ip (event_time e) acc tr"
    using rate_inv_later [OF Cons.prems(1)] Cons.prems(2) by simp
  have s: "sorted (event_time e # map event_time es)"
    using Cons.prems(2) by simp
  show ?case
  proof (cases e)
    case (Attempt t ip')
    obtain ok tr' where chk: "check_rate_limit t ip' (Some c) tr = (ok, tr')" by fastforce
    have "rate_inv c ip t (if ok then acc @ [(t, ip')] else acc) tr'"
      using rate_inv_attempt [OF assms(1) _ assms(2,3) chk] inv Attempt by simp
    from Cons.IH [OF this] s Attempt chk show ?thesis by simp
  next
    case (Cleanup t)
    with inv have "rate_inv c ip t acc (cleanup_rate_limit_entries t (Some c) tr)"
      by (simp add: rate_inv_cleanup assms(1))
    from Cons.IH [OF this] s Cleanup show ?thesis by simp
  qed
qed

section \<open>Properties\<close>

text \<open>C18: with the rate limit enabled, whatever attempts from whatever addresses and periodic
  cleanups happen in time order, no window of the configured length ever contains more
  admitted connections of one address than the configured maximum.\<close>

theorem rate_limit_window_bound:
  assumes "rate_limit_enabled c" and "ip \<noteq> []" and "ip \<noteq> ''unknown''"
    and "sorted (map event_time es)"
  shows "length (in_window (duration_seconds (rate_limit_window_seconds c)) t
           (admitted_times ip (fst (rate_run c es [] Map.empty))))
         \<le> unat (rate_limit_max_connections c)"
proof (cases es)
  case Nil
  then show ?thesis by (simp add: admitted_times_def in_window_def)
next
  case (Cons e es')
  have "rate_inv c ip (event_time e) [] Map.empty"
    by (simp add: rate_inv_def Let_def admitted_times_def in_window_def drop_before_def)
  then have "\<exists>now'. rate_inv c ip now' (fst (rate_run c es [] Map.empty)) (snd (rate_run c es [] Map.empty))"
    using assms Cons by (intro rate_run_inv) auto
  then show ?thesis by (auto simp: rate_inv_def Let_def)
qed

definition example_limits :: Config where
  "example_limits = default_config
     \<lparr>rate_limit_enabled := True, rate_limit_max_connections := 2, rate_limit_window_seconds := 1\<rparr>"

theorem rate_limit_window_bound_witness:
  "fst (rate_run example_limits
      [Attempt 0 ''a'', Attempt 5 ''a'', Attempt 9 ''a'', Cleanup 1000000001, Attempt 1000000002 ''a'']
      [] Map.empty) = [(0, ''a''), (5, ''a''), (1000000002, ''a'')] \<and>
   length (in_window 1000000000 10 [0, 5, 1000000002]) \<le> 2"
proof -
  let ?es = "[Attempt 0 ''a'', Attempt 5 ''a'', Attempt 9 ''a'', Cleanup 1000000001, Attempt 1000000002 ''a'']"
  have run: "fst (rate_run example_limits ?es [] Map.empty) = [(0, ''a''), (5, ''a''), (1000000002, ''a'')]"
    by (simp add: example_limits_def default_config_def check_rate_limit_def cleanup_rate_limit_entries_def
        Let_def drop_before_def duration_seconds_def)
  show ?thesis
    using rate_limit_window_bound [of example_limits "''a''" ?es 10] run
    by (simp add: example_limits_def default_config_def admitted_times_def duration_seconds_def)
qed

text \<open>The rate limit never refuses an address that has room: an attempt is refused exactly
  when the limit is enabled, the address is known, and at least the maximum number of
  recorded admissions lies within the window; a refusal records nothing new.\<close>

theorem rate_limit_refuses_only_when_full:
  "fst (check_rate_limit now ip (Some c) tr) =
     (\<not> (rate_limit_enabled c \<and> ip \<noteq> [] \<and> ip \<noteq> ''unknown'' \<and>
         unat (rate_limit_max_connections c) \<le>
         length (filter (\<lambda>x. now - duration_seconds (rate_limit_window_seconds c) \<le> x) (tracked tr ip)))) \<and>
   set (tracked (snd (check_rate_limit now ip (Some c) tr)) ip) \<subseteq>
     (if fst (check_rate_limit now ip (Some c) tr) then insert now (set (tracked tr ip)) else set (tracked tr ip))"
  by (auto simp: check_rate_limit_def Let_def drop_before_def not_less split: option.splits)

text \<open>The IP filter lets an address through exactly when it is not blacklisted and, if there
  is a whitelist, is on it; the blacklist wins over the whitelist, and an empty address or a
  missing configuration is always let through.\<close>

theorem ip_filter_blacklist_wins:
  "is_ip_allowed ip (Some c) =
     (ip = [] \<or> (ip \<notin> set (ip_blacklist c) \<and> (ip_whitelist c = [] \<or> ip \<in> set (ip_whitelist c)))) \<and>
   is_ip_allowed ip None"
  by (auto simp: is_ip_allowed_def list_ex_iff)

end
