(* ===== verification/Metrics.thy ===== *)
theory Metrics
  imports LB_Prelude
begin

text \<open>
  \<^verbatim>\<open>metrics/metrics.h\<close>, \<^verbatim>\<open>metrics/metrics.cpp\<close>: the process-wide counters, at 64 bits, and
  their Prometheus rendering. A latency is given in microseconds: the callers divide an
  integral microsecond count by 1000.0, and comparing that quotient with an integral bucket
  bound is comparing the microseconds with a thousand times the bound. The accumulated
  \<open>double\<close> sum is kept as the list of the terms added to it; its decimal rendering is an
  argument of \<open>export_prometheus\<close>.
\<close>

record Metrics =
  connections_total :: u64
  connections_active :: u64
  backend_routes_failed :: u64
  overload_drops :: u64
  request_timeouts :: u64
  rate_limit_drops :: u64
  queue_drops :: u64
  memory_budget_drops :: u64
  bad_requests :: u64
  backpressure_events :: u64
  backpressure_timeouts :: u64
  backpressure_active :: u64
  memory_budget_used :: u64
  memory_budget_limit :: u64
  bytes_in :: u64
  bytes_out :: u64
  latency_bucket_counts :: "u64 list"
  latency_count :: u64
  latency_sum_terms :: "nat list"
  backend_routed :: "(string \<times> u64) list"
  backend_failures :: "(string \<times> u64) list"

definition new_metrics :: Metrics where
  "new_metrics = \<lparr>
     connections_total = 0,
     connections_active = 0,
     backend_routes_failed = 0,
     overload_drops = 0,
     request_timeouts = 0,
     rate_limit_drops = 0,
     queue_drops = 0,
     memory_budget_drops = 0,
     bad_requests = 0,
     backpressure_events = 0,
     backpressure_timeouts = 0,
     backpressure_active = 0,
     memory_budget_used = 0,
     memory_budget_limit = 0,
     bytes_in = 0,
     bytes_out = 0,
     latency_bucket_counts = replicate 11 0, latency_count = 0, latency_sum_terms = [],
     backend_routed = [], backend_failures = []\<rparr>"

definition increment_connections_total :: "Metrics \<Rightarrow> Metrics" where
  "increment_connections_total m = m\<lparr>connections_total := connections_total m + 1\<rparr>"

definition increment_connections_active :: "Metrics \<Rightarrow> Metrics" where
  "increment_connections_active m = m\<lparr>connections_active := connections_active m + 1\<rparr>"

definition increment_backend_routes_failed :: "Metrics \<Rightarrow> Metrics" where
  "increment_backend_routes_failed m = m\<lparr>backend_routes_failed := backend_routes_failed m + 1\<rparr>"

definition increment_overload_drops :: "Metrics \<Rightarrow> Metrics" where
  "increment_overload_drops m = m\<lparr>overload_drops := overload_drops m + 1\<rparr>"

definition increment_request_timeouts :: "Metrics \<Rightarrow> Metrics" where
  "increment_request_timeouts m = m\<lparr>request_timeouts := request_timeouts m + 1\<rparr>"

definition increment_rate_limit_drops :: "Metrics \<Rightarrow> Metrics" where
  "increment_rate_limit_drops m = m\<lparr>rate_limit_drops := rate_limit_drops m + 1\<rparr>"

definition increment_queue_drops :: "Metrics \<Rightarrow> Metrics" where
  "increment_queue_drops m = m\<lparr>queue_drops := queue_drops m + 1\<rparr>"

definition increment_memory_budget_drops :: "Metrics \<Rightarrow> Metrics" where
  "increment_memory_budget_drops m = m\<lparr>memory_budget_drops := memory_budget_drops m + 1\<rparr>"

definition increment_bad_requests :: "Metrics \<Rightarrow> Metrics" where
  "increment_bad_requests m = m\<lparr>bad_requests := bad_requests m + 1\<rparr>"

definition increment_backpressure_events :: "Metrics \<Rightarrow> Metrics" where
  "increment_backpressure_events m = m\<lparr>backpressure_events := backpressure_events m + 1\<rparr>"

definition increment_backpressure_timeouts :: "Metrics \<Rightarrow> Metrics" where
  "increment_backpressure_timeouts m = m\<lparr>backpressure_timeouts := backpressure_timeouts m + 1\<rparr>"

definition increment_backpressure_active :: "Metrics \<Rightarrow> Metrics" where
  "increment_backpressure_active m = m\<lparr>backpressure_active := backpressure_active m + 1\<rparr>"

definition decrement_connections_active :: "Metrics \<Rightarrow> Metrics" where
  "decrement_connections_active m = m\<lparr>connections_active := connections_active m - 1\<rparr>"

definition decrement_backpressure_active :: "Metrics \<Rightarrow> Metrics" where
  "decrement_backpressure_active m =
     (if backpressure_active m > 0
      then m\<lparr>backpressure_active := backpressure_active m - 1\<rparr> else m)"

definition bump :: "string \<Rightarrow> (string \<times> u64) list \<Rightarrow> (string \<times> u64) list" where
  "bump k t = AList.update k ((case map_of t k of None \<Rightarrow> 0 | Some v \<Rightarrow> v) + 1) t"

definition increment_backend_routed :: "string \<Rightarrow> Metrics \<Rightarrow> Metrics" where
  "increment_backend_routed b m = m\<lparr>backend_routed := bump b (backend_routed m)\<rparr>"

definition increment_backend_failures :: "string \<Rightarrow> Metrics \<Rightarrow> Metrics" where
  "increment_backend_failures b m = m\<lparr>backend_failures := bump b (backend_failures m)\<rparr>"

definition get_backend_routed :: "string \<Rightarrow> Metrics \<Rightarrow> u64" where
  "get_backend_routed b m = (case map_of (backend_routed m) b of None \<Rightarrow> 0 | Some v \<Rightarrow> v)"

definition get_backend_failures :: "string \<Rightarrow> Metrics \<Rightarrow> u64" where
  "get_backend_failures b m = (case map_of (backend_failures m) b of None \<Rightarrow> 0 | Some v \<Rightarrow> v)"

definition set_memory_budget_used :: "u64 \<Rightarrow> Metrics \<Rightarrow> Metrics" where
  "set_memory_budget_used b m = m\<lparr>memory_budget_used := b\<rparr>"

definition set_memory_budget_limit :: "u64 \<Rightarrow> Metrics \<Rightarrow> Metrics" where
  "set_memory_budget_limit b m = m\<lparr>memory_budget_limit := b\<rparr>"

definition add_bytes_in :: "u64 \<Rightarrow> Metrics \<Rightarrow> Metrics" where
  "add_bytes_in b m = m\<lparr>bytes_in := bytes_in m + b\<rparr>"

definition add_bytes_out :: "u64 \<Rightarrow> Metrics \<Rightarrow> Metrics" where
  "add_bytes_out b m = m\<lparr>bytes_out := bytes_out m + b\<rparr>"

subsection \<open>The latency histogram\<close>

definition LATENCY_BUCKETS :: "nat list" where
  "LATENCY_BUCKETS = [1, 5, 10, 25, 50, 100, 250, 500, 1000, 5000]"

fun bump_buckets :: "nat \<Rightarrow> nat list \<Rightarrow> u64 list \<Rightarrow> u64 list" where
  "bump_buckets us [] cs = cs"
| "bump_buckets us (b # bs) [] = []"
| "bump_buckets us (b # bs) (c # cs) =
     (if us \<le> 1000 * b then c + 1 else c) # bump_buckets us bs cs"

definition record_request_latency :: "nat \<Rightarrow> Metrics \<Rightarrow> Metrics" where
  "record_request_latency us m =
     (let cs = bump_buckets us LATENCY_BUCKETS (latency_bucket_counts m);
          n = length LATENCY_BUCKETS
      in m\<lparr>latency_bucket_counts := cs[n := cs ! n + 1],
           latency_count := latency_count m + 1,
           latency_sum_terms := latency_sum_terms m @ [us]\<rparr>)"

subsection \<open>The Prometheus rendering\<close>

definition newline :: string where
  "newline = [char_of (10 :: nat)]"

definition quote :: string where
  "quote = [char_of (34 :: nat)]"

definition u64_to_string :: "u64 \<Rightarrow> string" where
  "u64_to_string v = nat_to_string (unat v)"

definition metric_block :: "string \<Rightarrow> string \<Rightarrow> string \<Rightarrow> u64 \<Rightarrow> string" where
  "metric_block name help kind v =
     ''# HELP '' @ name @ '' '' @ help @ newline @
     ''# TYPE '' @ name @ '' '' @ kind @ newline @
     name @ '' '' @ u64_to_string v @ newline @ newline"

fun exported_buckets :: "u64 \<Rightarrow> nat list \<Rightarrow> u64 list \<Rightarrow> (nat \<times> u64) list" where
  "exported_buckets cumulative [] cs = []"
| "exported_buckets cumulative (b # bs) [] = []"
| "exported_buckets cumulative (b # bs) (c # cs) =
     (b, cumulative + c) # exported_buckets (cumulative + c) bs cs"

definition bucket_line :: "nat \<times> u64 \<Rightarrow> string" where
  "bucket_line bv = ''lb_request_duration_ms_bucket{le='' @ quote @ nat_to_string (fst bv) @ ''.000'' @
     quote @ ''} '' @ u64_to_string (snd bv) @ newline"

definition backend_line :: "string \<Rightarrow> string \<times> u64 \<Rightarrow> string" where
  "backend_line name kv =
     name @ ''{backend='' @ quote @ fst kv @ quote @ ''} '' @ u64_to_string (snd kv) @ newline"

definition export_prometheus :: "string \<Rightarrow> Metrics \<Rightarrow> string" where
  "export_prometheus sum_text m =
     metric_block ''lb_connections_total'' ''Total number of connections accepted'' ''counter'' (connections_total m) @
     metric_block ''lb_connections_active'' ''Current number of active connections'' ''gauge'' (connections_active m) @
     metric_block ''lb_backend_routes_failed_total'' ''Connections failed to route to any backend'' ''counter'' (backend_routes_failed m) @
     metric_block ''lb_overload_drops_total'' ''Connections dropped due to overload'' ''counter'' (overload_drops m) @
     metric_block ''lb_request_timeouts_total'' ''Requests that timed out'' ''counter'' (request_timeouts m) @
     metric_block ''lb_rate_limit_drops_total'' ''Connections dropped due to rate limiting'' ''counter'' (rate_limit_drops m) @
     metric_block ''lb_queue_drops_total'' ''Connections dropped due to queue limits/timeouts'' ''counter'' (queue_drops m) @
     metric_block ''lb_memory_budget_drops_total'' ''Connections dropped due to memory budget'' ''counter'' (memory_budget_drops m) @
     metric_block ''lb_memory_budget_used_bytes'' ''Current memory budget usage in bytes'' ''gauge'' (memory_budget_used m) @
     metric_block ''lb_memory_budget_limit_bytes'' ''Memory budget limit in bytes'' ''gauge'' (memory_budget_limit m) @
     metric_block ''lb_bad_requests_total'' ''Invalid HTTP requests (400 Bad Request)'' ''counter'' (bad_requests m) @
     metric_block ''lb_backpressure_events_total'' ''Total number of backpressure events triggered'' ''counter'' (backpressure_events m) @
     metric_block ''lb_backpressure_timeouts_total'' ''Connections closed due to backpressure timeout'' ''counter'' (backpressure_timeouts m) @
     metric_block ''lb_backpressure_active'' ''Current number of connections in backpressure'' ''gauge'' (backpressure_active m) @
     metric_block ''lb_bytes_received_total'' ''Total bytes received from clients'' ''counter'' (bytes_in m) @
     metric_block ''lb_bytes_sent_total'' ''Total bytes sent to clients'' ''counter'' (bytes_out m) @
     ''# HELP lb_request_duration_ms Request latency in milliseconds'' @ newline @
     ''# TYPE lb_request_duration_ms histogram'' @ newline @
     concat (map bucket_line (exported_buckets 0 LATENCY_BUCKETS (latency_bucket_counts m))) @
     ''lb_request_duration_ms_bucket{le='' @ quote @ ''+Inf'' @ quote @ ''} '' @
       u64_to_string (latency_bucket_counts m ! length LATENCY_BUCKETS) @ newline @
     ''lb_request_duration_ms_sum '' @ sum_text @ newline @
     ''lb_request_duration_ms_count '' @ u64_to_string (latency_count m) @ newline @ newline @
     ''# HELP lb_backend_requests_total Total requests routed to backend'' @ newline @
     ''# TYPE lb_backend_requests_total counter'' @ newline @
     concat (map (backend_line ''lb_backend_requests_total'') (backend_routed m)) @ newline @
     ''# HELP lb_backend_errors_total Total backend connection errors'' @ newline @
     ''# TYPE lb_backend_errors_total counter'' @ newline @
     concat (map (backend_line ''lb_backend_errors_total'') (backend_failures m))"

subsection \<open>What the histogram counts\<close>

lemma length_bump_buckets [simp]: "length (bump_buckets us bs cs) = length cs"
  by (induction us bs cs rule: bump_buckets.induct) auto

lemma nth_bump_buckets:
  "i < length cs \<Longrightarrow> bump_buckets us bs cs ! i =
     (if i < length bs \<and> us \<le> 1000 * bs ! i then cs ! i + 1 else cs ! i)"
proof (induction us bs cs arbitrary: i rule: bump_buckets.induct)
  case (3 us b bs c cs)
  then show ?case by (cases i) auto
qed auto

abbreviation observed :: "nat list \<Rightarrow> nat \<Rightarrow> u64" where
  "observed us b \<equiv> of_nat (length (filter (\<lambda>u. u \<le> 1000 * b) us))"

definition hist_ok :: "nat list \<Rightarrow> Metrics \<Rightarrow> bool" where
  "hist_ok us m \<longleftrightarrow>
     latency_bucket_counts m = map (observed us) LATENCY_BUCKETS @ [of_nat (length us)] \<and>
     latency_count m = of_nat (length us) \<and> latency_sum_terms m = us"

lemma bump_buckets_map:
  "bump_buckets u bs (map (observed us) bs @ rest) = map (observed (us @ [u])) bs @ rest"
  by (induction bs) auto

lemma hist_ok_record [lb_invs]: "hist_ok us m \<Longrightarrow> hist_ok (us @ [u]) (record_request_latency u m)"
  by (simp add: hist_ok_def record_request_latency_def Let_def bump_buckets_map nth_append
      list_update_append)

lemma hist_ok_run: "hist_ok us m \<Longrightarrow> hist_ok (us @ vs) (fold record_request_latency vs m)"
proof (induction vs arbitrary: us m)
  case (Cons v vs)
  from Cons.IH [OF hist_ok_record [OF Cons.prems, of v]] show ?case by simp
qed simp

lemma hist_ok_new: "hist_ok [] new_metrics"
  by (simp add: hist_ok_def new_metrics_def LATENCY_BUCKETS_def numeral_eq_Suc)

lemma bump_lookup:
  "map_of (bump k t) k' =
     (if k' = k then Some ((case map_of t k of None \<Rightarrow> 0 | Some v \<Rightarrow> v) + 1) else map_of t k')"
  by (simp add: bump_def update_conv')

section \<open>Properties\<close>

text \<open>Whatever latencies are recorded, each finite bucket holds the number of observations
  not above its bound (so the buckets are already cumulative), the last one and the count
  hold the number of all observations.\<close>

theorem latency_buckets_count_observations:
  "let m = fold record_request_latency us new_metrics in
   latency_bucket_counts m =
     map (\<lambda>b. of_nat (length (filter (\<lambda>u. u \<le> 1000 * b) us))) LATENCY_BUCKETS @ [of_nat (length us)] \<and>
   latency_count m = of_nat (length us)"
  using hist_ok_run [OF hist_ok_new, of us] by (simp add: hist_ok_def Let_def)

text \<open>\<open>export_prometheus\<close> adds the already cumulative buckets up again: after a single
  observation of at most one millisecond it prints the bucket bounds with 1, 2, ..., 10
  observations while the total is 1, so the exported histogram is not the recorded one.\<close>

theorem exported_histogram_double_counts:
  "let m = record_request_latency 700 new_metrics in
   map snd (exported_buckets 0 LATENCY_BUCKETS (latency_bucket_counts m)) =
     [1, 2, 3, 4, 5, 6, 7, 8, 9, 10] \<and>
   latency_count m = 1 \<and> latency_bucket_counts m ! 10 = 1"
  using hist_ok_record [OF hist_ok_new, of 700]
  by (simp add: hist_ok_def LATENCY_BUCKETS_def Let_def)

text \<open>The active-connections gauge is decremented without a guard and wraps below zero to
  2^64 - 1, while the backpressure gauge saturates at zero; a per-backend counter counts its
  own backend only.\<close>

theorem gauges_at_zero:
  "connections_active (decrement_connections_active new_metrics) = - 1 \<and>
   backpressure_active (decrement_backpressure_active new_metrics) = 0 \<and>
   get_backend_routed b (increment_backend_routed a m) =
     get_backend_routed b m + (if a = b then 1 else 0) \<and>
   get_backend_failures b (increment_backend_failures a m) =
     get_backend_failures b m + (if a = b then 1 else 0)"
  by (simp add: decrement_connections_active_def decrement_backpressure_active_def new_metrics_def
      get_backend_routed_def increment_backend_routed_def get_backend_failures_def
      increment_backend_failures_def bump_lookup)

end
