(* ===== verification/Http_Message.thy ===== *)
theory Http_Message
  imports LB_Prelude
begin

text \<open>
  What the request parser (\<^verbatim>\<open>http/http_request.cpp\<close>) and the response parser
  (\<^verbatim>\<open>http/http_response_parser.cpp\<close>) have in common: methods and versions, the header table,
  the splitting of a buffer into lines, the stream extraction and the number conversions of
  the C++ library, and the line loop. The two parser classes have the same members and the
  same loop; \<open>http_parser\<close> is their common state over the message type, and
  \<open>http_loop\<close> takes what is done with the first line as an argument.
\<close>

datatype HttpMethod = GET | POST | PUT | DELETE | PATCH | HEAD | OPTIONS | UNKNOWN_METHOD

datatype HttpVersion = HTTP_1_0 | HTTP_1_1 | HTTP_2_0 | UNKNOWN_VERSION

definition method_from_string :: "string \<Rightarrow> HttpMethod" where
  "method_from_string m =
     (if m = ''GET'' then GET else if m = ''POST'' then POST else if m = ''PUT'' then PUT
      else if m = ''DELETE'' then DELETE else if m = ''PATCH'' then PATCH
      else if m = ''HEAD'' then HEAD else if m = ''OPTIONS'' then OPTIONS else UNKNOWN_METHOD)"

fun method_to_string :: "HttpMethod \<Rightarrow> string" where
  "method_to_string GET = ''GET''"
| "method_to_string POST = ''POST''"
| "method_to_string PUT = ''PUT''"
| "method_to_string DELETE = ''DELETE''"
| "method_to_string PATCH = ''PATCH''"
| "method_to_string HEAD = ''HEAD''"
| "method_to_string OPTIONS = ''OPTIONS''"
| "method_to_string UNKNOWN_METHOD = ''UNKNOWN''"

definition version_from_string :: "string \<Rightarrow> HttpVersion" where
  "version_from_string v =
     (if v = ''HTTP/1.0'' then HTTP_1_0 else if v = ''HTTP/1.1'' then HTTP_1_1
      else if v = ''HTTP/2.0'' \<or> v = ''HTTP/2'' then HTTP_2_0 else UNKNOWN_VERSION)"

fun version_to_string :: "HttpVersion \<Rightarrow> string" where
  "version_to_string HTTP_1_0 = ''HTTP/1.0''"
| "version_to_string HTTP_1_1 = ''HTTP/1.1''"
| "version_to_string HTTP_2_0 = ''HTTP/2.0''"
| "version_to_string UNKNOWN_VERSION = ''HTTP/1.1''"

subsection \<open>Headers\<close>

type_synonym headers = "(string \<times> string) list"

definition get_header_value :: "headers \<Rightarrow> string \<Rightarrow> string" where
  "get_header_value hs name =
     (case map_of hs name of
        Some v \<Rightarrow> v
      | None \<Rightarrow>
          (case find (\<lambda>kv. lower (fst kv) = lower name) hs of
             Some kv \<Rightarrow> snd kv
           | None \<Rightarrow> []))"

subsection \<open>Lines, tokens and numbers\<close>

definition CR :: char where "CR = CHR 0x0D"
definition LF :: char where "LF = CHR 0x0A"
definition TAB :: char where "TAB = CHR 0x09"
definition crlf :: string where "crlf = [CR, LF]"

definition is_eol :: "char \<Rightarrow> bool" where
  "is_eol c \<longleftrightarrow> c = CR \<or> c = LF"

definition isspace :: "char \<Rightarrow> bool" where
  "isspace c \<longleftrightarrow> c = CHR '' '' \<or> (9 \<le> (of_char c :: nat) \<and> (of_char c :: nat) \<le> 13)"

definition is_blank :: "char \<Rightarrow> bool" where
  "is_blank c \<longleftrightarrow> c = CHR '' '' \<or> c = TAB"

text \<open>The line at the front of the buffer and what follows its terminator.\<close>

definition next_line :: "bytes \<Rightarrow> (string \<times> bytes) option" where
  "next_line buf =
     (let line = takeWhile (\<lambda>c. \<not> is_eol c) buf;
          rest = dropWhile (\<lambda>c. \<not> is_eol c) buf
      in case rest of
           [] \<Rightarrow> None
         | a # r \<Rightarrow>
             if a = CR \<and> r \<noteq> [] \<and> hd r = LF then Some (line, tl r)
             else if a = LF then Some (line, r)
             else None)"

text \<open>Extraction of one word from an \<open>std::istringstream\<close>.\<close>

definition next_token :: "string \<Rightarrow> (string \<times> string) option" where
  "next_token s =
     (let s' = strip_front isspace s;
          tok = takeWhile (\<lambda>c. \<not> isspace c) s'
      in if tok = [] then None else Some (tok, dropWhile (\<lambda>c. \<not> isspace c) s'))"

fun digits_value :: "nat \<Rightarrow> string \<Rightarrow> nat" where
  "digits_value acc [] = acc"
| "digits_value acc (c # cs) = (if is_digit c then digits_value (acc * 10 + digit_val c) cs else acc)"

text \<open>
  \<open>std::stoul\<close> and \<open>std::stoi\<close> with base 10: leading white space, an optional sign, at
  least one digit, anything after the digits ignored; \<open>None\<close> where they throw. A negative
  number is negated in 64 bits by \<open>strtoul\<close>.
\<close>

definition split_sign :: "string \<Rightarrow> bool \<times> string" where
  "split_sign s =
     (case s of
        c # cs \<Rightarrow> if c = CHR ''-'' then (True, cs) else if c = CHR ''+'' then (False, cs) else (False, s)
      | [] \<Rightarrow> (False, []))"

definition stoul :: "string \<Rightarrow> nat option" where
  "stoul s =
     (let (neg, t) = split_sign (strip_front isspace s) in
      if t = [] \<or> \<not> is_digit (hd t) then None
      else let v = digits_value 0 t in
           if v \<ge> 2 ^ 64 then None
           else Some (if neg then (2 ^ 64 - v) mod 2 ^ 64 else v))"

definition stoi :: "string \<Rightarrow> int option" where
  "stoi s =
     (let (neg, t) = split_sign (strip_front isspace s) in
      if t = [] \<or> \<not> is_digit (hd t) then None
      else let v = (if neg then - int (digits_value 0 t) else int (digits_value 0 t)) in
           if v < - (2 ^ 31) \<or> v \<ge> 2 ^ 31 then None else Some v)"

subsection \<open>The parser state and its loop\<close>

datatype ParseState = FIRST_LINE | HEADERS | BODY | COMPLETE | ERROR

record 'm http_parser =
  message :: 'm
  pstate :: ParseState
  has_error :: bool
  error_message :: string
  content_length :: nat

definition new_parser :: "'m \<Rightarrow> 'm http_parser" where
  "new_parser m =
     \<lparr>message = m, pstate = FIRST_LINE, has_error = False, error_message = [], content_length = 0\<rparr>"

definition fail_with :: "string \<Rightarrow> 'm http_parser \<Rightarrow> 'm http_parser" where
  "fail_with msg p = p\<lparr>has_error := True, error_message := msg\<rparr>"

text \<open>
  One header line; \<open>put\<close> stores a header in the message. The first component is what the
  C++ function returns.
\<close>

definition parse_header ::
    "(string \<Rightarrow> string \<Rightarrow> 'm \<Rightarrow> 'm) \<Rightarrow> string \<Rightarrow> 'm http_parser \<Rightarrow> bool \<times> 'm http_parser" where
  "parse_header put line p =
     (case find_char CHR '':'' line of
        None \<Rightarrow> (False, fail_with ''Invalid header format'' p)
      | Some colon_pos \<Rightarrow>
          let name = take colon_pos line;
              value = strip_back is_blank (strip_front is_blank (drop (colon_pos + 1) line));
              p' = p\<lparr>message := put name value (message p)\<rparr>
          in if name = ''Content-Length'' \<or> name = ''content-length''
             then (case stoul value of
                     Some n \<Rightarrow> (True, p'\<lparr>content_length := n\<rparr>)
                   | None \<Rightarrow> (False, fail_with ''Invalid Content-Length'' p'))
             else (True, p'))"

text \<open>
  The line loop over the unread rest of the buffer; \<open>pos\<close> counts the bytes already
  consumed. \<open>Inl\<close> is a \<open>return false\<close> of the C++ function, \<open>Inr\<close> leaves the loop.
\<close>

function http_loop ::
    "(string \<Rightarrow> 'm http_parser \<Rightarrow> bool \<times> 'm http_parser) \<Rightarrow> (string \<Rightarrow> string \<Rightarrow> 'm \<Rightarrow> 'm) \<Rightarrow>
     bytes \<Rightarrow> nat \<Rightarrow> 'm http_parser \<Rightarrow> ('m http_parser \<times> nat) + ('m http_parser \<times> nat)" where
  "http_loop first put rest pos p =
     (if pstate p = FIRST_LINE \<or> pstate p = HEADERS then
        (case next_line rest of
           None \<Rightarrow> Inl (p, pos)
         | Some (line, rest') \<Rightarrow>
             let pos' = pos + (length rest - length rest') in
             if pstate p = FIRST_LINE then
               (case first line p of
                  (False, p') \<Rightarrow> Inl (p', pos')
                | (True, p') \<Rightarrow> http_loop first put rest' pos' (p'\<lparr>pstate := HEADERS\<rparr>))
             else if line = [] then Inr (p\<lparr>pstate := BODY\<rparr>, pos')
             else
               (case parse_header put line p of
                  (False, p') \<Rightarrow> Inl (p', pos')
                | (True, p') \<Rightarrow> http_loop first put rest' pos' p'))
      else Inr (p, pos))"
  by pat_completeness auto

lemma next_line_shorter: "next_line buf = Some (line, rest) \<Longrightarrow> length rest < length buf"
proof -
  assume a: "next_line buf = Some (line, rest)"
  have "length (dropWhile (\<lambda>c. \<not> is_eol c) buf) \<le> length buf"
    by (rule length_dropWhile_le)
  with a show ?thesis
    by (cases "dropWhile (\<lambda>c. \<not> is_eol c) buf") (auto simp: next_line_def Let_def split: if_splits)
qed

termination http_loop
  by (relation "measure (\<lambda>(first, put, rest, pos, p). length rest)") (auto dest: next_line_shorter)

declare http_loop.simps [simp del]

subsection \<open>Lines and tokens of well-formed text\<close>

lemma eol_chars [simp]:
  "is_eol CR" "is_eol LF" "CR \<noteq> LF" "LF \<noteq> CR" "\<not> is_eol CHR '':''" "\<not> is_eol CHR '' ''"
  by (simp_all add: is_eol_def CR_def LF_def)

lemma next_line_crlf:
  assumes "\<forall>c \<in> set line. \<not> is_eol c"
  shows "next_line (line @ crlf @ rest) = Some (line, rest)"
proof -
  have "takeWhile (\<lambda>c. \<not> is_eol c) (line @ CR # LF # rest) = line"
    and "dropWhile (\<lambda>c. \<not> is_eol c) (line @ CR # LF # rest) = CR # LF # rest"
    using assms by (simp_all add: takeWhile_append takeWhile_eq_all_conv [THEN iffD2] dropWhile_append1 dropWhile_append2)
  then show ?thesis by (simp add: next_line_def Let_def crlf_def)
qed

lemma next_token_word:
  assumes "tok \<noteq> []" and "\<forall>c \<in> set tok. \<not> isspace c" and "rest = [] \<or> isspace (hd rest)"
    and "\<forall>c \<in> set pre. isspace c"
  shows "next_token (pre @ tok @ rest) = Some (tok, rest)"
proof -
  have "strip_front isspace (tok @ rest) = tok @ rest"
    using assms by (intro strip_front_id) (cases tok; auto)
  then have "strip_front isspace (pre @ tok @ rest) = tok @ rest"
    using assms(4) by (induction pre) auto
  moreover have "takeWhile (\<lambda>c. \<not> isspace c) (tok @ rest) = tok"
    and "dropWhile (\<lambda>c. \<not> isspace c) (tok @ rest) = rest"
    using assms(2,3) by (cases rest; simp add: takeWhile_append dropWhile_append3 takeWhile_eq_all_conv [THEN iffD2])+
  ultimately show ?thesis using assms(1) by (simp add: next_token_def Let_def)
qed

lemma digits_value_append:
  "\<forall>c \<in> set s. is_digit c \<Longrightarrow> digits_value acc (s @ t) = digits_value (digits_value acc s) t"
  by (induction s arbitrary: acc) auto

lemma digits_value_nat_to_string: "digits_value 0 (nat_to_string n) = n"
proof (induction n rule: nat_to_string.induct)
  case (1 n)
  show ?case
  proof (cases "n < 10")
    case True
    then show ?thesis
      by (subst nat_to_string.simps) (simp add: digit_char_is_digit digit_val_digit_char)
  next
    case False
    with 1 show ?thesis
      by (subst nat_to_string.simps)
         (simp add: digits_value_append nat_to_string_digits digit_char_is_digit digit_val_digit_char)
  qed
qed

lemma hd_nat_to_string_digit: "is_digit (hd (nat_to_string n))"
  using nat_to_string_digits [of n] by (cases "nat_to_string n") auto

lemma digit_not_special: "is_digit c \<Longrightarrow> \<not> isspace c \<and> c \<noteq> CHR ''-'' \<and> c \<noteq> CHR ''+'' \<and> \<not> is_blank c \<and> \<not> is_eol c"
  by (auto simp: is_digit_def isspace_def is_blank_def TAB_def is_eol_def CR_def LF_def)

lemma strip_front_digits: "strip_front isspace (nat_to_string n) = nat_to_string n"
  using hd_nat_to_string_digit [of n] digit_not_special by (intro strip_front_id) blast

lemma split_sign_digits: "split_sign (nat_to_string n) = (False, nat_to_string n)"
  using hd_nat_to_string_digit [of n] digit_not_special
  by (cases "nat_to_string n") (auto simp: split_sign_def)

lemma stoul_nat_to_string: "n < 2 ^ 64 \<Longrightarrow> stoul (nat_to_string n) = Some n"
  by (simp add: stoul_def strip_front_digits split_sign_digits hd_nat_to_string_digit
      digits_value_nat_to_string)

lemma stoi_nat_to_string: "n < 2 ^ 31 \<Longrightarrow> stoi (nat_to_string n) = Some (int n)"
  by (simp add: stoi_def strip_front_digits split_sign_digits hd_nat_to_string_digit
      digits_value_nat_to_string Let_def)

lemma method_roundtrip: "m \<noteq> UNKNOWN_METHOD \<Longrightarrow> method_from_string (method_to_string m) = m"
  by (cases m) (simp_all add: method_from_string_def)

lemma version_roundtrip: "v \<noteq> UNKNOWN_VERSION \<Longrightarrow> version_from_string (version_to_string v) = v"
  by (cases v) (simp_all add: version_from_string_def)

subsection \<open>Printed header blocks are read back\<close>

definition header_line :: "string \<times> string \<Rightarrow> string" where
  "header_line kv = fst kv @ '': '' @ snd kv @ crlf"

definition is_content_length :: "string \<Rightarrow> bool" where
  "is_content_length name \<longleftrightarrow> name = ''Content-Length'' \<or> name = ''content-length''"

text \<open>
  A header that survives printing and parsing: no line break in it, no colon in the name,
  no blank at either end of the value, and a readable number in a content length.
\<close>

definition header_ok :: "string \<times> string \<Rightarrow> bool" where
  "header_ok kv \<longleftrightarrow>
     (\<forall>c \<in> set (fst kv) \<union> set (snd kv). \<not> is_eol c) \<and> CHR '':'' \<notin> set (fst kv) \<and>
     (snd kv = [] \<or> \<not> is_blank (hd (snd kv)) \<and> \<not> is_blank (last (snd kv))) \<and>
     (is_content_length (fst kv) \<longrightarrow> stoul (snd kv) \<noteq> None)"

definition declared_length :: "headers \<Rightarrow> nat \<Rightarrow> nat" where
  "declared_length hs n = fold (\<lambda>kv m. if is_content_length (fst kv) then the (stoul (snd kv)) else m) hs n"

definition store_headers :: "(string \<Rightarrow> string \<Rightarrow> 'm \<Rightarrow> 'm) \<Rightarrow> headers \<Rightarrow> 'm \<Rightarrow> 'm" where
  "store_headers put hs m = fold (\<lambda>kv. put (fst kv) (snd kv)) hs m"

lemma is_blank_space [simp]: "is_blank CHR '' ''"
  by (simp add: is_blank_def)

lemma strip_value:
  assumes "v = [] \<or> \<not> is_blank (hd v) \<and> \<not> is_blank (last v)"
  shows "strip_back is_blank (strip_front is_blank (CHR '' '' # v)) = v"
  using assms strip_front_id [of v is_blank] strip_back_id [of v is_blank] by auto

lemma parse_header_line:
  assumes "header_ok kv"
  shows "parse_header put (fst kv @ '': '' @ snd kv) p =
    (True, p\<lparr>message := put (fst kv) (snd kv) (message p),
            content_length := (if is_content_length (fst kv) then the (stoul (snd kv)) else content_length p)\<rparr>)"
proof -
  obtain n v where kv: "kv = (n, v)" by (cases kv)
  have "find_char CHR '':'' (n @ CHR '':'' # CHR '' '' # v) = Some (length n)"
    using assms kv by (intro find_char_append_first) (simp add: header_ok_def)
  moreover have "strip_back is_blank (strip_front is_blank (CHR '' '' # v)) = v"
    using assms kv by (intro strip_value) (simp add: header_ok_def)
  ultimately show ?thesis
    using assms kv by (auto simp: parse_header_def header_ok_def is_content_length_def Let_def)
qed

lemma http_loop_headers:
  assumes "\<forall>kv \<in> set hs. header_ok kv" and "pstate p = HEADERS"
  shows "http_loop first put (concat (map header_line hs) @ crlf @ rest) pos p =
    Inr (p\<lparr>message := store_headers put hs (message p),
           content_length := declared_length hs (content_length p), pstate := BODY\<rparr>,
         pos + length (concat (map header_line hs)) + 2)"
  using assms
proof (induction hs arbitrary: p pos)
  case Nil
  have "next_line (crlf @ rest) = Some ([], rest)" using next_line_crlf [of "[]" rest] by simp
  with Nil show ?case
    by (subst http_loop.simps) (simp add: store_headers_def declared_length_def crlf_def)
next
  case (Cons kv hs)
  let ?line = "fst kv @ '': '' @ snd kv"
  let ?rest = "concat (map header_line hs) @ crlf @ rest"
  from Cons.prems have ok: "header_ok kv" by simp
  then have "\<forall>c \<in> set ?line. \<not> is_eol c"
    by (auto simp: header_ok_def)
  then have line: "next_line (concat (map header_line (kv # hs)) @ crlf @ rest) = Some (?line, ?rest)"
    using next_line_crlf [of ?line ?rest] by (simp add: header_line_def)
  have len: "length (concat (map header_line (kv # hs)) @ crlf @ rest) - length ?rest = length (header_line kv)"
    by simp
  let ?p = "p\<lparr>message := put (fst kv) (snd kv) (message p),
      content_length := (if is_content_length (fst kv) then the (stoul (snd kv)) else content_length p)\<rparr>"
  have "http_loop first put (concat (map header_line (kv # hs)) @ crlf @ rest) pos p =
      http_loop first put ?rest (pos + length (header_line kv)) ?p"
    using Cons.prems(2) parse_header_line [OF ok, of put p]
    by (subst http_loop.simps) (simp only: line len option.case prod.case Let_def ParseState.distinct
        if_True if_False simp_thms list.distinct append_is_Nil_conv bool.case)
  also have "\<dots> = Inr (?p\<lparr>message := store_headers put hs (message ?p),
           content_length := declared_length hs (content_length ?p), pstate := BODY\<rparr>,
         pos + length (header_line kv) + length (concat (map header_line hs)) + 2)"
    using Cons.prems by (intro Cons.IH) simp_all
  finally show ?case by (simp add: store_headers_def declared_length_def)
qed

lemma fold_update_distinct:
  assumes "distinct (map fst (hs0 @ hs))"
  shows "fold (\<lambda>kv t. AList.update (fst kv) (snd kv) t) hs hs0 = hs0 @ hs"
  using assms
proof (induction hs arbitrary: hs0)
  case (Cons kv hs)
  have "AList.update (fst kv) (snd kv) hs0 = hs0 @ [kv]"
    using Cons.prems by (induction hs0) auto
  with Cons.IH [of "hs0 @ [kv]"] Cons.prems show ?case by simp
qed simp

text \<open>The steps of the loop, one equation per branch.\<close>

lemma http_loop_stop: "pstate p \<noteq> FIRST_LINE \<Longrightarrow> pstate p \<noteq> HEADERS \<Longrightarrow> http_loop first put rest pos p = Inr (p, pos)"
  by (subst http_loop.simps) simp

lemma http_loop_more:
  "pstate p = FIRST_LINE \<or> pstate p = HEADERS \<Longrightarrow> next_line rest = None \<Longrightarrow>
   http_loop first put rest pos p = Inl (p, pos)"
  by (subst http_loop.simps) auto

lemma http_loop_first:
  assumes "pstate p = FIRST_LINE" and "next_line rest = Some (line, rest')" and "first line p = (ok, p')"
  shows "http_loop first put rest pos p =
    (if ok then http_loop first put rest' (pos + (length rest - length rest')) (p'\<lparr>pstate := HEADERS\<rparr>)
     else Inl (p', pos + (length rest - length rest')))"
  using assms by (subst http_loop.simps) (simp add: Let_def)

lemma http_loop_blank:
  assumes "pstate p = HEADERS" and "next_line rest = Some ([], rest')"
  shows "http_loop first put rest pos p = Inr (p\<lparr>pstate := BODY\<rparr>, pos + (length rest - length rest'))"
  using assms by (subst http_loop.simps) (simp add: Let_def)

lemma http_loop_header:
  assumes "pstate p = HEADERS" and "next_line rest = Some (line, rest')" and "line \<noteq> []"
    and "parse_header put line p = (ok, p')"
  shows "http_loop first put rest pos p =
    (if ok then http_loop first put rest' (pos + (length rest - length rest')) p'
     else Inl (p', pos + (length rest - length rest')))"
  using assms by (subst http_loop.simps) (simp add: Let_def)

text \<open>A buffer that ends before the end of a printed header block: the loop stops there, without an error.\<close>

lemma next_line_cut:
  assumes "\<forall>c \<in> set line. \<not> is_eol c" and "m < length line + 2"
  shows "next_line (take m (line @ crlf @ rest)) = None"
proof (cases "m \<le> length line")
  case True
  have "\<forall>c \<in> set (take m line). \<not> is_eol c" using assms(1) by (meson in_set_takeD)
  then have none: "dropWhile (\<lambda>c. \<not> is_eol c) (take m line) = []" by (simp add: dropWhile_eq_Nil_conv)
  have "take m (line @ crlf @ rest) = take m line" using True by simp
  then show ?thesis by (simp only: next_line_def Let_def none list.case)
next
  case False
  then have "m = length line + 1" using assms(2) by simp
  then have cut: "take m (line @ crlf @ rest) = line @ [CR]" by (simp add: crlf_def)
  have "dropWhile (\<lambda>c. \<not> is_eol c) (line @ [CR]) = [CR]" using assms(1) by (simp add: dropWhile_append2)
  then show ?thesis unfolding cut by (simp add: next_line_def Let_def)
qed

lemma http_loop_cut:
  assumes "\<forall>kv \<in> set hs. header_ok kv" and "pstate p = HEADERS" and "m < length (concat (map header_line hs)) + 2"
  shows "\<exists>p' c. http_loop first put (take m (concat (map header_line hs) @ crlf @ rest)) pos p = Inl (p', c) \<and>
    pstate p' = HEADERS \<and> has_error p' = has_error p"
  using assms
proof (induction hs arbitrary: p pos m)
  case Nil
  then have "next_line (take m (crlf @ rest)) = None" using next_line_cut [of "[]" m rest] by simp
  then show ?case using Nil.prems(2) by (simp add: http_loop_more)
next
  case (Cons kv hs)
  let ?line = "fst kv @ '': '' @ snd kv"
  let ?rest = "concat (map header_line hs) @ crlf @ rest"
  have ok: "header_ok kv" using Cons.prems(1) by simp
  then have eol: "\<forall>c \<in> set ?line. \<not> is_eol c" by (auto simp: header_ok_def)
  have block: "concat (map header_line (kv # hs)) @ crlf @ rest = ?line @ crlf @ ?rest" by (simp add: header_line_def)
  have len: "length (header_line kv) = length ?line + 2" by (simp add: header_line_def crlf_def)
  show ?case
  proof (cases "m < length ?line + 2")
    case True
    then have "next_line (take m (?line @ crlf @ ?rest)) = None" by (rule next_line_cut [OF eol])
    then show ?thesis using Cons.prems(2) unfolding block by (simp only: http_loop_more simp_thms) blast
  next
    case False
    define m' where "m' = m - (length ?line + 2)"
    have "length (?line @ crlf) \<le> m" using False by (simp add: crlf_def)
    then have cut: "take m (?line @ crlf @ ?rest) = ?line @ crlf @ take m' ?rest"
      using take_append [of m "?line @ crlf" ?rest] by (simp add: m'_def crlf_def)
    let ?p = "p\<lparr>message := put (fst kv) (snd kv) (message p),
      content_length := (if is_content_length (fst kv) then the (stoul (snd kv)) else content_length p)\<rparr>"
    have "m' < length (concat (map header_line hs)) + 2"
      using Cons.prems(3) False len by (simp add: m'_def)
    from Cons.IH [OF _ _ this, of ?p] Cons.prems(1,2)
    have IH: "\<exists>p' c. http_loop first put (take m' ?rest) pos' ?p = Inl (p', c) \<and> pstate p' = HEADERS \<and> has_error p' = has_error p" for pos'
      by fastforce
    have "http_loop first put (?line @ crlf @ take m' ?rest) pos p =
        http_loop first put (take m' ?rest) (pos + (length (?line @ crlf @ take m' ?rest) - length (take m' ?rest))) ?p"
      using http_loop_header [OF Cons.prems(2) next_line_crlf [OF eol] _ parse_header_line [OF ok]]
      by (metis (no_types, lifting) append_is_Nil_conv list.distinct(1))
    then show ?thesis unfolding block cut using IH by metis
  qed
qed

text \<open>The loop consumes no more than the buffer holds, and leaves with the headers read.\<close>

definition loop_end_ok :: "nat \<Rightarrow> ('m http_parser \<times> nat) + ('m http_parser \<times> nat) \<Rightarrow> bool" where
  "loop_end_ok bound r =
     (case r of
        Inl (p, n) \<Rightarrow> n \<le> bound \<and> (pstate p = FIRST_LINE \<or> pstate p = HEADERS)
      | Inr (p, n) \<Rightarrow> n \<le> bound \<and> pstate p \<noteq> FIRST_LINE \<and> pstate p \<noteq> HEADERS)"

lemma parse_header_no_colon:
  assumes "CHR '':'' \<notin> set line"
  shows "parse_header put line p = (False, fail_with ''Invalid header format'' p)"
proof -
  have "find_char CHR '':'' line = None" using assms by (simp add: find_char_None_iff)
  then show ?thesis by (simp add: parse_header_def)
qed

lemma parse_header_pstate: "pstate (snd (parse_header put line p)) = pstate p"
  by (auto simp: parse_header_def fail_with_def Let_def split: option.splits)

lemma http_loop_consumes:
  assumes "\<And>line q. pstate (snd (first line q)) = pstate q"
  shows "loop_end_ok (pos + length rest) (http_loop first put rest pos p)"
proof (induction "length rest" arbitrary: rest pos p rule: less_induct)
  case less
  show ?case
  proof (cases "next_line rest")
    case None
    then show ?thesis
      by (cases "pstate p = FIRST_LINE \<or> pstate p = HEADERS")
         (auto simp: http_loop_more http_loop_stop loop_end_ok_def)
  next
    case (Some lr)
    then obtain line rest' where nl: "next_line rest = Some (line, rest')" by (cases lr) auto
    then have short: "length rest' < length rest" by (rule next_line_shorter)
    then have IH: "loop_end_ok (pos + length rest)
        (http_loop first put rest' (pos + (length rest - length rest')) q)" for q
      using less [OF short, of "pos + (length rest - length rest')" q] by simp
    consider "pstate p = FIRST_LINE" | "pstate p = HEADERS" "line = []" | "pstate p = HEADERS" "line \<noteq> []"
      | "pstate p \<noteq> FIRST_LINE" "pstate p \<noteq> HEADERS" by blast
    then show ?thesis
    proof cases
      case 1
      obtain ok p' where f: "first line p = (ok, p')" by fastforce
      with IH assms [of line p] 1 show ?thesis
        by (simp add: http_loop_first [where first = first, OF 1 nl f] loop_end_ok_def)
    next
      case 2
      with nl show ?thesis by (simp add: http_loop_blank loop_end_ok_def)
    next
      case 3
      obtain ok p' where h: "parse_header put line p = (ok, p')" by fastforce
      with IH parse_header_pstate [of put line p] 3 show ?thesis
        by (simp add: http_loop_header [OF 3(1) nl 3(2) h] loop_end_ok_def)
    next
      case 4
      then show ?thesis by (simp add: http_loop_stop loop_end_ok_def)
    qed
  qed
qed

end
