(* ===== verification/Metrics_Server.thy ===== *)
theory Metrics_Server
  imports Metrics Http_Message
begin

text \<open>
  \<^verbatim>\<open>metrics/metrics_server.cpp\<close>: the small HTTP server for the metrics. What the kernel answers
  is an argument: the results of the calls that set up the listener, the answers of \<open>recv\<close> and
  \<open>send\<close> on one client, and for the loop, one entry for each turn. A list of answers that ends
  while the code still waits means that it is still waiting: the value is then \<open>None\<close>.
\<close>

section \<open>State, start and stop\<close>

record MetricsServer =
  ms_port :: u16
  ms_listener :: int
  ms_running :: bool
  ms_thread_pool :: bool
  ms_thread :: bool
  ms_task_active :: bool
  ms_open :: "int set"
  ms_bad_closes :: "int list"
  ms_posted :: "int list"
  ms_served :: "(int \<times> bytes) list"

text \<open>\<open>ms_posted\<close> are the clients handed to the thread pool, \<open>ms_served\<close> what was sent to the others.\<close>

definition new_metrics_server :: "u16 \<Rightarrow> MetricsServer" where
  "new_metrics_server p = \<lparr>ms_port = p, ms_listener = - 1, ms_running = False, ms_thread_pool = False, ms_thread = False,
     ms_task_active = False, ms_open = {}, ms_bad_closes = [], ms_posted = [], ms_served = []\<rparr>"

definition ms_set_thread_pool :: "bool \<Rightarrow> MetricsServer \<Rightarrow> MetricsServer" where
  "ms_set_thread_pool p m = m\<lparr>ms_thread_pool := p\<rparr>"

definition ms_close :: "int \<Rightarrow> MetricsServer \<Rightarrow> MetricsServer" where
  "ms_close f m = (if f \<in> ms_open m then m\<lparr>ms_open := ms_open m - {f}\<rparr> else m\<lparr>ms_bad_closes := ms_bad_closes m @ [f]\<rparr>)"

record start_answers =
  sa_socket :: int
  sa_reuseaddr :: bool
  sa_getfl :: bool
  sa_setfl :: bool
  sa_bind :: bool
  sa_listen :: bool

definition metrics_start :: "start_answers \<Rightarrow> MetricsServer \<Rightarrow> MetricsServer" where
  "metrics_start a m =
     (if ms_running m then m
      else
        let m1 = m\<lparr>ms_listener := sa_socket a\<rparr> in
        if sa_socket a < 0 then m1
        else
          let m2 = m1\<lparr>ms_open := insert (sa_socket a) (ms_open m1)\<rparr>;
              give_up = (ms_close (ms_listener m2) m2)\<lparr>ms_listener := - 1\<rparr>
          in if \<not> sa_reuseaddr a then give_up
             else if \<not> sa_getfl a \<or> \<not> sa_setfl a then give_up
             else if \<not> sa_bind a then give_up
             else if \<not> sa_listen a then give_up
             else
               let m3 = m2\<lparr>ms_running := True\<rparr>
               in if ms_thread_pool m3 then m3\<lparr>ms_task_active := True\<rparr> else m3\<lparr>ms_thread := True\<rparr>)"

text \<open>\<open>stop\<close> up to the wait for the loop's end; the loop clears \<open>ms_task_active\<close> when it returns.\<close>

definition metrics_stop :: "MetricsServer \<Rightarrow> MetricsServer" where
  "metrics_stop m =
     (if \<not> ms_running m then m
      else
        let m1 = m\<lparr>ms_running := False\<rparr>;
            m2 = (if ms_listener m1 \<ge> 0 then ms_close (ms_listener m1) (m1\<lparr>ms_listener := - 1\<rparr>) else m1)
        in m2\<lparr>ms_thread := False\<rparr>)"

section \<open>One request\<close>

definition BUFFER_SIZE :: nat where
  "BUFFER_SIZE = 4095"

text \<open>\<open>RecvEnd again\<close>: \<open>recv\<close> returned zero or less, and \<open>errno\<close> says \<open>EAGAIN\<close> or not; for an end of
  stream this is whatever an earlier call left there.\<close>

datatype recv_answer = Received bytes | RecvEnd bool

text \<open>\<open>strstr\<close> sees the buffer up to the first zero byte.\<close>

definition c_string :: "bytes \<Rightarrow> string" where
  "c_string b = takeWhile (\<lambda>c. c \<noteq> CHR 0x00) b"

definition head_complete :: "bytes \<Rightarrow> bool" where
  "head_complete b \<longleftrightarrow> find_sub (crlf @ crlf) (c_string b) \<noteq> None \<or> find_sub [LF, LF] (c_string b) \<noteq> None"

fun recv_loop :: "bytes \<Rightarrow> recv_answer list \<Rightarrow> bytes option option" where
  "recv_loop buf [] = (if length buf \<ge> BUFFER_SIZE then Some (Some buf) else None)"
| "recv_loop buf (a # as) =
     (if length buf \<ge> BUFFER_SIZE then Some (Some buf)
      else case a of
        RecvEnd again \<Rightarrow> Some (if again then Some buf else None)
      | Received b \<Rightarrow>
          let buf1 = buf @ take (BUFFER_SIZE - length buf) b
          in if head_complete buf1 then Some (Some buf1) else recv_loop buf1 as)"

definition not_found :: bytes where
  "not_found = ''HTTP/1.1 404 Not Found'' @ crlf @ crlf"

definition metrics_response :: "bytes \<Rightarrow> bytes" where
  "metrics_response body =
     ''HTTP/1.1 200 OK'' @ crlf @ ''Content-Type: text/plain; version=0.0.4'' @ crlf @
     ''Content-Length: '' @ nat_to_string (length body) @ crlf @ ''Connection: close'' @ crlf @ crlf @ body"

definition metrics_reply :: "string \<Rightarrow> bytes \<Rightarrow> bytes" where
  "metrics_reply metrics request =
     (if find_sub ''GET /metrics'' request = None \<and> find_sub ''GET /'' request = None
      then not_found else metrics_response metrics)"

datatype send_answer = SendAccepted nat | SendAgain | SendError

text \<open>The loop of \<open>send_response\<close>: what has been sent when it ends.\<close>

fun ms_send_loop :: "bytes \<Rightarrow> bytes \<Rightarrow> send_answer list \<Rightarrow> bytes option" where
  "ms_send_loop sent [] as = Some sent"
| "ms_send_loop sent rest [] = None"
| "ms_send_loop sent rest (a # as) =
     (case a of
        SendError \<Rightarrow> Some sent
      | SendAgain \<Rightarrow> ms_send_loop sent rest as
      | SendAccepted n \<Rightarrow> ms_send_loop (sent @ take n rest) (drop n rest) as)"

definition handle_metrics_request :: "string \<Rightarrow> recv_answer list \<Rightarrow> send_answer list \<Rightarrow> bytes option" where
  "handle_metrics_request metrics received accepted =
     (case recv_loop [] received of
        None \<Rightarrow> None
      | Some None \<Rightarrow> Some []
      | Some (Some request) \<Rightarrow> ms_send_loop [] (metrics_reply metrics request) accepted)"

section \<open>The loop\<close>

record turn =
  turn_running :: bool
  turn_client :: int
  turn_metrics :: string
  turn_received :: "recv_answer list"
  turn_accepted :: "send_answer list"

fun run_loop :: "turn list \<Rightarrow> MetricsServer \<Rightarrow> MetricsServer option" where
  "run_loop [] m = None"
| "run_loop (t # ts) m =
     (if \<not> turn_running t then Some (m\<lparr>ms_task_active := False\<rparr>)
      else if turn_client t < 0 then run_loop ts m
      else
        let m1 = m\<lparr>ms_open := insert (turn_client t) (ms_open m)\<rparr>
        in if ms_thread_pool m then run_loop ts (m1\<lparr>ms_posted := ms_posted m1 @ [turn_client t]\<rparr>)
           else case handle_metrics_request (turn_metrics t) (turn_received t) (turn_accepted t) of
             None \<Rightarrow> None
           | Some sent \<Rightarrow> run_loop ts (ms_close (turn_client t) (m1\<lparr>ms_served := ms_served m1 @ [(turn_client t, sent)]\<rparr>)))"

text \<open>The task of the thread pool for one client.\<close>

definition pool_request :: "string \<Rightarrow> int \<Rightarrow> recv_answer list \<Rightarrow> send_answer list \<Rightarrow> MetricsServer \<Rightarrow> MetricsServer option" where
  "pool_request metrics client received accepted m =
     map_option (\<lambda>sent. ms_close client (m\<lparr>ms_served := ms_served m @ [(client, sent)]\<rparr>))
       (handle_metrics_request metrics received accepted)"

section \<open>Reading in pieces\<close>

lemma c_string_id: "CHR 0x00 \<notin> set b \<Longrightarrow> c_string b = b"
  unfolding c_string_def by (induction b) auto

lemma head_complete_mono: "head_complete b \<Longrightarrow> CHR 0x00 \<notin> set (b @ c) \<Longrightarrow> head_complete (b @ c)"
  using find_sub_mono by (auto simp: head_complete_def c_string_id)

text \<open>A head: complete, and not complete one byte earlier.\<close>

definition request_head :: "bytes \<Rightarrow> bool" where
  "request_head r \<longleftrightarrow> r \<noteq> [] \<and> head_complete r \<and> \<not> head_complete (butlast r) \<and> CHR 0x00 \<notin> set r \<and> length r \<le> BUFFER_SIZE"

lemma request_head_prefix:
  assumes "request_head (b @ c)" and "c \<noteq> []"
  shows "\<not> head_complete b"
proof
  assume "head_complete b"
  have "butlast (b @ c) = b @ butlast c" using assms(2) by (simp add: butlast_append)
  moreover have "CHR 0x00 \<notin> set (b @ butlast c)" using assms(1) in_set_butlastD by (fastforce simp: request_head_def)
  ultimately have "head_complete (butlast (b @ c))" using head_complete_mono [OF \<open>head_complete b\<close>] by simp
  then show False using assms(1) by (simp add: request_head_def)
qed

lemma recv_loop_pieces:
  assumes "request_head (buf @ concat pieces)" and "\<forall>p \<in> set pieces. p \<noteq> []" and "pieces \<noteq> []"
  shows "recv_loop buf (map Received pieces @ later) = Some (Some (buf @ concat pieces))"
  using assms
proof (induction pieces arbitrary: buf)
  case (Cons p ps)
  have len: "length buf + length p \<le> BUFFER_SIZE" "p \<noteq> []" using Cons.prems by (auto simp: request_head_def)
  then have take: "take (BUFFER_SIZE - length buf) p = p" "length buf < BUFFER_SIZE" by (auto, cases p) auto
  show ?case
  proof (cases "ps = []")
    case True
    then show ?thesis using Cons.prems(1) take by (simp add: request_head_def)
  next
    case False
    then have rest: "concat ps \<noteq> []" using Cons.prems(2) by (cases ps) auto
    have "\<not> head_complete (buf @ p)" using request_head_prefix [of "buf @ p" "concat ps"] Cons.prems(1) rest by simp
    then show ?thesis using Cons.IH [of "buf @ p"] Cons.prems False take by (simp add: not_le)
  qed
qed simp

lemma send_loop_all:
  assumes "SendError \<notin> set as" and "length rest \<le> (\<Sum>a \<leftarrow> as. case a of SendAccepted n \<Rightarrow> n | _ \<Rightarrow> 0)"
  shows "ms_send_loop sent rest as = Some (sent @ rest)"
  using assms
proof (induction as arbitrary: sent rest)
  case (Cons a as)
  show ?case
  proof (cases "rest = []")
    case False
    then obtain x xs where rest: "rest = x # xs" by (cases rest) auto
    show ?thesis
    proof (cases a)
      case (SendAccepted n)
      then show ?thesis using Cons.IH [of "drop n rest" "sent @ take n rest"] Cons.prems rest by auto
    qed (use Cons rest in auto)
  qed simp
qed simp

lemma send_loop_prefix: "ms_send_loop sent rest as = Some out \<Longrightarrow> \<exists>n. out = sent @ take n rest"
proof (induction sent rest as rule: ms_send_loop.induct)
  case (3 sent v va a as)
  show ?case
  proof (cases a)
    case (SendAccepted n)
    then obtain k where "out = (sent @ take n (v # va)) @ take k (drop n (v # va))" using 3 by auto
    then have "out = sent @ take (n + k) (v # va)" by (simp only: take_add append_assoc)
    then show ?thesis by blast
  next
    case SendAgain
    then show ?thesis using 3 by simp
  next
    case SendError
    then show ?thesis using 3 by (auto intro: exI [of _ 0])
  qed
qed (auto intro: exI [of _ 0])

text \<open>Which page a request gets. The first test of the code is subsumed by its second one: a request for
  any path, \<open>GET /health\<close> or \<open>GET /favicon.ico\<close>, gets the metrics, and only a request that
  has \<open>GET /\<close> nowhere gets the 404 page. The documents speak of \<open>/metrics\<close> and a health page.\<close>

lemma metrics_page_for_any_path:
  "metrics_reply metrics r = (if \<exists>u v. r = u @ ''GET /'' @ v then metrics_response metrics else not_found)"
proof -
  have "find_sub ''GET /metrics'' r \<noteq> None \<Longrightarrow> \<exists>u v. r = u @ ''GET /'' @ v"
  proof -
    assume "find_sub ''GET /metrics'' r \<noteq> None"
    then obtain u v where "r = u @ ''GET /'' @ ''metrics'' @ v" by (auto simp: find_sub_None_iff)
    then show ?thesis by blast
  qed
  moreover have "find_sub ''GET /'' r = None \<longleftrightarrow> \<not> (\<exists>u v. r = u @ ''GET /'' @ v)" by (simp add: find_sub_None_iff)
  ultimately show ?thesis unfolding metrics_reply_def by metis
qed

lemma metrics_page_documented: "metrics_reply metrics (''GET /metrics'' @ v) = metrics_response metrics"
proof -
  have "\<exists>u w. ''GET /metrics'' @ v = u @ ''GET /'' @ w" by (rule exI [of _ "[]"]) simp
  then show ?thesis unfolding metrics_page_for_any_path by (simp only: if_True)
qed

section \<open>Properties\<close>

text \<open>C30: the metrics server answers a request however it arrives. Take any request head of at most
  4095 bytes without a zero byte that ends with its first blank line, cut into any pieces. A request
  that begins with \<open>GET /metrics\<close> is answered with the metrics page, a request that has \<open>GET /\<close>
  nowhere with the 404 page: a client that takes in the answer in any portions, with any number of
  \<open>EAGAIN\<close> between them, gets the complete page, and when sending fails it has a prefix of it.\<close>

theorem metrics_request_answered:
  assumes "request_head (concat pieces)" and "\<forall>p \<in> set pieces. p \<noteq> []"
    and "(\<exists>v. concat pieces = ''GET /metrics'' @ v) \<and> page = metrics_response metrics \<or>
         \<not> (\<exists>u v. concat pieces = u @ ''GET /'' @ v) \<and> page = not_found"
  shows "(SendError \<notin> set accepted \<and> length page \<le> (\<Sum>a \<leftarrow> accepted. case a of SendAccepted n \<Rightarrow> n | _ \<Rightarrow> 0) \<longrightarrow>
      handle_metrics_request metrics (map Received pieces @ later) accepted = Some page) \<and>
    (\<forall>out. handle_metrics_request metrics (map Received pieces @ later) accepted = Some out \<longrightarrow> (\<exists>n. out = take n page))"
proof -
  have "pieces \<noteq> []" using assms(1) by (auto simp: request_head_def)
  then have "recv_loop [] (map Received pieces @ later) = Some (Some (concat pieces))"
    using recv_loop_pieces [of "[]" pieces later] assms(1,2) by simp
  moreover have "metrics_reply metrics (concat pieces) = page"
    using assms(3)
  proof
    assume "(\<exists>v. concat pieces = ''GET /metrics'' @ v) \<and> page = metrics_response metrics"
    then show ?thesis using metrics_page_documented by metis
  next
    assume "\<not> (\<exists>u v. concat pieces = u @ ''GET /'' @ v) \<and> page = not_found"
    then show ?thesis unfolding metrics_page_for_any_path by (simp only: if_False simp_thms)
  qed
  ultimately have "handle_metrics_request metrics (map Received pieces @ later) accepted = ms_send_loop [] page accepted"
    by (simp add: handle_metrics_request_def)
  then show ?thesis using send_loop_all [of accepted page "[]"] send_loop_prefix [of "[]" page accepted] by simp
qed

theorem metrics_request_answered_witness:
  "handle_metrics_request ''x 1'' [Received ''GET /metr'', Received (''ics HTTP/1.1'' @ crlf @ crlf)] [SendAgain, SendAccepted 200] =
     Some (metrics_response ''x 1'')"
proof -
  let ?p = "[''GET /metr'', ''ics HTTP/1.1'' @ crlf @ crlf]"
  have head: "request_head (concat ?p)"
    by (simp add: request_head_def head_complete_def c_string_def crlf_def CR_def LF_def BUFFER_SIZE_def)
  have get: "\<exists>v. concat ?p = ''GET /metrics'' @ v" by (rule exI [of _ "'' HTTP/1.1'' @ crlf @ crlf"]) simp
  have len: "length (metrics_response ''x 1'') \<le> (\<Sum>a \<leftarrow> [SendAgain, SendAccepted 200]. case a of SendAccepted n \<Rightarrow> n | _ \<Rightarrow> 0)"
    by (simp add: metrics_response_def crlf_def nat_to_string.simps)
  show ?thesis
    using metrics_request_answered [of ?p "metrics_response ''x 1''" "''x 1''" "[SendAgain, SendAccepted 200]" "[]"] head get len
    by simp
qed

text \<open>Descriptors: a failed \<open>start\<close> leaves none open, \<open>stop\<close> closes the listener, and the loop
  without a thread pool closes every client it accepted, each once.\<close>

lemma metrics_start_stop_fds:
  assumes "\<not> ms_running m" and "sa_socket a \<notin> ms_open m"
  shows "ms_open (metrics_start a m) = ms_open m \<union> (if ms_running (metrics_start a m) then {sa_socket a} else {})"
    and "ms_open (metrics_stop (metrics_start a m)) = ms_open m"
    and "ms_bad_closes (metrics_stop (metrics_start a m)) = ms_bad_closes m"
  using assms by (auto simp: metrics_start_def metrics_stop_def ms_close_def Let_def)

lemma run_loop_fds:
  "run_loop ts m = Some m' \<Longrightarrow> \<not> ms_thread_pool m \<Longrightarrow> \<forall>t \<in> set ts. turn_client t \<notin> ms_open m \<Longrightarrow>
   ms_open m' = ms_open m \<and> ms_bad_closes m' = ms_bad_closes m"
proof (induction ts m rule: run_loop.induct)
  case (2 t ts m)
  let ?m1 = "m\<lparr>ms_open := insert (turn_client t) (ms_open m)\<rparr>"
  consider "\<not> turn_running t" | "turn_running t" "turn_client t < 0" | "turn_running t" "0 \<le> turn_client t" by linarith
  then show ?case
  proof cases
    case 3
    then obtain sent where "handle_metrics_request (turn_metrics t) (turn_received t) (turn_accepted t) = Some sent"
      and run: "run_loop ts (ms_close (turn_client t) (?m1\<lparr>ms_served := ms_served ?m1 @ [(turn_client t, sent)]\<rparr>)) = Some m'"
      using "2.prems"(1,2) by (auto simp: Let_def split: option.splits)
    moreover have "ms_close (turn_client t) (?m1\<lparr>ms_served := ms_served ?m1 @ [(turn_client t, sent)]\<rparr>) =
        m\<lparr>ms_served := ms_served m @ [(turn_client t, sent)]\<rparr>"
      using "2.prems"(3) by (simp add: ms_close_def)
    ultimately show ?thesis using "2.IH"(3) [OF _ _ refl] 3 "2.prems"(2,3) by simp
  qed (use 2 in auto)
qed simp

end
