(* ===== verification/Http_Request.thy ===== *)
theory Http_Request
  imports Http_Message
begin

text \<open>
  \<^verbatim>\<open>http/http_request.h\<close>, \<^verbatim>\<open>http/http_request.cpp\<close>: the request, its accessors and its
  parser, and \<open>serialize_http_request\<close> of \<^verbatim>\<open>core/http_data_forwarder.cpp\<close>, which prints it.
  The main results are the round trip through printing and parsing, and what happens to a
  parser that is fed a request in pieces.
\<close>

record HttpRequest =
  http_method :: HttpMethod
  path :: string
  query_string :: string
  req_version :: HttpVersion
  req_headers :: headers
  req_body :: bytes

definition new_request :: HttpRequest where
  "new_request = \<lparr>http_method = UNKNOWN_METHOD, path = [], query_string = [],
     req_version = UNKNOWN_VERSION, req_headers = [], req_body = []\<rparr>"

definition get_header :: "HttpRequest \<Rightarrow> string \<Rightarrow> string" where
  "get_header r name = get_header_value (req_headers r) name"

definition has_header :: "HttpRequest \<Rightarrow> string \<Rightarrow> bool" where
  "has_header r name \<longleftrightarrow> get_header r name \<noteq> []"

definition get_host :: "HttpRequest \<Rightarrow> string" where
  "get_host r = get_header r ''Host''"

definition get_client_ip :: "HttpRequest \<Rightarrow> string" where
  "get_client_ip r =
     (let xff = get_header r ''X-Forwarded-For'' in
      if xff \<noteq> [] then
        (case find_char CHR '','' xff of Some comma \<Rightarrow> take comma xff | None \<Rightarrow> xff)
      else
        let xri = get_header r ''X-Real-IP'' in if xri \<noteq> [] then xri else [])"

definition is_space :: "char \<Rightarrow> bool" where
  "is_space c \<longleftrightarrow> c = CHR '' ''"

definition trim_spaces :: "string \<Rightarrow> string" where
  "trim_spaces s = strip_back is_space (strip_front is_space s)"

definition cookie_value :: "string \<Rightarrow> string" where
  "cookie_value s = strip_back is_space (takeWhile (\<lambda>c. c \<noteq> CHR '';'') (strip_front is_space s))"

text \<open>The loop of \<open>get_cookie\<close> over the unread rest of the \<open>Cookie\<close> header.\<close>

function cookie_loop :: "string \<Rightarrow> string \<Rightarrow> string" where
  "cookie_loop name rest =
     (let r = strip_front (\<lambda>c. c = CHR '' '' \<or> c = CHR '';'') rest in
      if r = [] then []
      else case find_char CHR ''='' r of
        None \<Rightarrow> []
      | Some e \<Rightarrow>
          if lower (trim_spaces (take e r)) = lower name then cookie_value (drop (e + 1) r)
          else (case find_char CHR '';'' (drop e r) of
                  None \<Rightarrow> []
                | Some k \<Rightarrow> cookie_loop name (drop (e + k + 1) r)))"
  by pat_completeness auto
termination
proof (relation "measure (\<lambda>(name, rest). length rest)")
  fix name rest r e k
  assume "r = strip_front (\<lambda>c. c = CHR '' '' \<or> c = CHR '';'') rest" and "r \<noteq> []"
  moreover have "length (strip_front (\<lambda>c. c = CHR '' '' \<or> c = CHR '';'') rest) \<le> length rest"
    by (rule length_strip_front)
  ultimately have "length r \<le> length rest" and "0 < length r" by auto
  then have "length (drop (e + k + 1) r) < length rest" by (cases r) auto
  then show "((name, drop (e + k + 1) r), (name, rest)) \<in> measure (\<lambda>(name, rest). length rest)"
    by simp
qed simp

declare cookie_loop.simps [simp del]

definition get_cookie :: "HttpRequest \<Rightarrow> string \<Rightarrow> string" where
  "get_cookie r name =
     (let cookie_header = get_header r ''Cookie'' in
      if cookie_header = [] then [] else cookie_loop name cookie_header)"

subsection \<open>The parser\<close>

type_synonym HttpRequestParser = "HttpRequest http_parser"

definition new_request_parser :: HttpRequestParser where
  "new_request_parser = new_parser new_request"

definition reset_request_parser :: "HttpRequestParser \<Rightarrow> HttpRequestParser" where
  "reset_request_parser p = new_parser new_request"

definition put_req_header :: "string \<Rightarrow> string \<Rightarrow> HttpRequest \<Rightarrow> HttpRequest" where
  "put_req_header n v r = r\<lparr>req_headers := AList.update n v (req_headers r)\<rparr>"

definition split_query :: "string \<Rightarrow> HttpRequest \<Rightarrow> HttpRequest" where
  "split_query path_version r =
     (case find_char CHR ''?'' path_version of
        Some q \<Rightarrow> r\<lparr>path := take q path_version, query_string := drop (q + 1) path_version\<rparr>
      | None \<Rightarrow> r\<lparr>path := path_version\<rparr>)"

definition parse_request_line :: "string \<Rightarrow> HttpRequestParser \<Rightarrow> bool \<times> HttpRequestParser" where
  "parse_request_line line p =
     (case next_token line of
        None \<Rightarrow> (False, fail_with ''Invalid request line'' p)
      | Some (method_str, rest) \<Rightarrow>
          (case next_token rest of
             None \<Rightarrow> (False, fail_with ''Invalid request line'' p)
           | Some (path_version, rest') \<Rightarrow>
               let p1 = p\<lparr>message := split_query path_version
                          ((message p)\<lparr>http_method := method_from_string method_str\<rparr>)\<rparr>
               in (case next_token rest' of
                     None \<Rightarrow> (False, fail_with ''Missing HTTP version'' p1)
                   | Some (version_str, _) \<Rightarrow>
                       (True, p1\<lparr>message := (message p1)\<lparr>req_version := version_from_string version_str\<rparr>\<rparr>))))"

definition parse_request_body ::
    "bytes \<Rightarrow> nat \<Rightarrow> HttpRequestParser \<Rightarrow> bool \<times> nat \<times> HttpRequestParser" where
  "parse_request_body buffer consumed p =
     (let body_available = length buffer - consumed in
      if content_length p = 0 then (True, consumed, p)
      else if body_available < content_length p then (False, consumed, p)
      else (True, consumed + content_length p,
            p\<lparr>message := (message p)\<lparr>req_body := take (content_length p) (drop consumed buffer)\<rparr>\<rparr>))"

definition parse_request ::
    "bytes \<Rightarrow> HttpRequestParser \<Rightarrow> bool \<times> nat \<times> HttpRequestParser" where
  "parse_request buffer p =
     (if has_error p then (False, 0, p)
      else case http_loop parse_request_line put_req_header buffer 0 p of
        Inl (p', consumed) \<Rightarrow> (False, consumed, p')
      | Inr (p', consumed) \<Rightarrow>
          if pstate p' = BODY then
            (case parse_request_body buffer consumed p' of
               (False, consumed', p'') \<Rightarrow> (False, consumed', p'')
             | (True, consumed', p'') \<Rightarrow> (True, consumed', p''\<lparr>pstate := COMPLETE\<rparr>))
          else (pstate p' = COMPLETE, consumed, p'))"

subsection \<open>Printing\<close>

definition serialize_http_request :: "HttpRequest \<Rightarrow> bytes" where
  "serialize_http_request r =
     method_to_string (http_method r) @ '' '' @ path r @
     (if query_string r \<noteq> [] then ''?'' @ query_string r else []) @
     '' '' @ version_to_string (req_version r) @ crlf @
     concat (map header_line (req_headers r)) @ crlf @ req_body r"

subsection \<open>Round trip\<close>

definition word_ok :: "string \<Rightarrow> bool" where
  "word_ok s \<longleftrightarrow> (\<forall>c \<in> set s. \<not> isspace c)"

text \<open>
  A request the parser can return: known method and version, words without white space,
  distinct header names, and a body of the declared length.
\<close>

definition request_ok :: "HttpRequest \<Rightarrow> bool" where
  "request_ok r \<longleftrightarrow>
     http_method r \<noteq> UNKNOWN_METHOD \<and> req_version r \<noteq> UNKNOWN_VERSION \<and>
     word_ok (path r) \<and> path r \<noteq> [] \<and> CHR ''?'' \<notin> set (path r) \<and> word_ok (query_string r) \<and>
     (\<forall>kv \<in> set (req_headers r). header_ok kv) \<and> distinct (map fst (req_headers r)) \<and>
     declared_length (req_headers r) 0 = length (req_body r)"

lemma isspace_chars [simp]: "isspace CHR '' ''" "\<not> isspace CHR ''?''"
  by (simp_all add: isspace_def)

lemma eol_isspace: "is_eol c \<Longrightarrow> isspace c"
  by (auto simp: is_eol_def isspace_def CR_def LF_def)

lemma method_word: "word_ok (method_to_string m)" "method_to_string m \<noteq> []"
  by (cases m; simp add: word_ok_def isspace_def)+

lemma version_word: "word_ok (version_to_string v)" "version_to_string v \<noteq> []"
  by (cases v; simp add: word_ok_def isspace_def)+

definition request_target :: "HttpRequest \<Rightarrow> string" where
  "request_target r = path r @ (if query_string r \<noteq> [] then ''?'' @ query_string r else [])"

lemma request_target_word:
  assumes "request_ok r" shows "word_ok (request_target r)" and "request_target r \<noteq> []"
  using assms unfolding request_ok_def request_target_def word_ok_def by force+

lemma split_query_target:
  assumes "request_ok r" and "query_string r0 = []"
  shows "split_query (request_target r) r0 = r0\<lparr>path := path r, query_string := query_string r\<rparr>"
proof (cases "query_string r = []")
  case True
  with assms have "find_char CHR ''?'' (request_target r) = None"
    by (simp add: find_char_None_iff request_target_def request_ok_def)
  with True assms show ?thesis by (simp add: split_query_def request_target_def)
next
  case False
  then have "find_char CHR ''?'' (request_target r) = Some (length (path r))"
    using assms find_char_append_first [of "CHR ''?''" "path r" "query_string r"]
    by (simp add: request_target_def request_ok_def)
  with False show ?thesis by (simp add: split_query_def request_target_def)
qed

lemma parse_request_line_printed:
  assumes "request_ok r" and "query_string (message p) = []"
  shows "parse_request_line
      (method_to_string (http_method r) @ '' '' @ request_target r @ '' '' @ version_to_string (req_version r)) p =
    (True, p\<lparr>message := (message p)\<lparr>http_method := http_method r, path := path r,
       query_string := query_string r, req_version := req_version r\<rparr>\<rparr>)"
proof -
  let ?v = "version_to_string (req_version r)"
  have 1: "next_token (method_to_string (http_method r) @ '' '' @ request_target r @ '' '' @ ?v) =
      Some (method_to_string (http_method r), '' '' @ request_target r @ '' '' @ ?v)"
    using next_token_word [of "method_to_string (http_method r)" "'' '' @ request_target r @ '' '' @ ?v" "[]"]
      method_word [of "http_method r"] by (simp add: word_ok_def)
  have 2: "next_token ('' '' @ request_target r @ '' '' @ ?v) = Some (request_target r, '' '' @ ?v)"
    using next_token_word [of "request_target r" "'' '' @ ?v" "'' ''"] request_target_word [OF assms(1)]
    by (simp add: word_ok_def)
  have 3: "next_token ('' '' @ ?v) = Some (?v, [])"
    using next_token_word [of ?v "[]" "'' ''"] version_word [of "req_version r"]
    by (simp add: word_ok_def)
  have "method_from_string (method_to_string (http_method r)) = http_method r"
    and "version_from_string ?v = req_version r"
    using assms(1) by (simp_all add: request_ok_def method_roundtrip version_roundtrip)
  with 1 2 3 assms(2) split_query_target [OF assms(1)] show ?thesis
    by (simp only: parse_request_line_def option.case prod.case Let_def) simp
qed

lemma request_line_no_eol:
  assumes "request_ok r"
  shows "\<forall>c \<in> set (method_to_string (http_method r) @ '' '' @ request_target r @ '' '' @
      version_to_string (req_version r)). \<not> is_eol c"
  using request_target_word(1) [OF assms] method_word(1) [of "http_method r"] version_word(1) [of "req_version r"]
  by (auto simp: word_ok_def dest: eol_isspace)

lemma store_req_headers:
  "store_headers put_req_header hs r =
     r\<lparr>req_headers := fold (\<lambda>kv t. AList.update (fst kv) (snd kv) t) hs (req_headers r)\<rparr>"
  by (induction hs arbitrary: r) (simp_all add: store_headers_def put_req_header_def)

lemma serialize_request_split:
  "serialize_http_request r =
     (method_to_string (http_method r) @ '' '' @ request_target r @ '' '' @ version_to_string (req_version r)) @
     crlf @ concat (map header_line (req_headers r)) @ crlf @ req_body r"
  by (simp add: serialize_http_request_def request_target_def)

lemma http_loop_first_line:
  assumes "\<forall>c \<in> set line. \<not> is_eol c" and "pstate p = FIRST_LINE" and "first line p = (True, p')"
  shows "http_loop first put (line @ crlf @ rest) pos p =
    http_loop first put rest (pos + length line + 2) (p'\<lparr>pstate := HEADERS\<rparr>)"
  using assms next_line_crlf [OF assms(1), of rest]
  by (subst http_loop.simps) (simp add: Let_def crlf_def)

text \<open>The first line and the header block of a printed request.\<close>

definition request_line :: "HttpRequest \<Rightarrow> string" where
  "request_line r = method_to_string (http_method r) @ '' '' @ request_target r @ '' '' @ version_to_string (req_version r)"

definition printed_head :: "HttpRequest \<Rightarrow> bytes" where
  "printed_head r = request_line r @ crlf @ concat (map header_line (req_headers r)) @ crlf"

lemma serialize_request_head: "serialize_http_request r = printed_head r @ req_body r"
  by (simp add: serialize_request_split printed_head_def request_line_def)

text \<open>The parser once it has read the request line.\<close>

definition line_read :: "HttpRequest \<Rightarrow> HttpRequestParser" where
  "line_read r = \<lparr>message = new_request\<lparr>http_method := http_method r, path := path r, query_string := query_string r,
      req_version := req_version r\<rparr>, pstate = HEADERS, has_error = False, error_message = [], content_length = 0\<rparr>"

lemma request_line_eol: "request_ok r \<Longrightarrow> \<forall>c \<in> set (request_line r). \<not> is_eol c"
  unfolding request_line_def by (rule request_line_no_eol)

lemma parse_printed_line:
  assumes "request_ok r"
  shows "http_loop parse_request_line put_req_header (request_line r @ crlf @ rest) 0 new_request_parser =
    http_loop parse_request_line put_req_header rest (length (request_line r) + 2) (line_read r)"
proof -
  let ?p = "new_request_parser\<lparr>message := (message new_request_parser)\<lparr>http_method := http_method r,
      path := path r, query_string := query_string r, req_version := req_version r\<rparr>\<rparr>"
  have init: "query_string (message new_request_parser) = []" "pstate new_request_parser = FIRST_LINE"
    by (simp_all add: new_request_parser_def new_parser_def new_request_def)
  have "parse_request_line (request_line r) new_request_parser = (True, ?p)"
    unfolding request_line_def by (rule parse_request_line_printed [OF assms init(1)])
  moreover have "?p\<lparr>pstate := HEADERS\<rparr> = line_read r"
    by (simp add: line_read_def new_request_parser_def new_parser_def)
  ultimately show ?thesis
    using http_loop_first_line [OF request_line_eol [OF assms] init(2), of parse_request_line ?p put_req_header rest 0] by simp
qed

lemma parse_printed_head:
  assumes "request_ok r"
  shows "http_loop parse_request_line put_req_header (printed_head r @ rest) 0 new_request_parser =
    Inr (\<lparr>message = r\<lparr>req_body := []\<rparr>, pstate = BODY, has_error = False, error_message = [],
           content_length = length (req_body r)\<rparr>, length (printed_head r))"
proof -
  have "http_loop parse_request_line put_req_header (printed_head r @ rest) 0 new_request_parser =
      http_loop parse_request_line put_req_header (concat (map header_line (req_headers r)) @ crlf @ rest)
        (length (request_line r) + 2) (line_read r)"
    using parse_printed_line [OF assms] by (simp add: printed_head_def)
  also have "\<dots> = Inr ((line_read r)\<lparr>message := store_headers put_req_header (req_headers r) (message (line_read r)),
      content_length := declared_length (req_headers r) 0, pstate := BODY\<rparr>,
      length (request_line r) + 2 + length (concat (map header_line (req_headers r))) + 2)"
    using assms by (subst http_loop_headers) (simp_all add: request_ok_def line_read_def)
  finally show ?thesis
    using assms
    by (simp add: printed_head_def store_req_headers fold_update_distinct [where ?hs0.0 = "[]"]
        request_ok_def line_read_def new_request_def crlf_def)
qed

lemma parse_printed_request:
  assumes "request_ok r"
  shows "http_loop parse_request_line put_req_header (serialize_http_request r @ rest) 0 new_request_parser =
    Inr (\<lparr>message = r\<lparr>req_body := []\<rparr>, pstate = BODY, has_error = False, error_message = [],
           content_length = length (req_body r)\<rparr>,
         length (serialize_http_request r) - length (req_body r))"
  using parse_printed_head [OF assms, of "req_body r @ rest"] by (simp add: serialize_request_head)

lemma parse_printed_complete:
  assumes "request_ok r"
  shows "\<exists>p. parse_request (serialize_http_request r @ rest) new_request_parser =
      (True, length (serialize_http_request r), p) \<and>
    message p = r \<and> pstate p = COMPLETE \<and> \<not> has_error p"
proof -
  let ?s = "serialize_http_request r"
  let ?n = "length ?s - length (req_body r)"
  have s: "?s = take ?n ?s @ req_body r"
    by (simp add: serialize_request_split)
  then have body: "take (length (req_body r)) (drop ?n (?s @ rest)) = req_body r"
    by (metis append.assoc append_eq_conv_conj append_take_drop_id drop_append)
  have len: "length (req_body r) \<le> length ?s" by (simp add: serialize_request_split)
  have "\<not> has_error new_request_parser"
    by (simp add: new_request_parser_def new_parser_def)
  then show ?thesis
    using parse_printed_request [OF assms, of rest] body len
    by (cases "req_body r = []") (auto simp: parse_request_def parse_request_body_def Let_def)
qed

subsection \<open>Cookies\<close>

fun print_cookies :: "(string \<times> string) list \<Rightarrow> string" where
  "print_cookies [] = []"
| "print_cookies [kv] = fst kv @ ''='' @ snd kv"
| "print_cookies (kv # cs) = fst kv @ ''='' @ snd kv @ ''; '' @ print_cookies cs"

definition cookie_ok :: "string \<times> string \<Rightarrow> bool" where
  "cookie_ok kv \<longleftrightarrow>
     fst kv \<noteq> [] \<and> CHR ''='' \<notin> set (fst kv) \<and> CHR '';'' \<notin> set (fst kv) \<union> set (snd kv) \<and>
     CHR '' '' \<notin> set (fst kv) \<and>
     (snd kv = [] \<or> \<not> is_space (hd (snd kv)) \<and> \<not> is_space (last (snd kv)))"

abbreviation is_sep :: "char \<Rightarrow> bool" where
  "is_sep \<equiv> \<lambda>c. c = CHR '' '' \<or> c = CHR '';''"

lemma strip_front_prefix: "\<forall>c \<in> set pre. P c \<Longrightarrow> strip_front P (pre @ s) = strip_front P s"
  by (induction pre) auto

lemma cookie_value_first:
  assumes "cookie_ok kv" and "tail = [] \<or> hd tail = CHR '';''"
  shows "cookie_value (snd kv @ tail) = snd kv"
proof -
  have v: "strip_front is_space (snd kv @ tail) = snd kv @ tail"
    using assms by (intro strip_front_id) (cases "snd kv"; cases tail; auto simp: cookie_ok_def is_space_def)
  have "takeWhile (\<lambda>c. c \<noteq> CHR '';'') (snd kv @ tail) = snd kv"
    using assms by (cases tail) (auto simp: cookie_ok_def takeWhile_append takeWhile_eq_all_conv)
  moreover have "strip_back is_space (snd kv) = snd kv"
    using assms(1) by (intro strip_back_id) (auto simp: cookie_ok_def)
  ultimately show ?thesis by (simp add: cookie_value_def v)
qed

lemma trim_cookie_name: "cookie_ok kv \<Longrightarrow> trim_spaces (fst kv) = fst kv"
proof -
  assume "cookie_ok kv"
  then have "\<not> is_space (hd (fst kv))" and "\<not> is_space (last (fst kv))"
    by (metis cookie_ok_def hd_in_set is_space_def, metis cookie_ok_def last_in_set is_space_def)
  then show ?thesis by (simp add: trim_spaces_def strip_front_id strip_back_id)
qed

lemma cookie_loop_step:
  assumes "cookie_ok kv" and "\<forall>c \<in> set pre. is_sep c" and "tail = [] \<or> hd tail = CHR '';''"
  shows "cookie_loop name (pre @ fst kv @ ''='' @ snd kv @ tail) =
    (if lower (fst kv) = lower name then snd kv
     else if tail = [] then [] else cookie_loop name (tl tail))"
proof -
  let ?r = "fst kv @ ''='' @ snd kv @ tail"
  have "strip_front is_sep ?r = ?r"
    using assms(1) by (intro strip_front_id) (cases "fst kv"; auto simp: cookie_ok_def)
  then have r: "strip_front is_sep (pre @ ?r) = ?r" using strip_front_prefix [OF assms(2)] by simp
  have e: "find_char CHR ''='' ?r = Some (length (fst kv))"
    using assms(1) find_char_append_first [of "CHR ''=''" "fst kv" "snd kv @ tail"] by (simp add: cookie_ok_def)
  have semi: "find_char CHR '';'' (drop (length (fst kv)) ?r) =
      (if tail = [] then None else Some (length (snd kv) + 1))"
    using assms(1,3) find_char_append_first [of "CHR '';''" "''='' @ snd kv" "tl tail"]
    by (cases tail) (auto simp: cookie_ok_def find_char_None_iff)
  have "drop (length (fst kv) + (length (snd kv) + 1) + 1) ?r = tl tail"
    by (cases tail) simp_all
  with e semi r trim_cookie_name [OF assms(1)] cookie_value_first [OF assms(1,3)] assms(1) show ?thesis
    by (subst cookie_loop.simps) (simp add: Let_def cookie_ok_def)
qed

lemma cookie_loop_printed:
  assumes "\<forall>kv \<in> set cs. cookie_ok kv" and "cs \<noteq> []" and "\<forall>c \<in> set pre. is_sep c"
  shows "cookie_loop name (pre @ print_cookies cs) =
    (case find (\<lambda>kv. lower (fst kv) = lower name) cs of Some kv \<Rightarrow> snd kv | None \<Rightarrow> [])"
  using assms
proof (induction cs arbitrary: pre rule: print_cookies.induct)
  case (2 kv)
  then show ?case using cookie_loop_step [of kv pre "[]" name] by simp
next
  case (3 kv kv' cs)
  have "cookie_loop name ('' '' @ print_cookies (kv' # cs)) =
      (case find (\<lambda>kv. lower (fst kv) = lower name) (kv' # cs) of Some kv \<Rightarrow> snd kv | None \<Rightarrow> [])"
    using "3.prems" by (intro "3.IH") auto
  then show ?case
    using "3.prems" cookie_loop_step [of kv pre "''; '' @ print_cookies (kv' # cs)" name] by simp
qed simp

section \<open>Properties\<close>

text \<open>C19: parsing what \<open>serialize_http_request\<close> prints gives the request back: method, path,
  query, version, headers in order and body; exactly the printed bytes are consumed, so that
  bytes of a following request stay unread.\<close>

theorem request_print_parse_roundtrip:
  assumes "request_ok r"
  shows "\<exists>p. parse_request (serialize_http_request r @ rest) new_request_parser =
      (True, length (serialize_http_request r), p) \<and>
    message p = r \<and> pstate p = COMPLETE \<and> \<not> has_error p"
  by (rule parse_printed_complete [OF assms])

definition example_request :: HttpRequest where
  "example_request = \<lparr>http_method = POST, path = ''/api'', query_string = ''q=1'', req_version = HTTP_1_1,
     req_headers = [(''Host'', ''example.org''), (''Content-Length'', ''2'')], req_body = ''ok''\<rparr>"

lemma example_request_ok: "request_ok example_request"
  by (simp add: request_ok_def example_request_def word_ok_def isspace_def header_ok_def is_eol_def
      CR_def LF_def TAB_def is_blank_def is_content_length_def declared_length_def stoul_def split_sign_def
      is_digit_def digit_val_def)

theorem request_print_parse_roundtrip_witness:
  "\<exists>p. parse_request (serialize_http_request example_request @ ''GET '') new_request_parser =
      (True, length (serialize_http_request example_request), p) \<and> message p = example_request"
  using request_print_parse_roundtrip [OF example_request_ok] by blast

text \<open>The parser never claims more bytes than it was given, whatever the bytes; once it has
  reported an error it refuses every further buffer without consuming anything, until it is
  reset.\<close>

theorem parse_request_bounded_sticky:
  "(case parse_request buffer p of (ok, consumed, p') \<Rightarrow>
      consumed \<le> length buffer \<and> (ok = (\<not> has_error p \<and> pstate p' = COMPLETE))) \<and>
   parse_request buffer (fail_with msg p) = (False, 0, fail_with msg p) \<and>
   \<not> has_error (reset_request_parser p)"
proof -
  have keep: "pstate (snd (parse_request_line line q)) = pstate q" for line q
    by (auto simp: parse_request_line_def fail_with_def Let_def split: option.splits)
  note end_ok = http_loop_consumes [of parse_request_line 0 buffer put_req_header p, OF keep]
  have "case parse_request buffer p of (ok, consumed, p') \<Rightarrow>
      consumed \<le> length buffer \<and> (ok = (\<not> has_error p \<and> pstate p' = COMPLETE))"
  proof (cases "http_loop parse_request_line put_req_header buffer 0 p")
    case (Inl a)
    with end_ok show ?thesis by (cases a) (auto simp: parse_request_def loop_end_ok_def)
  next
    case (Inr a)
    with end_ok show ?thesis
      by (cases a) (auto simp: parse_request_def parse_request_body_def loop_end_ok_def Let_def)
  qed
  then show ?thesis
    by (simp add: parse_request_def fail_with_def reset_request_parser_def new_parser_def)
qed

text \<open>A request in two pieces. The first call sees the first \<open>n\<close> bytes.\<close>

lemma first_piece_line:
  assumes "request_ok r" and "n < length (request_line r) + 2"
  shows "parse_request (take n (serialize_http_request r)) new_request_parser = (False, 0, new_request_parser)"
proof -
  have "next_line (take n (serialize_http_request r)) = None"
    using next_line_cut [OF request_line_eol [OF assms(1)] assms(2), of "concat (map header_line (req_headers r)) @ crlf @ req_body r"]
    by (simp add: serialize_request_head printed_head_def)
  then show ?thesis by (simp add: parse_request_def http_loop_more new_request_parser_def new_parser_def)
qed

lemma first_piece_headers:
  assumes "request_ok r" and "length (request_line r) + 2 \<le> n" and "n < length (printed_head r)"
  obtains c p where "parse_request (take n (serialize_http_request r)) new_request_parser = (False, c, p)"
    and "pstate p = HEADERS" and "\<not> has_error p"
proof -
  let ?rest = "concat (map header_line (req_headers r)) @ crlf @ req_body r"
  define m where "m = n - (length (request_line r) + 2)"
  have cut: "take n (serialize_http_request r) = request_line r @ crlf @ take m ?rest"
    using assms(2) take_append [of n "request_line r @ crlf" ?rest]
    by (simp add: serialize_request_head printed_head_def m_def crlf_def)
  have "m < length (concat (map header_line (req_headers r))) + 2"
    using assms(2,3) by (simp add: m_def printed_head_def crlf_def)
  moreover have "\<forall>kv \<in> set (req_headers r). header_ok kv" using assms(1) by (simp add: request_ok_def)
  ultimately obtain p c where p: "http_loop parse_request_line put_req_header (take m ?rest)
      (length (request_line r) + 2) (line_read r) = Inl (p, c)" "pstate p = HEADERS" "\<not> has_error p"
    using http_loop_cut [of "req_headers r" "line_read r" m] by (fastforce simp: line_read_def)
  then have "parse_request (take n (serialize_http_request r)) new_request_parser = (False, c, p)"
    unfolding cut using parse_printed_line [OF assms(1)]
    by (simp add: parse_request_def) (simp add: new_request_parser_def new_parser_def)
  with p(2,3) show ?thesis by (rule that [rotated 1])
qed

lemma first_piece_body:
  assumes "request_ok r" and "length (printed_head r) \<le> n" and "n < length (serialize_http_request r)"
  shows "parse_request (take n (serialize_http_request r)) new_request_parser =
    (False, length (printed_head r), \<lparr>message = r\<lparr>req_body := []\<rparr>, pstate = BODY, has_error = False, error_message = [],
       content_length = length (req_body r)\<rparr>)"
proof -
  have cut: "take n (serialize_http_request r) = printed_head r @ take (n - length (printed_head r)) (req_body r)"
    using assms(2) by (simp add: serialize_request_head)
  have "length (take (n - length (printed_head r)) (req_body r)) < length (req_body r)"
    using assms(2,3) by (simp add: serialize_request_head)
  moreover have "\<not> has_error new_request_parser" by (simp add: new_request_parser_def new_parser_def)
  ultimately show ?thesis
    unfolding cut by (auto simp: parse_request_def parse_printed_head [OF assms(1)] parse_request_body_def Let_def)
qed

text \<open>A parser that has read the request line reads it again as a header.\<close>

lemma line_read_again:
  assumes "request_ok r" and "CHR '':'' \<notin> set (path r) \<union> set (query_string r)" and "pstate p = HEADERS" and "\<not> has_error p"
  obtains c where "parse_request (serialize_http_request r) p = (False, c, fail_with ''Invalid header format'' p)"
proof -
  let ?rest = "concat (map header_line (req_headers r)) @ crlf @ req_body r"
  have "CHR '':'' \<notin> set (request_line r)"
    using assms(2) by (cases "http_method r"; cases "req_version r") (auto simp: request_line_def request_target_def)
  then have hdr: "parse_header put_req_header (request_line r) p = (False, fail_with ''Invalid header format'' p)"
    by (rule parse_header_no_colon)
  have "next_line (serialize_http_request r) = Some (request_line r, ?rest)"
    using next_line_crlf [OF request_line_eol [OF assms(1)], of ?rest] by (simp add: serialize_request_head printed_head_def)
  moreover have "request_line r \<noteq> []" by (simp add: request_line_def)
  ultimately obtain c where "http_loop parse_request_line put_req_header (serialize_http_request r) 0 p =
      Inl (fail_with ''Invalid header format'' p, c)"
    using http_loop_header [OF assms(3) _ _ hdr, of "serialize_http_request r" ?rest parse_request_line 0] by auto
  then show ?thesis using that assms(4) by (simp add: parse_request_def)
qed

text \<open>C39: what becomes of a request that arrives in two pieces, for every place of the cut. The first call
  sees the first \<open>n\<close> bytes and always asks for more, without an error; the second call sees the whole
  request, with the parser the first call left. A cut before the end of the request line does no
  harm: the second call returns the request. But the parser keeps its state between the calls
  while each call starts again at the beginning of the buffer. So after a cut in the headers the second
  call reads the request line as a header and fails (here for targets without a colon), and after
  a cut in the body it succeeds with the first bytes of the request, its request line and
  headers, in place of the body.\<close>

theorem request_in_two_pieces:
  assumes "request_ok r" and "n < length (serialize_http_request r)"
  shows "let (ok, consumed, p) = parse_request (take n (serialize_http_request r)) new_request_parser;
           (ok', consumed', p') = parse_request (serialize_http_request r) p
       in \<not> ok \<and> \<not> has_error p \<and>
         (n < length (request_line r) + 2 \<longrightarrow> ok' \<and> message p' = r) \<and>
         (length (request_line r) + 2 \<le> n \<and> n < length (printed_head r) \<and>
            CHR '':'' \<notin> set (path r) \<union> set (query_string r) \<longrightarrow> \<not> ok' \<and> has_error p') \<and>
         (length (printed_head r) \<le> n \<longrightarrow>
            ok' \<and> message p' = r\<lparr>req_body := take (length (req_body r)) (serialize_http_request r)\<rparr>)"
proof -
  have ll: "length (request_line r) + 2 \<le> length (printed_head r)" by (simp add: printed_head_def crlf_def)
  consider "n < length (request_line r) + 2" | "length (request_line r) + 2 \<le> n" "n < length (printed_head r)"
    | "length (printed_head r) \<le> n" by linarith
  then show ?thesis
  proof cases
    case 1
    obtain p where "parse_request (serialize_http_request r) new_request_parser = (True, length (serialize_http_request r), p)"
      "message p = r" using parse_printed_complete [OF assms(1), of "[]"] by auto
    moreover have "\<not> has_error new_request_parser" by (simp add: new_request_parser_def new_parser_def)
    ultimately show ?thesis using 1 ll by (simp add: first_piece_line [OF assms(1) 1])
  next
    case 2
    obtain c p where p: "parse_request (take n (serialize_http_request r)) new_request_parser = (False, c, p)"
      "pstate p = HEADERS" "\<not> has_error p" using assms(1) 2 by (rule first_piece_headers)
    have "\<not> fst (parse_request (serialize_http_request r) p) \<and> has_error (snd (snd (parse_request (serialize_http_request r) p)))"
      if "CHR '':'' \<notin> set (path r) \<union> set (query_string r)"
      by (rule line_read_again [OF assms(1) that p(2,3)]) (simp add: fail_with_def)
    then show ?thesis using p 2 by (auto simp: split_beta Let_def)
  next
    case 3
    let ?p = "\<lparr>message = r\<lparr>req_body := []\<rparr>, pstate = BODY, has_error = False, error_message = [], content_length = length (req_body r)\<rparr>"
    have B: "length (req_body r) \<noteq> 0" "length (req_body r) \<le> length (serialize_http_request r)"
      using 3 assms(2) by (auto simp: serialize_request_head)
    then have "parse_request (serialize_http_request r) ?p = (True, length (req_body r),
        ?p\<lparr>message := r\<lparr>req_body := take (length (req_body r)) (serialize_http_request r)\<rparr>, pstate := COMPLETE\<rparr>)"
      by (simp add: parse_request_def http_loop_stop parse_request_body_def Let_def)
    then show ?thesis using 3 ll first_piece_body [OF assms(1) 3 assms(2)] by simp
  qed
qed

text \<open>The example has a request line of 22 bytes before its line break: cuts in the line, in the headers
  and in the body.\<close>

theorem request_in_two_pieces_witness:
  "(let (ok, consumed, p) = parse_request (take 10 (serialize_http_request example_request)) new_request_parser;
        (ok', consumed', p') = parse_request (serialize_http_request example_request) p
    in ok' \<and> message p' = example_request) \<and>
   (let (ok, consumed, p) = parse_request (take 30 (serialize_http_request example_request)) new_request_parser;
        (ok', consumed', p') = parse_request (serialize_http_request example_request) p
    in \<not> ok' \<and> has_error p') \<and>
   (let (ok, consumed, p) = parse_request (take 65 (serialize_http_request example_request)) new_request_parser;
        (ok', consumed', p') = parse_request (serialize_http_request example_request) p
    in ok' \<and> req_body (message p') = ''PO'')"
proof -
  have sizes: "length (request_line example_request) = 22" "length (printed_head example_request) = 64"
    "length (serialize_http_request example_request) = 66" "take 2 (serialize_http_request example_request) = ''PO''"
    "length (req_body example_request) = 2" "CHR '':'' \<notin> set (path example_request) \<union> set (query_string example_request)"
    by (simp_all add: serialize_request_head printed_head_def request_line_def request_target_def example_request_def
        header_line_def crlf_def)
  note cut = request_in_two_pieces [OF example_request_ok, unfolded sizes(1-3,5) Let_def split_beta]
  have "fst (parse_request (serialize_http_request example_request) (snd (snd (parse_request (take 65 (serialize_http_request example_request)) new_request_parser)))) \<and>
     req_body (message (snd (snd (parse_request (serialize_http_request example_request) (snd (snd (parse_request (take 65 (serialize_http_request example_request)) new_request_parser))))))) = ''PO''"
    using cut [of 65] sizes(4) by simp
  with cut [of 10] cut [of 30] sizes(6) show ?thesis by (simp add: split_beta Let_def)
qed

text \<open>\<open>get_cookie\<close> finds the cookies of a well-formed \<open>Cookie\<close> header: it returns the value of
  the first cookie whose name matches without regard to case, and nothing when there is
  none.\<close>

theorem get_cookie_finds_first_match:
  assumes "\<forall>kv \<in> set cs. cookie_ok kv" and "cs \<noteq> []" and "get_header r ''Cookie'' = print_cookies cs"
  shows "get_cookie r name =
    (case find (\<lambda>kv. lower (fst kv) = lower name) cs of Some kv \<Rightarrow> snd kv | None \<Rightarrow> [])"
proof -
  have "print_cookies cs \<noteq> []" using assms(1,2) by (cases cs rule: print_cookies.cases) auto
  with assms cookie_loop_printed [of cs "[]" name] show ?thesis by (simp add: get_cookie_def)
qed

theorem get_cookie_finds_first_match_witness:
  "get_cookie (new_request\<lparr>req_headers := [(''cookie'', ''a=1; LB_SESSION=s7'')]\<rparr>) ''lb_session'' = ''s7''"
  by (subst get_cookie_finds_first_match [where cs = "[(''a'', ''1''), (''LB_SESSION'', ''s7'')]"])
     (simp_all add: cookie_ok_def is_space_def get_header_def get_header_value_def lower_def tolower_def new_request_def char_of_def bit_0)

end
