(* ===== verification/Http_Response.thy ===== *)
theory Http_Response
  imports Http_Request
begin

text \<open>
  \<^verbatim>\<open>http/http_response.h\<close>, \<^verbatim>\<open>http/http_response.cpp\<close> (the responses the load balancer
  builds itself), \<^verbatim>\<open>http/http_response_parser.cpp\<close> (the parser for backend responses) and
  \<open>serialize_http_response\<close> of \<^verbatim>\<open>core/http_data_forwarder.cpp\<close>.
\<close>

subsection \<open>Built responses\<close>

datatype HttpStatusCode = OK | CREATED | NO_CONTENT | BAD_REQUEST | UNAUTHORIZED | FORBIDDEN | NOT_FOUND
  | METHOD_NOT_ALLOWED | REQUEST_TIMEOUT | TOO_MANY_REQUESTS | INTERNAL_SERVER_ERROR | BAD_GATEWAY
  | SERVICE_UNAVAILABLE | GATEWAY_TIMEOUT

fun status_value :: "HttpStatusCode \<Rightarrow> int" where
  "status_value OK = 200"
| "status_value CREATED = 201"
| "status_value NO_CONTENT = 204"
| "status_value BAD_REQUEST = 400"
| "status_value UNAUTHORIZED = 401"
| "status_value FORBIDDEN = 403"
| "status_value NOT_FOUND = 404"
| "status_value METHOD_NOT_ALLOWED = 405"
| "status_value REQUEST_TIMEOUT = 408"
| "status_value TOO_MANY_REQUESTS = 429"
| "status_value INTERNAL_SERVER_ERROR = 500"
| "status_value BAD_GATEWAY = 502"
| "status_value SERVICE_UNAVAILABLE = 503"
| "status_value GATEWAY_TIMEOUT = 504"

record HttpResponse =
  resp_status :: int
  resp_reason :: string
  resp_headers :: headers
  resp_body :: bytes

definition get_status_reason :: "int \<Rightarrow> string" where
  "get_status_reason code =
     (if code = 200 then ''OK'' else if code = 201 then ''Created''
      else if code = 204 then ''No Content'' else if code = 400 then ''Bad Request''
      else if code = 401 then ''Unauthorized'' else if code = 403 then ''Forbidden''
      else if code = 404 then ''Not Found'' else if code = 405 then ''Method Not Allowed''
      else if code = 408 then ''Request Timeout'' else if code = 429 then ''Too Many Requests''
      else if code = 500 then ''Internal Server Error'' else if code = 502 then ''Bad Gateway''
      else if code = 503 then ''Service Unavailable'' else if code = 504 then ''Gateway Timeout''
      else ''Unknown'')"

definition set_header :: "string \<Rightarrow> string \<Rightarrow> HttpResponse \<Rightarrow> HttpResponse" where
  "set_header n v r = r\<lparr>resp_headers := AList.update n v (resp_headers r)\<rparr>"

definition new_response :: HttpResponse where
  "new_response =
     set_header ''Connection'' ''close'' (set_header ''Content-Type'' ''text/plain''
       \<lparr>resp_status = 200, resp_reason = ''OK'', resp_headers = [], resp_body = []\<rparr>)"

definition set_status :: "HttpStatusCode \<Rightarrow> HttpResponse \<Rightarrow> HttpResponse" where
  "set_status code r =
     r\<lparr>resp_status := status_value code, resp_reason := get_status_reason (status_value code)\<rparr>"

definition set_status_reason :: "int \<Rightarrow> string \<Rightarrow> HttpResponse \<Rightarrow> HttpResponse" where
  "set_status_reason code reason r = r\<lparr>resp_status := code, resp_reason := reason\<rparr>"

definition set_body :: "bytes \<Rightarrow> HttpResponse \<Rightarrow> HttpResponse" where
  "set_body b r = set_header ''Content-Length'' (nat_to_string (length b)) (r\<lparr>resp_body := b\<rparr>)"

definition response_to_string :: "HttpResponse \<Rightarrow> bytes" where
  "response_to_string r =
     ''HTTP/1.1 '' @ int_to_string (resp_status r) @ '' '' @ resp_reason r @ crlf @
     concat (map header_line (resp_headers r)) @ crlf @ resp_body r"

definition to_bytes :: "HttpResponse \<Rightarrow> bytes" where
  "to_bytes r = response_to_string r"

definition error_response :: "HttpStatusCode \<Rightarrow> string \<Rightarrow> HttpResponse" where
  "error_response code msg =
     set_body msg (set_header ''Content-Type'' ''text/plain'' (set_status code new_response))"

definition bad_request :: "string \<Rightarrow> HttpResponse" where
  "bad_request msg = error_response BAD_REQUEST msg"

definition not_found :: "string \<Rightarrow> HttpResponse" where
  "not_found msg = error_response NOT_FOUND msg"

definition forbidden :: "string \<Rightarrow> HttpResponse" where
  "forbidden msg = error_response FORBIDDEN msg"

definition service_unavailable :: "string \<Rightarrow> HttpResponse" where
  "service_unavailable msg = error_response SERVICE_UNAVAILABLE msg"

definition too_many_requests :: "string \<Rightarrow> HttpResponse" where
  "too_many_requests msg = error_response TOO_MANY_REQUESTS msg"

subsection \<open>Parsed responses\<close>

record ParsedHttpResponse =
  status_code :: int
  reason_phrase :: string
  pr_version :: HttpVersion
  pr_headers :: headers
  pr_body :: bytes

definition new_parsed_response :: ParsedHttpResponse where
  "new_parsed_response =
     \<lparr>status_code = 200, reason_phrase = ''OK'', pr_version = HTTP_1_1, pr_headers = [], pr_body = []\<rparr>"

type_synonym HttpResponseParser = "ParsedHttpResponse http_parser"

definition new_response_parser :: HttpResponseParser where
  "new_response_parser = new_parser new_parsed_response"

definition reset_response_parser :: "HttpResponseParser \<Rightarrow> HttpResponseParser" where
  "reset_response_parser p = new_parser new_parsed_response"

definition put_resp_header :: "string \<Rightarrow> string \<Rightarrow> ParsedHttpResponse \<Rightarrow> ParsedHttpResponse" where
  "put_resp_header n v r = r\<lparr>pr_headers := AList.update n v (pr_headers r)\<rparr>"

definition parse_status_line :: "string \<Rightarrow> HttpResponseParser \<Rightarrow> bool \<times> HttpResponseParser" where
  "parse_status_line line p =
     (case next_token line of
        None \<Rightarrow> (False, fail_with ''Invalid status line'' p)
      | Some (version_str, rest) \<Rightarrow>
          (case next_token rest of
             None \<Rightarrow> (False, fail_with ''Invalid status line'' p)
           | Some (status_str, reason) \<Rightarrow>
               let p1 = p\<lparr>message := (message p)\<lparr>pr_version := version_from_string version_str\<rparr>\<rparr>
               in (case stoi status_str of
                     None \<Rightarrow> (False, fail_with ''Invalid status code'' p1)
                   | Some code \<Rightarrow>
                       (True, p1\<lparr>message := (message p1)\<lparr>status_code := code,
                                  reason_phrase := strip_front is_blank reason\<rparr>\<rparr>))))"

definition parse_response_body ::
    "bytes \<Rightarrow> nat \<Rightarrow> HttpResponseParser \<Rightarrow> bool \<times> nat \<times> HttpResponseParser" where
  "parse_response_body buffer consumed p =
     (let body_available = length buffer - consumed in
      if content_length p > 0 then
        let body_to_read = min body_available (content_length p);
            b = take body_to_read (drop consumed buffer)
        in (length b = content_length p, consumed + body_to_read,
            p\<lparr>message := (message p)\<lparr>pr_body := b\<rparr>\<rparr>)
      else (True, length buffer, p\<lparr>message := (message p)\<lparr>pr_body := drop consumed buffer\<rparr>\<rparr>))"

definition parse_response ::
    "bytes \<Rightarrow> HttpResponseParser \<Rightarrow> bool \<times> nat \<times> HttpResponseParser" where
  "parse_response buffer p =
     (if has_error p then (False, 0, p)
      else case http_loop parse_status_line put_resp_header buffer 0 p of
        Inl (p', consumed) \<Rightarrow> (False, consumed, p')
      | Inr (p', consumed) \<Rightarrow>
          if pstate p' = BODY then
            (case parse_response_body buffer consumed p' of
               (False, consumed', p'') \<Rightarrow> (False, consumed', p'')
             | (True, consumed', p'') \<Rightarrow> (True, consumed', p''\<lparr>pstate := COMPLETE\<rparr>))
          else (pstate p' = COMPLETE, consumed, p'))"

definition serialize_http_response :: "ParsedHttpResponse \<Rightarrow> bytes" where
  "serialize_http_response r =
     ''HTTP/'' @ version_to_string (pr_version r) @ '' '' @ int_to_string (status_code r) @ '' '' @
     reason_phrase r @ crlf @ concat (map header_line (pr_headers r)) @ crlf @ pr_body r"

subsection \<open>Round trip of the built responses\<close>

lemma store_resp_headers:
  "store_headers put_resp_header hs r =
     r\<lparr>pr_headers := fold (\<lambda>kv t. AList.update (fst kv) (snd kv) t) hs (pr_headers r)\<rparr>"
  by (induction hs arbitrary: r) (simp_all add: store_headers_def put_resp_header_def)

lemma word_ok_digits: "word_ok (nat_to_string n)"
  using nat_to_string_digits [of n] digit_not_special by (auto simp: word_ok_def)

lemma parse_status_line_printed:
  assumes "n < 2 ^ 31" and "word_ok v" and "v \<noteq> []" and "reason = [] \<or> \<not> is_blank (hd reason)"
  shows "parse_status_line (v @ '' '' @ nat_to_string n @ '' '' @ reason) p =
    (True, p\<lparr>message := (message p)\<lparr>pr_version := version_from_string v, status_code := int n,
        reason_phrase := reason\<rparr>\<rparr>)"
proof -
  have 1: "next_token (v @ '' '' @ nat_to_string n @ '' '' @ reason) =
      Some (v, '' '' @ nat_to_string n @ '' '' @ reason)"
    using next_token_word [of v "'' '' @ nat_to_string n @ '' '' @ reason" "[]"] assms(2,3)
    by (simp add: word_ok_def)
  have 2: "next_token ('' '' @ nat_to_string n @ '' '' @ reason) = Some (nat_to_string n, '' '' @ reason)"
    using next_token_word [of "nat_to_string n" "'' '' @ reason" "'' ''"] word_ok_digits [of n]
    by (simp add: word_ok_def)
  have 3: "strip_front is_blank ('' '' @ reason) = reason"
    using assms(4) by (auto simp: strip_front_id)
  show ?thesis
    unfolding parse_status_line_def 1 option.case prod.case 2 Let_def stoi_nat_to_string [OF assms(1)] 3
    by simp
qed

lemma status_value_nat: "status_value code = int (nat (status_value code)) \<and> nat (status_value code) < 2 ^ 31"
  by (cases code) simp_all

lemma int_to_string_status: "int_to_string (status_value code) = nat_to_string (nat (status_value code))"
  by (cases code) (simp_all add: int_to_string_def)

lemma get_status_reason_text:
  "get_status_reason (status_value code) \<noteq> [] \<and> \<not> is_blank (hd (get_status_reason (status_value code))) \<and>
   (\<forall>c \<in> set (get_status_reason (status_value code)). \<not> is_eol c)"
  by (cases code) (simp_all add: get_status_reason_def is_blank_def TAB_def is_eol_def CR_def LF_def)

definition error_headers :: "string \<Rightarrow> headers" where
  "error_headers msg = [(''Content-Type'', ''text/plain''), (''Connection'', ''close''),
     (''Content-Length'', nat_to_string (length msg))]"

lemma error_response_fields:
  "error_response code msg = \<lparr>resp_status = status_value code,
     resp_reason = get_status_reason (status_value code), resp_headers = error_headers msg, resp_body = msg\<rparr>"
  by (simp add: error_response_def set_body_def set_header_def set_status_def new_response_def error_headers_def)

lemma nat_to_string_ends:
  "\<not> is_blank (hd (nat_to_string n)) \<and> \<not> is_blank (last (nat_to_string n)) \<and>
   (\<forall>c \<in> set (nat_to_string n). \<not> is_eol c)"
  using nat_to_string_digits [of n] digit_not_special by (metis hd_in_set last_in_set nat_to_string_nonempty)

lemma error_headers_ok:
  assumes "length msg < 2 ^ 64"
  shows "\<forall>kv \<in> set (error_headers msg). header_ok kv" and "declared_length (error_headers msg) n = length msg"
    and "distinct (map fst (error_headers msg))"
  using nat_to_string_ends [of "length msg"] stoul_nat_to_string [OF assms]
  by (auto simp: error_headers_def header_ok_def is_eol_def CR_def LF_def is_blank_def TAB_def
      is_content_length_def declared_length_def)

text \<open>
  The line loop on any bytes that begin with the printed head of a built response: the
  status and the headers are read and the body is next.
\<close>

lemma http_loop_error_response:
  assumes "length msg < 2 ^ 64"
  shows "http_loop parse_status_line put_resp_header
      (take (length (to_bytes (error_response code msg)) - length msg) (to_bytes (error_response code msg)) @ rest)
      0 new_response_parser =
    Inr (\<lparr>message = \<lparr>status_code = status_value code, reason_phrase = get_status_reason (status_value code),
             pr_version = HTTP_1_1, pr_headers = error_headers msg, pr_body = []\<rparr>,
           pstate = BODY, has_error = False, error_message = [], content_length = length msg\<rparr>,
         length (to_bytes (error_response code msg)) - length msg)"
proof -
  let ?n = "nat (status_value code)"
  let ?reason = "get_status_reason (status_value code)"
  let ?line = "''HTTP/1.1'' @ '' '' @ nat_to_string ?n @ '' '' @ ?reason"
  let ?hs = "error_headers msg"
  let ?head = "?line @ crlf @ concat (map header_line ?hs) @ crlf"
  let ?p = "new_response_parser\<lparr>message := (message new_response_parser)\<lparr>pr_version := version_from_string ''HTTP/1.1'',
      status_code := int ?n, reason_phrase := ?reason\<rparr>\<rparr>"
  have bytes: "to_bytes (error_response code msg) = ?head @ msg"
    by (simp add: to_bytes_def response_to_string_def error_response_fields int_to_string_status)
  have head: "take (length (to_bytes (error_response code msg)) - length msg) (to_bytes (error_response code msg)) = ?head"
    by (rule take_before_suffix [OF bytes])
  have first: "parse_status_line ?line new_response_parser = (True, ?p)"
    using get_status_reason_text [of code] status_value_nat [of code]
    by (intro parse_status_line_printed) (simp_all add: word_ok_def isspace_def)
  have eol: "\<forall>c \<in> set ?line. \<not> is_eol c"
    using get_status_reason_text [of code] nat_to_string_ends [of ?n]
    by (auto simp: is_eol_def CR_def LF_def)
  have st: "pstate new_response_parser = FIRST_LINE"
    by (simp add: new_response_parser_def new_parser_def)
  have "http_loop parse_status_line put_resp_header (?head @ rest) 0 new_response_parser =
      http_loop parse_status_line put_resp_header (concat (map header_line ?hs) @ crlf @ rest)
        (length ?line + 2) (?p\<lparr>pstate := HEADERS\<rparr>)"
    using http_loop_first_line [where first = parse_status_line and p = new_response_parser and pos = 0
        and put = put_resp_header, OF eol st first, of "concat (map header_line ?hs) @ crlf @ rest"]
    by simp
  also have "\<dots> = Inr ((?p\<lparr>pstate := HEADERS\<rparr>)\<lparr>message := store_headers put_resp_header ?hs (message ?p),
      content_length := declared_length ?hs 0, pstate := BODY\<rparr>,
      length ?line + 2 + length (concat (map header_line ?hs)) + 2)"
    using error_headers_ok(1) [OF assms]
    by (subst http_loop_headers) (simp_all add: new_response_parser_def new_parser_def)
  finally show ?thesis
    using error_headers_ok [OF assms] fold_update_distinct [of "[]" ?hs] status_value_nat [of code]
    unfolding head
    by (simp add: store_resp_headers new_response_parser_def new_parser_def new_parsed_response_def
        version_from_string_def bytes crlf_def)
qed

section \<open>Properties\<close>

text \<open>C31: every error response the load balancer builds is well formed for its own response
  parser: parsing its bytes gives back the status, the standard reason, the three headers
  with the length of the message, and the message as the body, all bytes consumed.\<close>

theorem error_response_parses_back:
  assumes "length msg < 2 ^ 64"
  shows "\<exists>p. parse_response (to_bytes (error_response code msg)) new_response_parser =
      (True, length (to_bytes (error_response code msg)), p) \<and>
    message p = \<lparr>status_code = status_value code, reason_phrase = get_status_reason (status_value code),
      pr_version = HTTP_1_1, pr_headers = [(''Content-Type'', ''text/plain''), (''Connection'', ''close''),
        (''Content-Length'', nat_to_string (length msg))], pr_body = msg\<rparr>"
proof -
  let ?s = "to_bytes (error_response code msg)"
  let ?n = "length ?s - length msg"
  obtain head where head: "?s = head @ msg"
    by (auto simp: to_bytes_def response_to_string_def error_response_fields)
  have bytes: "?s = take ?n ?s @ msg" using take_before_suffix [OF head] head by simp
  have len: "length msg \<le> length ?s"
    by (simp add: to_bytes_def response_to_string_def error_response_fields)
  have loop: "http_loop parse_status_line put_resp_header ?s 0 new_response_parser =
    Inr (\<lparr>message = \<lparr>status_code = status_value code, reason_phrase = get_status_reason (status_value code),
             pr_version = HTTP_1_1, pr_headers = error_headers msg, pr_body = []\<rparr>,
           pstate = BODY, has_error = False, error_message = [], content_length = length msg\<rparr>, ?n)"
    using http_loop_error_response [OF assms, of code msg] by (simp flip: bytes)
  have body: "drop ?n ?s = msg" by (rule drop_before_suffix [OF head])
  have "\<not> has_error new_response_parser" by (simp add: new_response_parser_def new_parser_def)
  then show ?thesis
    using loop body len
    by (cases "msg = []") (auto simp: parse_response_def parse_response_body_def error_headers_def Let_def)
qed

theorem error_response_parses_back_witness:
  "\<exists>p. parse_response (to_bytes (service_unavailable ''Service temporarily unavailable'')) new_response_parser =
      (True, length (to_bytes (service_unavailable ''Service temporarily unavailable'')), p) \<and>
    status_code (message p) = 503 \<and> pr_body (message p) = ''Service temporarily unavailable''"
proof -
  have "length ''Service temporarily unavailable'' < (2 :: nat) ^ 64" by simp
  from error_response_parses_back [OF this, of SERVICE_UNAVAILABLE]
  show ?thesis unfolding service_unavailable_def by auto
qed

text \<open>A response forwarded after parsing starts with \<open>HTTP/HTTP/\<close>, whatever the response,
  because \<open>serialize_http_response\<close> prints the protocol name before a version string that
  already contains it; the version of such a status line is unknown to the parser itself.\<close>

theorem serialized_response_version_broken:
  "take 10 (serialize_http_response r) = ''HTTP/HTTP/'' \<and>
   version_from_string (''HTTP/'' @ version_to_string v) = UNKNOWN_VERSION"
  by (cases "pr_version r"; cases v) (simp_all add: serialize_http_response_def version_from_string_def)

text \<open>When the body of a response with a content length arrives after its head, the parser
  takes the first bytes of the whole buffer, that is the head, for the body: a parser left
  waiting for the body restarts at the beginning of the buffer and accepts.\<close>

theorem response_body_in_two_pieces_corrupted:
  assumes "parse_response piece new_response_parser = (False, c, p)" and "pstate p = BODY"
    and "\<not> has_error p" and "0 < content_length p" and "content_length p \<le> length buffer"
  shows "\<exists>p'. parse_response buffer p = (True, content_length p, p') \<and>
    pr_body (message p') = take (content_length p) buffer"
proof -
  have "http_loop parse_status_line put_resp_header buffer 0 p = Inr (p, 0)"
    using assms(2) by (simp add: http_loop_stop)
  with assms(2-5) show ?thesis by (simp add: parse_response_def parse_response_body_def Let_def)
qed

theorem response_body_in_two_pieces_corrupted_witness:
  "\<exists>piece rest c p p'. piece @ rest = to_bytes (error_response OK ''hello'') \<and>
     parse_response piece new_response_parser = (False, c, p) \<and>
     parse_response (piece @ rest) p = (True, 5, p') \<and> pr_body (message p') = ''HTTP/''"
proof -
  let ?s = "to_bytes (error_response OK ''hello'')"
  let ?piece = "take (length ?s - length ''hello'') ?s"
  have split: "?piece @ drop (length ?s - length ''hello'') ?s = ?s" by simp
  obtain p c where p: "parse_response ?piece new_response_parser = (False, c, p)" "pstate p = BODY"
      "\<not> has_error p" "content_length p = 5"
    using http_loop_error_response [of "''hello''" OK "[]"]
    by (auto simp: parse_response_def parse_response_body_def Let_def new_response_parser_def new_parser_def)
  have start: "take 5 ?s = ''HTTP/''"
    by (simp add: to_bytes_def response_to_string_def)
  have "5 \<le> length ?s" by (simp add: to_bytes_def response_to_string_def)
  then obtain p' where "parse_response ?s p = (True, 5, p')" "pr_body (message p') = take 5 ?s"
    using response_body_in_two_pieces_corrupted [OF p(1,2,3), of ?s] p(4) by auto
  with p(1) split start show ?thesis by metis
qed

end
