(* ===== verification/Http_Handler.thy ===== *)
theory Http_Handler
  imports Http_Response "HOL-Library.Sublist"
begin

text \<open>
  \<^verbatim>\<open>http/http_handler.cpp\<close>: the header rewriting of requests and responses and the test for
  an HTTP request. The two overloads of \<open>apply_custom_headers\<close> run the same code on the
  header table of a request and of a response.
\<close>

definition same_name :: "string \<Rightarrow> string \<times> string \<Rightarrow> bool" where
  "same_name name kv \<longleftrightarrow> lower (fst kv) = lower name"

definition modify_request_headers :: "string \<Rightarrow> bool \<Rightarrow> HttpRequest \<Rightarrow> HttpRequest" where
  "modify_request_headers client_ip is_https r =
     (let existing_xff = get_header r ''X-Forwarded-For'';
          r1 = put_req_header ''X-Forwarded-For''
                 (if existing_xff = [] then client_ip else existing_xff @ '', '' @ client_ip) r;
          r2 = (if client_ip \<noteq> [] then put_req_header ''X-Real-IP'' client_ip r1 else r1);
          r3 = put_req_header ''X-Forwarded-Proto'' (if is_https then ''https'' else ''http'') r2;
          hst = get_host r3
      in if hst \<noteq> [] then put_req_header ''X-Forwarded-Host'' hst r3 else r3)"

definition remove_header :: "string \<Rightarrow> headers \<Rightarrow> headers" where
  "remove_header name hs = filter (\<lambda>kv. \<not> same_name name kv) hs"

fun replace_first :: "string \<Rightarrow> string \<Rightarrow> headers \<Rightarrow> headers option" where
  "replace_first name value [] = None"
| "replace_first name value (kv # hs) =
     (if same_name name kv then Some ((fst kv, value) # hs)
      else map_option ((#) kv) (replace_first name value hs))"

definition add_header :: "string \<times> string \<Rightarrow> headers \<Rightarrow> headers" where
  "add_header nv hs =
     (if snd nv = [] then remove_header (fst nv) hs
      else case replace_first (fst nv) (snd nv) hs of
        Some hs' \<Rightarrow> hs'
      | None \<Rightarrow> AList.update (fst nv) (snd nv) hs)"

definition rewrite_headers :: "(string \<times> string) list \<Rightarrow> string list \<Rightarrow> headers \<Rightarrow> headers" where
  "rewrite_headers headers_to_add headers_to_remove hs =
     fold add_header headers_to_add (fold remove_header headers_to_remove hs)"

definition apply_custom_request_headers ::
    "(string \<times> string) list \<Rightarrow> string list \<Rightarrow> HttpRequest \<Rightarrow> HttpRequest" where
  "apply_custom_request_headers headers_to_add headers_to_remove r =
     r\<lparr>req_headers := rewrite_headers headers_to_add headers_to_remove (req_headers r)\<rparr>"

definition apply_custom_response_headers ::
    "(string \<times> string) list \<Rightarrow> string list \<Rightarrow> ParsedHttpResponse \<Rightarrow> ParsedHttpResponse" where
  "apply_custom_response_headers headers_to_add headers_to_remove r =
     r\<lparr>pr_headers := rewrite_headers headers_to_add headers_to_remove (pr_headers r)\<rparr>"

definition is_http_request :: "bytes \<Rightarrow> bool" where
  "is_http_request buffer =
     (if length buffer < 4 then False
      else list_ex (\<lambda>m. length buffer \<ge> length m \<and> take (length m) buffer = m)
        [''GET '', ''POST '', ''PUT '', ''DELETE '', ''PATCH '', ''HEAD '', ''OPTIONS ''])"

text \<open>\<open>extract_client_ip\<close>: the address \<open>getpeername\<close> fills in (its four bytes in network order; none when the
  call fails), printed by \<open>inet_ntop\<close>, whose buffer of \<open>INET_ADDRSTRLEN\<close> bytes is always large enough.\<close>

type_synonym sin_addr = "8 word \<times> 8 word \<times> 8 word \<times> 8 word"

fun inet_ntop :: "sin_addr \<Rightarrow> string" where
  "inet_ntop (a, b, c, d) =
     nat_to_string (unat a) @ ''.'' @ nat_to_string (unat b) @ ''.'' @ nat_to_string (unat c) @ ''.'' @ nat_to_string (unat d)"

definition extract_client_ip :: "sin_addr option \<Rightarrow> string" where
  "extract_client_ip peername = (case peername of None \<Rightarrow> [] | Some a \<Rightarrow> inet_ntop a)"

subsection \<open>Lookup without regard to case\<close>

definition value_of :: "string \<Rightarrow> headers \<Rightarrow> string option" where
  "value_of name hs = map_option snd (find (same_name name) hs)"

lemma same_name_eq: "lower n = lower m \<Longrightarrow> same_name n = same_name m"
  by (auto simp: same_name_def)

lemma value_of_remove:
  "value_of n (remove_header m hs) = (if lower m = lower n then None else value_of n hs)"
proof (cases "lower m = lower n")
  case True
  then have "find (same_name n) (remove_header m hs) = None"
    by (auto simp: find_None_iff remove_header_def same_name_def)
  with True show ?thesis by (simp add: value_of_def)
next
  case False
  then have "find (same_name n) (remove_header m hs) = find (same_name n) hs"
    by (induction hs) (auto simp: remove_header_def same_name_def)
  with False show ?thesis by (simp add: value_of_def)
qed

lemma replace_first_None: "replace_first m v hs = None \<longleftrightarrow> value_of m hs = None"
  by (induction hs) (auto simp: value_of_def)

lemma value_of_replace_first:
  "replace_first m v hs = Some hs' \<Longrightarrow>
   value_of n hs' = (if lower m = lower n then Some v else value_of n hs)"
proof (induction hs arbitrary: hs')
  case (Cons kv hs)
  then show ?case by (cases kv) (auto simp: value_of_def same_name_def split: if_splits)
qed simp

lemma value_of_append_new:
  assumes "value_of m hs = None"
  shows "value_of n (AList.update m v hs) = (if lower m = lower n then Some v else value_of n hs)"
proof -
  have "AList.update m v hs = hs @ [(m, v)]"
    using assms by (induction hs) (auto simp: value_of_def same_name_def split: if_splits)
  moreover have "find P (xs @ [x]) = (case find P xs of None \<Rightarrow> if P x then Some x else None | r \<Rightarrow> r)"
    for P and xs :: headers and x by (induction xs) auto
  moreover have "value_of n hs = None" if "lower m = lower n"
    using assms same_name_eq [OF that] by (simp add: value_of_def)
  ultimately show ?thesis
    by (auto simp: value_of_def same_name_def split: option.splits)
qed

lemma value_of_add:
  "value_of n (add_header nv hs) =
     (if lower (fst nv) = lower n then (if snd nv = [] then None else Some (snd nv)) else value_of n hs)"
  by (auto simp: add_header_def value_of_remove value_of_replace_first replace_first_None
      value_of_append_new split: option.splits)

lemma value_of_removes:
  "value_of n (fold remove_header ms hs) = (if \<exists>m \<in> set ms. lower m = lower n then None else value_of n hs)"
  by (induction ms arbitrary: hs) (auto simp: value_of_remove)

lemma value_of_adds:
  assumes "distinct (map (\<lambda>nv. lower (fst nv)) add)"
  shows "value_of n (fold add_header add hs) =
    (case find (same_name n) add of
       Some nv \<Rightarrow> if snd nv = [] then None else Some (snd nv)
     | None \<Rightarrow> value_of n hs)"
  using assms
proof (induction add arbitrary: hs)
  case (Cons nv add)
  show ?case
  proof (cases "same_name n nv")
    case True
    with Cons.prems have "lower n \<notin> (\<lambda>nv. lower (fst nv)) ` set add"
      by (simp add: same_name_def)
    then have "find (same_name n) add = None"
      by (auto simp: find_None_iff same_name_def image_iff)
    moreover have "lower (fst nv) = lower n" using True by (simp add: same_name_def)
    ultimately show ?thesis using True Cons by (simp add: value_of_add)
  next
    case False
    then have "lower (fst nv) \<noteq> lower n" by (simp add: same_name_def)
    with False Cons show ?thesis by (simp add: value_of_add split: option.split)
  qed
qed simp

lemma map_of_put: "map_of (req_headers (put_req_header k v r)) = (map_of (req_headers r))(k \<mapsto> v)"
  by (simp add: put_req_header_def update_conv')

lemma map_of_put_other:
  assumes "k' \<noteq> k"
  shows "map_of (req_headers (put_req_header k v r)) k' = map_of (req_headers r) k'"
    and "map_of (req_headers (if c then put_req_header k v r else r)) k' = map_of (req_headers r) k'"
  using assms by (simp_all add: map_of_put)

lemma map_of_put_same: "map_of (req_headers (put_req_header k v r)) k = Some v"
  by (simp add: map_of_put)

lemma forwarding_names:
  "''X-Forwarded-For'' \<noteq> ''X-Real-IP''" "''X-Forwarded-For'' \<noteq> ''X-Forwarded-Proto''"
  "''X-Forwarded-For'' \<noteq> ''X-Forwarded-Host''" "''X-Forwarded-Proto'' \<noteq> ''X-Forwarded-Host''"
  "''X-Real-IP'' \<noteq> ''X-Forwarded-Proto''" "''X-Real-IP'' \<noteq> ''X-Forwarded-Host''"
  by simp_all

lemma get_header_present: "map_of (req_headers r) k = Some v \<Longrightarrow> get_header r k = v"
  by (simp add: get_header_def get_header_value_def)

section \<open>Properties\<close>


lemma lower_letters:
  "lower ''Server'' = ''server''" "lower ''SERVER'' = ''server''" "lower ''X-A'' = ''x-a''"
  by (simp_all add: lower_def tolower_def char_of_def bit_0)


text \<open>The forwarded-for header of a modified request is the previous value (found without
  regard to case) with the client address appended, or the client address alone; the
  protocol header says how the client was connected; method, path, query, version and body
  are untouched.\<close>

theorem modify_request_headers_forwards_client:
  "get_header (modify_request_headers ip https r) ''X-Forwarded-For'' =
     (if get_header r ''X-Forwarded-For'' = [] then ip else get_header r ''X-Forwarded-For'' @ '', '' @ ip) \<and>
   get_header (modify_request_headers ip https r) ''X-Forwarded-Proto'' = (if https then ''https'' else ''http'') \<and>
   (ip = [] \<or> get_header (modify_request_headers ip https r) ''X-Real-IP'' = ip) \<and>
   (modify_request_headers ip https r)\<lparr>req_headers := []\<rparr> = r\<lparr>req_headers := []\<rparr>"
proof -
  let ?m = "modify_request_headers ip https r"
  have xff: "map_of (req_headers ?m) ''X-Forwarded-For'' =
      Some (if get_header r ''X-Forwarded-For'' = [] then ip else get_header r ''X-Forwarded-For'' @ '', '' @ ip)"
    and proto: "map_of (req_headers ?m) ''X-Forwarded-Proto'' = Some (if https then ''https'' else ''http'')"
    and real: "ip \<noteq> [] \<Longrightarrow> map_of (req_headers ?m) ''X-Real-IP'' = Some ip"
    unfolding modify_request_headers_def Let_def
    by (simp_all only: map_of_put_other map_of_put_same forwarding_names if_True not_False_eq_True simp_thms)
  have "?m\<lparr>req_headers := []\<rparr> = r\<lparr>req_headers := []\<rparr>"
    by (simp add: modify_request_headers_def Let_def put_req_header_def)
  moreover have "ip = [] \<or> get_header ?m ''X-Real-IP'' = ip"
    using get_header_present [OF real] by blast
  ultimately show ?thesis
    using get_header_present [OF xff] get_header_present [OF proto] by simp
qed

text \<open>The forwarder treats a buffer as a request exactly when it starts with one of the seven
  supported methods followed by a space.\<close>

theorem is_http_request_iff_method_prefix:
  "is_http_request buffer = (\<exists>m \<in> {GET, POST, PUT, DELETE, PATCH, HEAD, OPTIONS}.
     prefix (method_to_string m @ '' '') buffer)"
proof -
  let ?ms = "[''GET '', ''POST '', ''PUT '', ''DELETE '', ''PATCH '', ''HEAD '', ''OPTIONS '']"
  have pre: "length m \<le> length buffer \<and> take (length m) buffer = m \<longleftrightarrow> prefix m buffer" for m
  proof
    assume "prefix m buffer"
    then show "length m \<le> length buffer \<and> take (length m) buffer = m" by (auto simp: prefix_def)
  next
    assume "length m \<le> length buffer \<and> take (length m) buffer = m"
    then show "prefix m buffer" by (metis take_is_prefix)
  qed
  have "\<forall>m \<in> set ?ms. 4 \<le> length m" by simp
  then have "(\<exists>m \<in> set ?ms. prefix m buffer) \<Longrightarrow> 4 \<le> length buffer"
    by (meson order.trans prefix_length_le)
  then have "is_http_request buffer \<longleftrightarrow> (\<exists>m \<in> set ?ms. prefix m buffer)"
    unfolding is_http_request_def list_ex_iff pre by (meson not_less)
  then show ?thesis by simp
qed

section \<open>Client addresses\<close>

text \<open>Two clients get the same name only when they have the same address, or when both are unknown: the
  limits kept per name are limits per address.\<close>

lemma nat_to_string_inject: "unat a < 2 ^ 31 \<Longrightarrow> unat b < 2 ^ 31 \<Longrightarrow> nat_to_string (unat a) = nat_to_string (unat b) \<longleftrightarrow> a = b"
  using stoi_nat_to_string [of "unat a"] stoi_nat_to_string [of "unat b"] by (metis option.inject of_nat_eq_iff word_unat_eq_iff)

lemma byte_text_inject: "nat_to_string (unat a) = nat_to_string (unat b) \<longleftrightarrow> a = b" for a b :: "8 word"
  using unsigned_less [of a, where ?'a = nat] unsigned_less [of b, where ?'a = nat] by (intro nat_to_string_inject) simp_all

lemma dotted_inject:
  fixes a b :: "8 word"
  assumes "nat_to_string (unat a) @ CHR ''.'' # r = nat_to_string (unat b) @ CHR ''.'' # t"
  shows "a = b \<and> r = t"
proof -
  have dot: "CHR ''.'' \<notin> set (nat_to_string n)" for n using nat_to_string_digits [of n] by (auto simp: is_digit_def)
  have "length (nat_to_string (unat a)) = length (nat_to_string (unat b))"
    using assms find_char_append_first [OF dot, of "unat a" r] find_char_append_first [OF dot, of "unat b" t] by simp
  then show ?thesis using assms by (simp add: byte_text_inject)
qed

lemma inet_ntop_inject: "inet_ntop x = inet_ntop y \<longleftrightarrow> x = y"
proof
  assume eq: "inet_ntop x = inet_ntop y"
  obtain a b c d where x: "x = (a, b, c, d)" by (cases x)
  obtain a' b' c' d' where y: "y = (a', b', c', d')" by (cases y)
  show "x = y" using eq by (auto simp: x y byte_text_inject dest!: dotted_inject)
qed simp

lemma extract_client_ip_inject: "extract_client_ip x = extract_client_ip y \<longleftrightarrow> x = y"
proof -
  have "inet_ntop a \<noteq> []" for a by (cases a) (simp add: nat_to_string_nonempty)
  then show ?thesis by (cases x; cases y) (auto simp: extract_client_ip_def inet_ntop_inject intro: sym)
qed

end
