(* ===== verification/Health_Checker.thy ===== *)
theory Health_Checker
  imports Backend_Node Http_Message
begin

text \<open>
  \<^verbatim>\<open>health/health_checker.h\<close>, \<^verbatim>\<open>health/health_checker.cpp\<close>: the probes and the state machine
  they drive. The answers of the kernel and of the backend during one probe are the record
  \<open>probe_env\<close>. \<open>update_with\<close> is \<open>update_backend_state\<close> after it has read the backend's
  state; the two are separated because another thread can change the state in between.
\<close>

record HealthChecker =
  hc_backends :: "node_id list"
  running :: bool
  interval_ms :: u32
  timeout_ms :: u32
  failure_threshold :: u32
  success_threshold :: u32
  check_type :: string
  check_path :: string
  consecutive_failures :: "node_id \<rightharpoonup> u32"
  consecutive_successes :: "node_id \<rightharpoonup> u32"

definition new_health_checker :: HealthChecker where
  "new_health_checker =
     \<lparr>hc_backends = [], running = False, interval_ms = 5000, timeout_ms = 500, failure_threshold = 3,
      success_threshold = 2, check_type = ''tcp'', check_path = [],
      consecutive_failures = Map.empty, consecutive_successes = Map.empty\<rparr>"

definition hc_add_backend :: "node_id \<Rightarrow> HealthChecker \<Rightarrow> HealthChecker" where
  "hc_add_backend b hc =
     hc\<lparr>hc_backends := hc_backends hc @ [b],
        consecutive_failures := (consecutive_failures hc)(b \<mapsto> 0),
        consecutive_successes := (consecutive_successes hc)(b \<mapsto> 0)\<rparr>"

definition hc_remove_backend :: "node_id \<Rightarrow> HealthChecker \<Rightarrow> HealthChecker" where
  "hc_remove_backend b hc =
     hc\<lparr>hc_backends := filter (\<lambda>x. x \<noteq> b) (hc_backends hc),
        consecutive_failures := erase_key (consecutive_failures hc) b,
        consecutive_successes := erase_key (consecutive_successes hc) b\<rparr>"

definition hc_configure ::
    "u32 \<Rightarrow> u32 \<Rightarrow> u32 \<Rightarrow> u32 \<Rightarrow> string \<Rightarrow> string \<Rightarrow> HealthChecker \<Rightarrow> HealthChecker" where
  "hc_configure interval tmo fails succs ty pth hc =
     hc\<lparr>interval_ms := interval, timeout_ms := tmo, failure_threshold := fails,
        success_threshold := succs, check_type := ty, check_path := pth\<rparr>"

definition hc_start :: "HealthChecker \<Rightarrow> HealthChecker" where
  "hc_start hc = hc\<lparr>running := True\<rparr>"

definition hc_stop :: "HealthChecker \<Rightarrow> HealthChecker" where
  "hc_stop hc = hc\<lparr>running := False\<rparr>"

abbreviation tally :: "(node_id \<rightharpoonup> u32) \<Rightarrow> node_id \<Rightarrow> u32" where
  "tally m b \<equiv> (case m b of None \<Rightarrow> 0 | Some v \<Rightarrow> v)"

subsection \<open>The state machine\<close>

definition update_with ::
    "BackendState \<Rightarrow> node_id \<Rightarrow> bool \<Rightarrow> HealthChecker \<Rightarrow> node_heap \<Rightarrow> HealthChecker \<times> node_heap" where
  "update_with current_state b healthy hc h =
     (if healthy then
        let hc1 = hc\<lparr>consecutive_failures := (consecutive_failures hc)(b \<mapsto> 0),
                     consecutive_successes :=
                       (consecutive_successes hc)(b \<mapsto> tally (consecutive_successes hc) b + 1)\<rparr>
        in if current_state = UNHEALTHY \<and>
              tally (consecutive_successes hc1) b \<ge> success_threshold hc1
           then (hc1\<lparr>consecutive_successes := (consecutive_successes hc1)(b \<mapsto> 0)\<rparr>,
                 upd_node b (set_state HEALTHY) h)
           else (hc1, h)
      else
        let hc1 = hc\<lparr>consecutive_successes := (consecutive_successes hc)(b \<mapsto> 0),
                     consecutive_failures :=
                       (consecutive_failures hc)(b \<mapsto> tally (consecutive_failures hc) b + 1)\<rparr>
        in if current_state = HEALTHY \<and>
              tally (consecutive_failures hc1) b \<ge> failure_threshold hc1
           then (hc1\<lparr>consecutive_failures := (consecutive_failures hc1)(b \<mapsto> 0)\<rparr>,
                 upd_node b (set_state UNHEALTHY) h)
           else (hc1, h))"

definition update_backend_state ::
    "node_id \<Rightarrow> bool \<Rightarrow> HealthChecker \<Rightarrow> node_heap \<Rightarrow> HealthChecker \<times> node_heap" where
  "update_backend_state b healthy hc h = update_with (state (h b)) b healthy hc h"

subsection \<open>The probes\<close>

fun status_digits :: "nat \<Rightarrow> string \<Rightarrow> nat option" where
  "status_digits acc [] = Some acc"
| "status_digits acc (c # cs) =
     (if is_digit c then status_digits (acc * 10 + digit_val c) cs else None)"

definition second_space :: "string \<Rightarrow> nat \<Rightarrow> nat option" where
  "second_space response from =
     (case find_char_from CHR '' '' response from of
        Some i \<Rightarrow> Some i
      | None \<Rightarrow>
          (case find_char_from CR response from of
             Some i \<Rightarrow> Some i
           | None \<Rightarrow> find_char_from LF response from))"

text \<open>\<open>check_http_health\<close> from the received bytes on.\<close>

definition check_http_response :: "string \<Rightarrow> bool" where
  "check_http_response response =
     (case find_sub ''HTTP/'' response of
        None \<Rightarrow> False
      | Some http_pos \<Rightarrow>
          (case find_char_from CHR '' '' response http_pos of
             None \<Rightarrow> False
           | Some space1 \<Rightarrow>
               (case second_space response (space1 + 1) of
                  None \<Rightarrow> False
                | Some space2 \<Rightarrow>
                    let status_str = take (space2 - space1 - 1) (drop (space1 + 1) response) in
                    if length status_str \<noteq> 3 then False
                    else (case status_digits 0 status_str of
                            None \<Rightarrow> False
                          | Some code \<Rightarrow> code \<ge> 200 \<and> code < 300))))"

definition health_request :: "string \<Rightarrow> BackendNode \<Rightarrow> string" where
  "health_request pth n =
     ''GET '' @ pth @ '' HTTP/1.1'' @ crlf @
     ''Host: '' @ host n @ '':'' @ nat_to_string (unat (port n)) @ crlf @
     ''Connection: close'' @ crlf @ crlf"

datatype connect_result = Connected | InProgress | Refused

record probe_env =
  socket_ok :: bool
  nonblock_ok :: bool
  resolve_ok :: bool
  connect_res :: connect_result
  select_ok :: bool
  so_error_ok :: bool
  block_ok :: bool
  bytes_sent_ok :: bool
  rcvtimeo_ok :: bool
  received :: "string option"

definition check_http_health :: "probe_env \<Rightarrow> bool" where
  "check_http_health e =
     (if \<not> block_ok e then False
      else if \<not> bytes_sent_ok e then False
      else if \<not> rcvtimeo_ok e then False
      else case received e of None \<Rightarrow> False | Some r \<Rightarrow> check_http_response r)"

definition probe :: "probe_env \<Rightarrow> string \<Rightarrow> bool" where
  "probe e ty =
     (if \<not> socket_ok e then False
      else if \<not> nonblock_ok e then False
      else if \<not> resolve_ok e then False
      else
        let connected = (case connect_res e of
              Connected \<Rightarrow> True
            | InProgress \<Rightarrow> select_ok e \<and> so_error_ok e
            | Refused \<Rightarrow> False)
        in if \<not> connected then False
           else if ty \<noteq> ''http'' then True
           else check_http_health e)"

definition check_backend ::
    "probe_env \<Rightarrow> node_id \<Rightarrow> HealthChecker \<Rightarrow> node_heap \<Rightarrow> bool \<times> HealthChecker \<times> node_heap" where
  "check_backend e b hc h =
     (let healthy = probe e (check_type hc) in (healthy, update_backend_state b healthy hc h))"

text \<open>One round of \<open>run_loop\<close> over the copied list of backends; \<open>e b\<close> is what the probe of
  \<open>b\<close> meets.\<close>

fun check_round ::
    "(node_id \<Rightarrow> probe_env) \<Rightarrow> node_id list \<Rightarrow> HealthChecker \<times> node_heap \<Rightarrow> HealthChecker \<times> node_heap" where
  "check_round e [] s = s"
| "check_round e (b # bs) (hc, h) =
     (if running hc then check_round e bs (snd (check_backend (e b) b hc h)) else (hc, h))"

text \<open>A sequence of probe results of one backend.\<close>

fun results_run :: "node_id \<Rightarrow> bool list \<Rightarrow> HealthChecker \<times> node_heap \<Rightarrow> HealthChecker \<times> node_heap" where
  "results_run b [] s = s"
| "results_run b (r # rs) (hc, h) = results_run b rs (update_backend_state b r hc h)"

subsection \<open>What one result does to the backend\<close>

lemmas update_defs = update_backend_state_def update_with_def Let_def

lemma update_thresholds [simp]:
  "failure_threshold (fst (update_backend_state b r hc h)) = failure_threshold hc"
  "success_threshold (fst (update_backend_state b r hc h)) = success_threshold hc"
  by (simp_all add: update_defs)

lemma update_other_nodes: "b' \<noteq> b \<Longrightarrow> snd (update_backend_state b r hc h) b' = h b'"
  by (simp add: update_defs)

lemma update_draining:
  "state (h b) = DRAINING \<Longrightarrow> snd (update_backend_state b r hc h) = h"
  by (simp add: update_defs)

lemma results_run_draining: "state (h b) = DRAINING \<Longrightarrow> snd (results_run b rs (hc, h)) = h"
proof (induction rs arbitrary: hc h)
  case (Cons r rs)
  then show ?case
    using update_draining [of h b, OF Cons.prems, of r hc]
    by (cases "update_backend_state b r hc h") auto
qed simp

text \<open>While a backend is HEALTHY its failure tally is below the threshold, and at an UNHEALTHY
  one the success tally is.\<close>

definition tally_ok :: "node_id \<Rightarrow> HealthChecker \<Rightarrow> node_heap \<Rightarrow> bool" where
  "tally_ok b hc h \<longleftrightarrow>
     (state (h b) = HEALTHY \<longrightarrow> tally (consecutive_failures hc) b < failure_threshold hc) \<and>
     (state (h b) = UNHEALTHY \<longrightarrow> tally (consecutive_successes hc) b < success_threshold hc)"

lemma tally_ok_update [lb_invs]:
  assumes "tally_ok b hc h" and "0 < failure_threshold hc" and "0 < success_threshold hc"
  shows "tally_ok b (fst (update_backend_state b r hc h)) (snd (update_backend_state b r hc h))"
  using assms
  by (cases "state (h b)") (auto simp: tally_ok_def update_defs set_state_def not_le split: if_splits)

lemma unat_tally_Suc: "n < (m :: u32) \<Longrightarrow> unat (n + 1) = unat n + 1"
proof -
  assume "n < m"
  moreover have "unat m < 2 ^ 32" using unsigned_less [of m] by simp
  ultimately have "unat n + 1 < 2 ^ 32" by (simp add: word_less_nat_alt)
  then show ?thesis by (simp add: unat_word_ariths)
qed

text \<open>Failures in a row: the backend stays HEALTHY while the tally plus the failures stay below
  the threshold, then turns UNHEALTHY and stays so.\<close>

lemma failures_run:
  assumes "state (h b) = HEALTHY" and "tally_ok b hc h" and "0 < failure_threshold hc"
  shows "state (snd (results_run b (replicate k False) (hc, h)) b) =
    (if unat (tally (consecutive_failures hc) b) + k < unat (failure_threshold hc) then HEALTHY else UNHEALTHY)"
  using assms
proof (induction k arbitrary: hc h)
  case 0
  then show ?case by (simp add: tally_ok_def word_less_nat_alt)
next
  case (Suc k)
  let ?n = "tally (consecutive_failures hc) b"
  obtain hc' h' where u: "update_backend_state b False hc h = (hc', h')" by fastforce
  have n: "unat (?n + 1) = unat ?n + 1"
    using Suc.prems by (intro unat_tally_Suc) (simp add: tally_ok_def)
  show ?case
  proof (cases "failure_threshold hc \<le> ?n + 1")
    case True
    then have st: "state (h' b) = UNHEALTHY"
      using u Suc.prems(1) by (auto simp: update_defs set_state_def)
    have stays: "state (snd (results_run b (replicate j False) (c, g)) b) = UNHEALTHY"
      if "state (g b) = UNHEALTHY" for j c g
      using that by (induction j arbitrary: c g) (auto simp: update_defs)
    from True n have "\<not> unat ?n + Suc k < unat (failure_threshold hc)"
      by (simp add: word_le_nat_alt)
    with stays [of h', OF st] u show ?thesis by simp
  next
    case False
    then have h': "h' = h" and t: "tally (consecutive_failures hc') b = ?n + 1"
      and f: "failure_threshold hc' = failure_threshold hc"
      using u Suc.prems(1) by (auto simp: update_defs)
    have ok: "tally_ok b hc' h'"
      using False Suc.prems(1) t f h' by (simp add: tally_ok_def not_le)
    have "state (snd (results_run b (replicate k False) (hc', h')) b) =
        (if unat (tally (consecutive_failures hc') b) + k < unat (failure_threshold hc') then HEALTHY else UNHEALTHY)"
      using Suc.prems ok h' f by (intro Suc.IH) simp_all
    with u t f n show ?thesis by simp
  qed
qed

lemma successes_run:
  assumes "state (h b) = UNHEALTHY" and "tally_ok b hc h" and "0 < success_threshold hc"
  shows "state (snd (results_run b (replicate k True) (hc, h)) b) =
    (if unat (tally (consecutive_successes hc) b) + k < unat (success_threshold hc) then UNHEALTHY else HEALTHY)"
  using assms
proof (induction k arbitrary: hc h)
  case 0
  then show ?case by (simp add: tally_ok_def word_less_nat_alt)
next
  case (Suc k)
  let ?n = "tally (consecutive_successes hc) b"
  obtain hc' h' where u: "update_backend_state b True hc h = (hc', h')" by fastforce
  have n: "unat (?n + 1) = unat ?n + 1"
    using Suc.prems by (intro unat_tally_Suc) (simp add: tally_ok_def)
  show ?case
  proof (cases "success_threshold hc \<le> ?n + 1")
    case True
    then have st: "state (h' b) = HEALTHY"
      using u Suc.prems(1) by (auto simp: update_defs set_state_def)
    have stays: "state (snd (results_run b (replicate j True) (c, g)) b) = HEALTHY"
      if "state (g b) = HEALTHY" for j c g
      using that by (induction j arbitrary: c g) (auto simp: update_defs)
    from True n have "\<not> unat ?n + Suc k < unat (success_threshold hc)"
      by (simp add: word_le_nat_alt)
    with stays [of h', OF st] u show ?thesis by simp
  next
    case False
    then have h': "h' = h" and t: "tally (consecutive_successes hc') b = ?n + 1"
      and f: "success_threshold hc' = success_threshold hc"
      using u Suc.prems(1) by (auto simp: update_defs)
    have ok: "tally_ok b hc' h'"
      using False Suc.prems(1) t f h' by (simp add: tally_ok_def not_le)
    have "state (snd (results_run b (replicate k True) (hc', h')) b) =
        (if unat (tally (consecutive_successes hc') b) + k < unat (success_threshold hc') then UNHEALTHY else HEALTHY)"
      using Suc.prems ok h' f by (intro Suc.IH) simp_all
    with u t f n show ?thesis by simp
  qed
qed

text \<open>
  An arbitrary history: the reference keeps the length of the current run of failures, and
  a HEALTHY backend falls exactly when that run reaches the threshold.
\<close>

fun failure_run :: "nat \<Rightarrow> nat \<Rightarrow> bool list \<Rightarrow> bool" where
  "failure_run f n [] = False"
| "failure_run f n (r # rs) = (if r then failure_run f 0 rs else f \<le> n + 1 \<or> failure_run f (n + 1) rs)"

lemma healthy_until_failure_run:
  assumes "state (h b) = HEALTHY" and "tally_ok b hc h" and "0 < failure_threshold hc"
    and "\<not> failure_run (unat (failure_threshold hc)) (unat (tally (consecutive_failures hc) b)) rs"
  shows "state (snd (results_run b rs (hc, h)) b) = HEALTHY"
  using assms
proof (induction rs arbitrary: hc h)
  case (Cons r rs)
  let ?n = "tally (consecutive_failures hc) b"
  obtain hc' h' where u: "update_backend_state b r hc h = (hc', h')" by fastforce
  have n: "unat (?n + 1) = unat ?n + 1"
    using Cons.prems by (intro unat_tally_Suc) (simp add: tally_ok_def)
  have f: "failure_threshold hc' = failure_threshold hc"
    using u by (auto simp: update_defs split: if_splits)
  have below: "\<not> r \<Longrightarrow> ?n + 1 < failure_threshold hc"
    using Cons.prems(4) n by (simp add: word_less_nat_alt)
  then have h': "h' = h" and t: "tally (consecutive_failures hc') b = (if r then 0 else ?n + 1)"
    using u Cons.prems(1) by (auto simp: update_defs split: if_splits)
  have ok: "tally_ok b hc' h'"
    using below Cons.prems(1,3) t f h' by (simp add: tally_ok_def)
  have "state (snd (results_run b rs (hc', h')) b) = HEALTHY"
    using Cons.prems ok h' f t n by (intro Cons.IH) (auto split: if_splits)
  with u show ?case by simp
qed simp

section \<open>Properties\<close>

text \<open>C23: a HEALTHY backend stays HEALTHY as long as its probe results contain no run of
  \<open>failure_threshold\<close> failures in a row, however the successes and failures alternate; and
  exactly \<open>failure_threshold\<close> failures in a row make it UNHEALTHY (a shorter row of failures
  from a fresh tally does not).\<close>

theorem health_falls_after_threshold:
  assumes "state (h b) = HEALTHY" and "consecutive_failures hc b = Some 0" and "0 < failure_threshold hc"
  shows "(\<not> failure_run (unat (failure_threshold hc)) 0 rs \<longrightarrow>
            state (snd (results_run b rs (hc, h)) b) = HEALTHY) \<and>
         state (snd (results_run b (replicate k False) (hc, h)) b) =
           (if k < unat (failure_threshold hc) then HEALTHY else UNHEALTHY)"
proof -
  have ok: "tally_ok b hc h" using assms by (simp add: tally_ok_def)
  show ?thesis
    using healthy_until_failure_run [of h b, OF assms(1) ok assms(3), of rs]
      failures_run [of h b, OF assms(1) ok assms(3), of k] assms(2) by auto
qed

definition example_checker :: HealthChecker where
  "example_checker = hc_add_backend 0 new_health_checker"

definition example_nodes :: node_heap where
  "example_nodes = (\<lambda>_. new_backend_node ''10.0.0.1'' 8000 1)"

theorem health_falls_after_threshold_witness:
  "state (snd (results_run 0 [False, False, True, False, False] (example_checker, example_nodes)) 0) = HEALTHY \<and>
   state (snd (results_run 0 (replicate 3 False) (example_checker, example_nodes)) 0) = UNHEALTHY"
  using health_falls_after_threshold [where h = example_nodes and b = 0 and hc = example_checker and k = 3
      and rs = "[False, False, True, False, False]"]
  by (simp add: example_checker_def example_nodes_def hc_add_backend_def new_health_checker_def
      new_backend_node_def)

text \<open>C24: an UNHEALTHY backend recovers after exactly \<open>success_threshold\<close> successes in a row from a
  fresh tally, and no probe result ever changes the state of a DRAINING backend or of any
  other backend.\<close>

theorem health_recovers_after_threshold:
  assumes "state (h b) = UNHEALTHY" and "consecutive_successes hc b = Some 0" and "0 < success_threshold hc"
    and "state (g b) = DRAINING" and "b' \<noteq> b"
  shows "state (snd (results_run b (replicate k True) (hc, h)) b) =
           (if k < unat (success_threshold hc) then UNHEALTHY else HEALTHY) \<and>
         snd (results_run b rs (hc', g)) = g \<and>
         snd (update_backend_state b r hc'' h) b' = h b'"
proof -
  have ok: "tally_ok b hc h" using assms by (simp add: tally_ok_def)
  show ?thesis
    using successes_run [of h b, OF assms(1) ok assms(3), of k] assms(2)
      results_run_draining [of g b, OF assms(4)] update_other_nodes [OF assms(5)] by simp
qed

theorem health_recovers_after_threshold_witness:
  "state (snd (results_run 0 (replicate 2 True)
     (example_checker, upd_node 0 (set_state UNHEALTHY) example_nodes)) 0) = HEALTHY"
  using health_recovers_after_threshold [where h = "upd_node 0 (set_state UNHEALTHY) example_nodes" and b = 0
      and hc = example_checker and k = 2 and g = "upd_node 0 (set_state DRAINING) example_nodes" and b' = 1]
  by (simp add: example_checker_def example_nodes_def hc_add_backend_def new_health_checker_def
      set_state_def)

text \<open>The check and the store of the state are not one step: when the reload or the shutdown
  marks the backend DRAINING between them, the health checker overwrites DRAINING and the
  backend can be routed to again.\<close>

theorem draining_lost_in_race:
  "let hc = example_checker\<lparr>failure_threshold := 1, success_threshold := 1\<rparr>;
       seen = UNHEALTHY;
       h = upd_node 0 (set_state DRAINING) example_nodes
   in state (h 0) = DRAINING \<and> state (snd (update_with seen 0 True hc h) 0) = HEALTHY"
  by (simp add: example_checker_def hc_add_backend_def new_health_checker_def update_with_def set_state_def Let_def)

lemma status_digits_append:
  "\<forall>c \<in> set s. is_digit c \<Longrightarrow> status_digits acc (s @ t) = status_digits (digits_value acc s) t"
  by (induction s arbitrary: acc) auto

text \<open>The HTTP probe accepts a status line exactly when its three-digit status is 200 to 299,
  whatever the reason phrase, headers and body that follow.\<close>

theorem http_probe_accepts_2xx:
  assumes "length (nat_to_string n) = 3"
  shows "check_http_response (''HTTP/1.1 '' @ nat_to_string n @ '' '' @ rest) = (200 \<le> n \<and> n < 300)"
proof -
  let ?r = "''HTTP/1.1 '' @ nat_to_string n @ '' '' @ rest"
  have 1: "find_sub ''HTTP/'' ?r = Some 0" by simp
  have 2: "find_char_from CHR '' '' ?r 0 = Some 8" by (simp add: find_char_from_def)
  have nospace: "CHR '' '' \<notin> set (nat_to_string n)"
    using nat_to_string_digits [of n] digit_not_special by fastforce
  have 3: "second_space ?r (8 + 1) = Some 12"
    using find_char_append_first [OF nospace, of rest] assms by (simp add: second_space_def find_char_from_def)
  have 4: "take (12 - 8 - 1) (drop (8 + 1) ?r) = nat_to_string n"
    using assms by simp
  have 5: "status_digits 0 (nat_to_string n) = Some n"
    using status_digits_append [OF nat_to_string_digits, of 0 n "[]"] by (simp add: digits_value_nat_to_string)
  show ?thesis
    unfolding check_http_response_def 1 2 3 option.case Let_def 4 5 using assms by simp
qed

theorem http_probe_accepts_2xx_witness:
  "check_http_response ''HTTP/1.1 204 No Content'' \<and> \<not> check_http_response ''HTTP/1.1 301 Moved''"
proof -
  have "nat_to_string 204 = ''204''" and "nat_to_string 301 = ''301''"
    by (simp_all add: nat_to_string.simps digit_char_def char_of_def bit_0)
  then show ?thesis
    using http_probe_accepts_2xx [of 204 "''No Content''"] http_probe_accepts_2xx [of 301 "''Moved''"] by simp
qed

end
