(* ===== verification/Net_Connection.thy ===== *)
theory Net_Connection
  imports Memory_Budget
begin

text \<open>
  \<^verbatim>\<open>net/connection.h\<close>, \<^verbatim>\<open>net/connection.cpp\<close>: one connection with its two buffers. The
  \<open>std::function\<close> members that reserve and release bytes are arguments of the operations
  (\<open>accounted\<close> says whether they are set), over an abstract budget state. What the kernel
  or OpenSSL answers to a read or a write is an argument too: \<open>ReadData d\<close> offers the bytes
  \<open>d\<close>, of which a call takes at most what it asked for; \<open>Accepted n\<close> takes at most \<open>n\<close> of
  the offered bytes. The part of \<open>close\<close> that touches other objects (the descriptor, the
  SSL object and the peer) is in the theory of the connection tables.
\<close>

datatype ConnectionState = HANDSHAKE | CONNECTING | ESTABLISHED | CLOSED

type_synonym conn_id = nat
type_synonym ssl_id = nat

record Connection =
  conn_fd :: fd
  conn_state :: ConnectionState
  peer :: "conn_id option"
  ssl :: "ssl_id option"
  read_buf :: bytes
  write_buf :: bytes
  bytes_read :: nat
  bytes_written :: nat
  accounted :: bool
  memory_blocked :: bool
  buffer_full :: bool

definition MAX_BUFFER_SIZE :: nat where
  "MAX_BUFFER_SIZE = 64 * 1024"

definition new_connection :: "fd \<Rightarrow> Connection" where
  "new_connection f =
     \<lparr>conn_fd = f, conn_state = ESTABLISHED, peer = None, ssl = None, read_buf = [], write_buf = [],
      bytes_read = 0, bytes_written = 0, accounted = False, memory_blocked = False, buffer_full = False\<rparr>"

definition set_conn_state :: "ConnectionState \<Rightarrow> Connection \<Rightarrow> Connection" where
  "set_conn_state st c = c\<lparr>conn_state := st\<rparr>"

definition set_peer :: "conn_id option \<Rightarrow> Connection \<Rightarrow> Connection" where
  "set_peer p c = c\<lparr>peer := p\<rparr>"

definition set_memory_accounting :: "Connection \<Rightarrow> Connection" where
  "set_memory_accounting c = c\<lparr>accounted := True\<rparr>"

definition set_buffer_full :: "bool \<Rightarrow> Connection \<Rightarrow> Connection" where
  "set_buffer_full v c = c\<lparr>buffer_full := v\<rparr>"

definition is_tls :: "Connection \<Rightarrow> bool" where
  "is_tls c \<longleftrightarrow> ssl c \<noteq> None"

text \<open>The difference of two \<open>size_t\<close> values wraps below zero.\<close>

definition write_available :: "Connection \<Rightarrow> nat" where
  "write_available c = unat (of_nat MAX_BUFFER_SIZE - of_nat (length (write_buf c)) :: u64)"

definition has_read_space :: "Connection \<Rightarrow> bool" where
  "has_read_space c \<longleftrightarrow> length (read_buf c) < MAX_BUFFER_SIZE"

subsection \<open>Reading and writing\<close>

datatype io_read = ReadData bytes | ReadWouldBlock | ReadFailed
datatype io_write = Accepted nat | WriteWouldBlock | WriteFailed

text \<open>
  In \<open>read_from_fd\<close> an empty offer is the end of the stream (\<open>read\<close> returned 0), which the
  code treats as a failed read.
\<close>

definition read_from_fd ::
    "(nat \<Rightarrow> 'b \<Rightarrow> bool \<times> 'b) \<Rightarrow> (nat \<Rightarrow> 'b \<Rightarrow> 'b) \<Rightarrow> io_read \<Rightarrow> Connection \<Rightarrow> 'b \<Rightarrow>
     bool \<times> Connection \<times> 'b" where
  "read_from_fd reserve give_back io c b =
     (if length (read_buf c) \<ge> MAX_BUFFER_SIZE then (True, c\<lparr>buffer_full := True\<rparr>, b)
      else
        let c1 = c\<lparr>buffer_full := False\<rparr>;
            to_read = MAX_BUFFER_SIZE - length (read_buf c1);
            (granted, b1) = (if accounted c1 then reserve to_read b else (True, b))
        in if \<not> granted then (True, c1\<lparr>memory_blocked := True\<rparr>, b1)
           else
             let undo = (if accounted c1 then give_back to_read b1 else b1) in
             (case io of
                ReadFailed \<Rightarrow> (False, c1, undo)
              | ReadWouldBlock \<Rightarrow> (True, c1, undo)
              | ReadData d \<Rightarrow>
                  let got = take to_read d; n = length got in
                  if n = 0 then (False, c1, undo)
                  else
                    let c2 = c1\<lparr>read_buf := read_buf c1 @ got, bytes_read := bytes_read c1 + n,
                                memory_blocked := False\<rparr>;
                        b2 = (if accounted c1 \<and> n < to_read then give_back (to_read - n) b1 else b1)
                    in (True, c2\<lparr>buffer_full := length (read_buf c2) \<ge> MAX_BUFFER_SIZE\<rparr>, b2)))"

definition write_to_fd ::
    "(nat \<Rightarrow> 'b \<Rightarrow> 'b) \<Rightarrow> io_write \<Rightarrow> Connection \<Rightarrow> 'b \<Rightarrow> bool \<times> Connection \<times> 'b" where
  "write_to_fd give_back io c b =
     (if write_buf c = [] then (True, c, b)
      else case io of
        WriteFailed \<Rightarrow> (False, c, b)
      | WriteWouldBlock \<Rightarrow> (True, c, b)
      | Accepted k \<Rightarrow>
          let n = min k (length (write_buf c)) in
          (True,
           c\<lparr>write_buf := drop n (write_buf c), bytes_written := bytes_written c + n,
             memory_blocked := False\<rparr>,
           if accounted c then give_back n b else b))"

definition clear_buffers :: "(nat \<Rightarrow> 'b \<Rightarrow> 'b) \<Rightarrow> Connection \<Rightarrow> 'b \<Rightarrow> Connection \<times> 'b" where
  "clear_buffers give_back c b =
     (c\<lparr>read_buf := [], write_buf := [], memory_blocked := False, buffer_full := False\<rparr>,
      if accounted c then give_back (length (read_buf c) + length (write_buf c)) b else b)"

definition try_reserve_additional_bytes ::
    "(nat \<Rightarrow> 'b \<Rightarrow> bool \<times> 'b) \<Rightarrow> nat \<Rightarrow> Connection \<Rightarrow> 'b \<Rightarrow> bool \<times> Connection \<times> 'b" where
  "try_reserve_additional_bytes reserve n c b =
     (if n = 0 then (True, c\<lparr>memory_blocked := False\<rparr>, b)
      else if \<not> accounted c then (True, c\<lparr>memory_blocked := False\<rparr>, b)
      else case reserve n b of
        (False, b') \<Rightarrow> (False, c\<lparr>memory_blocked := True\<rparr>, b')
      | (True, b') \<Rightarrow> (True, c\<lparr>memory_blocked := False\<rparr>, b'))"

definition release_accounted_bytes ::
    "(nat \<Rightarrow> 'b \<Rightarrow> 'b) \<Rightarrow> nat \<Rightarrow> Connection \<Rightarrow> 'b \<Rightarrow> Connection \<times> 'b" where
  "release_accounted_bytes give_back n c b =
     (if n = 0 then (c, b)
      else (c\<lparr>memory_blocked := False\<rparr>, if accounted c then give_back n b else b))"

text \<open>The part of \<open>close\<close> that concerns the connection's own members and the budget.\<close>

definition shut :: "(nat \<Rightarrow> 'b \<Rightarrow> 'b) \<Rightarrow> Connection \<Rightarrow> 'b \<Rightarrow> Connection \<times> 'b" where
  "shut give_back c b =
     (c\<lparr>read_buf := [], write_buf := [], accounted := False, memory_blocked := False,
        buffer_full := False, ssl := None, conn_fd := (if conn_fd c \<ge> 0 then - 1 else conn_fd c),
        conn_state := CLOSED\<rparr>,
      if accounted c then give_back (length (read_buf c) + length (write_buf c)) b else b)"

subsection \<open>Moving bytes between the buffers of two connections\<close>

definition transfer :: "nat \<Rightarrow> Connection \<Rightarrow> Connection \<Rightarrow> Connection \<times> Connection" where
  "transfer to_copy from to =
     (from\<lparr>read_buf := drop to_copy (read_buf from)\<rparr>,
      to\<lparr>write_buf := write_buf to @ take to_copy (read_buf from)\<rparr>)"

subsection \<open>Invariant and accounting\<close>

definition buffered :: "Connection \<Rightarrow> nat" where
  "buffered c = length (read_buf c) + length (write_buf c)"

definition conn_ok :: "Connection \<Rightarrow> bool" where
  "conn_ok c \<longleftrightarrow> length (read_buf c) \<le> MAX_BUFFER_SIZE \<and> length (write_buf c) \<le> MAX_BUFFER_SIZE"

lemma conn_ok_new [lb_invs]: "conn_ok (new_connection f)"
  by (simp add: conn_ok_def new_connection_def)

lemma conn_ok_buffered: "conn_ok c \<Longrightarrow> buffered c \<le> 2 * MAX_BUFFER_SIZE"
  by (simp add: conn_ok_def buffered_def)

lemma conn_ok_read [lb_invs]:
  assumes "conn_ok c" shows "conn_ok (fst (snd (read_from_fd reserve give_back io c b)))"
  using assms by (auto simp: read_from_fd_def conn_ok_def Let_def split: prod.splits io_read.splits)

lemma conn_ok_write [lb_invs]:
  assumes "conn_ok c" shows "conn_ok (fst (snd (write_to_fd give_back io c b)))"
  using assms by (auto simp: write_to_fd_def conn_ok_def Let_def split: io_write.splits)

text \<open>While the write buffer is within its bound, the room in it does not wrap.\<close>

lemma write_available_room:
  assumes "length (write_buf c) \<le> MAX_BUFFER_SIZE"
  shows "write_available c = MAX_BUFFER_SIZE - length (write_buf c)"
proof -
  have max: "unat (of_nat MAX_BUFFER_SIZE :: u64) = MAX_BUFFER_SIZE" by (simp add: MAX_BUFFER_SIZE_def)
  have "MAX_BUFFER_SIZE < 2 ^ 64" by (simp add: MAX_BUFFER_SIZE_def)
  with assms have len: "unat (of_nat (length (write_buf c)) :: u64) = length (write_buf c)" by (simp add: unat_of_nat_u64)
  have "(of_nat (length (write_buf c)) :: u64) \<le> of_nat MAX_BUFFER_SIZE" using assms by (simp only: word_le_nat_alt max len)
  then show ?thesis by (simp only: write_available_def unat_sub max len)
qed

lemma conn_ok_transfer [lb_invs]:
  assumes "conn_ok from" and "conn_ok to" and "n \<le> write_available to"
  shows "conn_ok (fst (transfer n from to))" and "conn_ok (snd (transfer n from to))"
  using assms by (auto simp: transfer_def conn_ok_def write_available_room)

lemma buffered_transfer:
  "buffered (fst (transfer n from to)) + buffered (snd (transfer n from to)) = buffered from + buffered to"
  by (simp add: transfer_def buffered_def)

text \<open>The bytes that passed: nothing is lost, duplicated or reordered.\<close>

lemma read_from_fd_bytes:
  assumes "read_from_fd reserve give_back io c b = (r, c', b')"
  shows "\<exists>got. read_buf c' = read_buf c @ got \<and> bytes_read c' = bytes_read c + length got \<and>
     write_buf c' = write_buf c \<and> conn_fd c' = conn_fd c \<and> conn_state c' = conn_state c \<and> peer c' = peer c \<and>
     accounted c' = accounted c \<and> ssl c' = ssl c"
  using assms
  by (auto simp: read_from_fd_def Let_def split: if_splits prod.splits io_read.splits)

text \<open>How much of an offer the kernel's answer to a write takes at most.\<close>

fun accepted_bytes :: "io_write \<Rightarrow> nat" where
  "accepted_bytes (Accepted n) = n"
| "accepted_bytes _ = 0"

lemma write_to_fd_exact:
  assumes "write_to_fd give_back io c b = (r, c', b')"
  shows "r \<longleftrightarrow> write_buf c = [] \<or> io \<noteq> WriteFailed" and "write_buf c' = drop (accepted_bytes io) (write_buf c)"
    and "bytes_written c' = bytes_written c + min (accepted_bytes io) (length (write_buf c))"
    and "read_buf c' = read_buf c" and "conn_fd c' = conn_fd c" and "conn_state c' = conn_state c" and "peer c' = peer c"
    and "accounted c' = accounted c" and "ssl c' = ssl c"
  using assms by (auto simp: write_to_fd_def Let_def min_def split: if_splits io_write.splits)

text \<open>\<open>balanced in_use ok c b c' b'\<close>: the budget moved by exactly what the buffers moved.\<close>

definition balanced :: "('b \<Rightarrow> nat) \<Rightarrow> ('b \<Rightarrow> bool) \<Rightarrow> Connection \<Rightarrow> 'b \<Rightarrow> Connection \<Rightarrow> 'b \<Rightarrow> bool" where
  "balanced in_use ok c b c' b' \<longleftrightarrow> ok b' \<and> in_use b' + buffered c = in_use b + buffered c'"

context byte_accounting
begin

lemma read_balanced:
  assumes "ok b" and "accounted c" and "MAX_BUFFER_SIZE \<le> bound"
    and "read_from_fd reserve give_back io c b = (r, c', b')"
  shows "balanced in_use ok c b c' b'"
proof (cases "length (read_buf c) \<ge> MAX_BUFFER_SIZE")
  case True
  with assms show ?thesis by (auto simp: read_from_fd_def balanced_def buffered_def)
next
  case False
  let ?n = "MAX_BUFFER_SIZE - length (read_buf c)"
  obtain g b1 where res: "reserve ?n b = (g, b1)" by fastforce
  have n: "?n \<le> bound" using assms(3) by simp
  show ?thesis
  proof (cases g)
    case refused: False
    with res have "b1 = b" by (simp add: reserve_refused)
    with False refused res assms show ?thesis
      by (auto simp: read_from_fd_def Let_def balanced_def buffered_def)
  next
    case granted: True
    with res have keep: "ok (give_back (?n - k) b1) \<and> in_use (give_back (?n - k) b1) = in_use b + k" if "k \<le> ?n" for k
      using reserve_keeps_part [OF assms(1) n _ that] by simp
    have b1: "ok b1" "in_use b1 = in_use b + ?n"
      using reserve_granted [OF assms(1) n] res granted by auto
    show ?thesis
    proof (cases io)
      case (ReadData d)
      let ?k = "length (take ?n d)"
      show ?thesis
      proof (cases "?k = 0 \<or> ?k < ?n")
        case True
        then show ?thesis
          using False granted res assms(2,4) ReadData keep [of ?k] keep [of 0]
          by (auto simp: read_from_fd_def Let_def balanced_def buffered_def min_def split: if_splits)
      next
        case full: False
        then show ?thesis
          using False granted res assms(2,4) ReadData b1
          by (auto simp: read_from_fd_def Let_def balanced_def buffered_def split: if_splits)
      qed
    qed (use False granted res assms(2,4) keep [of 0] in
        \<open>auto simp: read_from_fd_def Let_def balanced_def buffered_def\<close>)
  qed
qed

lemma write_balanced:
  assumes "ok b" and "accounted c" and "conn_ok c" and "MAX_BUFFER_SIZE \<le> bound" and "buffered c \<le> in_use b"
    and "write_to_fd give_back io c b = (r, c', b')"
  shows "balanced in_use ok c b c' b'"
proof (cases "write_buf c = []")
  case True
  with assms show ?thesis by (auto simp: write_to_fd_def balanced_def)
next
  case False
  show ?thesis
  proof (cases io)
    case (Accepted k)
    let ?n = "min k (length (write_buf c))"
    have "?n \<le> bound" "?n \<le> in_use b" using assms by (auto simp: conn_ok_def buffered_def)
    from give_back_exact [OF assms(1) this] False Accepted assms show ?thesis
      by (auto simp: write_to_fd_def Let_def balanced_def buffered_def)
  qed (use assms False in \<open>auto simp: write_to_fd_def balanced_def\<close>)
qed

lemma shut_balanced:
  assumes "ok b" and "accounted c" and "conn_ok c" and "2 * MAX_BUFFER_SIZE \<le> bound" and "buffered c \<le> in_use b"
    and "shut give_back c b = (c', b')"
  shows "balanced in_use ok c b c' b'" and "buffered c' = 0"
proof -
  have "buffered c \<le> bound" using conn_ok_buffered [OF assms(3)] assms(4) by simp
  from give_back_exact [OF assms(1) this assms(5)] assms show "balanced in_use ok c b c' b'" and "buffered c' = 0"
    by (auto simp: shut_def balanced_def buffered_def)
qed

lemma clear_balanced:
  assumes "ok b" and "accounted c" and "conn_ok c" and "2 * MAX_BUFFER_SIZE \<le> bound" and "buffered c \<le> in_use b"
    and "clear_buffers give_back c b = (c', b')"
  shows "balanced in_use ok c b c' b'" and "buffered c' = 0"
proof -
  have "buffered c \<le> bound" using conn_ok_buffered [OF assms(3)] assms(4) by simp
  from give_back_exact [OF assms(1) this assms(5)] assms show "balanced in_use ok c b c' b'" and "buffered c' = 0"
    by (auto simp: clear_buffers_def balanced_def buffered_def)
qed

end

lemma buffer_below_bound: "MAX_BUFFER_SIZE \<le> 2 ^ 32" "2 * MAX_BUFFER_SIZE \<le> 2 ^ 32"
  by (simp_all add: MAX_BUFFER_SIZE_def)

section \<open>Properties\<close>

text \<open>C17: the global budget and the buffers of an accounted connection move together: after a
  read, whatever the kernel answers, and after a write, a clearing or the closing of the
  connection, the reserved bytes have changed by exactly the change of the buffered bytes,
  and a closed or cleared connection holds none; buffers never exceed 64 KiB.\<close>

theorem connection_accounting_exact:
  assumes "budget_ok (2 ^ 32) b" and "accounted c" and "conn_ok c" and "buffered c \<le> unat (used_bytes b)"
  shows "(case read_from_fd reserve_bytes release_bytes rio c b of (r, c', b') \<Rightarrow>
            conn_ok c' \<and> unat (used_bytes b') + buffered c = unat (used_bytes b) + buffered c') \<and>
         (case write_to_fd release_bytes wio c b of (r, c', b') \<Rightarrow>
            conn_ok c' \<and> unat (used_bytes b') + buffered c = unat (used_bytes b) + buffered c') \<and>
         (case clear_buffers release_bytes c b of (c', b') \<Rightarrow>
            buffered c' = 0 \<and> unat (used_bytes b') + buffered c = unat (used_bytes b)) \<and>
         (case shut release_bytes c b of (c', b') \<Rightarrow>
            buffered c' = 0 \<and> unat (used_bytes b') + buffered c = unat (used_bytes b))"
proof -
  note bounds = buffer_below_bound
  have r: "case read_from_fd reserve_bytes release_bytes rio c b of (r, c', b') \<Rightarrow>
      conn_ok c' \<and> unat (used_bytes b') + buffered c = unat (used_bytes b) + buffered c'"
    using mb.read_balanced [OF assms(1,2) bounds(1)] conn_ok_read [OF assms(3), of reserve_bytes release_bytes rio b]
    by (auto simp: balanced_def split: prod.splits)
  have w: "case write_to_fd release_bytes wio c b of (r, c', b') \<Rightarrow>
      conn_ok c' \<and> unat (used_bytes b') + buffered c = unat (used_bytes b) + buffered c'"
    using mb.write_balanced [OF assms(1,2,3) bounds(1) assms(4)] conn_ok_write [OF assms(3), of release_bytes wio b]
    by (auto simp: balanced_def split: prod.splits)
  have s: "case shut release_bytes c b of (c', b') \<Rightarrow>
      buffered c' = 0 \<and> unat (used_bytes b') + buffered c = unat (used_bytes b)"
    using mb.shut_balanced [OF assms(1,2,3) bounds(2) assms(4)]
    by (auto simp: balanced_def split: prod.splits)
  have c: "case clear_buffers release_bytes c b of (c', b') \<Rightarrow>
      buffered c' = 0 \<and> unat (used_bytes b') + buffered c = unat (used_bytes b)"
    using mb.clear_balanced [OF assms(1,2,3) bounds(2) assms(4)]
    by (auto simp: balanced_def split: prod.splits)
  from r w s c show ?thesis by blast
qed

theorem connection_accounting_exact_witness:
  "case read_from_fd reserve_bytes release_bytes (ReadData ''abc'')
      ((new_connection 5)\<lparr>accounted := True\<rparr>) \<lparr>used_bytes = 0, limit_bytes = 1000000\<rparr> of (r, c', b') \<Rightarrow>
    read_buf c' = ''abc'' \<and> unat (used_bytes b') = 3"
proof -
  let ?c = "(new_connection 5)\<lparr>accounted := True\<rparr>"
  let ?b = "\<lparr>used_bytes = 0, limit_bytes = 1000000\<rparr>"
  obtain r c' b' where rd: "read_from_fd reserve_bytes release_bytes (ReadData ''abc'') ?c ?b = (r, c', b')"
    by (metis prod_cases3)
  have buf: "read_buf c' = ''abc'' \<and> write_buf c' = []"
    using rd by (auto simp: read_from_fd_def new_connection_def MAX_BUFFER_SIZE_def reserve_bytes_def
        try_reserve_def Let_def)
  have "unat (used_bytes b') + buffered ?c = unat (used_bytes ?b) + buffered c'"
    using connection_accounting_exact [where b = ?b and c = ?c and rio = "ReadData ''abc''"] rd
    by (simp add: budget_ok_def new_connection_def buffered_def conn_ok_def)
  with buf rd show ?thesis by (simp add: buffered_def new_connection_def)
qed

end
