(* ===== verification/Connection_Pool.thy ===== *)
theory Connection_Pool
  imports Net_Connection Backend_Node "HOL-Library.Multiset"
begin

text \<open>
  \<^verbatim>\<open>core/connection_pool.h\<close>, \<^verbatim>\<open>core/connection_pool.cpp\<close>: idle backend connections per
  backend. A pooled connection is owned by the pool alone; the operations return the
  connections that the code closes and destroys, in order, and the tables' theory performs
  the closing. Whether a connection passes \<open>validate_connection\<close> (the state check and the
  peeking \<open>recv\<close>) is the argument \<open>valid\<close> of \<open>pool_borrow\<close> and \<open>pool_release\<close>, and whether
  \<open>create_connection\<close> succeeds the argument \<open>created\<close>; the two functions themselves are
  \<open>validate_connection\<close> and \<open>create_connection\<close>, over what the kernel answers.

  \<open>borrow\<close> erases an invalid connection from the deque and goes on with the same, now
  invalidated iterator: that is undefined behaviour, the outcome \<open>BorrowUndefined\<close>.
\<close>

record PoolConfig =
  min_connections :: nat
  max_connections :: nat
  max_idle_time_ms :: nat
  connect_timeout_ms :: nat
  validate_on_borrow :: bool

record PooledConnection =
  pc_connection :: conn_id
  last_used :: time
  in_use :: bool

record ConnectionPool =
  pool_host :: string
  pool_port :: u16
  pool_config :: PoolConfig
  pool_connections :: "PooledConnection list"
  active_count :: nat

definition new_connection_pool :: "string \<Rightarrow> u16 \<Rightarrow> PoolConfig \<Rightarrow> ConnectionPool" where
  "new_connection_pool h p cfg =
     \<lparr>pool_host = h, pool_port = p, pool_config = cfg, pool_connections = [], active_count = 0\<rparr>"

datatype peek = Peeked nat | PeekWouldBlock | PeekFailed

definition validate_connection :: "peek \<Rightarrow> Connection \<Rightarrow> bool" where
  "validate_connection io c \<longleftrightarrow>
     (if conn_fd c < 0 then False
      else if conn_state c \<noteq> ESTABLISHED then False
      else case io of Peeked n \<Rightarrow> n \<noteq> 0 | PeekWouldBlock \<Rightarrow> True | PeekFailed \<Rightarrow> False)"

text \<open>
  The answers of the kernel to \<open>socket\<close>, \<open>getaddrinfo\<close>, \<open>connect\<close>, \<open>select\<close> (its return
  value) and \<open>getsockopt(SO_ERROR)\<close> (\<open>None\<close> when the call fails). The second component of
  the result lists the descriptors the function closes.
\<close>

datatype connect_answer = ConnectDone | ConnectInProgress | ConnectFailed

record dial =
  dial_socket :: fd
  dial_resolved :: bool
  dial_connect :: connect_answer
  dial_select :: int
  dial_so_error :: "int option"

definition create_connection :: "dial \<Rightarrow> Connection option \<times> fd list" where
  "create_connection k =
     (let f = dial_socket k in
      if f < 0 then (None, [])
      else if \<not> dial_resolved k then (None, [f])
      else if dial_connect k = ConnectFailed then (None, [f])
      else if dial_select k \<le> 0 then (None, [f])
      else if dial_so_error k = None \<or> dial_so_error k \<noteq> Some 0 then (None, [f])
      else (Some (set_conn_state ESTABLISHED (new_connection f)), []))"

datatype borrow_result = Borrowed conn_id | Created | NoConnection | BorrowUndefined

fun borrow_idle :: "bool \<Rightarrow> (conn_id \<Rightarrow> bool) \<Rightarrow> PooledConnection list \<Rightarrow> PooledConnection list \<Rightarrow>
    (borrow_result \<times> PooledConnection list) option" where
  "borrow_idle check valid skipped [] = None"
| "borrow_idle check valid skipped (pc # idles) =
     (if \<not> in_use pc then
        (if check \<and> \<not> valid (pc_connection pc) then Some (BorrowUndefined, skipped @ idles)
         else Some (Borrowed (pc_connection pc), skipped @ idles))
      else borrow_idle check valid (skipped @ [pc]) idles)"

definition pool_borrow ::
    "(conn_id \<Rightarrow> bool) \<Rightarrow> bool \<Rightarrow> ConnectionPool \<Rightarrow> borrow_result \<times> ConnectionPool" where
  "pool_borrow valid created p =
     (case borrow_idle (validate_on_borrow (pool_config p)) valid [] (pool_connections p) of
        Some (BorrowUndefined, idles) \<Rightarrow> (BorrowUndefined, p\<lparr>pool_connections := idles\<rparr>)
      | Some (r, idles) \<Rightarrow> (r, p\<lparr>pool_connections := idles, active_count := active_count p + 1\<rparr>)
      | None \<Rightarrow>
          if active_count p < max_connections (pool_config p) \<and> created
          then (Created, p\<lparr>active_count := active_count p + 1\<rparr>)
          else (NoConnection, p))"

definition pool_release ::
    "bool \<Rightarrow> time \<Rightarrow> conn_id \<Rightarrow> ConnectionPool \<Rightarrow> conn_id list \<times> ConnectionPool" where
  "pool_release valid now c p =
     (let p1 = p\<lparr>active_count := active_count p - 1\<rparr> in
      if \<not> valid then ([c], p1)
      else ([], p1\<lparr>pool_connections := pool_connections p1 @
                     [\<lparr>pc_connection = c, last_used = now, in_use = False\<rparr>]\<rparr>))"

definition pool_invalidate :: "ConnectionPool \<Rightarrow> ConnectionPool" where
  "pool_invalidate p = p\<lparr>active_count := active_count p - 1\<rparr>"

definition pool_clear :: "ConnectionPool \<Rightarrow> conn_id list \<times> ConnectionPool" where
  "pool_clear p =
     (map pc_connection (pool_connections p), p\<lparr>pool_connections := [], active_count := 0\<rparr>)"

definition idle_count :: "ConnectionPool \<Rightarrow> nat" where
  "idle_count p = length (filter (\<lambda>pc. \<not> in_use pc) (pool_connections p))"

definition expired :: "time \<Rightarrow> PoolConfig \<Rightarrow> PooledConnection \<Rightarrow> bool" where
  "expired now cfg pc \<longleftrightarrow>
     unat (of_int (duration_cast_ms (now - last_used pc)) :: u64) > max_idle_time_ms cfg"

fun evict_walk :: "time \<Rightarrow> PoolConfig \<Rightarrow> nat \<Rightarrow> PooledConnection list \<Rightarrow>
    conn_id list \<times> PooledConnection list" where
  "evict_walk now cfg idle [] = ([], [])"
| "evict_walk now cfg idle (pc # idles) =
     (if \<not> in_use pc \<and> idle > min_connections cfg \<and> expired now cfg pc
      then (let (closed, kept) = evict_walk now cfg (idle - 1) idles in (pc_connection pc # closed, kept))
      else (let (closed, kept) = evict_walk now cfg idle idles in (closed, pc # kept)))"

definition pool_evict_expired :: "time \<Rightarrow> ConnectionPool \<Rightarrow> conn_id list \<times> ConnectionPool" where
  "pool_evict_expired now p =
     (let (closed, kept) = evict_walk now (pool_config p) (idle_count p) (pool_connections p)
      in (closed, p\<lparr>pool_connections := kept\<rparr>))"

subsection \<open>The manager\<close>

record ConnectionPoolManager =
  pm_default_config :: PoolConfig
  pools :: "(string \<times> ConnectionPool) list"

definition new_pool_manager :: "PoolConfig \<Rightarrow> ConnectionPoolManager" where
  "new_pool_manager cfg = \<lparr>pm_default_config = cfg, pools = []\<rparr>"

definition make_key :: "string \<Rightarrow> u16 \<Rightarrow> string" where
  "make_key h p = h @ '':'' @ nat_to_string (unat p)"

definition get_pool :: "string \<Rightarrow> u16 \<Rightarrow> ConnectionPoolManager \<Rightarrow> ConnectionPool \<times> ConnectionPoolManager" where
  "get_pool h p m =
     (case map_of (pools m) (make_key h p) of
        Some q \<Rightarrow> (q, m)
      | None \<Rightarrow>
          let q = new_connection_pool h p (pm_default_config m)
          in (q, m\<lparr>pools := AList.update (make_key h p) q (pools m)\<rparr>))"

definition pm_borrow ::
    "(conn_id \<Rightarrow> bool) \<Rightarrow> bool \<Rightarrow> string \<Rightarrow> u16 \<Rightarrow> ConnectionPoolManager \<Rightarrow>
     borrow_result \<times> ConnectionPoolManager" where
  "pm_borrow valid created h p m =
     (let (q, m1) = get_pool h p m;
          (r, q') = pool_borrow valid created q
      in (r, m1\<lparr>pools := AList.update (make_key h p) q' (pools m1)\<rparr>))"

text \<open>Without a pool for the backend the connection is dropped, which destroys it.\<close>

definition pm_release ::
    "bool \<Rightarrow> time \<Rightarrow> string \<Rightarrow> u16 \<Rightarrow> conn_id \<Rightarrow> ConnectionPoolManager \<Rightarrow>
     conn_id list \<times> ConnectionPoolManager" where
  "pm_release valid now h p c m =
     (case map_of (pools m) (make_key h p) of
        None \<Rightarrow> ([c], m)
      | Some q \<Rightarrow>
          let (closed, q') = pool_release valid now c q
          in (closed, m\<lparr>pools := AList.update (make_key h p) q' (pools m)\<rparr>))"

definition pm_invalidate :: "string \<Rightarrow> u16 \<Rightarrow> ConnectionPoolManager \<Rightarrow> ConnectionPoolManager" where
  "pm_invalidate h p m =
     (case map_of (pools m) (make_key h p) of
        None \<Rightarrow> m
      | Some q \<Rightarrow> m\<lparr>pools := AList.update (make_key h p) (pool_invalidate q) (pools m)\<rparr>)"

definition pm_clear :: "ConnectionPoolManager \<Rightarrow> conn_id list \<times> ConnectionPoolManager" where
  "pm_clear m = (concat (map (\<lambda>kq. fst (pool_clear (snd kq))) (pools m)), m\<lparr>pools := []\<rparr>)"

definition pm_evict_expired :: "time \<Rightarrow> ConnectionPoolManager \<Rightarrow> conn_id list \<times> ConnectionPoolManager" where
  "pm_evict_expired now m =
     (concat (map (\<lambda>kq. fst (pool_evict_expired now (snd kq))) (pools m)),
      m\<lparr>pools := map (\<lambda>kq. (fst kq, snd (pool_evict_expired now (snd kq)))) (pools m)\<rparr>)"

subsection \<open>Idle lists\<close>

text \<open>Nothing in the pool is marked as in use: a borrowed connection has left the deque.\<close>

definition pool_ok :: "ConnectionPool \<Rightarrow> bool" where
  "pool_ok p \<longleftrightarrow> (\<forall>pc \<in> set (pool_connections p). \<not> in_use pc)"

lemma pool_ok_new [lb_invs]: "pool_ok (new_connection_pool h p cfg)"
  by (simp add: pool_ok_def new_connection_pool_def)

lemma pool_ok_release [lb_invs]: "pool_ok p \<Longrightarrow> pool_ok (snd (pool_release v now c p))"
  by (auto simp: pool_ok_def pool_release_def Let_def)

lemma idle_count_ok: "pool_ok p \<Longrightarrow> idle_count p = length (pool_connections p)"
  by (simp add: pool_ok_def idle_count_def)

lemma pool_borrow_ok:
  assumes "pool_ok p"
  shows "pool_borrow valid created p =
    (case pool_connections p of
       pc # idles \<Rightarrow>
         if validate_on_borrow (pool_config p) \<and> \<not> valid (pc_connection pc)
         then (BorrowUndefined, p\<lparr>pool_connections := idles\<rparr>)
         else (Borrowed (pc_connection pc), p\<lparr>pool_connections := idles, active_count := active_count p + 1\<rparr>)
     | [] \<Rightarrow>
         if active_count p < max_connections (pool_config p) \<and> created
         then (Created, p\<lparr>active_count := active_count p + 1\<rparr>) else (NoConnection, p))"
  using assms by (cases "pool_connections p") (auto simp: pool_borrow_def pool_ok_def)

lemma pool_ok_borrow [lb_invs]: "pool_ok p \<Longrightarrow> pool_ok (snd (pool_borrow valid created p))"
  by (auto simp: pool_borrow_ok pool_ok_def split: list.splits)

lemma evict_walk_split:
  "evict_walk now cfg idle idles = (closed, kept) \<Longrightarrow>
   mset (map pc_connection idles) = mset closed + mset (map pc_connection kept) \<and> set kept \<subseteq> set idles \<and>
   (\<forall>c \<in> set closed. \<exists>pc \<in> set idles. c = pc_connection pc \<and> expired now cfg pc)"
proof (induction idles arbitrary: idle closed kept)
  case (Cons pc idles)
  show ?case
  proof (cases "\<not> in_use pc \<and> idle > min_connections cfg \<and> expired now cfg pc")
    case True
    with Cons.prems obtain closed' where w: "evict_walk now cfg (idle - 1) idles = (closed', kept)"
      and c: "closed = pc_connection pc # closed'" by (auto split: prod.splits)
    from Cons.IH [OF w] c True show ?thesis by auto
  next
    case False
    with Cons.prems obtain kept' where w: "evict_walk now cfg idle idles = (closed, kept')"
      and k: "kept = pc # kept'" by (auto split: prod.splits)
    from Cons.IH [OF w] k show ?thesis by auto
  qed
qed simp

lemma evict_walk_keeps_min:
  assumes "\<forall>pc \<in> set idles. \<not> in_use pc" and "length idles \<le> idle"
    and "evict_walk now cfg idle idles = (closed, kept)"
  shows "length closed \<le> idle - min_connections cfg"
  using assms
proof (induction idles arbitrary: idle closed kept)
  case (Cons pc idles)
  show ?case
  proof (cases "idle > min_connections cfg \<and> expired now cfg pc")
    case True
    with Cons.prems obtain closed' where w: "evict_walk now cfg (idle - 1) idles = (closed', kept)"
      and c: "closed = pc_connection pc # closed'" by (auto split: prod.splits)
    have "length closed' \<le> idle - 1 - min_connections cfg"
      using Cons.prems by (intro Cons.IH [OF _ _ w]) auto
    with c True show ?thesis by (auto simp: less_iff_Suc_add)
  next
    case False
    with Cons.prems obtain kept' where w: "evict_walk now cfg idle idles = (closed, kept')"
      by (auto split: prod.splits)
    show ?thesis using Cons.prems by (intro Cons.IH [OF _ _ w]) auto
  qed
qed simp

section \<open>Properties\<close>

text \<open>Opening a pooled connection never leaks a descriptor: a descriptor the kernel handed
  out is either owned by the one returned connection, which is established and would pass
  the validity check on an idle stream, or has been closed exactly once; nothing else is closed.\<close>

theorem create_connection_no_leak:
  "case create_connection k of
     (Some c, closed) \<Rightarrow> 0 \<le> dial_socket k \<and> conn_fd c = dial_socket k \<and> closed = [] \<and>
        validate_connection PeekWouldBlock c \<and> \<not> validate_connection (Peeked 0) c
   | (None, closed) \<Rightarrow> closed = (if 0 \<le> dial_socket k then [dial_socket k] else [])"
  by (auto simp: create_connection_def Let_def validate_connection_def new_connection_def set_conn_state_def
      split: if_splits)

text \<open>C22: evicting closes only idle connections whose idle time exceeds the limit, loses none
  (every connection is either closed or kept), and leaves at least the configured minimum
  idle when there were that many.\<close>

theorem evict_keeps_minimum:
  assumes "pool_ok p" and "pool_evict_expired now p = (closed, p')"
  shows "mset (map pc_connection (pool_connections p)) =
           mset closed + mset (map pc_connection (pool_connections p')) \<and>
         (\<forall>c \<in> set closed. \<exists>pc \<in> set (pool_connections p). c = pc_connection pc \<and> expired now (pool_config p) pc) \<and>
         min (min_connections (pool_config p)) (idle_count p) \<le> idle_count p' \<and> pool_ok p'"
proof -
  obtain kept where w: "evict_walk now (pool_config p) (idle_count p) (pool_connections p) = (closed, kept)"
    and p': "p' = p\<lparr>pool_connections := kept\<rparr>"
    using assms(2) by (auto simp: pool_evict_expired_def split: prod.splits)
  note split = evict_walk_split [OF w]
  have ok': "pool_ok p'" using split assms(1) p' by (auto simp: pool_ok_def)
  have "length closed \<le> idle_count p - min_connections (pool_config p)"
    using assms(1) w idle_count_ok [OF assms(1)] by (intro evict_walk_keeps_min) (auto simp: pool_ok_def)
  moreover have "length (pool_connections p) = length closed + length kept"
    using arg_cong [OF split [THEN conjunct1], of size] by simp
  ultimately show ?thesis
    using split ok' p' idle_count_ok [OF assms(1)] idle_count_ok [OF ok'] by simp
qed

definition example_conn_pool :: ConnectionPool where
  "example_conn_pool = (new_connection_pool ''10.0.0.1'' 8000
       \<lparr>min_connections = 1, max_connections = 2, max_idle_time_ms = 50, connect_timeout_ms = 10,
        validate_on_borrow = True\<rparr>)
     \<lparr>pool_connections := [\<lparr>pc_connection = 7, last_used = 0, in_use = False\<rparr>,
                          \<lparr>pc_connection = 8, last_used = 0, in_use = False\<rparr>]\<rparr>"

theorem evict_keeps_minimum_witness:
  "fst (pool_evict_expired 100000000 example_conn_pool) = [7] \<and>
   1 \<le> idle_count (snd (pool_evict_expired 100000000 example_conn_pool))"
proof -
  have ev: "pool_evict_expired 100000000 example_conn_pool =
      ([7], snd (pool_evict_expired 100000000 example_conn_pool))"
    by (simp add: pool_evict_expired_def example_conn_pool_def new_connection_pool_def idle_count_def
        expired_def duration_cast_ms_def)
  moreover have "pool_ok example_conn_pool"
    by (simp add: pool_ok_def example_conn_pool_def)
  ultimately have "min 1 2 \<le> idle_count (snd (pool_evict_expired 100000000 example_conn_pool))"
    using evict_keeps_minimum [OF _ ev]
    by (simp add: example_conn_pool_def new_connection_pool_def idle_count_def)
  then show ?thesis using arg_cong [OF ev, of fst] by simp
qed



text \<open>A borrowed connection that is closed instead of released keeps its place: nothing calls
  \<open>invalidate\<close>, so after the maximum number of borrowed connections have been closed by
  their backends the pool refuses every further borrow although it holds no connection.\<close>

theorem pool_exhausted_by_closed_connections:
  "let cfg = \<lparr>min_connections = 0, max_connections = 1, max_idle_time_ms = 60000, connect_timeout_ms = 5000,
              validate_on_borrow = True\<rparr>;
       p0 = new_connection_pool ''10.0.0.1'' 8000 cfg;
       (r1, p1) = pool_borrow valid True p0;
       (r2, p2) = pool_borrow valid True p1
   in r1 = Created \<and> r2 = NoConnection \<and> idle_count p1 = 0"
  by (simp add: new_connection_pool_def pool_borrow_def idle_count_def)

end
