(* ===== verification/LB_State.thy ===== *)
theory LB_State
  imports Connection_Pool Backend_Pool Session_Manager Backpressure_Manager Admission Metrics
    Http_Handler Health_Checker "HOL-Library.Monad_Syntax"
begin

text \<open>
  The state of a \<open>LoadBalancer\<close> (\<^verbatim>\<open>core/load_balancer.h\<close>) and the primitives its parts share:
  the heap of \<open>Connection\<close> objects, the tables keyed by descriptor, the part of the kernel
  the code acts on (open descriptors, the epoll set, half-closed sockets, live SSL objects)
  and the dispatch table of the reactor (\<^verbatim>\<open>net/epoll_reactor.cpp\<close>).

  \<^item> A raw pointer to a connection is its \<open>conn_id\<close>; \<open>conn_heap\<close> maps the live ones to their
    contents. Reading through a pointer to a destroyed connection, or freeing an SSL object
    twice, is undefined behaviour: such a step has the result \<open>None\<close>.
  \<^item> Entries of \<open>connections_\<close> are never null: the code that moves a connection out of the
    table erases the entry in the same call.
  \<^item> Every answer of the kernel, the clock, OpenSSL and the resolver is read from an argument
    \<open>k :: kernel\<close> at the running number of the call, \<open>steps\<close>, so that a theorem for all \<open>k\<close>
    holds for every behaviour of the environment.
  \<^item> Closing a descriptor that is not open is recorded in \<open>bad_closes\<close>. Closing removes the
    descriptor from the epoll set, but not from the reactor's table of callbacks.
  \<^item> \<open>epoll_ctl\<close> fails on a descriptor that is not open, on adding one that is registered and
    on changing one that is not; other failures of it (exhausted kernel memory) are not modelled.
\<close>

subsection \<open>Data of the HTTP mode that the connection tables see\<close>

record RequestInfo =
  ri_method :: string
  ri_path :: string
  ri_client_ip :: string
  ri_start_time :: time
  ri_response_complete_time :: time
  ri_status_code :: int
  ri_backend :: string
  ri_response_complete :: bool
  ri_bytes_sent :: nat
  ri_bytes_received :: nat

definition new_request_info :: RequestInfo where
  "new_request_info =
     \<lparr>ri_method = [], ri_path = [], ri_client_ip = [], ri_start_time = 0, ri_response_complete_time = 0,
      ri_status_code = 0, ri_backend = [], ri_response_complete = False, ri_bytes_sent = 0,
      ri_bytes_received = 0\<rparr>"

record HttpState =
  req_parser :: HttpRequestParser
  request_parsed :: bool
  resp_parser :: HttpResponseParser
  response_parsed :: bool
  request_info :: RequestInfo

definition new_http_state :: HttpState where
  "new_http_state =
     \<lparr>req_parser = new_request_parser, request_parsed = False, resp_parser = new_response_parser,
      response_parsed = False, request_info = new_request_info\<rparr>"

record AccessLogEntry =
  al_client_ip :: string
  al_method :: string
  al_path :: string
  al_status_code :: int
  al_bytes_sent :: nat
  al_bytes_received :: nat
  al_latency :: int
  al_backend :: string
  al_timestamp :: time

text \<open>What \<open>initialize_from_config\<close> and \<open>apply_config\<close> install in the HTTP forwarder.\<close>

record HttpForwarder =
  fw_is_https :: bool
  fw_request_headers :: "((string \<times> string) list \<times> string list) option"
  fw_response_headers :: "((string \<times> string) list \<times> string list) option"
  fw_session_cookie :: "string option"
  fw_cookie_injection :: "(string \<times> u32) option"

subsection \<open>The kernel\<close>

datatype ssl_answer = SslDone | SslWantRead | SslWantWrite | SslFailed

record kernel =
  k_now :: "nat \<Rightarrow> time"
  k_system_now :: "nat \<Rightarrow> time"
  k_read :: "nat \<Rightarrow> io_read"
  k_write :: "nat \<Rightarrow> io_write"
  k_pending :: "nat \<Rightarrow> nat"
  k_peek :: "nat \<Rightarrow> peek"
  k_socket :: "nat \<Rightarrow> fd set \<Rightarrow> fd"
  k_resolves :: "nat \<Rightarrow> bool"
  k_connect :: "nat \<Rightarrow> connect_answer"
  k_select :: "nat \<Rightarrow> int"
  k_so_error :: "nat \<Rightarrow> int option"
  k_accept :: "nat \<Rightarrow> fd set \<Rightarrow> fd"
  k_send :: "nat \<Rightarrow> io_write"
  k_client_ip :: "nat \<Rightarrow> string"
  k_new_ssl :: "nat \<Rightarrow> ssl_id set \<Rightarrow> ssl_id option"
  k_ssl_accept :: "nat \<Rightarrow> ssl_answer"
  k_pipe :: "nat \<Rightarrow> fd set \<Rightarrow> (fd \<times> fd) option"
  k_splice :: "nat \<Rightarrow> io_write"
  k_reuseaddr :: "nat \<Rightarrow> bool"
  k_address :: "nat \<Rightarrow> string \<Rightarrow> bool"
  k_bind :: "nat \<Rightarrow> bool"
  k_listen :: "nat \<Rightarrow> bool"
  k_tls_context :: "nat \<Rightarrow> bool"
  k_tls_certificate :: "nat \<Rightarrow> bool"

text \<open>
  What POSIX and OpenSSL promise of new descriptors and new SSL objects: they are fresh, and a
  descriptor is a 32-bit \<open>int\<close>.
\<close>

definition MAX_FD :: int where
  "MAX_FD = 2 ^ 31"

definition kernel_fresh :: "kernel \<Rightarrow> bool" where
  "kernel_fresh k \<longleftrightarrow>
     (\<forall>n F. 0 \<le> k_socket k n F \<longrightarrow> k_socket k n F \<notin> F \<and> k_socket k n F < MAX_FD) \<and>
     (\<forall>n F. 0 \<le> k_accept k n F \<longrightarrow> k_accept k n F \<notin> F \<and> k_accept k n F < MAX_FD) \<and>
     (\<forall>n X x. k_new_ssl k n X = Some x \<longrightarrow> x \<notin> X) \<and>
     (\<forall>n F r w. k_pipe k n F = Some (r, w) \<longrightarrow> 
        r \<notin> F \<and> w \<notin> F \<and> r \<noteq> w \<and> 0 \<le> r \<and> 0 \<le> w \<and> r < MAX_FD \<and> w < MAX_FD)"

text \<open>
  A kernel for examples: it hands out the smallest descriptor above all open ones, every call
  succeeds at once and a read finds the end of the stream.
\<close>

definition fresh_above :: "int set \<Rightarrow> int" where
  "fresh_above F = (if finite F \<and> Max (insert 2 F) + 2 < MAX_FD then Max (insert 2 F) + 1 else - 1)"

definition example_kernel :: kernel where
  "example_kernel =
     \<lparr>k_now = (\<lambda>n. int n * 1000000), k_system_now = (\<lambda>n. int n * 1000000), k_read = (\<lambda>_. ReadData []),
      k_write = (\<lambda>_. Accepted MAX_BUFFER_SIZE), k_pending = (\<lambda>_. 0), k_peek = (\<lambda>_. PeekWouldBlock),
      k_socket = (\<lambda>_ F. fresh_above F), k_resolves = (\<lambda>_. True), k_connect = (\<lambda>_. ConnectDone),
      k_select = (\<lambda>_. 1), k_so_error = (\<lambda>_. Some 0), k_accept = (\<lambda>_ F. - 1),
      k_send = (\<lambda>_. Accepted MAX_BUFFER_SIZE), k_client_ip = (\<lambda>_. ''192.0.2.7''),
      k_new_ssl = (\<lambda>_ X. if finite X then Some (Max (insert 0 X) + 1) else None), k_ssl_accept = (\<lambda>_. SslDone),
      k_pipe = (\<lambda>_ F. if 0 \<le> fresh_above F then Some (fresh_above F, fresh_above F + 1) else None), k_splice = (\<lambda>_. WriteWouldBlock),
      k_reuseaddr = (\<lambda>_. True), k_address = (\<lambda>_ _. True), k_bind = (\<lambda>_. True), k_listen = (\<lambda>_. True),
      k_tls_context = (\<lambda>_. True), k_tls_certificate = (\<lambda>_. True)\<rparr>"

lemma fresh_above_new:
  assumes "0 \<le> fresh_above F"
  shows "fresh_above F \<notin> F" and "fresh_above F + 1 \<notin> F" and "fresh_above F + 1 < MAX_FD" and "fresh_above F < MAX_FD"
proof -
  have F: "finite F" "Max (insert 2 F) + 2 < MAX_FD" "fresh_above F = Max (insert 2 F) + 1"
    using assms by (auto simp: fresh_above_def split: if_splits)
  have "x < fresh_above F" if "x \<in> F" for x
    using Max_ge [of "insert 2 F" x] F that by simp
  with F show "fresh_above F \<notin> F" and "fresh_above F + 1 \<notin> F" and "fresh_above F + 1 < MAX_FD" and "fresh_above F < MAX_FD"
    by fastforce+
qed

lemma fresh_ssl: "finite X \<Longrightarrow> Max (insert 0 X) + 1 \<notin> (X :: nat set)"
  by (metis Max_ge Suc_eq_plus1 Suc_n_not_le_n finite_insert insertCI)

lemma example_kernel_fresh: "kernel_fresh example_kernel"
  using fresh_ssl fresh_above_new
  by (auto simp: kernel_fresh_def example_kernel_def split: if_splits)

datatype EventType = READ | WRITE | ERROR_EVENT | HUP

datatype callback = AcceptHandler | ClientHandler | BackendHandler | ErrorPageHandler

record epoll_events =
  ev_in :: bool
  ev_out :: bool

abbreviation EPOLLIN :: epoll_events where "EPOLLIN \<equiv> \<lparr>ev_in = True, ev_out = False\<rparr>"
abbreviation EPOLLOUT :: epoll_events where "EPOLLOUT \<equiv> \<lparr>ev_in = False, ev_out = True\<rparr>"
abbreviation EPOLLINOUT :: epoll_events where "EPOLLINOUT \<equiv> \<lparr>ev_in = True, ev_out = True\<rparr>"

subsection \<open>The load balancer\<close>

record BackendInfo =
  bi_host :: string
  bi_port :: u16
  bi_pooled :: bool

record QueuedClient =
  qc_fd :: fd
  qc_client_ip :: string
  qc_enqueue_time :: time

record PipePair =
  pipe_read :: fd
  pipe_write :: fd
  pipe_pending :: u64

record settings =
  lb_max_global_connections :: u32
  lb_max_connections_per_backend :: u32
  lb_backpressure_timeout_ms :: u32
  lb_connection_timeout_seconds :: u32
  lb_request_timeout_ms :: u32
  lb_mode :: string
  lb_use_splice :: bool
  lb_graceful_shutdown_timeout_seconds :: u32
  lb_tls_handshake_timeout_ms :: u32
  bpm_timeout_ms :: u32
  bcn_max_connections_per_backend :: u32
  bcn_sndbuf :: u32
  bcn_sessions :: bool
  bcn_sticky_enabled :: bool
  bcn_sticky_method :: string
  bcn_sticky_ttl_seconds :: u32
  evh_use_splice :: bool

record lb_state =
  conn_heap :: "conn_id \<rightharpoonup> Connection"
  next_conn :: conn_id
  connections :: "(fd \<times> conn_id) list"
  backend_connections :: "fd \<rightharpoonup> node_id"
  connection_times :: "fd \<rightharpoonup> time"
  handshake_start_times :: "fd \<rightharpoonup> time"
  backend_to_client_map :: "fd \<rightharpoonup> fd"
  client_retry_counts :: "fd \<rightharpoonup> int"
  backpressure_start_times :: start_times
  mem :: budget
  open_fds :: "fd set"
  bad_closes :: "fd list"
  half_closed :: "fd list"
  live_ssl :: "ssl_id set"
  steps :: nat
  epoll_set :: "fd \<rightharpoonup> epoll_events"
  callbacks :: "fd \<rightharpoonup> callback"
  nodes :: node_heap
  next_node :: node_id
  backend_pool :: BackendPool
  health_checker :: HealthChecker
  metrics :: Metrics
  access_log :: "AccessLogEntry list"
  pool_manager :: "ConnectionPoolManager option"
  pooled_connections :: "fd \<rightharpoonup> BackendInfo"
  session_table :: sessions
  client_session_keys :: "fd \<rightharpoonup> string"
  rate_limit_tracker :: rate_tracker
  pending_clients :: "QueuedClient list"
  http_forwarder :: "HttpForwarder option"
  http_states :: "fd \<rightharpoonup> HttpState"
  splice_pipes :: "((fd \<times> fd) \<times> PipePair) list option"
  tls_ready :: bool
  listener :: "fd option"
  config_manager :: "ConfigManager option"
  last_applied_config :: "Config option"
  pending_config :: "Config option"
  has_thread_pool :: bool
  config_check_in_progress :: bool
  settings_of :: settings
  shutdown_requested :: bool
  draining :: bool
  shutdown_deadline :: time
  reactor_running :: bool

text \<open>The constructor; the callbacks it wires are the functions of the later theories.\<close>

definition new_settings :: settings where
  "new_settings =
     \<lparr>lb_max_global_connections = 1000, lb_max_connections_per_backend = 100,
      lb_backpressure_timeout_ms = 10000, lb_connection_timeout_seconds = 5, lb_request_timeout_ms = 0,
      lb_mode = ''tcp'', lb_use_splice = False, lb_graceful_shutdown_timeout_seconds = 30,
      lb_tls_handshake_timeout_ms = 10000, bpm_timeout_ms = 10000, bcn_max_connections_per_backend = 100,
      bcn_sndbuf = 0, bcn_sessions = False, bcn_sticky_enabled = False, bcn_sticky_method = [],
      bcn_sticky_ttl_seconds = 3600, evh_use_splice = False\<rparr>"

definition new_load_balancer :: lb_state where
  "new_load_balancer =
     \<lparr>conn_heap = Map.empty, next_conn = 0, connections = [], backend_connections = Map.empty,
      connection_times = Map.empty, handshake_start_times = Map.empty, backend_to_client_map = Map.empty,
      client_retry_counts = Map.empty, backpressure_start_times = Map.empty,
      mem = set_limit_mb 512 new_budget, open_fds = {}, bad_closes = [], half_closed = [], live_ssl = {},
      steps = 0, epoll_set = Map.empty, callbacks = Map.empty, nodes = (\<lambda>_. new_backend_node [] 0 1),
      next_node = 0, backend_pool = new_pool ROUND_ROBIN, health_checker = new_health_checker,
      metrics = new_metrics, access_log = [], pool_manager = None, pooled_connections = Map.empty,
      session_table = Map.empty, client_session_keys = Map.empty, rate_limit_tracker = Map.empty,
      pending_clients = [], http_forwarder = None, http_states = Map.empty, splice_pipes = None,
      tls_ready = False, listener = None, config_manager = None, last_applied_config = None,
      pending_config = None, has_thread_pool = False, config_check_in_progress = False, settings_of = new_settings, shutdown_requested = False, draining = False,
      shutdown_deadline = 0, reactor_running = False\<rparr>"

subsection \<open>The clock and other questions to the kernel\<close>

definition ask :: "(nat \<Rightarrow> 'a) \<Rightarrow> lb_state \<Rightarrow> 'a \<times> lb_state" where
  "ask q s = (q (steps s), s\<lparr>steps := steps s + 1\<rparr>)"

definition upd_metrics :: "(Metrics \<Rightarrow> Metrics) \<Rightarrow> lb_state \<Rightarrow> lb_state" where
  "upd_metrics g s = s\<lparr>metrics := g (metrics s)\<rparr>"

definition upd_nodes :: "node_id \<Rightarrow> (BackendNode \<Rightarrow> BackendNode) \<Rightarrow> lb_state \<Rightarrow> lb_state" where
  "upd_nodes n g s = s\<lparr>nodes := upd_node n g (nodes s)\<rparr>"

text \<open>
  \<open>weak_ptr::lock\<close>: a backend lives as long as the pool or the health checker holds it.
\<close>

definition node_alive :: "lb_state \<Rightarrow> node_id \<Rightarrow> bool" where
  "node_alive s n \<longleftrightarrow> n \<in> set (backends (backend_pool s)) \<or> n \<in> set (hc_backends (health_checker s))"

definition lock_backend :: "fd \<Rightarrow> lb_state \<Rightarrow> node_id option" where
  "lock_backend f s =
     (case backend_connections s f of
        None \<Rightarrow> None
      | Some n \<Rightarrow> if node_alive s n then Some n else None)"

subsection \<open>Descriptors and the reactor\<close>

definition sys_close :: "fd \<Rightarrow> lb_state \<Rightarrow> lb_state" where
  "sys_close f s =
     (if f \<in> open_fds s
      then s\<lparr>open_fds := open_fds s - {f}, epoll_set := (epoll_set s)(f := None)\<rparr>
      else s\<lparr>bad_closes := bad_closes s @ [f]\<rparr>)"

definition shutdown_wr :: "fd \<Rightarrow> lb_state \<Rightarrow> lb_state" where
  "shutdown_wr f s = (if f \<in> open_fds s then s\<lparr>half_closed := half_closed s @ [f]\<rparr> else s)"

definition add_fd :: "fd \<Rightarrow> epoll_events \<Rightarrow> callback \<Rightarrow> lb_state \<Rightarrow> bool \<times> lb_state" where
  "add_fd f ev cb s =
     (if f \<in> open_fds s \<and> epoll_set s f = None
      then (True, s\<lparr>epoll_set := (epoll_set s)(f \<mapsto> ev), callbacks := (callbacks s)(f \<mapsto> cb)\<rparr>)
      else (False, s))"

definition mod_fd :: "fd \<Rightarrow> epoll_events \<Rightarrow> lb_state \<Rightarrow> lb_state" where
  "mod_fd f ev s = (if epoll_set s f = None then s else s\<lparr>epoll_set := (epoll_set s)(f \<mapsto> ev)\<rparr>)"

definition del_fd :: "fd \<Rightarrow> lb_state \<Rightarrow> lb_state" where
  "del_fd f s =
     (if epoll_set s f = None then s
      else s\<lparr>epoll_set := (epoll_set s)(f := None), callbacks := (callbacks s)(f := None)\<rparr>)"

subsection \<open>Connection objects\<close>

definition put_conn :: "conn_id \<Rightarrow> Connection \<Rightarrow> lb_state \<Rightarrow> lb_state" where
  "put_conn i c s = s\<lparr>conn_heap := (conn_heap s)(i \<mapsto> c)\<rparr>"

definition with_conn :: "conn_id \<Rightarrow> (Connection \<Rightarrow> Connection) \<Rightarrow> lb_state \<Rightarrow> lb_state option" where
  "with_conn i g s = do { c \<leftarrow> conn_heap s i; Some (put_conn i (g c) s) }"

definition make_connection :: "fd \<Rightarrow> lb_state \<Rightarrow> conn_id \<times> lb_state" where
  "make_connection f s =
     (next_conn s, (put_conn (next_conn s) (new_connection f) s)\<lparr>next_conn := next_conn s + 1\<rparr>)"

definition ssl_free :: "ssl_id option \<Rightarrow> lb_state \<Rightarrow> lb_state option" where
  "ssl_free x s =
     (case x of
        None \<Rightarrow> Some s
      | Some y \<Rightarrow> if y \<in> live_ssl s then Some (s\<lparr>live_ssl := live_ssl s - {y}\<rparr>) else None)"

definition conn_close :: "conn_id \<Rightarrow> lb_state \<Rightarrow> lb_state option" where
  "conn_close i s = do {
     c \<leftarrow> conn_heap s i;
     let (c', m) = shut release_bytes c (mem s);
     s1 \<leftarrow> ssl_free (ssl c) ((put_conn i c' s)\<lparr>mem := m\<rparr>);
     let s2 = (if conn_fd c \<ge> 0 then sys_close (conn_fd c) s1 else s1);
     (case peer c of None \<Rightarrow> Some s2 | Some j \<Rightarrow> with_conn j (set_peer None) s2)
   }"

text \<open>The destructor of a connection, then its memory is free.\<close>

definition destroy :: "conn_id \<Rightarrow> lb_state \<Rightarrow> lb_state option" where
  "destroy i s = do {
     s1 \<leftarrow> conn_close i s;
     Some (s1\<lparr>conn_heap := (conn_heap s1)(i := None)\<rparr>)
   }"

fun destroy_all :: "conn_id list \<Rightarrow> lb_state \<Rightarrow> lb_state option" where
  "destroy_all [] s = Some s"
| "destroy_all (i # is) s = do { s1 \<leftarrow> destroy i s; destroy_all is s1 }"

subsection \<open>The table of connections\<close>

definition get_connection :: "fd \<Rightarrow> lb_state \<Rightarrow> conn_id option" where
  "get_connection f s = map_of (connections s) f"

text \<open>Moving a connection out of the table, and erasing its entry.\<close>

definition table_remove :: "fd \<Rightarrow> lb_state \<Rightarrow> lb_state" where
  "table_remove f s = s\<lparr>connections := AList.delete f (connections s)\<rparr>"

definition table_erase :: "fd \<Rightarrow> lb_state \<Rightarrow> lb_state option" where
  "table_erase f s =
     (case get_connection f s of
        None \<Rightarrow> Some s
      | Some i \<Rightarrow> destroy i (table_remove f s))"

text \<open>\<open>connections_[f] = std::move(c)\<close>: an old connection under that key is destroyed.\<close>

definition table_put :: "fd \<Rightarrow> conn_id \<Rightarrow> lb_state \<Rightarrow> lb_state option" where
  "table_put f i s =
     (let s1 = s\<lparr>connections := AList.update f i (connections s)\<rparr> in
      case get_connection f s of
        None \<Rightarrow> Some s1
      | Some j \<Rightarrow> destroy j s1)"

subsection \<open>Reading and writing a connection\<close>

definition conn_read :: "kernel \<Rightarrow> conn_id \<Rightarrow> lb_state \<Rightarrow> (bool \<times> lb_state) option" where
  "conn_read k i s = do {
     c \<leftarrow> conn_heap s i;
     let (io, s1) = ask (k_read k) s;
     let (r, c', m) = read_from_fd reserve_bytes release_bytes io c (mem s1);
     Some (r, (put_conn i c' s1)\<lparr>mem := m\<rparr>)
   }"

definition conn_write :: "kernel \<Rightarrow> conn_id \<Rightarrow> lb_state \<Rightarrow> (bool \<times> lb_state) option" where
  "conn_write k i s = do {
     c \<leftarrow> conn_heap s i;
     let (io, s1) = ask (k_write k) s;
     let (r, c', m) = write_to_fd release_bytes io c (mem s1);
     Some (r, (put_conn i c' s1)\<lparr>mem := m\<rparr>)
   }"

definition has_pending_send :: "kernel \<Rightarrow> conn_id \<Rightarrow> lb_state \<Rightarrow> (bool \<times> lb_state) option" where
  "has_pending_send k i s = do {
     c \<leftarrow> conn_heap s i;
     let (n, s1) = ask (k_pending k) s;
     Some (write_buf c \<noteq> [] \<or> (conn_fd c \<ge> 0 \<and> n > 0), s1)
   }"

text \<open>\<open>LoadBalancer::attach_memory_accounting\<close>: the budget always exists.\<close>

definition attach_memory_accounting :: "conn_id \<Rightarrow> lb_state \<Rightarrow> lb_state option" where
  "attach_memory_accounting i s = with_conn i set_memory_accounting s"

text \<open>A connection that is closed and whose owner then goes out of scope.\<close>

definition close_and_destroy :: "conn_id \<Rightarrow> lb_state \<Rightarrow> lb_state option" where
  "close_and_destroy i s = do { s1 \<leftarrow> conn_close i s; destroy i s1 }"

text \<open>A descriptor the kernel hands out.\<close>

definition sys_open :: "fd \<Rightarrow> lb_state \<Rightarrow> lb_state" where
  "sys_open f s = s\<lparr>open_fds := insert f (open_fds s)\<rparr>"

end
