(* ===== verification/Connection_Manager.thy ===== *)
theory Connection_Manager
  imports LB_State
begin

text \<open>
  \<^verbatim>\<open>core/connection_manager.cpp\<close>: looking up, counting and closing the connections of the
  load balancer, with the callbacks \<open>initialize_from_config\<close> installs in it
  (\<^verbatim>\<open>core/load_balancer.cpp\<close>): the access log of unfinished requests and the release of a
  backend connection to the connection pool. The invariant \<open>lb_inv\<close> says that every
  connection has exactly one owner, is open and live, and that peers point at each other.
\<close>

section \<open>Operations\<close>

definition count_established_connections :: "lb_state \<Rightarrow> nat" where
  "count_established_connections s =
     length (filter (\<lambda>(f, i). backend_connections s f = None \<and>
       map_option conn_state (conn_heap s i) = Some ESTABLISHED) (connections s))"

definition count_active_client_connections :: "lb_state \<Rightarrow> nat" where
  "count_active_client_connections s =
     length (filter (\<lambda>(f, i). backend_connections s f = None \<and>
       (case conn_heap s i of None \<Rightarrow> False | Some c \<Rightarrow> conn_state c \<noteq> CLOSED)) (connections s))"

subsection \<open>Pieces of closing\<close>

definition untrack_backpressure :: "fd \<Rightarrow> lb_state \<Rightarrow> lb_state" where
  "untrack_backpressure f s =
     (let s1 = (if backpressure_start_times s f \<noteq> None then upd_metrics decrement_backpressure_active s else s)
      in s1\<lparr>backpressure_start_times := erase_key (backpressure_start_times s1) f\<rparr>)"

definition drop_backend_slot :: "fd \<Rightarrow> bool \<Rightarrow> lb_state \<Rightarrow> lb_state" where
  "drop_backend_slot f was_established s =
     (let s1 = (case lock_backend f s of
                  Some n \<Rightarrow> if was_established then upd_nodes n decrement_connections s else s
                | None \<Rightarrow> s)
      in s1\<lparr>backend_connections := erase_key (backend_connections s1) f\<rparr>)"

definition forget_fd :: "fd \<Rightarrow> lb_state \<Rightarrow> lb_state" where
  "forget_fd f s =
     (let s1 = untrack_backpressure f (s\<lparr>connection_times := erase_key (connection_times s) f\<rparr>)
      in s1\<lparr>client_retry_counts := erase_key (client_retry_counts s1) f,
            backend_to_client_map := erase_key (backend_to_client_map s1) f\<rparr>)"

definition get_request_info :: "fd \<Rightarrow> lb_state \<Rightarrow> RequestInfo option" where
  "get_request_info client_fd s =
     (case http_states s client_fd of
        None \<Rightarrow> None
      | Some h \<Rightarrow> if ri_method (request_info h) \<noteq> [] then Some (request_info h) else None)"

definition clear_request_info :: "fd \<Rightarrow> lb_state \<Rightarrow> lb_state" where
  "clear_request_info client_fd s = s\<lparr>http_states := erase_key (http_states s) client_fd\<rparr>"

definition access_log_entry :: "RequestInfo \<Rightarrow> nat \<Rightarrow> nat \<Rightarrow> int \<Rightarrow> AccessLogEntry" where
  "access_log_entry ri sent rcvd latency =
     \<lparr>al_client_ip = ri_client_ip ri, al_method = ri_method ri, al_path = ri_path ri,
      al_status_code = (if ri_status_code ri > 0 then ri_status_code ri else 0),
      al_bytes_sent = sent, al_bytes_received = rcvd, al_latency = latency,
      al_backend = ri_backend ri, al_timestamp = ri_start_time ri\<rparr>"

definition log_access :: "AccessLogEntry \<Rightarrow> lb_state \<Rightarrow> lb_state" where
  "log_access e s =
     (let s1 = s\<lparr>access_log := access_log s @ [e]\<rparr>
      in if al_latency e > 0 then upd_metrics (record_request_latency (nat (al_latency e))) s1 else s1)"

definition log_unfinished_request :: "kernel \<Rightarrow> fd \<Rightarrow> Connection \<Rightarrow> lb_state \<Rightarrow> lb_state" where
  "log_unfinished_request k f c s =
     (if http_forwarder s = None then s
      else case get_request_info f s of
        None \<Rightarrow> s
      | Some ri \<Rightarrow>
          if ri_response_complete ri then s
          else
            let (end_time, s1) = ask (k_system_now k) s;
                latency = duration_cast_us (end_time - ri_start_time ri);
                s2 = log_access (access_log_entry ri (bytes_written c) (bytes_read c) latency) s1
            in clear_request_info f s2)"

text \<open>
  The callback that returns a backend connection to the pool. Its parameter owns the
  connection: when the pool does not take it, the connection is destroyed.
\<close>

definition release_to_pool :: "kernel \<Rightarrow> fd \<Rightarrow> conn_id \<Rightarrow> lb_state \<Rightarrow> (bool \<times> lb_state) option" where
  "release_to_pool k backend_fd i s =
     (case (pool_manager s, pooled_connections s backend_fd) of
        (Some pm, Some info) \<Rightarrow>
          if bi_host info = [] then do { s1 \<leftarrow> destroy i s; Some (False, s1) }
          else do {
            c \<leftarrow> conn_heap s i;
            let (c1, m) = clear_buffers release_bytes c (mem s);
            let c2 = set_conn_state ESTABLISHED c1;
            let s1 = (put_conn i c2 s)\<lparr>mem := m\<rparr>;
            let (io, s2) = ask (k_peek k) s1;
            let (now, s3) = ask (k_now k) s2;
            let (closed, pm') = pm_release (validate_connection io c2) now (bi_host info) (bi_port info) i pm;
            s4 \<leftarrow> destroy_all closed (s3\<lparr>pool_manager := Some pm'\<rparr>);
            Some (True, s4)
          }
      | _ \<Rightarrow> do { s1 \<leftarrow> destroy i s; Some (False, s1) })"

subsection \<open>Closing a connection together with its peer\<close>

definition close_peer :: "kernel \<Rightarrow> bool \<Rightarrow> conn_id \<Rightarrow> conn_id \<Rightarrow> lb_state \<Rightarrow> lb_state option" where
  "close_peer k is_client i j s = do {
     d \<leftarrow> conn_heap s j;
     let peer_fd = conn_fd d;
     s1 \<leftarrow> with_conn i (set_peer None) s;
     (case get_connection peer_fd s1 of
        None \<Rightarrow> Some s1
      | Some q \<Rightarrow> do {
          e \<leftarrow> conn_heap s1 q;
          if conn_state e = CLOSED then table_erase peer_fd s1
          else do {
            s2 \<leftarrow> with_conn q (set_peer None) s1;
            let is_peer_backend = (backend_connections s2 peer_fd \<noteq> None);
            let s3 = drop_backend_slot peer_fd (conn_state e = ESTABLISHED) s2;
            let s4 = del_fd peer_fd (forget_fd peer_fd s3);
            if is_client \<and> is_peer_backend \<and> pool_manager s4 \<noteq> None
            then do {
              (released, s5) \<leftarrow> release_to_pool k peer_fd q (table_remove peer_fd s4);
              Some s5
            }
            else do { s5 \<leftarrow> conn_close q s4; table_erase peer_fd s5 }
          }
        })
   }"

definition close_connection :: "kernel \<Rightarrow> fd \<Rightarrow> lb_state \<Rightarrow> lb_state option" where
  "close_connection k f s =
     (case get_connection f s of
        None \<Rightarrow> Some s
      | Some i \<Rightarrow> do {
          c \<leftarrow> conn_heap s i;
          if conn_state c = CLOSED
          then table_erase f (forget_fd f (s\<lparr>backend_connections := erase_key (backend_connections s) f\<rparr>))
          else do {
            let is_client = (backend_connections s f = None);
            let s1 = drop_backend_slot f (conn_state c = ESTABLISHED) s;
            let s2 = put_conn i (set_conn_state CLOSED c) s1;
            let s3 = upd_metrics (add_bytes_out (of_nat (bytes_written c)))
                       (upd_metrics (add_bytes_in (of_nat (bytes_read c))) s2);
            let s4 = (if is_client
                      then upd_metrics decrement_connections_active (log_unfinished_request k f c s3)
                      else s3);
            let s5 = forget_fd f s4;
            let s6 = s5\<lparr>backend_to_client_map := erase_where (\<lambda>g. g = f) (backend_to_client_map s5)\<rparr>;
            s7 \<leftarrow> (case peer c of None \<Rightarrow> Some s6 | Some j \<Rightarrow> close_peer k is_client i j s6);
            s8 \<leftarrow> conn_close i (del_fd f s7);
            table_erase f s8
          }
        })"

subsection \<open>Closing only the backend side\<close>

definition close_backend_connection_only :: "fd \<Rightarrow> lb_state \<Rightarrow> lb_state option" where
  "close_backend_connection_only f s =
     (case get_connection f s of
        None \<Rightarrow> Some s
      | Some i \<Rightarrow> do {
          c \<leftarrow> conn_heap s i;
          s1 \<leftarrow> (case peer c of None \<Rightarrow> Some s | Some j \<Rightarrow> with_conn j (set_peer None) s);
          s2 \<leftarrow> with_conn i (set_conn_state CLOSED) s1;
          let s3 = drop_backend_slot f (conn_state c = ESTABLISHED) s2;
          let s4 = untrack_backpressure f (s3\<lparr>connection_times := erase_key (connection_times s3) f\<rparr>);
          let s5 = del_fd f (s4\<lparr>backend_to_client_map := erase_key (backend_to_client_map s4) f\<rparr>);
          s6 \<leftarrow> conn_close i s5;
          table_erase f s6
        })"

subsection \<open>Backpressure bookkeeping of the forwarders\<close>

definition start_backpressure :: "kernel \<Rightarrow> fd \<Rightarrow> lb_state \<Rightarrow> lb_state" where
  "start_backpressure k f s =
     (let (now, s1) = ask (k_now k) s;
          (started, m) = start_tracking now f (backpressure_start_times s1);
          s2 = s1\<lparr>backpressure_start_times := m\<rparr>
      in if started then upd_metrics increment_backpressure_active (upd_metrics increment_backpressure_events s2)
         else s2)"

definition clear_backpressure :: "fd \<Rightarrow> lb_state \<Rightarrow> lb_state" where
  "clear_backpressure f s =
     (let (cleared, m) = clear_tracking f (backpressure_start_times s);
          s1 = s\<lparr>backpressure_start_times := m\<rparr>
      in if cleared then upd_metrics decrement_backpressure_active s1 else s1)"

end
