(* ===== verification/Connection_Invariants.thy ===== *)
theory Connection_Invariants
  imports Connection_Manager
begin

text \<open>
  The invariants of the connection tables (\<^verbatim>\<open>core/connection_manager.cpp\<close>) and what the
  primitive steps keep of them: every live connection has exactly one owner, owns an open
  descriptor no other connection has, its SSL object is live, and peers point at each other
  (\<open>lb_inv\<close>); the byte budget's counter equals what the accounted connections buffer
  (\<open>mem_exact\<close>).
\<close>

section \<open>Ownership\<close>

text \<open>
  \<open>owned L s\<close> lists the owners' connections: \<open>L\<close> are those held by local variables of the
  running code, then the table's and the idle ones of the connection pools.
\<close>

definition pm_ids :: "ConnectionPoolManager \<Rightarrow> conn_id list" where
  "pm_ids pm = concat (map (\<lambda>kq. map pc_connection (pool_connections (snd kq))) (pools pm))"

definition pooled_ids :: "ConnectionPoolManager option \<Rightarrow> conn_id list" where
  "pooled_ids pm = (case pm of None \<Rightarrow> [] | Some m \<Rightarrow> pm_ids m)"

definition owned :: "conn_id list \<Rightarrow> lb_state \<Rightarrow> conn_id list" where
  "owned L s = L @ map snd (connections s) @ pooled_ids (pool_manager s)"

text \<open>Peers point at each other, and both are in the table.\<close>

definition linked :: "(conn_id \<rightharpoonup> Connection) \<Rightarrow> conn_id set \<Rightarrow> conn_id \<Rightarrow> conn_id \<Rightarrow> bool" where
  "linked H tab i j \<longleftrightarrow> j \<in> tab \<and> j \<noteq> i \<and> map_option peer (H j) = Some (Some i)"

definition heap_inv ::
    "(conn_id \<rightharpoonup> Connection) \<Rightarrow> conn_id set \<Rightarrow> conn_id set \<Rightarrow> fd set \<Rightarrow> ssl_id set \<Rightarrow> bool" where
  "heap_inv H own tab F X \<longleftrightarrow>
     dom H = own \<and>
     (\<forall>i c. H i = Some c \<longrightarrow>
        0 \<le> conn_fd c \<and> conn_fd c \<in> F \<and> set_option (ssl c) \<subseteq> X \<and>
        (\<forall>j. peer c = Some j \<longrightarrow> linked H tab i j)) \<and>
     (\<forall>i j c d. H i = Some c \<longrightarrow> H j = Some d \<longrightarrow> i \<noteq> j \<longrightarrow>
        conn_fd c \<noteq> conn_fd d \<and> set_option (ssl c) \<inter> set_option (ssl d) = {})"

definition table_inv :: "(fd \<times> conn_id) list \<Rightarrow> (conn_id \<rightharpoonup> Connection) \<Rightarrow> fd set \<Rightarrow> bool" where
  "table_inv T H B \<longleftrightarrow>
     distinct (map fst T) \<and> B \<subseteq> fst ` set T \<and>
     (\<forall>f i. (f, i) \<in> set T \<longrightarrow> map_option conn_fd (H i) = Some f)"

definition lb_inv :: "conn_id list \<Rightarrow> lb_state \<Rightarrow> bool" where
  "lb_inv L s \<longleftrightarrow>
     distinct (owned L s) \<and>
     heap_inv (conn_heap s) (set (owned L s)) (snd ` set (connections s)) (open_fds s) (live_ssl s) \<and>
     table_inv (connections s) (conn_heap s) (dom (backend_connections s)) \<and>
     (\<forall>i \<in> set (owned L s). i < next_conn s)"

definition table_states_ok :: "lb_state \<Rightarrow> bool" where
  "table_states_ok s \<longleftrightarrow>
     (\<forall>f i c. (f, i) \<in> set (connections s) \<longrightarrow> conn_heap s i = Some c \<longrightarrow> conn_state c \<noteq> CLOSED)"

subsection \<open>What the invariant gives\<close>

lemma owned_simps [simp]:
  "owned L (s\<lparr>conn_heap := a\<rparr>) = owned L s"
  "owned L (s\<lparr>backend_connections := a1\<rparr>) = owned L s"
  "owned L (s\<lparr>open_fds := a2\<rparr>) = owned L s"
  "owned L (s\<lparr>live_ssl := a3\<rparr>) = owned L s"
  "owned L (s\<lparr>mem := a4\<rparr>) = owned L s"
  "owned L (s\<lparr>epoll_set := a5\<rparr>) = owned L s"
  "owned L (s\<lparr>callbacks := a6\<rparr>) = owned L s"
  "owned L (s\<lparr>metrics := a7\<rparr>) = owned L s"
  "owned L (s\<lparr>nodes := a8\<rparr>) = owned L s"
  "owned L (s\<lparr>steps := a9\<rparr>) = owned L s"
  by (simp_all add: owned_def)

lemma get_connection_in: "get_connection f s = Some i \<Longrightarrow> (f, i) \<in> set (connections s)"
  by (simp add: get_connection_def map_of_SomeD)

lemma lb_inv_heap: "lb_inv L s \<Longrightarrow> heap_inv (conn_heap s) (set (owned L s)) (snd ` set (connections s)) (open_fds s) (live_ssl s)"
  by (simp add: lb_inv_def)

lemma get_connection_owned: "get_connection f s = Some i \<Longrightarrow> i \<in> set (owned L s)"
  by (force simp: owned_def dest: get_connection_in)

lemma get_connection_live:
  assumes "lb_inv L s" and "get_connection f s = Some i"
  obtains c where "conn_heap s i = Some c" and "conn_fd c = f"
proof -
  have "map_option conn_fd (conn_heap s i) = Some f"
    using assms by (auto simp: lb_inv_def table_inv_def dest: get_connection_in)
  then show ?thesis using that by auto
qed

lemma heap_inv_live:
  assumes "heap_inv H own tab F X" and "H i = Some c"
  shows "0 \<le> conn_fd c" and "conn_fd c \<in> F" and "set_option (ssl c) \<subseteq> X" and "i \<in> own"
  using assms by (auto simp: heap_inv_def)

lemma heap_inv_peer:
  assumes "heap_inv H own tab F X" and "H i = Some c" and "peer c = Some j"
  obtains d where "H j = Some d" and "peer d = Some i" and "j \<noteq> i" and "conn_fd d \<noteq> conn_fd c"
proof -
  have "linked H tab i j" using assms by (auto simp: heap_inv_def)
  then obtain d where "H j = Some d" "peer d = Some i" "j \<noteq> i" by (auto simp: linked_def)
  moreover with assms(1,2) have "conn_fd d \<noteq> conn_fd c" by (auto simp: heap_inv_def)
  ultimately show ?thesis using that by blast
qed

text \<open>A connection is the only one with its descriptor, in the table or not.\<close>

lemma get_connection_of_fd:
  assumes "lb_inv L s" and "conn_heap s i = Some c" and "get_connection (conn_fd c) s = Some j"
  shows "j = i"
proof (rule ccontr)
  assume "j \<noteq> i"
  obtain d where "conn_heap s j = Some d" "conn_fd d = conn_fd c"
    using get_connection_live [OF assms(1,3)] by blast
  with \<open>j \<noteq> i\<close> assms(2) lb_inv_heap [OF assms(1)] show False by (auto simp: heap_inv_def)
qed

subsection \<open>Steps that keep the invariant\<close>

lemma table_inv_mono: "table_inv T H B \<Longrightarrow> B' \<subseteq> B \<Longrightarrow> table_inv T H B'"
  unfolding table_inv_def by (meson order_trans)

lemma lb_inv_core:
  assumes "conn_heap s' = conn_heap s" and "connections s' = connections s"
    and "pool_manager s' = pool_manager s" and "open_fds s' = open_fds s" and "live_ssl s' = live_ssl s"
    and "dom (backend_connections s') \<subseteq> dom (backend_connections s)" and "next_conn s' = next_conn s"
    and "lb_inv L s"
  shows "lb_inv L s'"
  using assms table_inv_mono [OF _ assms(6)] by (simp add: lb_inv_def owned_def)

lemma heap_inv_put:
  assumes inv: "heap_inv H own tab F X" and "H i = Some c"
    and "conn_fd c' = conn_fd c" and "ssl c' = ssl c" and "peer c' = peer c"
  shows "heap_inv (H(i \<mapsto> c')) own tab F X"
proof -
  have fds: "0 \<le> conn_fd d \<and> conn_fd d \<in> F \<and> set_option (ssl d) \<subseteq> X \<and>
      (\<forall>j. peer d = Some j \<longrightarrow> linked (H(i \<mapsto> c')) tab x j)" if d: "(H(i \<mapsto> c')) x = Some d" for x d
  proof -
    obtain d0 where d0: "H x = Some d0" "conn_fd d = conn_fd d0" "ssl d = ssl d0" "peer d = peer d0"
      using d assms by (cases "x = i") auto
    then have "\<forall>j. peer d0 = Some j \<longrightarrow> linked H tab x j" using inv by (auto simp: heap_inv_def)
    moreover have "linked (H(i \<mapsto> c')) tab x j" if "linked H tab x j" for j
      using that assms by (auto simp: linked_def)
    ultimately show ?thesis using d0 inv by (auto simp: heap_inv_def)
  qed
  have "\<exists>d0. H x = Some d0 \<and> conn_fd d = conn_fd d0 \<and> ssl d = ssl d0" if "(H(i \<mapsto> c')) x = Some d" for x d
    using that assms by (cases "x = i") auto
  then have "conn_fd d \<noteq> conn_fd e \<and> set_option (ssl d) \<inter> set_option (ssl e) = {}"
    if "(H(i \<mapsto> c')) x = Some d" "(H(i \<mapsto> c')) y = Some e" "x \<noteq> y" for x y d e
    using that inv unfolding heap_inv_def by metis
  moreover have "dom (H(i \<mapsto> c')) = own" using inv assms(2) by (auto simp: heap_inv_def)
  ultimately show ?thesis using fds by (simp only: heap_inv_def) blast
qed

lemma table_inv_put:
  assumes "table_inv T H B" and "H i = Some c" and "conn_fd c' = conn_fd c"
  shows "table_inv T (H(i \<mapsto> c')) B"
  using assms by (fastforce simp: table_inv_def)

lemma lb_inv_put:
  assumes "lb_inv L s" and "conn_heap s i = Some c"
    and "conn_fd c' = conn_fd c" and "ssl c' = ssl c" and "peer c' = peer c"
  shows "lb_inv L (put_conn i c' s)"
  using assms heap_inv_put [OF lb_inv_heap [OF assms(1)] assms(2-5)]
  by (auto simp: lb_inv_def put_conn_def intro: table_inv_put)

text \<open>Two peers let go of each other.\<close>

definition unlink :: "conn_id \<Rightarrow> Connection \<Rightarrow> conn_id \<Rightarrow> Connection \<Rightarrow> lb_state \<Rightarrow> lb_state" where
  "unlink i c j d s = put_conn j (set_peer None d) (put_conn i (set_peer None c) s)"

lemma set_peer_sel [simp]:
  "conn_fd (set_peer p c) = conn_fd c" "ssl (set_peer p c) = ssl c" "peer (set_peer p c) = p"
  "conn_state (set_peer p c) = conn_state c" "read_buf (set_peer p c) = read_buf c"
  "write_buf (set_peer p c) = write_buf c" "accounted (set_peer p c) = accounted c"
  by (simp_all add: set_peer_def)

lemma heap_inv_unlink:
  assumes inv: "heap_inv H own tab F X" and hi: "H i = Some c" and hj: "H j = Some d"
    and ij: "i \<noteq> j" and pc: "peer c = Some j" and pd: "peer d = Some i"
  shows "heap_inv (H(i \<mapsto> set_peer None c, j \<mapsto> set_peer None d)) own tab F X"
proof -
  let ?H = "H(i \<mapsto> set_peer None c, j \<mapsto> set_peer None d)"
  have old: "\<exists>e0. H x = Some e0 \<and> conn_fd e = conn_fd e0 \<and> ssl e = ssl e0 \<and>
      (peer e = None \<or> x \<noteq> i \<and> x \<noteq> j \<and> peer e = peer e0)" if "?H x = Some e" for x e
    using that hi hj by (auto split: if_splits)
  have "linked ?H tab x y" if "?H x = Some e" "peer e = Some y" for x y e
  proof -
    from old [OF that(1)] that(2) obtain e0 where e0: "H x = Some e0" "peer e0 = Some y" "x \<noteq> i" "x \<noteq> j" by auto
    then have l: "linked H tab x y" using inv by (auto simp: heap_inv_def)
    then have "y \<noteq> i" "y \<noteq> j" using hi hj pc pd e0 by (auto simp: linked_def)
    with l show ?thesis by (auto simp: linked_def)
  qed
  moreover have "0 \<le> conn_fd e \<and> conn_fd e \<in> F \<and> set_option (ssl e) \<subseteq> X" if "?H x = Some e" for x e
    using old [OF that] inv unfolding heap_inv_def by metis
  moreover have "conn_fd e \<noteq> conn_fd e' \<and> set_option (ssl e) \<inter> set_option (ssl e') = {}"
    if "?H x = Some e" "?H y = Some e'" "x \<noteq> y" for x y e e'
    using old [OF that(1)] old [OF that(2)] that(3) inv unfolding heap_inv_def by metis
  moreover have "dom ?H = own" using inv hi hj by (auto simp: heap_inv_def)
  ultimately show ?thesis by (simp only: heap_inv_def) blast
qed

lemma lb_inv_unlink:
  assumes inv: "lb_inv L s" and "conn_heap s i = Some c" and "conn_heap s j = Some d"
    and "i \<noteq> j" and "peer c = Some j" and "peer d = Some i"
  shows "lb_inv L (unlink i c j d s)"
  using assms heap_inv_unlink [OF lb_inv_heap [OF inv] assms(2-6)]
    table_inv_put [of "connections s" "(conn_heap s)(i \<mapsto> set_peer None c)" _ j d "set_peer None d"]
    table_inv_put [of "connections s" "conn_heap s" _ i c "set_peer None c"]
  by (auto simp: lb_inv_def put_conn_def unlink_def)


subsection \<open>Destroying a connection\<close>

definition buried :: "conn_id \<Rightarrow> Connection \<Rightarrow> lb_state \<Rightarrow> lb_state" where
  "buried i c s =
     s\<lparr>conn_heap := (conn_heap s)(i := None), mem := snd (shut release_bytes c (mem s)),
       live_ssl := live_ssl s - set_option (ssl c), open_fds := open_fds s - {conn_fd c},
       epoll_set := (epoll_set s)(conn_fd c := None)\<rparr>"

definition destructible :: "conn_id \<Rightarrow> Connection \<Rightarrow> lb_state \<Rightarrow> bool" where
  "destructible i c s \<longleftrightarrow>
     conn_heap s i = Some c \<and> peer c = None \<and> 0 \<le> conn_fd c \<and> conn_fd c \<in> open_fds s \<and>
     set_option (ssl c) \<subseteq> live_ssl s"

lemma lb_inv_destructible:
  assumes "lb_inv L s" and "conn_heap s i = Some c" and "peer c = None"
  shows "destructible i c s"
  using heap_inv_live [OF lb_inv_heap [OF assms(1)] assms(2)] assms(2,3) by (simp add: destructible_def)

lemma destroy_no_peer: "destructible i c s \<Longrightarrow> destroy i s = Some (buried i c s)"
  by (cases "ssl c")
     (auto simp: destroy_def conn_close_def destructible_def ssl_free_def sys_close_def put_conn_def
       shut_def buried_def split: prod.splits)

text \<open>Closing a connection and then erasing its entry, as the code does it, closes it once.\<close>

lemma close_then_erase:
  assumes "destructible i c s" and "get_connection f s = Some i"
  shows "(do { s1 \<leftarrow> conn_close i s; table_erase f s1 }) = Some (buried i c (table_remove f s))"
  using assms
  by (cases "ssl c")
     (auto simp: destroy_def conn_close_def destructible_def ssl_free_def sys_close_def put_conn_def
       shut_def buried_def table_erase_def table_remove_def get_connection_def release_bytes_def split: prod.splits)

lemma heap_inv_remove:
  assumes inv: "heap_inv H own tab F X" and "H i = Some c" and "peer c = None"
  shows "heap_inv (H(i := None)) (own - {i}) tab (F - {conn_fd c}) (X - set_option (ssl c))"
proof -
  have "linked (H(i := None)) tab x y" if "H x = Some d" "peer d = Some y" "x \<noteq> i" for x y d
  proof -
    from that inv have l: "linked H tab x y" by (auto simp: heap_inv_def)
    with assms(2,3) have "y \<noteq> i" by (auto simp: linked_def)
    with l show ?thesis by (auto simp: linked_def)
  qed
  moreover have "0 \<le> conn_fd d \<and> conn_fd d \<in> F - {conn_fd c} \<and> set_option (ssl d) \<subseteq> X - set_option (ssl c)"
    if "H x = Some d" "x \<noteq> i" for x d
    using that assms(2) inv unfolding heap_inv_def by (metis Diff_iff Diff_triv Diff_mono order_refl singletonD)
  moreover have "dom (H(i := None)) = own - {i}" using inv by (auto simp: heap_inv_def)
  moreover have "conn_fd d \<noteq> conn_fd e \<and> set_option (ssl d) \<inter> set_option (ssl e) = {}"
    if "H x = Some d" "H y = Some e" "x \<noteq> y" for x y d e
    using that inv unfolding heap_inv_def by metis
  ultimately show ?thesis unfolding heap_inv_def by (auto split: if_splits)
qed

lemma lb_inv_buried:
  assumes inv: "lb_inv (i # L) s" and c: "conn_heap s i = Some c" and "peer c = None"
  shows "lb_inv L (buried i c s)"
proof -
  have own: "set (owned (i # L) s) - {i} = set (owned L s)" "i \<notin> set (owned L s)" "distinct (owned L s)"
    using inv by (auto simp: lb_inv_def owned_def)
  have "heap_inv ((conn_heap s)(i := None)) (set (owned L s)) (snd ` set (connections s)) (open_fds s - {conn_fd c}) (live_ssl s - set_option (ssl c))"
    using heap_inv_remove [OF lb_inv_heap [OF inv] c assms(3)] own by simp
  moreover have "i \<notin> snd ` set (connections s)" using own(2) by (simp add: owned_def)
  then have "table_inv (connections s) ((conn_heap s)(i := None)) (dom (backend_connections s))"
    using inv by (auto simp: lb_inv_def table_inv_def image_iff)
  ultimately show ?thesis using inv own
    by (simp add: lb_inv_def buried_def owned_def)
qed

lemma set_delete_snd:
  assumes "distinct (map fst T)" and "distinct (map snd T)" and "(f, i) \<in> set T"
  shows "set (map snd (AList.delete f T)) = set (map snd T) - {i}" and "distinct (i # map snd (AList.delete f T))"
proof -
  show *: "set (map snd (AList.delete f T)) = set (map snd T) - {i}"
    using assms
  proof (induction T)
    case (Cons p T)
    obtain g j where p: "p = (g, j)" by (cases p)
    show ?case
    proof (cases "g = f")
      case True
      then have "AList.delete f T = T" "i = j"
        using Cons.prems p by (auto simp: delete_idem rev_image_eqI dom_map_of_conv_image_fst)
      with True Cons.prems p show ?thesis by auto
    next
      case False
      with Cons p have "set (map snd (AList.delete f T)) = set (map snd T) - {i}" "i \<noteq> j"
        by (auto simp: rev_image_eqI)
      with False p show ?thesis by auto
    qed
  qed simp
  have "distinct (map snd (AList.delete f T))"
    using assms(2) by (simp add: AList.delete_eq distinct_map_filter)
  with * show "distinct (i # map snd (AList.delete f T))" by auto
qed

lemma heap_inv_shrink_table:
  assumes inv: "heap_inv H own tab F X" and "H i = Some c" and "peer c = None"
  shows "heap_inv H own (tab - {i}) F X"
proof -
  have "linked H (tab - {i}) x y" if "H x = Some d" "peer d = Some y" for x y d
  proof -
    from that inv have l: "linked H tab x y" by (auto simp: heap_inv_def)
    with assms(2,3) have "y \<noteq> i" by (auto simp: linked_def)
    with l show ?thesis by (auto simp: linked_def)
  qed
  with inv show ?thesis unfolding heap_inv_def by blast
qed

lemma lb_inv_table_remove:
  assumes inv: "lb_inv L s" and g: "get_connection f s = Some i" and b: "backend_connections s f = None"
    and c: "conn_heap s i = Some c" and p: "peer c = None"
  shows "lb_inv (i # L) (table_remove f s)"
proof -
  let ?T = "connections s" and ?P = "pooled_ids (pool_manager s)"
  have t: "distinct (map fst ?T)" "distinct (map snd ?T)" "(f, i) \<in> set ?T"
    using inv get_connection_in [OF g] by (auto simp: lb_inv_def table_inv_def owned_def)
  note del = set_delete_snd [OF t]
  have own: "set (owned (i # L) (table_remove f s)) = set (owned L s)"
    using del t(3) by (force simp: owned_def table_remove_def)
  moreover have "i \<in> snd ` set ?T" using t(3) by force
  then have "distinct (owned (i # L) (table_remove f s))"
    using inv del by (auto simp: lb_inv_def owned_def table_remove_def)
  moreover have "table_inv (AList.delete f ?T) (conn_heap s) (dom (backend_connections s))"
  proof -
    have "dom (backend_connections s) \<subseteq> fst ` set ?T - {f}" using inv b by (auto simp: lb_inv_def table_inv_def)
    moreover have "fst ` set (AList.delete f ?T) = fst ` set ?T - {f}"
      using arg_cong [OF delete_keys [of f ?T], of set] by simp
    moreover have "set (AList.delete f ?T) \<subseteq> set ?T" by (simp add: AList.delete_eq)
    moreover have "distinct (map fst (AList.delete f ?T))" using t(1) by (simp add: distinct_delete)
    ultimately show ?thesis
      using inv unfolding lb_inv_def table_inv_def by (metis subsetD)
  qed
  moreover have "heap_inv (conn_heap s) (set (owned L s)) (snd ` set (AList.delete f ?T)) (open_fds s) (live_ssl s)"
    using heap_inv_shrink_table [OF lb_inv_heap [OF inv] c p] del(1) by simp
  ultimately show ?thesis using inv by (simp add: lb_inv_def table_remove_def)
qed


subsection \<open>Memory accounting\<close>

text \<open>The budget's counter is exactly what the accounted connections buffer.\<close>

definition charged :: "Connection \<Rightarrow> nat" where
  "charged c = (if accounted c then buffered c else 0)"

lemma charged_sel [simp]: "charged (set_peer p c) = charged c" "charged (set_conn_state st c) = charged c"
  by (simp_all add: charged_def buffered_def set_conn_state_def)

definition mem_exact :: "(conn_id \<rightharpoonup> Connection) \<Rightarrow> budget \<Rightarrow> bool" where
  "mem_exact H b \<longleftrightarrow>
     finite (dom H) \<and> budget_ok (2 ^ 32) b \<and> unat (used_bytes b) = (\<Sum>i \<in> dom H. charged (the (H i)))"

lemma charged_le:
  assumes "mem_exact H b" and "H i = Some c"
  shows "charged c \<le> unat (used_bytes b)"
  using assms member_le_sum [of i "dom H" "\<lambda>i. charged (the (H i))"]
  by (simp add: mem_exact_def domI)

lemma release_bytes_exact:
  assumes "budget_ok (2 ^ 32) b" and "n \<le> unat (used_bytes b)"
  shows "budget_ok (2 ^ 32) (release_bytes n b)" and "unat (used_bytes (release_bytes n b)) = unat (used_bytes b) - n"
proof -
  have "unat (used_bytes b) < 2 ^ 64" using unsigned_less [of "used_bytes b"] by simp
  then have "n < 2 ^ 64" using assms(2) by simp
  then have "unat (of_nat n :: u64) = n" by (rule unat_of_nat_u64)
  then show "budget_ok (2 ^ 32) (release_bytes n b)"
    and "unat (used_bytes (release_bytes n b)) = unat (used_bytes b) - n"
    using assms(1) by (simp_all add: release_bytes_def unat_used_release budget_ok_release)
qed

lemma charged_split:
  assumes "finite (dom H)" and "H i = Some c"
  shows "(\<Sum>x \<in> dom H. charged (the (H x))) = charged c + (\<Sum>x \<in> dom H - {i}. charged (the (H x)))"
  using assms sum.remove [of "dom H" i "\<lambda>x. charged (the (H x))"] by auto

lemma mem_exact_update:
  assumes "mem_exact H b" and "H i = Some c" and "budget_ok (2 ^ 32) b'"
    and "unat (used_bytes b') + charged c = unat (used_bytes b) + charged c'"
  shows "mem_exact (H(i \<mapsto> c')) b'"
proof -
  have "(\<Sum>x \<in> dom H. charged (the (H x))) = charged c + (\<Sum>x \<in> dom H - {i}. charged (the (H x)))"
    using assms(1,2) by (intro charged_split) (simp_all add: mem_exact_def)
  moreover have "(\<Sum>x \<in> dom H - {i}. charged (the ((H(i \<mapsto> c')) x))) = (\<Sum>x \<in> dom H - {i}. charged (the (H x)))"
    by (rule sum.cong) auto
  moreover have "dom (H(i \<mapsto> c')) = insert i (dom H - {i})" by auto
  ultimately show ?thesis using assms by (simp add: mem_exact_def sum.insert_remove)
qed

lemma mem_exact_put:
  assumes "mem_exact H b" and "H i = Some c" and "charged c' = charged c"
  shows "mem_exact (H(i \<mapsto> c')) b"
  using mem_exact_update [OF assms(1,2), of b c'] assms by (simp add: mem_exact_def)

lemma mem_exact_clear:
  assumes "mem_exact H b" and "H i = Some c" and "clear_buffers release_bytes c b = (c', b')"
  shows "mem_exact (H(i \<mapsto> c')) b'"
proof (rule mem_exact_update [OF assms(1,2)])
  have b: "budget_ok (2 ^ 32) b" using assms(1) by (simp add: mem_exact_def)
  note rel = release_bytes_exact [OF b] and le = charged_le [OF assms(1,2)]
  show "budget_ok (2 ^ 32) b'" "unat (used_bytes b') + charged c = unat (used_bytes b) + charged c'"
    using assms(3) b rel le by (auto simp: clear_buffers_def charged_def buffered_def split: if_splits)
qed

lemma mem_exact_remove:
  assumes "mem_exact H b" and "H i = Some c"
  shows "mem_exact (H(i := None)) (snd (shut release_bytes c b))"
proof -
  have b: "budget_ok (2 ^ 32) b" using assms(1) by (simp add: mem_exact_def)
  note rel = release_bytes_exact [OF b] and le = charged_le [OF assms]
  have "budget_ok (2 ^ 32) (snd (shut release_bytes c b)) \<and>
      unat (used_bytes (snd (shut release_bytes c b))) + charged c = unat (used_bytes b)"
    using b rel le by (auto simp: shut_def charged_def buffered_def)
  moreover have "(\<Sum>x \<in> dom H. charged (the (H x))) = charged c + (\<Sum>x \<in> dom H - {i}. charged (the (H x)))"
    using assms by (intro charged_split) (simp_all add: mem_exact_def)
  moreover have "(\<Sum>x \<in> dom H - {i}. charged (the ((H(i := None)) x))) = (\<Sum>x \<in> dom H - {i}. charged (the (H x)))"
    by (rule sum.cong) auto
  ultimately show ?thesis using assms(1) by (simp add: mem_exact_def)
qed


subsection \<open>Frames\<close>

lemma upd_metrics_frame [simp]:
  "conn_heap (upd_metrics g s) = conn_heap s" "connections (upd_metrics g s) = connections s"
  "pool_manager (upd_metrics g s) = pool_manager s" "open_fds (upd_metrics g s) = open_fds s"
  "live_ssl (upd_metrics g s) = live_ssl s" "next_conn (upd_metrics g s) = next_conn s"
  "bad_closes (upd_metrics g s) = bad_closes s" "backend_connections (upd_metrics g s) = backend_connections s"
  "nodes (upd_metrics g s) = nodes s" "backend_pool (upd_metrics g s) = backend_pool s"
  "health_checker (upd_metrics g s) = health_checker s" "mem (upd_metrics g s) = mem s"
  "pooled_connections (upd_metrics g s) = pooled_connections s"
  by (simp_all add: upd_metrics_def)

lemma drop_backend_slot_frame [simp]:
  "conn_heap (drop_backend_slot f e s) = conn_heap s" "connections (drop_backend_slot f e s) = connections s"
  "pool_manager (drop_backend_slot f e s) = pool_manager s" "open_fds (drop_backend_slot f e s) = open_fds s"
  "live_ssl (drop_backend_slot f e s) = live_ssl s" "next_conn (drop_backend_slot f e s) = next_conn s"
  "bad_closes (drop_backend_slot f e s) = bad_closes s"
  "backend_connections (drop_backend_slot f e s) = erase_key (backend_connections s) f"
  "backend_pool (drop_backend_slot f e s) = backend_pool s"
  "health_checker (drop_backend_slot f e s) = health_checker s" "mem (drop_backend_slot f e s) = mem s"
  "pooled_connections (drop_backend_slot f e s) = pooled_connections s"
  by (simp_all add: drop_backend_slot_def upd_nodes_def split: option.splits)

lemma forget_fd_frame [simp]:
  "conn_heap (forget_fd f s) = conn_heap s" "connections (forget_fd f s) = connections s"
  "pool_manager (forget_fd f s) = pool_manager s" "open_fds (forget_fd f s) = open_fds s"
  "live_ssl (forget_fd f s) = live_ssl s" "next_conn (forget_fd f s) = next_conn s"
  "bad_closes (forget_fd f s) = bad_closes s" "backend_connections (forget_fd f s) = backend_connections s"
  "nodes (forget_fd f s) = nodes s" "backend_pool (forget_fd f s) = backend_pool s"
  "health_checker (forget_fd f s) = health_checker s" "mem (forget_fd f s) = mem s"
  "pooled_connections (forget_fd f s) = pooled_connections s"
  by (simp_all add: forget_fd_def untrack_backpressure_def Let_def)

lemma log_unfinished_request_frame [simp]:
  "conn_heap (log_unfinished_request k f c s) = conn_heap s"
  "connections (log_unfinished_request k f c s) = connections s"
  "pool_manager (log_unfinished_request k f c s) = pool_manager s"
  "open_fds (log_unfinished_request k f c s) = open_fds s"
  "live_ssl (log_unfinished_request k f c s) = live_ssl s"
  "next_conn (log_unfinished_request k f c s) = next_conn s"
  "bad_closes (log_unfinished_request k f c s) = bad_closes s"
  "backend_connections (log_unfinished_request k f c s) = backend_connections s"
  "nodes (log_unfinished_request k f c s) = nodes s"
  "backend_pool (log_unfinished_request k f c s) = backend_pool s"
  "health_checker (log_unfinished_request k f c s) = health_checker s"
  "mem (log_unfinished_request k f c s) = mem s"
  "pooled_connections (log_unfinished_request k f c s) = pooled_connections s"
  by (simp_all add: log_unfinished_request_def log_access_def clear_request_info_def ask_def Let_def
      split: option.splits)

lemma del_fd_frame [simp]:
  "conn_heap (del_fd f s) = conn_heap s" "connections (del_fd f s) = connections s"
  "pool_manager (del_fd f s) = pool_manager s" "open_fds (del_fd f s) = open_fds s"
  "live_ssl (del_fd f s) = live_ssl s" "next_conn (del_fd f s) = next_conn s"
  "bad_closes (del_fd f s) = bad_closes s" "backend_connections (del_fd f s) = backend_connections s"
  "nodes (del_fd f s) = nodes s" "backend_pool (del_fd f s) = backend_pool s"
  "health_checker (del_fd f s) = health_checker s" "mem (del_fd f s) = mem s"
  "pooled_connections (del_fd f s) = pooled_connections s"
  by (simp_all add: del_fd_def)

lemma put_conn_frame [simp]:
  "conn_heap (put_conn i c s) = (conn_heap s)(i \<mapsto> c)" "connections (put_conn i c s) = connections s"
  "pool_manager (put_conn i c s) = pool_manager s" "open_fds (put_conn i c s) = open_fds s"
  "live_ssl (put_conn i c s) = live_ssl s" "next_conn (put_conn i c s) = next_conn s"
  "bad_closes (put_conn i c s) = bad_closes s" "backend_connections (put_conn i c s) = backend_connections s"
  "nodes (put_conn i c s) = nodes s" "backend_pool (put_conn i c s) = backend_pool s"
  "health_checker (put_conn i c s) = health_checker s" "mem (put_conn i c s) = mem s"
  "pooled_connections (put_conn i c s) = pooled_connections s"
  by (simp_all add: put_conn_def)

lemma buried_frame [simp]:
  "conn_heap (buried i c s) = (conn_heap s)(i := None)" "connections (buried i c s) = connections s"
  "pool_manager (buried i c s) = pool_manager s" "open_fds (buried i c s) = open_fds s - {conn_fd c}"
  "live_ssl (buried i c s) = live_ssl s - set_option (ssl c)" "next_conn (buried i c s) = next_conn s"
  "bad_closes (buried i c s) = bad_closes s" "backend_connections (buried i c s) = backend_connections s"
  "nodes (buried i c s) = nodes s" "backend_pool (buried i c s) = backend_pool s"
  "health_checker (buried i c s) = health_checker s" "pooled_connections (buried i c s) = pooled_connections s"
  "mem (buried i c s) = snd (shut release_bytes c (mem s))"
  by (simp_all add: buried_def)

lemma table_remove_frame [simp]:
  "conn_heap (table_remove f s) = conn_heap s" "connections (table_remove f s) = AList.delete f (connections s)"
  "pool_manager (table_remove f s) = pool_manager s" "open_fds (table_remove f s) = open_fds s"
  "live_ssl (table_remove f s) = live_ssl s" "next_conn (table_remove f s) = next_conn s"
  "bad_closes (table_remove f s) = bad_closes s" "backend_connections (table_remove f s) = backend_connections s"
  "nodes (table_remove f s) = nodes s" "backend_pool (table_remove f s) = backend_pool s"
  "health_checker (table_remove f s) = health_checker s" "mem (table_remove f s) = mem s"
  "pooled_connections (table_remove f s) = pooled_connections s"
  by (simp_all add: table_remove_def)

subsection \<open>Returning a connection to its pool\<close>

lemma pm_ids_update:
  assumes "map_of (pools pm) key = Some q"
    and "mset (map pc_connection (pool_connections q')) = mset (map pc_connection (pool_connections q)) + M"
  shows "mset (pm_ids (pm\<lparr>pools := AList.update key q' (pools pm)\<rparr>)) = mset (pm_ids pm) + M"
proof -
  have "map_of ps key = Some q \<Longrightarrow>
    mset (concat (map (\<lambda>kq. map pc_connection (pool_connections (snd kq))) (AList.update key q' ps))) =
    mset (concat (map (\<lambda>kq. map pc_connection (pool_connections (snd kq))) ps)) + M" for ps
    using assms(2) by (induction ps) (auto simp: ac_simps split: if_splits)
  with assms(1) show ?thesis by (simp add: pm_ids_def)
qed

lemma pm_release_ids:
  assumes "pm_release valid now h p i pm = (closed, pm')"
  shows "(closed = [i] \<and> mset (pm_ids pm') = mset (pm_ids pm)) \<or>
         (closed = [] \<and> mset (pm_ids pm') = add_mset i (mset (pm_ids pm)))"
proof (cases "map_of (pools pm) (make_key h p)")
  case None
  with assms show ?thesis by (simp add: pm_release_def)
next
  case (Some q)
  show ?thesis
    using assms Some pm_ids_update [OF Some, where M = "{#i#}"] pm_ids_update [OF Some, where M = "{#}"]
    by (cases valid) (auto simp: pm_release_def pool_release_def Let_def)
qed

text \<open>The effect of \<open>release_to_pool\<close> on a connection nobody else owns.\<close>

definition released :: "conn_id \<Rightarrow> Connection \<Rightarrow> lb_state \<Rightarrow> lb_state \<Rightarrow> bool" where
  "released i c s s' \<longleftrightarrow>
     (\<forall>x. x \<noteq> i \<longrightarrow> conn_heap s' x = conn_heap s x) \<and> connections s' = connections s \<and>
     bad_closes s' = bad_closes s \<and> next_conn s' = next_conn s \<and>
     backend_connections s' = backend_connections s \<and> nodes s' = nodes s \<and>
     backend_pool s' = backend_pool s \<and> health_checker s' = health_checker s \<and>
     (mem_exact (conn_heap s) (mem s) \<longrightarrow> mem_exact (conn_heap s') (mem s')) \<and>
     (conn_heap s' i = None \<and> open_fds s' = open_fds s - {conn_fd c} \<or>
      i \<in> set (pooled_ids (pool_manager s')) \<and> open_fds s' = open_fds s)"

lemma owned_pool_manager:
  "mset (pooled_ids pm') = add_mset i (mset (pooled_ids (pool_manager s))) \<Longrightarrow>
   mset (owned L (s\<lparr>pool_manager := pm'\<rparr>)) = mset (owned (i # L) s)"
  by (simp add: owned_def)

lemma lb_inv_owned_mset:
  assumes "lb_inv L' s" and "mset (owned L (s\<lparr>pool_manager := pm'\<rparr>)) = mset (owned L' s)"
  shows "lb_inv L (s\<lparr>pool_manager := pm'\<rparr>)"
proof -
  have "set (owned L (s\<lparr>pool_manager := pm'\<rparr>)) = set (owned L' s)"
    using assms(2) mset_eq_setD by blast
  moreover have "distinct (owned L (s\<lparr>pool_manager := pm'\<rparr>))"
    using assms mset_eq_imp_distinct_iff [OF assms(2)] by (simp add: lb_inv_def)
  ultimately show ?thesis using assms(1) by (simp add: lb_inv_def)
qed

lemma clear_buffers_sel:
  assumes "clear_buffers g c b = (c', b')"
  shows "conn_fd c' = conn_fd c" "ssl c' = ssl c" "peer c' = peer c" "accounted c' = accounted c"
  using assms by (auto simp: clear_buffers_def)

lemma release_to_pool_ok:
  assumes inv: "lb_inv (i # L) s" and c: "conn_heap s i = Some c" and p: "peer c = None"
  obtains r s' where "release_to_pool k f i s = Some (r, s')" and "lb_inv L s'" and "released i c s s'"
proof -
  have bury: "destroy i s = Some (buried i c s)" "lb_inv L (buried i c s)" "released i c s (buried i c s)"
    using destroy_no_peer [OF lb_inv_destructible [OF inv c p]] lb_inv_buried [OF inv c p] mem_exact_remove c
    by (auto simp: released_def)
  show ?thesis
  proof (cases "\<exists>pm info. pool_manager s = Some pm \<and> pooled_connections s f = Some info \<and> bi_host info \<noteq> []")
    case False
    then have "release_to_pool k f i s = Some (False, buried i c s)"
      using bury(1) by (auto simp: release_to_pool_def split: option.splits)
    with bury that show ?thesis by blast
  next
    case True
    then obtain pm info where pm: "pool_manager s = Some pm" "pooled_connections s f = Some info" "bi_host info \<noteq> []" by blast
    obtain c1 m where cb: "clear_buffers release_bytes c (mem s) = (c1, m)" by fastforce
    define c2 where "c2 = set_conn_state ESTABLISHED c1"
    have c2: "conn_fd c2 = conn_fd c" "ssl c2 = ssl c" "peer c2 = peer c"
      using clear_buffers_sel [OF cb] by (simp_all add: c2_def set_conn_state_def)
    define s3 where "s3 = (put_conn i c2 s)\<lparr>mem := m, steps := steps s + 2\<rparr>"
    have inv3: "lb_inv (i # L) s3"
      using lb_inv_put [OF inv c c2] by (rule lb_inv_core [rotated -1]) (simp_all add: s3_def)
    have mem3: "mem_exact (conn_heap s3) (mem s3)" if "mem_exact (conn_heap s) (mem s)"
    proof -
      have "charged c2 = charged c1" by (simp add: c2_def)
      with mem_exact_put [OF mem_exact_clear [OF that c cb], of i c1 c2] show ?thesis by (simp add: s3_def)
    qed
    obtain closed pm' where rel: "pm_release (validate_connection (k_peek k (steps s)) c2) (k_now k (steps s + 1))
        (bi_host info) (bi_port info) i pm = (closed, pm')" by fastforce
    let ?s4 = "s3\<lparr>pool_manager := Some pm'\<rparr>"
    have run: "release_to_pool k f i s = do { s4 \<leftarrow> destroy_all closed ?s4; Some (True, s4) }"
      using pm c cb rel by (simp add: release_to_pool_def ask_def c2_def s3_def numeral_2_eq_2 put_conn_def)
    from pm_release_ids [OF rel] show ?thesis
    proof
      assume *: "closed = [i] \<and> mset (pm_ids pm') = mset (pm_ids pm)"
      then have "lb_inv (i # L) ?s4"
        using inv3 pm by (intro lb_inv_owned_mset [of "i # L"]) (simp_all add: owned_def pooled_ids_def s3_def)
      moreover have "conn_heap ?s4 i = Some c2" "peer c2 = None" using c2 p by (simp_all add: s3_def)
      ultimately have "destroy i ?s4 = Some (buried i c2 ?s4)" "lb_inv L (buried i c2 ?s4)"
        using destroy_no_peer lb_inv_destructible lb_inv_buried by blast+
      moreover have "released i c s (buried i c2 ?s4)"
        using c2 mem_exact_remove [OF mem3, of i c2] by (simp add: released_def s3_def)
      ultimately show ?thesis using that run * by auto
    next
      assume *: "closed = [] \<and> mset (pm_ids pm') = add_mset i (mset (pm_ids pm))"
      then have "lb_inv L ?s4"
        using inv3 pm owned_pool_manager [of "Some pm'" i s3 L]
        by (intro lb_inv_owned_mset [of "i # L"]) (simp_all add: pooled_ids_def s3_def)
      moreover have "i \<in> set (pm_ids pm')"
        using * by (metis set_mset_mset union_single_eq_member add_mset_add_single)
      then have "released i c s ?s4" using mem3 by (simp add: released_def s3_def pooled_ids_def)
      ultimately show ?thesis using that run * by auto
    qed
  qed
qed

end
