(* ===== verification/Connection_Safety.thy ===== *)
theory Connection_Safety
  imports Connection_Invariants
begin

text \<open>
  Closing connections is safe: \<open>close_connection\<close> and \<open>close_backend_connection_only\<close> never
  touch a destroyed object, close every descriptor once and keep the invariants, with the
  connection counters of the backends exact. The locale \<open>closing\<close> is the contract the rest
  of the load balancer uses, interpreted by both operations.
\<close>

subsection \<open>The effect of closing\<close>

definition conn_at :: "lb_state \<Rightarrow> fd \<Rightarrow> Connection option" where
  "conn_at s f = (case get_connection f s of None \<Rightarrow> None | Some i \<Rightarrow> conn_heap s i)"

definition peer_fd :: "lb_state \<Rightarrow> fd \<Rightarrow> fd option" where
  "peer_fd s f =
     (case conn_at s f of
        None \<Rightarrow> None
      | Some c \<Rightarrow> (case peer c of None \<Rightarrow> None | Some j \<Rightarrow> map_option conn_fd (conn_heap s j)))"

text \<open>Exactly the entries \<open>f\<close> and, if given, \<open>g\<close> are gone; all other connections are untouched.\<close>

definition gone :: "fd \<Rightarrow> fd option \<Rightarrow> lb_state \<Rightarrow> lb_state \<Rightarrow> bool" where
  "gone f g s s' \<longleftrightarrow>
     get_connection f s' = None \<and> (\<forall>h \<in> set_option g. get_connection h s' = None) \<and>
     (\<forall>h. h \<noteq> f \<and> g \<noteq> Some h \<longrightarrow> get_connection h s' = get_connection h s \<and> conn_at s' h = conn_at s h) \<and>
     bad_closes s' = bad_closes s \<and>
     open_fds s' \<subseteq> open_fds s \<and> open_fds s - open_fds s' \<subseteq> insert f (set_option g) \<and> f \<notin> open_fds s'"

lemma get_connection_remove [simp]:
  "get_connection g (table_remove f s) = (if g = f then None else get_connection g s)"
  by (simp add: get_connection_def AList.delete_conv')

lemma get_connection_frame:
  "connections s' = connections s \<Longrightarrow> get_connection g s' = get_connection g s"
  by (simp add: get_connection_def)

lemma table_states_ok_sub:
  assumes "table_states_ok s" and "set (connections s') \<subseteq> set (connections s)"
    and "\<And>f i. (f, i) \<in> set (connections s') \<Longrightarrow>
      map_option conn_state (conn_heap s' i) = map_option conn_state (conn_heap s i)"
  shows "table_states_ok s'"
  unfolding table_states_ok_def
proof (intro allI impI)
  fix f i c assume fi: "(f, i) \<in> set (connections s')" and c: "conn_heap s' i = Some c"
  from assms(3) [OF fi] c obtain d where "conn_heap s i = Some d" "conn_state d = conn_state c"
    by (metis map_option_eq_Some option.simps(9))
  with fi assms(1,2) show "conn_state c \<noteq> CLOSED" by (auto simp: table_states_ok_def)
qed

lemma set_delete: "set (AList.delete f T) = {p \<in> set T. fst p \<noteq> f}"
  by (auto simp: AList.delete_eq)

lemma connections_key_unique:
  assumes "lb_inv L s" and "(g, i) \<in> set (connections s)" and "(f, i) \<in> set (connections s)"
  shows "g = f"
  using assms unfolding lb_inv_def table_inv_def by (metis option.inject)

text \<open>The last steps of closing a connection whose peer is gone.\<close>

lemma finish_close:
  assumes inv: "lb_inv L s" and g: "get_connection f s = Some i" and c: "conn_heap s i = Some c"
    and p: "peer c = None" and b: "backend_connections s f = None"
  shows "(do { s8 \<leftarrow> conn_close i s; table_erase f s8 }) = Some (buried i c (table_remove f s))"
    and "lb_inv L (buried i c (table_remove f s))"
  using close_then_erase [OF lb_inv_destructible [OF inv c p] g]
    lb_inv_buried [OF lb_inv_table_remove [OF inv g b c p]] c p by simp_all

lemma peer_in_table:
  assumes inv: "lb_inv L s" and i: "conn_heap s i = Some c" "peer c = Some j" and j: "conn_heap s j = Some d"
  shows "get_connection (conn_fd d) s = Some j"
proof -
  have "j \<in> snd ` set (connections s)"
    using lb_inv_heap [OF inv] i by (auto simp: heap_inv_def linked_def)
  then obtain g where "(g, j) \<in> set (connections s)" by auto
  moreover from this have "g = conn_fd d" using inv j by (fastforce simp: lb_inv_def table_inv_def)
  ultimately show ?thesis using inv by (simp add: lb_inv_def table_inv_def get_connection_def)
qed

lemma nodes_drop_backend_slot_cong:
  assumes "nodes s' = nodes s" and "backend_connections s' = backend_connections s"
    and "backend_pool s' = backend_pool s" and "health_checker s' = health_checker s"
  shows "nodes (drop_backend_slot f e s') = nodes (drop_backend_slot f e s)"
  using assms by (simp add: drop_backend_slot_def lock_backend_def node_alive_def upd_nodes_def split: option.splits)

lemma close_peer_ok:
  assumes inv: "lb_inv L s" and i: "conn_heap s i = Some c" "peer c = Some j"
    and j: "conn_heap s j = Some d" "conn_state d \<noteq> CLOSED"
  obtains s' where "close_peer k is_client i j s = Some s'" and "lb_inv L s'"
    and "connections s' = AList.delete (conn_fd d) (connections s)"
    and "conn_heap s' i = Some (set_peer None c)"
    and "\<And>x. x \<noteq> i \<Longrightarrow> x \<noteq> j \<Longrightarrow> conn_heap s' x = conn_heap s x"
    and "bad_closes s' = bad_closes s"
    and "open_fds s' = open_fds s \<or> open_fds s' = open_fds s - {conn_fd d}"
    and "backend_connections s' = erase_key (backend_connections s) (conn_fd d)"
    and "nodes s' = nodes (drop_backend_slot (conn_fd d) (conn_state d = ESTABLISHED) s)"
    and "backend_pool s' = backend_pool s" and "health_checker s' = health_checker s"
    and "mem_exact (conn_heap s) (mem s) \<longrightarrow> mem_exact (conn_heap s') (mem s')"
proof -
  let ?pf = "conn_fd d"
  note hinv = lb_inv_heap [OF inv]
  have lnk: "j \<noteq> i" "peer d = Some i" using heap_inv_peer [OF hinv i] j by auto
  have gj: "get_connection ?pf s = Some j" using peer_in_table [OF inv i j(1)] .
  define s2 where "s2 = unlink i c j d s"
  define s4 where "s4 = del_fd ?pf (forget_fd ?pf (drop_backend_slot ?pf (conn_state d = ESTABLISHED) s2))"
  have inv4: "lb_inv L s4"
    using lb_inv_unlink [OF inv i(1) j(1) lnk(1) [symmetric] i(2) lnk(2)]
    by (rule lb_inv_core [rotated -1]) (simp_all add: s4_def s2_def erase_key_def)
  have s4: "conn_heap s4 = (conn_heap s)(i \<mapsto> set_peer None c, j \<mapsto> set_peer None d)"
    "connections s4 = connections s" "backend_connections s4 = erase_key (backend_connections s) ?pf"
    "bad_closes s4 = bad_closes s" "open_fds s4 = open_fds s" "backend_pool s4 = backend_pool s"
    "health_checker s4 = health_checker s"
    by (simp_all add: s4_def s2_def unlink_def)
  have m4: "mem s4 = mem s" by (simp add: s4_def s2_def unlink_def)
  have mem4: "mem_exact (conn_heap s) (mem s) \<longrightarrow> mem_exact (conn_heap s4) (mem s4)"
    using mem_exact_put [OF mem_exact_put, of "conn_heap s" "mem s" i c "set_peer None c" j d "set_peer None d"]
      i j lnk(1) by (simp add: s4 m4)
  have n4: "nodes s4 = nodes (drop_backend_slot ?pf (conn_state d = ESTABLISHED) s)"
    unfolding s4_def s2_def unlink_def by (simp, rule nodes_drop_backend_slot_cong) simp_all
  have run: "close_peer k is_client i j s =
      (if is_client \<and> backend_connections s ?pf \<noteq> None \<and> pool_manager s4 \<noteq> None
       then do { (r, s5) \<leftarrow> release_to_pool k ?pf j (table_remove ?pf s4); Some s5 }
       else do { s5 \<leftarrow> conn_close j s4; table_erase ?pf s5 })"
    using i j lnk gj
    by (auto simp: close_peer_def with_conn_def s4_def s2_def unlink_def get_connection_def Let_def)
  have g4: "get_connection ?pf s4 = Some j" using gj s4(2) by (simp add: get_connection_def)
  have j4: "conn_heap s4 j = Some (set_peer None d)" using s4 by simp
  show ?thesis
  proof (cases "is_client \<and> backend_connections s ?pf \<noteq> None \<and> pool_manager s4 \<noteq> None")
    case False
    from finish_close [OF inv4 g4 j4] s4(3)
    have "close_peer k is_client i j s = Some (buried j (set_peer None d) (table_remove ?pf s4))"
      and "lb_inv L (buried j (set_peer None d) (table_remove ?pf s4))"
      using run [unfolded if_not_P [OF False]] by simp_all
    then show ?thesis using s4 n4 lnk(1) mem4 mem_exact_remove [of "conn_heap s4" "mem s4" j "set_peer None d", OF _ j4]
      by (intro that [of "buried j (set_peer None d) (table_remove ?pf s4)"]) simp_all
  next
    case True
    let ?s = "table_remove ?pf s4"
    have "lb_inv (j # L) ?s" using lb_inv_table_remove [OF inv4 g4 _ j4] s4(3) by simp
    then obtain r s' where rel: "release_to_pool k ?pf j ?s = Some (r, s')" "lb_inv L s'"
        "released j (set_peer None d) ?s s'"
      by (rule release_to_pool_ok [of j L ?s "set_peer None d"]) (simp_all add: j4)
    then have "close_peer k is_client i j s = Some s'" using run True by simp
    then show ?thesis using rel s4 n4 lnk(1) mem4 by (intro that [of s']) (auto simp: released_def)
  qed
qed


lemma conn_at_frame:
  assumes inv: "lb_inv L s" and "get_connection h s' = get_connection h s"
    and "\<And>x d. conn_heap s x = Some d \<Longrightarrow> conn_fd d = h \<Longrightarrow> conn_heap s' x = conn_heap s x"
  shows "conn_at s' h = conn_at s h"
proof (cases "get_connection h s")
  case (Some x)
  then obtain d where "conn_heap s x = Some d" "conn_fd d = h" using get_connection_live [OF inv] by blast
  with Some assms(2,3) show ?thesis by (simp add: conn_at_def)
qed (use assms(2) in \<open>simp add: conn_at_def\<close>)

text \<open>Closing a connection in three steps: its own bookkeeping, its peer, and at last the connection itself.\<close>

lemma close_first_ok:
  assumes inv: "lb_inv L s" and g: "get_connection f s = Some i" and c: "conn_heap s i = Some c" "conn_fd c = f"
    and open_c: "conn_state c \<noteq> CLOSED"
  obtains s6 where "close_connection k f s =
      do { s7 \<leftarrow> (case peer c of None \<Rightarrow> Some s6 | Some j \<Rightarrow> close_peer k (backend_connections s f = None) i j s6);
           s8 \<leftarrow> conn_close i (del_fd f s7); table_erase f s8 }"
    and "lb_inv L s6" and "conn_heap s6 = (conn_heap s)(i \<mapsto> set_conn_state CLOSED c)" and "connections s6 = connections s"
    and "backend_connections s6 = erase_key (backend_connections s) f" and "open_fds s6 = open_fds s"
    and "bad_closes s6 = bad_closes s" and "backend_pool s6 = backend_pool s" and "health_checker s6 = health_checker s"
    and "nodes s6 = nodes (drop_backend_slot f (conn_state c = ESTABLISHED) s)"
    and "mem_exact (conn_heap s) (mem s) \<longrightarrow> mem_exact (conn_heap s6) (mem s6)"
proof -
  let ?c0 = "set_conn_state CLOSED c" and ?is_client = "backend_connections s f = None"
  define s2 where "s2 = put_conn i ?c0 (drop_backend_slot f (conn_state c = ESTABLISHED) s)"
  define s3 where "s3 = upd_metrics (add_bytes_out (of_nat (bytes_written c)))
      (upd_metrics (add_bytes_in (of_nat (bytes_read c))) s2)"
  define s5 where "s5 = forget_fd f (if ?is_client
      then upd_metrics decrement_connections_active (log_unfinished_request k f c s3) else s3)"
  define s6 where "s6 = s5\<lparr>backend_to_client_map := erase_where (\<lambda>g. g = f) (backend_to_client_map s5)\<rparr>"
  note defs = s6_def s5_def s3_def s2_def
  have "lb_inv L (put_conn i ?c0 s)" using inv c by (intro lb_inv_put) (auto simp: set_conn_state_def)
  then have "lb_inv L s6" by (rule lb_inv_core [rotated -1]) (simp_all add: defs erase_key_def)
  moreover have "mem_exact (conn_heap s) (mem s) \<longrightarrow> mem_exact (conn_heap s6) (mem s6)"
    using mem_exact_put [of "conn_heap s" "mem s" i c ?c0, OF _ c(1)] by (simp add: defs)
  moreover have "close_connection k f s =
      do { s7 \<leftarrow> (case peer c of None \<Rightarrow> Some s6 | Some j \<Rightarrow> close_peer k ?is_client i j s6);
           s8 \<leftarrow> conn_close i (del_fd f s7); table_erase f s8 }"
    unfolding defs using g c open_c by (simp add: close_connection_def Let_def)
  ultimately show ?thesis by (intro that [of s6]) (simp_all add: defs)
qed

lemma close_last_ok:
  assumes inv: "lb_inv L s" and st: "table_states_ok s" and g: "get_connection f s = Some i" and c: "conn_heap s i = Some c" "conn_fd c = f"
    and c0: "conn_fd c0 = f" and s7: "lb_inv L s7" and ne: "peer_fd s f \<noteq> Some f"
    and t7: "connections s7 = (case peer_fd s f of None \<Rightarrow> connections s | Some h \<Rightarrow> AList.delete h (connections s))"
    and i7: "conn_heap s7 i = Some (set_peer None c0)"
    and x7: "\<And>x d. conn_heap s x = Some d \<Longrightarrow> x \<noteq> i \<Longrightarrow> peer_fd s f \<noteq> Some (conn_fd d) \<Longrightarrow> conn_heap s7 x = conn_heap s x"
    and f7: "bad_closes s7 = bad_closes s"
      "open_fds s7 = open_fds s \<or> peer_fd s f \<noteq> None \<and> open_fds s7 = open_fds s - set_option (peer_fd s f)"
    and b7: "backend_connections s7 f = None"
  defines "s' \<equiv> buried i (set_peer None c0) (table_remove f (del_fd f s7))"
  shows "(do { s8 \<leftarrow> conn_close i (del_fd f s7); table_erase f s8 }) = Some s'" and "lb_inv L s'"
    and "table_states_ok s'" and "gone f (peer_fd s f) s s'"
proof -
  have g7: "get_connection h s7 = (if peer_fd s f = Some h then None else get_connection h s)" for h
    using t7 by (auto simp: get_connection_def AList.delete_conv' split: option.splits)
  have inv7: "lb_inv L (del_fd f s7)" using s7 by (rule lb_inv_core [rotated -1]) simp_all
  show "(do { s8 \<leftarrow> conn_close i (del_fd f s7); table_erase f s8 }) = Some s'" "lb_inv L s'"
    using finish_close [OF inv7, of f i "set_peer None c0"] g7 [of f] g ne i7 b7 unfolding s'_def by (auto simp: get_connection_def)
  have gs': "get_connection h s' = (if h = f \<or> peer_fd s f = Some h then None else get_connection h s)" for h
    using g7 [of h] by (auto simp: s'_def get_connection_def AList.delete_conv')
  have at': "conn_at s' h = conn_at s h" if h: "h \<noteq> f" "peer_fd s f \<noteq> Some h" for h
  proof (rule conn_at_frame [OF inv])
    fix x d assume x: "conn_heap s x = Some d" "conn_fd d = h"
    with h c have "x \<noteq> i" by auto
    with x7 [OF x(1)] x(2) h show "conn_heap s' x = conn_heap s x" by (simp add: s'_def)
  qed (use gs' h in auto)
  have keys: "f \<noteq> h \<and> peer_fd s f \<noteq> Some h \<and> (h, x) \<in> set (connections s)" if "(h, x) \<in> set (connections s')" for h x
    using that t7 by (auto simp: s'_def set_delete split: option.splits)
  show "table_states_ok s'"
  proof (rule table_states_ok_sub [OF st])
    fix h x assume hx: "(h, x) \<in> set (connections s')"
    then have "get_connection h s = Some x" "h \<noteq> f" "peer_fd s f \<noteq> Some h"
      using keys [OF hx] inv by (auto simp: lb_inv_def table_inv_def get_connection_def intro: map_of_is_SomeI)
    with at' [of h] gs' [of h] show "map_option conn_state (conn_heap s' x) = map_option conn_state (conn_heap s x)"
      by (simp add: conn_at_def)
  qed (use keys in auto)
  show "gone f (peer_fd s f) s s'" using gs' at' f7 c0 by (auto simp: gone_def s'_def split: option.splits)
qed

lemma close_connection_ok:
  assumes inv: "lb_inv L s" and st: "table_states_ok s" and g: "get_connection f s = Some i"
  obtains c s' where "conn_at s f = Some c" and "close_connection k f s = Some s'" and "lb_inv L s'"
    and "table_states_ok s'" and "gone f (peer_fd s f) s s'"
    and "backend_connections s' = (case peer_fd s f of None \<Rightarrow> erase_key (backend_connections s) f
           | Some h \<Rightarrow> erase_key (erase_key (backend_connections s) f) h)"
    and "nodes s' = nodes (case peer_fd s f of None \<Rightarrow> drop_backend_slot f (conn_state c = ESTABLISHED) s
           | Some h \<Rightarrow> drop_backend_slot h (map_option conn_state (conn_at s h) = Some ESTABLISHED)
                         (drop_backend_slot f (conn_state c = ESTABLISHED) s))"
    and "backend_pool s' = backend_pool s" and "health_checker s' = health_checker s"
    and "mem_exact (conn_heap s) (mem s) \<longrightarrow> mem_exact (conn_heap s') (mem s')"
proof -
  obtain c where c: "conn_heap s i = Some c" and fd: "conn_fd c = f" using get_connection_live [OF inv g] by blast
  have open_c: "conn_state c \<noteq> CLOSED" using st get_connection_in [OF g] c by (auto simp: table_states_ok_def)
  have at: "conn_at s f = Some c" by (simp add: conn_at_def g c)
  define c0 where "c0 = set_conn_state CLOSED c"
  have c0: "conn_fd c0 = f" "peer c0 = peer c" by (simp_all add: c0_def set_conn_state_def fd)
  obtain s6 where run: "close_connection k f s =
      do { s7 \<leftarrow> (case peer c of None \<Rightarrow> Some s6 | Some j \<Rightarrow> close_peer k (backend_connections s f = None) i j s6);
           s8 \<leftarrow> conn_close i (del_fd f s7); table_erase f s8 }"
    and inv6: "lb_inv L s6" and s6: "conn_heap s6 = (conn_heap s)(i \<mapsto> c0)" "connections s6 = connections s"
    "backend_connections s6 = erase_key (backend_connections s) f" "open_fds s6 = open_fds s"
    "bad_closes s6 = bad_closes s" "backend_pool s6 = backend_pool s" "health_checker s6 = health_checker s"
    "nodes s6 = nodes (drop_backend_slot f (conn_state c = ESTABLISHED) s)"
    and m6: "mem_exact (conn_heap s) (mem s) \<longrightarrow> mem_exact (conn_heap s6) (mem s6)"
    unfolding c0_def by (rule close_first_ok [OF inv g c fd open_c])
  note last = close_last_ok [OF inv st g c fd c0(1)]
  show ?thesis
  proof (cases "peer c")
    case None
    have "c0 = set_peer None c0" using None c0 by (simp add: set_peer_def)
    then have i6: "conn_heap s6 i = Some (set_peer None c0)" using s6(1) by simp
    have pf: "peer_fd s f = None" using at None by (simp add: peer_fd_def)
    have "\<And>x d. conn_heap s x = Some d \<Longrightarrow> x \<noteq> i \<Longrightarrow> conn_heap s6 x = conn_heap s x" by (simp add: s6)
    with last [OF inv6 _ _ i6] show ?thesis
      using run None pf at s6 m6 mem_exact_remove [of "conn_heap s6" "mem s6" i "set_peer None c0", OF _ i6]
      by (intro that [of c "buried i (set_peer None c0) (table_remove f (del_fd f s6))"]) simp_all
  next
    case (Some j)
    obtain d where d: "conn_heap s j = Some d" "j \<noteq> i" "conn_fd d \<noteq> f"
      using heap_inv_peer [OF lb_inv_heap [OF inv] c Some] fd by metis
    have pf: "peer_fd s f = Some (conn_fd d)" using at Some d by (simp add: peer_fd_def)
    have gd: "get_connection (conn_fd d) s = Some j" using peer_in_table [OF inv c Some d(1)] .
    then have d': "conn_state d \<noteq> CLOSED" "conn_at s (conn_fd d) = Some d"
      using st d get_connection_in [OF gd] by (auto simp: table_states_ok_def conn_at_def)
    have n6: "nodes (drop_backend_slot (conn_fd d) (conn_state d = ESTABLISHED) s6) =
        nodes (drop_backend_slot (conn_fd d) (conn_state d = ESTABLISHED) (drop_backend_slot f (conn_state c = ESTABLISHED) s))"
      by (rule nodes_drop_backend_slot_cong) (simp_all add: s6)
    obtain s7 where s7: "close_peer k (backend_connections s f = None) i j s6 = Some s7" "lb_inv L s7"
      "connections s7 = AList.delete (conn_fd d) (connections s)"
      "conn_heap s7 i = Some (set_peer None c0)" "\<And>x. x \<noteq> i \<Longrightarrow> x \<noteq> j \<Longrightarrow> conn_heap s7 x = conn_heap s x"
      "bad_closes s7 = bad_closes s" "open_fds s7 = open_fds s \<or> open_fds s7 = open_fds s - {conn_fd d}"
      "backend_connections s7 = erase_key (erase_key (backend_connections s) f) (conn_fd d)"
      "nodes s7 = nodes (drop_backend_slot (conn_fd d) (conn_state d = ESTABLISHED) s6)"
      "backend_pool s7 = backend_pool s" "health_checker s7 = health_checker s"
      "mem_exact (conn_heap s6) (mem s6) \<longrightarrow> mem_exact (conn_heap s7) (mem s7)"
      using c0 Some d(1,2) d'(1)
      by (auto intro: close_peer_ok [OF inv6, of i c0 j d k "backend_connections s f = None"] simp: s6)
    have "conn_heap s7 x = conn_heap s x" if "conn_heap s x = Some e" "x \<noteq> i" "peer_fd s f \<noteq> Some (conn_fd e)" for x e
      using that s7(5) [of x] pf d(1) by (cases "x = j") auto
    with last [OF s7(2) _ _ s7(4)] show ?thesis
      using run Some s7 pf d d' n6 m6 at mem_exact_remove [of "conn_heap s7" "mem s7" i "set_peer None c0", OF _ s7(4)]
      by (intro that [of c "buried i (set_peer None c0) (table_remove f (del_fd f s7))"]) simp_all
  qed
qed

subsection \<open>Closing the backend side only\<close>

lemma close_then_erase_peer:
  assumes "conn_heap s i = Some c" and "0 \<le> conn_fd c" and "conn_fd c \<in> open_fds s"
    and "set_option (ssl c) \<subseteq> live_ssl s" and "peer c = Some j" and "conn_heap s j = Some d"
    and "peer d = None" and "j \<noteq> i" and "get_connection f s = Some i"
  shows "(do { s1 \<leftarrow> conn_close i s; table_erase f s1 }) = Some (buried i c (table_remove f s))"
proof -
  have d: "set_peer None d = d" using assms(7) by (simp add: set_peer_def)
  show ?thesis
    using assms d
    by (cases "ssl c")
       (auto simp: destroy_def conn_close_def ssl_free_def sys_close_def put_conn_def with_conn_def
         shut_def buried_def table_erase_def table_remove_def get_connection_def release_bytes_def
         fun_upd_twist intro!: lb_state.equality ext)
qed

lemma buried_forgets_peer:
  "buried i (set_peer p c) (table_remove f (put_conn i (set_peer p c) s)) = buried i c (table_remove f s)"
  by (simp add: buried_def table_remove_def put_conn_def shut_def)

lemma steps_ignore_heap:
  "lock_backend f (s\<lparr>conn_heap := h\<rparr>) = lock_backend f s"
  "drop_backend_slot f e (s\<lparr>conn_heap := h\<rparr>) = (drop_backend_slot f e s)\<lparr>conn_heap := h\<rparr>"
  "untrack_backpressure f (s\<lparr>conn_heap := h\<rparr>) = (untrack_backpressure f s)\<lparr>conn_heap := h\<rparr>"
  "del_fd f (s\<lparr>conn_heap := h\<rparr>) = (del_fd f s)\<lparr>conn_heap := h\<rparr>"
proof -
  show l: "lock_backend f (s\<lparr>conn_heap := h\<rparr>) = lock_backend f s"
    by (simp add: lock_backend_def node_alive_def split: option.splits)
  show "drop_backend_slot f e (s\<lparr>conn_heap := h\<rparr>) = (drop_backend_slot f e s)\<lparr>conn_heap := h\<rparr>"
    by (cases "lock_backend f s") (simp_all add: drop_backend_slot_def l upd_nodes_def Let_def)
  show "untrack_backpressure f (s\<lparr>conn_heap := h\<rparr>) = (untrack_backpressure f s)\<lparr>conn_heap := h\<rparr>"
    by (simp add: untrack_backpressure_def Let_def upd_metrics_def)
  show "del_fd f (s\<lparr>conn_heap := h\<rparr>) = (del_fd f s)\<lparr>conn_heap := h\<rparr>"
    by (simp add: del_fd_def)
qed

text \<open>The bookkeeping between marking the connection closed and closing it.\<close>

definition leave_backend :: "fd \<Rightarrow> bool \<Rightarrow> lb_state \<Rightarrow> lb_state" where
  "leave_backend f established s =
     (let s3 = drop_backend_slot f established s;
          s4 = untrack_backpressure f (s3\<lparr>connection_times := erase_key (connection_times s3) f\<rparr>)
      in del_fd f (s4\<lparr>backend_to_client_map := erase_key (backend_to_client_map s4) f\<rparr>))"

lemma leave_backend_frame [simp]:
  "conn_heap (leave_backend f e s) = conn_heap s" "connections (leave_backend f e s) = connections s"
  "pool_manager (leave_backend f e s) = pool_manager s" "open_fds (leave_backend f e s) = open_fds s"
  "live_ssl (leave_backend f e s) = live_ssl s" "next_conn (leave_backend f e s) = next_conn s" "bad_closes (leave_backend f e s) = bad_closes s"
  "backend_connections (leave_backend f e s) = erase_key (backend_connections s) f"
  "nodes (leave_backend f e s) = nodes (drop_backend_slot f e s)"
  "backend_pool (leave_backend f e s) = backend_pool s" "health_checker (leave_backend f e s) = health_checker s"
  "mem (leave_backend f e s) = mem s"
  by (simp_all add: leave_backend_def Let_def untrack_backpressure_def)

lemma leave_backend_heap: "leave_backend f e (s\<lparr>conn_heap := h\<rparr>) = (leave_backend f e s)\<lparr>conn_heap := h\<rparr>"
proof -
  let ?t = "drop_backend_slot f e s"
  have "untrack_backpressure f (?t\<lparr>conn_heap := h, connection_times := x\<rparr>) =
      (untrack_backpressure f (?t\<lparr>connection_times := x\<rparr>))\<lparr>conn_heap := h\<rparr>" for x
    unfolding steps_ignore_heap(3) [symmetric] by (rule arg_cong [where f = "untrack_backpressure f"]) simp
  moreover have "del_fd f (t\<lparr>conn_heap := h, backend_to_client_map := x\<rparr>) =
      (del_fd f (t\<lparr>backend_to_client_map := x\<rparr>))\<lparr>conn_heap := h\<rparr>" for t x
    unfolding steps_ignore_heap(4) [symmetric] by (rule arg_cong [where f = "del_fd f"]) simp
  ultimately show ?thesis by (simp add: leave_backend_def Let_def steps_ignore_heap(2))
qed

lemma leave_backend_ok:
  fixes e :: bool
  assumes inv: "lb_inv L s" and st: "table_states_ok s" and g: "get_connection f s = Some i" and c: "conn_heap s i = Some c"
    and s2: "lb_inv L s2" "conn_heap s2 i = Some (set_peer None c0)" "connections s2 = connections s"
    and x2: "\<And>x. x \<noteq> i \<Longrightarrow> peer c \<noteq> Some x \<Longrightarrow> conn_heap s2 x = conn_heap s x"
    and j2: "\<And>j. peer c = Some j \<Longrightarrow> conn_heap s2 j = map_option (set_peer None) (conn_heap s j)"
  defines "s' \<equiv> buried i (set_peer None c0) (table_remove f (leave_backend f e s2))"
  shows "lb_inv L s'" and "table_states_ok s'"
    and "\<forall>j. peer c = Some j \<longrightarrow> conn_heap s' j = map_option (set_peer None) (conn_heap s j)"
proof -
  have "lb_inv L (leave_backend f e s2)" using s2(1) by (rule lb_inv_core [rotated -1]) (simp_all add: erase_key_def)
  then show "lb_inv L s'"
    using finish_close(2) [of L "leave_backend f e s2" f i "set_peer None c0"] g s2 by (simp add: s'_def get_connection_def)
  show "table_states_ok s'"
  proof (rule table_states_ok_sub [OF st])
    fix h x assume "(h, x) \<in> set (connections s')"
    then have "(h, x) \<in> set (connections s)" "h \<noteq> f" by (simp_all add: s'_def s2 set_delete)
    then have "x \<noteq> i" using connections_key_unique [OF inv, of h x f] get_connection_in [OF g] by blast
    then show "map_option conn_state (conn_heap s' x) = map_option conn_state (conn_heap s x)"
      using x2 [of x] j2 [of x] by (cases "peer c = Some x") (auto simp: s'_def option.map_comp comp_def)
  qed (auto simp: s'_def s2 set_delete)
  have "j \<noteq> i" if "peer c = Some j" for j using heap_inv_peer [OF lb_inv_heap [OF inv] c that] by blast
  with j2 show "\<forall>j. peer c = Some j \<longrightarrow> conn_heap s' j = map_option (set_peer None) (conn_heap s j)" by (simp add: s'_def)
qed

lemma close_backend_connection_only_ok:
  assumes inv: "lb_inv L s" and st: "table_states_ok s" and g: "get_connection f s = Some i"
  obtains c s' where "conn_at s f = Some c" and "close_backend_connection_only f s = Some s'" and "lb_inv L s'"
    and "table_states_ok s'"
    and "connections s' = AList.delete f (connections s)" and "conn_heap s' i = None"
    and "\<forall>x. x \<noteq> i \<longrightarrow> peer c \<noteq> Some x \<longrightarrow> conn_heap s' x = conn_heap s x"
    and "\<forall>j. peer c = Some j \<longrightarrow> conn_heap s' j = map_option (set_peer None) (conn_heap s j)"
    and "bad_closes s' = bad_closes s" and "open_fds s' = open_fds s - {f}"
    and "backend_connections s' = erase_key (backend_connections s) f"
    and "nodes s' = nodes (drop_backend_slot f (conn_state c = ESTABLISHED) s)"
    and "backend_pool s' = backend_pool s" and "health_checker s' = health_checker s"
    and "mem_exact (conn_heap s) (mem s) \<longrightarrow> mem_exact (conn_heap s') (mem s')"
proof -
  note result = that
  obtain c where c: "conn_heap s i = Some c" and fd: "conn_fd c = f" using get_connection_live [OF inv g] by blast
  note live = heap_inv_live [OF lb_inv_heap [OF inv] c]
  define c0 where "c0 = set_conn_state CLOSED c"
  have c0: "conn_fd c0 = f" "ssl c0 = ssl c" "peer c0 = peer c" "charged c0 = charged c"
    by (simp_all add: c0_def set_conn_state_def fd charged_def buffered_def)
  have at: "conn_at s f = Some c" by (simp add: conn_at_def g c)
  let ?leave = "leave_backend f (conn_state c = ESTABLISHED)"
  have wrap: ?thesis
    if s2: "lb_inv L s2" "conn_heap s2 i = Some (set_peer None c0)" "connections s2 = connections s" "open_fds s2 = open_fds s"
        "bad_closes s2 = bad_closes s" "backend_connections s2 = backend_connections s" "nodes s2 = nodes s"
        "backend_pool s2 = backend_pool s" "health_checker s2 = health_checker s"
      and x2: "\<And>x. x \<noteq> i \<Longrightarrow> peer c \<noteq> Some x \<Longrightarrow> conn_heap s2 x = conn_heap s x"
      and j2: "\<And>j. peer c = Some j \<Longrightarrow> conn_heap s2 j = map_option (set_peer None) (conn_heap s j)"
      and m2: "mem_exact (conn_heap s) (mem s) \<longrightarrow> mem_exact (conn_heap s2) (mem s2)"
      and run: "close_backend_connection_only f s = Some (buried i (set_peer None c0) (table_remove f (?leave s2)))" for s2
  proof -
    let ?s' = "buried i (set_peer None c0) (table_remove f (?leave s2))"
    note ok = leave_backend_ok [OF inv st g c s2(1-3) x2 j2]
    have "nodes ?s' = nodes (drop_backend_slot f (conn_state c = ESTABLISHED) s)"
      by simp (rule nodes_drop_backend_slot_cong; simp add: s2)
    then show ?thesis
      using at run s2 x2 m2 ok mem_exact_remove [of "conn_heap s2" "mem s2" i "set_peer None c0", OF _ s2(2)] c0
      by (intro result [of c ?s']) simp_all
  qed
  show ?thesis
  proof (cases "peer c")
    case None
    have np: "set_peer None c0 = c0" using None c0 by (simp add: set_peer_def)
    have i0: "lb_inv L (put_conn i c0 s)" using inv c c0 fd by (intro lb_inv_put) auto
    have dst: "destructible i c0 (?leave (put_conn i c0 s))" using live c0 None fd by (simp add: destructible_def)
    have "close_backend_connection_only f s = Some (buried i c0 (table_remove f (?leave (put_conn i c0 s))))"
      using close_then_erase [OF dst, of f] g c None
      by (simp add: close_backend_connection_only_def with_conn_def Let_def get_connection_def)
         (simp add: leave_backend_def c0_def Let_def)
    then show ?thesis
      using np None c c0 fd i0 mem_exact_put [of "conn_heap s" "mem s" i c c0, OF _ c] by (intro wrap [of "put_conn i c0 s"]) simp_all
  next
    case (Some j)
    obtain d where d: "conn_heap s j = Some d" "peer d = Some i" "j \<noteq> i"
      using heap_inv_peer [OF lb_inv_heap [OF inv] c Some] by metis
    define s1 where "s1 = put_conn j (set_peer None d) s"
    have u: "unlink i c0 j d (put_conn i c0 s) = put_conn i (set_peer None c0) s1"
      using d(3) by (simp add: unlink_def s1_def put_conn_def fun_upd_twist)
    have inv2: "lb_inv L (put_conn i (set_peer None c0) s1)"
      using lb_inv_unlink [of L "put_conn i c0 s" i c0 j d] lb_inv_put [OF inv c, of c0] c0 fd Some d u by simp
    have "close_backend_connection_only f s = Some (buried i c0 (table_remove f (?leave (put_conn i c0 s1))))"
      using close_then_erase_peer [of "?leave (put_conn i c0 s1)" i c0 j "set_peer None d" f] g c Some d live c0 fd
      by (simp add: close_backend_connection_only_def with_conn_def Let_def get_connection_def s1_def)
         (simp add: leave_backend_def c0_def Let_def)
    then have run: "close_backend_connection_only f s =
        Some (buried i (set_peer None c0) (table_remove f (?leave (put_conn i (set_peer None c0) s1))))"
      using buried_forgets_peer [of i None c0 f "?leave s1"]
      by (simp add: put_conn_def leave_backend_heap buried_def table_remove_def shut_def)
    have mem2: "mem_exact (conn_heap s) (mem s) \<longrightarrow> mem_exact ((conn_heap s)(j \<mapsto> set_peer None d, i \<mapsto> set_peer None c0)) (mem s)"
      using mem_exact_put [OF mem_exact_put, of "conn_heap s" "mem s" j d "set_peer None d" i c "set_peer None c0"]
        c c0(4) d by simp
    show ?thesis
      by (rule wrap [OF inv2 _ _ _ _ _ _ _ _ _ _ _ run]) (use Some d mem2 in \<open>auto simp: s1_def\<close>)
  qed
qed


subsection \<open>The backends' connection counters\<close>

text \<open>
  \<open>est_fds s n\<close>: the established connections to backend \<open>n\<close>. The counter of every backend
  that the pool or the health checker still holds is their number.
\<close>

definition est_fds :: "lb_state \<Rightarrow> node_id \<Rightarrow> fd set" where
  "est_fds s n =
     {f. backend_connections s f = Some n \<and> map_option conn_state (conn_at s f) = Some ESTABLISHED}"

definition counters_exact :: "lb_state \<Rightarrow> bool" where
  "counters_exact s \<longleftrightarrow> (\<forall>n. node_alive s n \<longrightarrow> unat (active_connections (nodes s n)) = card (est_fds s n))"

definition lb_good :: "conn_id list \<Rightarrow> lb_state \<Rightarrow> bool" where
  "lb_good L s \<longleftrightarrow> lb_inv L s \<and> table_states_ok s \<and> counters_exact s"

lemma finite_est_fds:
  assumes "lb_inv L s" shows "finite (est_fds s n)"
proof (rule finite_subset)
  show "est_fds s n \<subseteq> fst ` set (connections s)"
    using assms by (auto simp: est_fds_def lb_inv_def table_inv_def)
qed simp

lemma peer_fd_neq:
  assumes "lb_inv L s" shows "peer_fd s f \<noteq> Some f"
proof
  assume "peer_fd s f = Some f"
  then obtain i c j d where "get_connection f s = Some i" "conn_heap s i = Some c" "peer c = Some j"
    "conn_heap s j = Some d" "conn_fd d = f"
    by (auto simp: peer_fd_def conn_at_def split: option.splits)
  with heap_inv_peer [OF lb_inv_heap [OF assms]] get_connection_live [OF assms] show False by (metis option.inject)
qed

lemma node_alive_frame:
  "backend_pool s' = backend_pool s \<Longrightarrow> health_checker s' = health_checker s \<Longrightarrow> node_alive s' n = node_alive s n"
  by (simp add: node_alive_def)

lemma active_after_drop:
  assumes "node_alive s n"
  shows "unat (active_connections (nodes (drop_backend_slot f e s) n)) =
           unat (active_connections (nodes s n)) - (if backend_connections s f = Some n \<and> e then 1 else 0)"
proof (cases "lock_backend f s")
  case None
  with assms have "backend_connections s f \<noteq> Some n"
    by (auto simp: lock_backend_def split: option.splits if_splits)
  with None show ?thesis by (simp add: drop_backend_slot_def Let_def)
next
  case (Some m)
  then have "backend_connections s f = Some m" by (auto simp: lock_backend_def split: option.splits if_splits)
  with Some show ?thesis by (cases "m = n") (simp_all add: drop_backend_slot_def Let_def upd_nodes_def)
qed

lemma card_est_fds_drop:
  assumes "finite (est_fds s n)"
  shows "card (est_fds s n - {f}) = card (est_fds s n) -
    (if backend_connections s f = Some n \<and> map_option conn_state (conn_at s f) = Some ESTABLISHED then 1 else 0)"
  using assms by (auto simp: est_fds_def card_Diff_singleton_if)

lemma counters_after_close:
  assumes inv: "lb_inv L s" and cnt: "counters_exact s" and at: "conn_at s f = Some c"
    and pool: "backend_pool s' = backend_pool s" "health_checker s' = health_checker s"
    and n: "nodes s' = nodes (drop_backend_slot f (conn_state c = ESTABLISHED) s)"
    and e: "\<And>n. est_fds s' n = est_fds s n - {f}"
  shows "counters_exact s'"
  unfolding counters_exact_def
proof (intro allI impI)
  fix m assume "node_alive s' m"
  then have alive: "node_alive s m" using pool by (simp add: node_alive_def)
  show "unat (active_connections (nodes s' m)) = card (est_fds s' m)"
    using cnt alive active_after_drop [OF alive, of f "conn_state c = ESTABLISHED"]
      card_est_fds_drop [OF finite_est_fds [OF inv], of m f] at
    by (simp add: counters_exact_def n e)
qed

lemma counters_after_close_pair:
  assumes inv: "lb_inv L s" and cnt: "counters_exact s" and at: "conn_at s f = Some c" and ne: "h \<noteq> f"
    and pool: "backend_pool s' = backend_pool s" "health_checker s' = health_checker s"
    and n: "nodes s' = nodes (drop_backend_slot h (map_option conn_state (conn_at s h) = Some ESTABLISHED)
              (drop_backend_slot f (conn_state c = ESTABLISHED) s))"
    and e: "\<And>n. est_fds s' n = est_fds s n - {f} - {h}"
  shows "counters_exact s'"
  unfolding counters_exact_def
proof (intro allI impI)
  fix m assume "node_alive s' m"
  then have alive: "node_alive s m" using pool by (simp add: node_alive_def)
  let ?s1 = "drop_backend_slot f (conn_state c = ESTABLISHED) s"
  have alive1: "node_alive ?s1 m" using alive by (simp add: node_alive_def)
  have fin: "finite (est_fds s m)" using finite_est_fds [OF inv] .
  have "card (est_fds s m - {f} - {h}) = card (est_fds s m - {f}) -
    (if backend_connections s h = Some m \<and> map_option conn_state (conn_at s h) = Some ESTABLISHED then 1 else 0)"
    using fin ne by (auto simp: est_fds_def card_Diff_singleton_if)
  then show "unat (active_connections (nodes s' m)) = card (est_fds s' m)"
    using cnt alive active_after_drop [OF alive, of f "conn_state c = ESTABLISHED"]
      active_after_drop [OF alive1, of h "map_option conn_state (conn_at s h) = Some ESTABLISHED"]
      card_est_fds_drop [OF fin, of f] at ne
    by (simp add: counters_exact_def n e)
qed

section \<open>The contract of a closing operation\<close>

text \<open>
  What the rest of the load balancer relies on when it closes a descriptor: the operation
  always returns, keeps the invariants and the exactness of the byte budget, never closes a
  descriptor twice, removes the connection and adds none.
\<close>

definition shrinks :: "lb_state \<Rightarrow> lb_state \<Rightarrow> bool" where
  "shrinks s s' \<longleftrightarrow>
     (\<forall>g i. get_connection g s' = Some i \<longrightarrow> get_connection g s = Some i) \<and>
     bad_closes s' = bad_closes s \<and> open_fds s' \<subseteq> open_fds s \<and>
     (mem_exact (conn_heap s) (mem s) \<longrightarrow> mem_exact (conn_heap s') (mem s'))"

lemma shrinks_refl [simp]: "shrinks s s"
  by (simp add: shrinks_def)

lemma shrinks_trans: "shrinks s s1 \<Longrightarrow> shrinks s1 s2 \<Longrightarrow> shrinks s s2"
  by (auto simp: shrinks_def)

lemma shrinks_None: "shrinks s s' \<Longrightarrow> get_connection f s = None \<Longrightarrow> get_connection f s' = None"
  by (cases "get_connection f s'") (auto simp: shrinks_def)

fun close_each :: "(fd \<Rightarrow> lb_state \<Rightarrow> lb_state option) \<Rightarrow> fd list \<Rightarrow> lb_state \<Rightarrow> lb_state option" where
  "close_each close_op [] s = Some s"
| "close_each close_op (f # fs) s = do { s1 \<leftarrow> close_op f s; close_each close_op fs s1 }"

locale closing =
  fixes close_op :: "fd \<Rightarrow> lb_state \<Rightarrow> lb_state option"
  assumes close_total: "lb_good L s \<Longrightarrow>
    \<exists>s'. close_op f s = Some s' \<and> lb_good L s' \<and> shrinks s s' \<and> get_connection f s' = None \<and>
      (get_connection f s \<noteq> None \<longrightarrow> f \<notin> open_fds s')"
begin

lemma close_each_total:
  assumes "lb_good L s"
  shows "\<exists>s'. close_each close_op fs s = Some s' \<and> lb_good L s' \<and> shrinks s s' \<and>
    (\<forall>f \<in> set fs. get_connection f s' = None)"
  using assms
proof (induction fs arbitrary: s)
  case (Cons f fs)
  obtain s1 where s1: "close_op f s = Some s1" "lb_good L s1" "shrinks s s1" "get_connection f s1 = None"
    using close_total [OF Cons.prems] by blast
  obtain s2 where s2: "close_each close_op fs s1 = Some s2" "lb_good L s2" "shrinks s1 s2"
    "\<forall>g \<in> set fs. get_connection g s2 = None" using Cons.IH [OF s1(2)] by blast
  from s1 s2 shrinks_trans [OF s1(3) s2(3)] shrinks_None [OF s2(3) s1(4)] show ?case by auto
qed simp

end

lemma gone_shrinks:
  assumes "gone f g s s'" and "mem_exact (conn_heap s) (mem s) \<longrightarrow> mem_exact (conn_heap s') (mem s')"
  shows "shrinks s s'" and "get_connection f s' = None" and "f \<notin> open_fds s'"
proof -
  have "get_connection h s = Some i" if "get_connection h s' = Some i" for h i
    using that assms(1) by (cases "h = f \<or> g = Some h") (auto simp: gone_def)
  with assms show "shrinks s s'" and "get_connection f s' = None" and "f \<notin> open_fds s'"
    by (auto simp: gone_def shrinks_def)
qed

interpretation cc: closing "close_connection k" for k
proof
  fix L s f assume good: "lb_good L s"
  show "\<exists>s'. close_connection k f s = Some s' \<and> lb_good L s' \<and> shrinks s s' \<and> get_connection f s' = None \<and>
      (get_connection f s \<noteq> None \<longrightarrow> f \<notin> open_fds s')"
  proof (cases "get_connection f s")
    case None
    with good show ?thesis by (simp add: close_connection_def)
  next
    case (Some i)
    from good have inv: "lb_inv L s" "table_states_ok s" "counters_exact s" by (simp_all add: lb_good_def)
    obtain c s' where c: "conn_at s f = Some c" and s': "close_connection k f s = Some s'" "lb_inv L s'" "table_states_ok s'"
      "gone f (peer_fd s f) s s'"
      and b: "backend_connections s' = (case peer_fd s f of None \<Rightarrow> erase_key (backend_connections s) f
           | Some h \<Rightarrow> erase_key (erase_key (backend_connections s) f) h)"
      and n: "nodes s' = nodes (case peer_fd s f of None \<Rightarrow> drop_backend_slot f (conn_state c = ESTABLISHED) s
           | Some h \<Rightarrow> drop_backend_slot h (map_option conn_state (conn_at s h) = Some ESTABLISHED)
                         (drop_backend_slot f (conn_state c = ESTABLISHED) s))"
      and p: "backend_pool s' = backend_pool s" "health_checker s' = health_checker s"
      and m: "mem_exact (conn_heap s) (mem s) \<longrightarrow> mem_exact (conn_heap s') (mem s')"
      by (rule close_connection_ok [OF inv(1,2) Some])
    have kept: "conn_at s' h = conn_at s h" if "h \<noteq> f" "peer_fd s f \<noteq> Some h" for h
      using that s'(4) by (auto simp: gone_def)
    have "counters_exact s'"
    proof (cases "peer_fd s f")
      case None
      with b kept have "est_fds s' n = est_fds s n - {f}" for n
        by (auto simp: est_fds_def erase_key_def split: if_splits)
      with counters_after_close [OF inv(1,3) c p] n None show ?thesis by simp
    next
      case (Some h)
      then have "h \<noteq> f" using peer_fd_neq [OF inv(1)] by blast
      moreover from Some b kept have "est_fds s' n = est_fds s n - {f} - {h}" for n
        by (auto simp: est_fds_def erase_key_def split: if_splits)
      ultimately show ?thesis using counters_after_close_pair [OF inv(1,3) c _ p, of h] n Some by simp
    qed
    then show ?thesis using s' gone_shrinks [OF s'(4) m] by (auto simp: lb_good_def)
  qed
qed

interpretation cb: closing close_backend_connection_only
proof
  fix L s f assume good: "lb_good L s"
  show "\<exists>s'. close_backend_connection_only f s = Some s' \<and> lb_good L s' \<and> shrinks s s' \<and> get_connection f s' = None \<and>
      (get_connection f s \<noteq> None \<longrightarrow> f \<notin> open_fds s')"
  proof (cases "get_connection f s")
    case None
    with good show ?thesis by (simp add: close_backend_connection_only_def)
  next
    case (Some i)
    from good have inv: "lb_inv L s" "table_states_ok s" "counters_exact s" by (simp_all add: lb_good_def)
    obtain c s' where c: "conn_at s f = Some c" and s': "close_backend_connection_only f s = Some s'" "lb_inv L s'"
      "table_states_ok s'" "connections s' = AList.delete f (connections s)" "conn_heap s' i = None"
      and x: "\<forall>x. x \<noteq> i \<longrightarrow> peer c \<noteq> Some x \<longrightarrow> conn_heap s' x = conn_heap s x"
      and j: "\<forall>j. peer c = Some j \<longrightarrow> conn_heap s' j = map_option (set_peer None) (conn_heap s j)"
      and o: "bad_closes s' = bad_closes s" "open_fds s' = open_fds s - {f}"
      and b: "backend_connections s' = erase_key (backend_connections s) f"
      and n: "nodes s' = nodes (drop_backend_slot f (conn_state c = ESTABLISHED) s)"
      and p: "backend_pool s' = backend_pool s" "health_checker s' = health_checker s"
      and m: "mem_exact (conn_heap s) (mem s) \<longrightarrow> mem_exact (conn_heap s') (mem s')"
      by (rule close_backend_connection_only_ok [OF inv(1,2) Some])
    have g: "get_connection h s' = (if h = f then None else get_connection h s)" for h
      using s'(4) by (simp add: get_connection_def AList.delete_conv')
    have "map_option conn_state (conn_at s' h) = map_option conn_state (conn_at s h)" if "h \<noteq> f" for h
    proof (cases "get_connection h s")
      case None
      then show ?thesis using g that by (simp add: conn_at_def)
    next
      case (Some y)
      then have "y \<noteq> i" using connections_key_unique [OF inv(1), of h y f] that
        get_connection_in [OF Some] get_connection_in [OF \<open>get_connection f s = Some i\<close>] by blast
      then show ?thesis using Some g that x j
        by (cases "peer c = Some y") (auto simp: conn_at_def option.map_comp comp_def)
    qed
    with b have "est_fds s' n = est_fds s n - {f}" for n
      by (auto simp: est_fds_def erase_key_def simp del: map_option_eq_Some split: if_splits)
    then have "counters_exact s'" using counters_after_close [OF inv(1,3) c p] n by simp
    moreover have "shrinks s s'" using g o m by (auto simp: shrinks_def split: if_splits)
    ultimately show ?thesis using s' g o by (auto simp: lb_good_def)
  qed
qed


subsection \<open>The constructed load balancer and an example\<close>

text \<open>An example: a client on descriptor 10 paired with a backend connection on 11.\<close>

definition example_pair :: lb_state where
  "example_pair = new_load_balancer
     \<lparr>conn_heap := [0 \<mapsto> (new_connection 10)\<lparr>peer := Some 1, accounted := True\<rparr>,
                    1 \<mapsto> (new_connection 11)\<lparr>peer := Some 0, accounted := True\<rparr>],
      next_conn := 2, connections := [(10, 0), (11, 1)], backend_connections := [11 \<mapsto> 0],
      open_fds := {10, 11}, backend_to_client_map := [11 \<mapsto> 10],
      nodes := (\<lambda>_. (new_backend_node ''10.0.0.1'' 8000 1)\<lparr>active_connections := 1\<rparr>),
      next_node := 1, backend_pool := pool_add_backend 0 (new_pool ROUND_ROBIN)\<rparr>"

lemma example_pair_good: "lb_good [] example_pair"
proof -
  have inv: "lb_inv [] example_pair"
    by (auto simp: lb_inv_def heap_inv_def table_inv_def linked_def owned_def pooled_ids_def example_pair_def
        new_load_balancer_def new_connection_def split: if_splits)
  have "est_fds example_pair 0 = {11}"
    by (auto simp: est_fds_def conn_at_def get_connection_def example_pair_def new_load_balancer_def
        new_connection_def split: if_splits)
  then have "counters_exact example_pair"
    by (simp add: counters_exact_def node_alive_def) (simp add: example_pair_def new_load_balancer_def
        pool_add_backend_def new_pool_def new_health_checker_def)
  with inv show ?thesis
    by (auto simp: lb_good_def table_states_ok_def example_pair_def new_load_balancer_def new_connection_def
        split: if_splits)
qed

lemma example_pair_mem: "mem_exact (conn_heap example_pair) (mem example_pair)"
  by (simp add: mem_exact_def example_pair_def new_load_balancer_def new_connection_def charged_def buffered_def
      set_limit_mb_def set_limit_bytes_def new_budget_def budget_ok_def)

lemma new_load_balancer_good: "lb_good [] new_load_balancer"
  by (simp add: lb_good_def lb_inv_def heap_inv_def table_inv_def owned_def pooled_ids_def table_states_ok_def
      counters_exact_def node_alive_def new_load_balancer_def new_pool_def new_health_checker_def)

section \<open>Properties\<close>

text \<open>C2: closing a connection is memory-safe and exact. From a state that satisfies the
  invariants, \<open>close_connection\<close> returns (it never touches a destroyed connection or frees an
  SSL object twice), closes no descriptor that is not open, removes exactly the connection
  and its peer from the table while every other connection is untouched, and keeps the
  invariants: one owner per connection, peers linked both ways, and each backend's counter
  equal to its number of established connections.\<close>

theorem close_connection_safe:
  assumes "lb_good [] s"
  shows "case close_connection k f s of
           None \<Rightarrow> False
         | Some s' \<Rightarrow> lb_good [] s' \<and>
             (if get_connection f s = None then s' = s else gone f (peer_fd s f) s s')"
proof -
  obtain s' where s': "close_connection k f s = Some s'" "lb_good [] s'"
    using cc.close_total [OF assms] by blast
  show ?thesis
  proof (cases "get_connection f s")
    case None
    then show ?thesis using assms by (simp add: close_connection_def)
  next
    case (Some i)
    from assms have "lb_inv [] s" "table_states_ok s" by (simp_all add: lb_good_def)
    from close_connection_ok [OF this Some, of k] s' have "gone f (peer_fd s f) s s'" by (metis option.inject)
    with s' Some show ?thesis by simp
  qed
qed

theorem close_connection_safe_witness:
  "case close_connection example_kernel 10 example_pair of
     None \<Rightarrow> False
   | Some s' \<Rightarrow> get_connection 10 s' = None \<and> get_connection 11 s' = None \<and> bad_closes s' = [] \<and> 10 \<notin> open_fds s'"
proof -
  have "get_connection 10 example_pair = Some 0" "peer_fd example_pair 10 = Some 11" "bad_closes example_pair = []"
    by (simp_all add: example_pair_def new_load_balancer_def peer_fd_def conn_at_def get_connection_def new_connection_def)
  with close_connection_safe [OF example_pair_good, where k = example_kernel and f = 10] show ?thesis
    by (auto simp: gone_def split: option.splits)
qed

text \<open>C15: closing gives back exactly the bytes the closed connections held: when the budget's
  counter equals what the accounted connections buffer, it still does after
  \<open>close_connection\<close>, whether the peer is closed or returned to the connection pool, and
  after \<open>close_backend_connection_only\<close>.\<close>

theorem closing_returns_memory:
  assumes "lb_good [] s" and "mem_exact (conn_heap s) (mem s)"
  shows "(case close_connection k f s of None \<Rightarrow> False | Some s' \<Rightarrow> mem_exact (conn_heap s') (mem s')) \<and>
         (case close_backend_connection_only f s of None \<Rightarrow> False | Some s' \<Rightarrow> mem_exact (conn_heap s') (mem s'))"
  using cc.close_total [OF assms(1), where k = k and f = f] cb.close_total [OF assms(1), where f = f] assms(2)
  by (auto simp: shrinks_def)

theorem closing_returns_memory_witness:
  "case close_connection example_kernel 10 example_pair of None \<Rightarrow> False | Some s' \<Rightarrow> mem_exact (conn_heap s') (mem s')"
  using closing_returns_memory [OF example_pair_good example_pair_mem, where k = example_kernel and f = 10] by simp

text \<open>When only the backend side is closed, the client stays: \<open>close_backend_connection_only\<close>
  always returns, closes exactly the backend's descriptor, keeps the invariants, and leaves
  every other connection as it was except that the client no longer has a peer.\<close>

theorem close_backend_only_keeps_client:
  assumes "lb_good [] s"
  shows "case close_backend_connection_only f s of
           None \<Rightarrow> False
         | Some s' \<Rightarrow> lb_good [] s' \<and> bad_closes s' = bad_closes s \<and> get_connection f s' = None \<and>
             (if get_connection f s = None then s' = s else open_fds s' = open_fds s - {f}) \<and>
             (\<forall>g. g \<noteq> f \<longrightarrow> conn_at s' g =
                (if peer_fd s f = Some g then map_option (set_peer None) (conn_at s g) else conn_at s g))"
proof (cases "get_connection f s")
  case None
  then have "conn_at s f = None" "peer_fd s f = None" by (simp_all add: conn_at_def peer_fd_def)
  with None assms show ?thesis by (simp add: close_backend_connection_only_def)
next
  case (Some i)
  from assms have inv: "lb_inv [] s" "table_states_ok s" by (simp_all add: lb_good_def)
  obtain c s' where c: "conn_at s f = Some c" and s': "close_backend_connection_only f s = Some s'"
    "connections s' = AList.delete f (connections s)"
    "\<forall>x. x \<noteq> i \<longrightarrow> peer c \<noteq> Some x \<longrightarrow> conn_heap s' x = conn_heap s x"
    "\<forall>j. peer c = Some j \<longrightarrow> conn_heap s' j = map_option (set_peer None) (conn_heap s j)"
    "bad_closes s' = bad_closes s" "open_fds s' = open_fds s - {f}"
    by (rule close_backend_connection_only_ok [OF inv Some])
  have "lb_good [] s'" using cb.close_total [OF assms, where f = f] s'(1) by auto
  moreover have "conn_at s' g = (if peer_fd s f = Some g then map_option (set_peer None) (conn_at s g) else conn_at s g)"
    if ne: "g \<noteq> f" for g
  proof (cases "get_connection g s")
    case None
    with s'(2) ne show ?thesis by (simp add: conn_at_def get_connection_def AList.delete_conv')
  next
    case (Some x)
    then obtain d where d: "conn_heap s x = Some d" "conn_fd d = g" using get_connection_live [OF inv(1)] by blast
    have "x \<noteq> i"
      using connections_key_unique [OF inv(1), of g x f] ne get_connection_in [OF Some]
        get_connection_in [OF \<open>get_connection f s = Some i\<close>] by blast
    moreover have "peer_fd s f = Some g \<longleftrightarrow> peer c = Some x"
    proof
      assume "peer_fd s f = Some g"
      then obtain j e where j: "peer c = Some j" "conn_heap s j = Some e" "conn_fd e = g"
        using c by (auto simp: peer_fd_def split: option.splits)
      with get_connection_of_fd [OF inv(1) j(2)] Some show "peer c = Some x" by simp
    qed (use c d in \<open>simp add: peer_fd_def\<close>)
    ultimately show ?thesis
      using Some s'(2-4) ne by (auto simp: conn_at_def get_connection_def AList.delete_conv')
  qed
  ultimately show ?thesis using Some s' by (simp add: get_connection_def AList.delete_conv')
qed

theorem close_backend_only_keeps_client_witness:
  "case close_backend_connection_only 11 example_pair of
     None \<Rightarrow> False | Some s' \<Rightarrow> map_option peer (conn_at s' 10) = Some None \<and> open_fds s' = {10}"
proof -
  have "get_connection 11 example_pair = Some 1" "peer_fd example_pair 11 = Some 10" "open_fds example_pair = {10, 11}"
    "conn_at example_pair 10 = Some ((new_connection 10)\<lparr>peer := Some 1, accounted := True\<rparr>)"
    by (simp_all add: example_pair_def new_load_balancer_def peer_fd_def conn_at_def get_connection_def new_connection_def)
  with close_backend_only_keeps_client [OF example_pair_good, where f = 11] show ?thesis
    by (auto split: option.splits)
qed

end
