(* ===== verification/Connection_Frames.thy ===== *)
theory Connection_Frames
  imports Connection_Safety
begin

text \<open>
  Steps that leave the shape of the connection tables alone. Two states have the same shape
  when they agree on everything the invariant \<open>lb_good\<close> reads: the tables, the descriptors,
  the backends' counters, and of every connection its descriptor, SSL object, peer and state,
  but not its buffers. Reading, writing, moving bytes, epoll bookkeeping and metrics keep the
  shape (\<open>lb_shape\<close>), so the handlers' proofs only treat the steps that open or close.
\<close>

named_theorems lb_shape \<open>steps that keep the shape of the connection tables\<close>

definition conn_core :: "Connection \<Rightarrow> fd \<times> ssl_id option \<times> conn_id option \<times> ConnectionState" where
  "conn_core c = (conn_fd c, ssl c, peer c, conn_state c)"

definition same_shape :: "lb_state \<Rightarrow> lb_state \<Rightarrow> bool" where
  "same_shape s s' \<longleftrightarrow>
     map_option conn_core \<circ> conn_heap s' = map_option conn_core \<circ> conn_heap s \<and>
     connections s' = connections s \<and> pool_manager s' = pool_manager s \<and> open_fds s' = open_fds s \<and>
     live_ssl s' = live_ssl s \<and> backend_connections s' = backend_connections s \<and> next_conn s' = next_conn s \<and>
     bad_closes s' = bad_closes s \<and> active_connections \<circ> nodes s' = active_connections \<circ> nodes s \<and>
     backends (backend_pool s') = backends (backend_pool s) \<and>
     hc_backends (health_checker s') = hc_backends (health_checker s)"

lemma same_shape_refl [simp, lb_shape]: "same_shape s s"
  by (simp add: same_shape_def)

lemma same_shape_trans: "same_shape s s1 \<Longrightarrow> same_shape s1 s2 \<Longrightarrow> same_shape s s2"
  by (simp add: same_shape_def)

lemma same_shape_heap:
  assumes "same_shape s s'" and "conn_heap s i = Some c"
  obtains c' where "conn_heap s' i = Some c'" and "conn_fd c' = conn_fd c" and "ssl c' = ssl c"
    and "peer c' = peer c" and "conn_state c' = conn_state c"
proof -
  have "map_option conn_core (conn_heap s' i) = map_option conn_core (conn_heap s i)"
    using assms(1) by (auto simp: same_shape_def fun_eq_iff)
  with assms(2) show ?thesis using that by (auto simp: conn_core_def)
qed

lemma heap_inv_shape:
  assumes inv: "heap_inv H own tab F X" and eq: "\<And>i. map_option conn_core (H' i) = map_option conn_core (H i)"
  shows "heap_inv H' own tab F X"
proof -
  have old: "\<exists>c. H i = Some c \<and> conn_fd c' = conn_fd c \<and> ssl c' = ssl c \<and> peer c' = peer c" if "H' i = Some c'" for i c'
    using eq [of i] that by (cases "H i") (auto simp: conn_core_def)
  have new: "map_option peer (H' j) = map_option peer (H j)" for j
    using eq [of j] by (cases "H j"; cases "H' j") (auto simp: conn_core_def)
  have "0 \<le> conn_fd c \<and> conn_fd c \<in> F \<and> set_option (ssl c) \<subseteq> X \<and> (\<forall>j. peer c = Some j \<longrightarrow> linked H' tab i j)"
    if "H' i = Some c" for i c
  proof -
    from old [OF that] obtain c0 where "H i = Some c0" "conn_fd c = conn_fd c0" "ssl c = ssl c0" "peer c = peer c0" by blast
    with inv show ?thesis by (auto simp: heap_inv_def linked_def new)
  qed
  moreover have "conn_fd c \<noteq> conn_fd d \<and> set_option (ssl c) \<inter> set_option (ssl d) = {}"
    if "H' i = Some c" "H' j = Some d" "i \<noteq> j" for i j c d
    using old [OF that(1)] old [OF that(2)] that(3) inv unfolding heap_inv_def by metis
  moreover have "dom H' = own"
  proof -
    have "H' j = None \<longleftrightarrow> H j = None" for j using new [of j] by (cases "H j"; cases "H' j") auto
    then have "dom H' = dom H" by (simp add: dom_def)
    then show ?thesis using inv by (simp add: heap_inv_def)
  qed
  ultimately show ?thesis by (simp only: heap_inv_def) blast
qed

lemma conn_at_core: "conn_heap s' = conn_heap s \<Longrightarrow> connections s' = connections s \<Longrightarrow> conn_at s' f = conn_at s f"
  by (simp add: conn_at_def get_connection_def split: option.splits)

lemma same_shape_at:
  assumes "same_shape s s'"
  shows "map_option conn_core (conn_at s' f) = map_option conn_core (conn_at s f)"
    and "get_connection f s' = get_connection f s"
  using assms by (auto simp: same_shape_def conn_at_def get_connection_def fun_eq_iff split: option.splits)

lemma same_shape_states:
  assumes "same_shape s s'"
  shows "map_option conn_state (conn_at s' f) = map_option conn_state (conn_at s f)"
  using same_shape_at(1) [OF assms, of f] by (cases "conn_at s f"; cases "conn_at s' f") (auto simp: conn_core_def)

lemma lb_inv_shape:
  assumes "lb_inv L s" and "same_shape s s'"
  shows "lb_inv L s'"
proof -
  have eq: "map_option conn_core (conn_heap s' i) = map_option conn_core (conn_heap s i)" for i
    using assms(2) by (auto simp: same_shape_def fun_eq_iff)
  have "map_option conn_fd (conn_heap s' i) = map_option conn_fd (conn_heap s i)" for i
    using eq [of i] by (cases "conn_heap s i"; cases "conn_heap s' i") (auto simp: conn_core_def)
  then have "table_inv (connections s') (conn_heap s') (dom (backend_connections s'))"
    using assms by (simp add: lb_inv_def table_inv_def same_shape_def)
  moreover have "heap_inv (conn_heap s') (set (owned L s')) (snd ` set (connections s')) (open_fds s') (live_ssl s')"
    using heap_inv_shape [OF lb_inv_heap [OF assms(1)] eq] assms(2) by (simp add: same_shape_def owned_def)
  ultimately show ?thesis using assms by (simp add: lb_inv_def same_shape_def owned_def)
qed

lemma lb_good_shape:
  assumes good: "lb_good L s" and shape: "same_shape s s'"
  shows "lb_good L s'"
proof -
  have "est_fds s' n = est_fds s n" for n
    using shape by (simp add: est_fds_def same_shape_states [OF shape] same_shape_def del: map_option_eq_Some)
  then have "counters_exact s'"
    using good shape by (auto simp: lb_good_def counters_exact_def node_alive_def same_shape_def fun_eq_iff)
  moreover have "table_states_ok s'"
    unfolding table_states_ok_def
  proof (intro allI impI)
    fix f i c assume "(f, i) \<in> set (connections s')" "conn_heap s' i = Some c"
    moreover from this shape obtain c0 where "conn_heap s i = Some c0" "conn_state c = conn_state c0"
      by (cases "conn_heap s i") (auto simp: same_shape_def fun_eq_iff conn_core_def dest!: spec [of _ i])
    ultimately show "conn_state c \<noteq> CLOSED" using good shape by (auto simp: lb_good_def table_states_ok_def same_shape_def)
  qed
  ultimately show ?thesis using lb_inv_shape [OF _ shape] good by (simp add: lb_good_def)
qed

text \<open>Changing a connection but not its core, and steps that do not touch the tables at all.\<close>

lemma put_conn_shape:
  assumes "conn_heap s i = Some c" and "conn_core c' = conn_core c"
  shows "same_shape s (put_conn i c' s)"
  using assms by (auto simp: same_shape_def fun_eq_iff)

lemma same_shape_core:
  assumes "conn_heap s' = conn_heap s" and "connections s' = connections s"
    and "pool_manager s' = pool_manager s" and "open_fds s' = open_fds s" and "live_ssl s' = live_ssl s"
    and "backend_connections s' = backend_connections s" and "next_conn s' = next_conn s" and "bad_closes s' = bad_closes s"
    and "nodes s' = nodes s" and "backend_pool s' = backend_pool s" and "health_checker s' = health_checker s"
  shows "same_shape s s'"
  using assms by (simp add: same_shape_def)

lemma mod_fd_shape [lb_shape]: "same_shape s (mod_fd f ev s)"
  by (simp add: mod_fd_def same_shape_def)

lemma del_fd_shape [lb_shape]: "same_shape s (del_fd f s)"
  by (simp add: del_fd_def same_shape_def)

lemma upd_metrics_shape [lb_shape]: "same_shape s (upd_metrics g s)"
  by (simp add: upd_metrics_def same_shape_def)

lemma start_backpressure_shape [lb_shape]: "same_shape s (start_backpressure k f s)"
  by (simp add: start_backpressure_def ask_def upd_metrics_def same_shape_def Let_def split: prod.splits)

lemma clear_backpressure_shape [lb_shape]: "same_shape s (clear_backpressure f s)"
  by (simp add: clear_backpressure_def upd_metrics_def same_shape_def Let_def split: prod.splits)

subsection \<open>What the steps leave alone\<close>

text \<open>The parts of the state that opening, closing and forwarding never change.\<close>

definition static :: "lb_state \<Rightarrow> settings \<times> ((fd \<times> fd) \<times> PipePair) list option \<times> QueuedClient list \<times> ConfigManager option" where
  "static s = (settings_of s, splice_pipes s, pending_clients s, config_manager s)"

lemma static_updates [simp]:
  "static (s\<lparr>conn_heap := a1\<rparr>) = static s" "static (s\<lparr>connections := a2\<rparr>) = static s"
  "static (s\<lparr>backend_connections := a3\<rparr>) = static s" "static (s\<lparr>connection_times := a4\<rparr>) = static s"
  "static (s\<lparr>handshake_start_times := a5\<rparr>) = static s" "static (s\<lparr>backend_to_client_map := a6\<rparr>) = static s"
  "static (s\<lparr>client_retry_counts := a7\<rparr>) = static s" "static (s\<lparr>backpressure_start_times := a8\<rparr>) = static s"
  "static (s\<lparr>mem := a9\<rparr>) = static s" "static (s\<lparr>open_fds := b1\<rparr>) = static s" "static (s\<lparr>bad_closes := b2\<rparr>) = static s"
  "static (s\<lparr>half_closed := b3\<rparr>) = static s" "static (s\<lparr>live_ssl := b4\<rparr>) = static s" "static (s\<lparr>steps := b5\<rparr>) = static s"
  "static (s\<lparr>epoll_set := b6\<rparr>) = static s" "static (s\<lparr>callbacks := b7\<rparr>) = static s" "static (s\<lparr>nodes := b8\<rparr>) = static s"
  "static (s\<lparr>backend_pool := b9\<rparr>) = static s" "static (s\<lparr>metrics := c1\<rparr>) = static s"
  "static (s\<lparr>access_log := c2\<rparr>) = static s" "static (s\<lparr>pool_manager := c3\<rparr>) = static s"
  "static (s\<lparr>pooled_connections := c4\<rparr>) = static s" "static (s\<lparr>session_table := c5\<rparr>) = static s"
  "static (s\<lparr>client_session_keys := c6\<rparr>) = static s" "static (s\<lparr>http_states := c7\<rparr>) = static s"
  "static (s\<lparr>next_conn := c8\<rparr>) = static s"
  by (simp_all add: static_def)

lemma static_simple [simp]:
  "static (put_conn i c s) = static s" "static (upd_metrics g s) = static s" "static (upd_nodes n h s) = static s"
  "static (sys_close f s) = static s" "static (sys_open f s) = static s" "static (shutdown_wr f s) = static s"
  "static (mod_fd f ev s) = static s" "static (del_fd f s) = static s" "static (snd (add_fd f ev cb s)) = static s"
  "static (table_remove f s) = static s" "static (snd (ask q s)) = static s"
  by (simp_all add: put_conn_def upd_metrics_def upd_nodes_def sys_close_def sys_open_def shutdown_wr_def mod_fd_def
      del_fd_def add_fd_def table_remove_def ask_def)

lemma b2c_simple [simp]:
  "backend_to_client_map (put_conn i c s) = backend_to_client_map s"
  "backend_to_client_map (upd_metrics g s) = backend_to_client_map s"
  "backend_to_client_map (upd_nodes n h s) = backend_to_client_map s"
  "backend_to_client_map (sys_close f s) = backend_to_client_map s"
  "backend_to_client_map (sys_open f s) = backend_to_client_map s"
  "backend_to_client_map (shutdown_wr f s) = backend_to_client_map s"
  "backend_to_client_map (mod_fd f ev s) = backend_to_client_map s"
  "backend_to_client_map (del_fd f s) = backend_to_client_map s"
  "backend_to_client_map (snd (add_fd f ev cb s)) = backend_to_client_map s"
  "backend_to_client_map (table_remove f s) = backend_to_client_map s"
  by (simp_all add: put_conn_def upd_metrics_def upd_nodes_def sys_close_def sys_open_def shutdown_wr_def mod_fd_def
      del_fd_def add_fd_def table_remove_def)

text \<open>The callbacks of the reactor, which descriptors epoll watches, and the next free number of a backend node.\<close>

definition registrations :: "lb_state \<Rightarrow> (fd \<rightharpoonup> callback) \<times> fd set \<times> node_id" where
  "registrations s = (callbacks s, dom (epoll_set s), next_node s)"

lemma registrations_updates [simp]:
  "registrations (s\<lparr>conn_heap := a1\<rparr>) = registrations s" "registrations (s\<lparr>connections := a2\<rparr>) = registrations s"
  "registrations (s\<lparr>backend_connections := a3\<rparr>) = registrations s" "registrations (s\<lparr>connection_times := a4\<rparr>) = registrations s"
  "registrations (s\<lparr>handshake_start_times := a5\<rparr>) = registrations s" "registrations (s\<lparr>backend_to_client_map := a6\<rparr>) = registrations s"
  "registrations (s\<lparr>client_retry_counts := a7\<rparr>) = registrations s" "registrations (s\<lparr>backpressure_start_times := a8\<rparr>) = registrations s"
  "registrations (s\<lparr>mem := a9\<rparr>) = registrations s" "registrations (s\<lparr>open_fds := b1\<rparr>) = registrations s"
  "registrations (s\<lparr>bad_closes := b2\<rparr>) = registrations s" "registrations (s\<lparr>half_closed := b3\<rparr>) = registrations s"
  "registrations (s\<lparr>live_ssl := b4\<rparr>) = registrations s" "registrations (s\<lparr>steps := b5\<rparr>) = registrations s"
  "registrations (s\<lparr>nodes := b8\<rparr>) = registrations s" "registrations (s\<lparr>backend_pool := b9\<rparr>) = registrations s"
  "registrations (s\<lparr>metrics := c1\<rparr>) = registrations s" "registrations (s\<lparr>access_log := c2\<rparr>) = registrations s"
  "registrations (s\<lparr>pool_manager := c3\<rparr>) = registrations s" "registrations (s\<lparr>pooled_connections := c4\<rparr>) = registrations s"
  "registrations (s\<lparr>session_table := c5\<rparr>) = registrations s" "registrations (s\<lparr>client_session_keys := c6\<rparr>) = registrations s"
  "registrations (s\<lparr>http_states := c7\<rparr>) = registrations s" "registrations (s\<lparr>next_conn := c8\<rparr>) = registrations s"
  "registrations (s\<lparr>splice_pipes := c9\<rparr>) = registrations s" "registrations (s\<lparr>rate_limit_tracker := d1\<rparr>) = registrations s"
  by (simp_all add: registrations_def)

lemma registrations_simple [simp]:
  "registrations (put_conn i c s) = registrations s" "registrations (upd_metrics g s) = registrations s"
  "registrations (upd_nodes n h s) = registrations s" "registrations (sys_open f s) = registrations s"
  "registrations (shutdown_wr f s) = registrations s" "registrations (mod_fd f ev s) = registrations s"
  "registrations (table_remove f s) = registrations s" "registrations (snd (ask q s)) = registrations s"
  by (auto simp: put_conn_def upd_metrics_def upd_nodes_def sys_open_def shutdown_wr_def mod_fd_def table_remove_def ask_def
      registrations_def)

text \<open>Steps without any effect on the tables: the shape, the static part, the map and the registrations stay.\<close>

definition calm :: "lb_state \<Rightarrow> lb_state \<Rightarrow> bool" where
  "calm s s' \<longleftrightarrow> same_shape s s' \<and> static s' = static s \<and> backend_to_client_map s' = backend_to_client_map s \<and>
     registrations s' = registrations s"

lemma calm_refl [simp]: "calm s s"
  by (simp add: calm_def)

lemma calm_trans: "calm s s1 \<Longrightarrow> calm s1 s2 \<Longrightarrow> calm s s2"
  by (auto simp: calm_def intro: same_shape_trans)

lemma calm_shape: "calm s s' \<Longrightarrow> same_shape s s'"
  by (simp add: calm_def)

lemma calm_mod_fd: "calm s (mod_fd f ev s)"
  by (simp add: calm_def mod_fd_shape)

lemma calm_upd_metrics: "calm s (upd_metrics g s)"
  by (simp add: calm_def upd_metrics_shape)

lemma calm_put_conn: "conn_heap s i = Some c \<Longrightarrow> conn_core c' = conn_core c \<Longrightarrow> calm s (put_conn i c' s)"
  by (simp add: calm_def put_conn_shape)

lemma calm_shutdown_wr: "calm s (shutdown_wr f s)"
  by (simp add: calm_def shutdown_wr_def same_shape_def)

lemma calm_start_backpressure: "calm s (start_backpressure k f s)"
  by (simp add: calm_def start_backpressure_shape)
     (simp add: start_backpressure_def ask_def upd_metrics_def Let_def static_def split: prod.splits)

lemma calm_clear_backpressure: "calm s (clear_backpressure f s)"
  by (simp add: calm_def clear_backpressure_shape)
     (simp add: clear_backpressure_def upd_metrics_def Let_def static_def split: prod.splits)

lemmas calm_steps = calm_mod_fd calm_upd_metrics calm_shutdown_wr calm_start_backpressure calm_clear_backpressure

lemma conn_read_ok:
  assumes "conn_heap s i = Some c"
  obtains r s' c' got where "conn_read k i s = Some (r, s')" and "calm s s'" and "conn_heap s' = (conn_heap s)(i \<mapsto> c')"
    and "read_buf c' = read_buf c @ got" and "write_buf c' = write_buf c" and "conn_core c' = conn_core c"
    and "bytes_read c' = bytes_read c + length got"
proof -
  obtain r c' m where read: "read_from_fd reserve_bytes release_bytes (k_read k (steps s)) c (mem s) = (r, c', m)"
    by (metis prod.exhaust)
  obtain got where got: "read_buf c' = read_buf c @ got" "write_buf c' = write_buf c" "conn_core c' = conn_core c"
    "bytes_read c' = bytes_read c + length got"
    using read_from_fd_bytes [OF read] by (auto simp: conn_core_def)
  let ?s = "(put_conn i c' (s\<lparr>steps := steps s + 1\<rparr>))\<lparr>mem := m\<rparr>"
  have "conn_read k i s = Some (r, ?s)" using assms read by (simp add: conn_read_def ask_def)
  moreover have "calm s ?s" using assms got(3) by (auto simp: calm_def same_shape_def fun_eq_iff)
  ultimately show ?thesis using that got by (simp add: put_conn_def)
qed

lemma conn_write_exact:
  assumes "conn_heap s i = Some c"
  obtains s' c' where "conn_write k i s = Some (write_buf c = [] \<or> k_write k (steps s) \<noteq> WriteFailed, s')" and "calm s s'"
    and "conn_heap s' = (conn_heap s)(i \<mapsto> c')" and "conn_core c' = conn_core c" and "read_buf c' = read_buf c"
    and "write_buf c' = drop (accepted_bytes (k_write k (steps s))) (write_buf c)"
    and "bytes_written c' = bytes_written c + min (accepted_bytes (k_write k (steps s))) (length (write_buf c))"
proof -
  obtain r c' m where w: "write_to_fd release_bytes (k_write k (steps s)) c (mem s) = (r, c', m)"
    by (metis prod.exhaust)
  have core: "conn_core c' = conn_core c" using write_to_fd_exact [OF w] by (simp add: conn_core_def)
  let ?s = "(put_conn i c' (s\<lparr>steps := steps s + 1\<rparr>))\<lparr>mem := m\<rparr>"
  have "conn_write k i s = Some (r, ?s)" using assms w by (simp add: conn_write_def ask_def)
  moreover have "calm s ?s" using assms core by (auto simp: calm_def same_shape_def fun_eq_iff)
  ultimately show ?thesis using that [of ?s c'] core write_to_fd_exact [OF w] by (simp add: put_conn_def)
qed

lemma conn_write_ok:
  assumes "conn_heap s i = Some c"
  obtains r s' c' sent where "conn_write k i s = Some (r, s')" and "calm s s'" and "conn_heap s' = (conn_heap s)(i \<mapsto> c')"
    and "write_buf c = sent @ write_buf c'" and "read_buf c' = read_buf c" and "conn_core c' = conn_core c"
    and "bytes_written c' = bytes_written c + length sent"
proof -
  obtain s' c' where w: "conn_write k i s = Some (write_buf c = [] \<or> k_write k (steps s) \<noteq> WriteFailed, s')" "calm s s'"
    "conn_heap s' = (conn_heap s)(i \<mapsto> c')" "conn_core c' = conn_core c" "read_buf c' = read_buf c"
    "write_buf c' = drop (accepted_bytes (k_write k (steps s))) (write_buf c)"
    "bytes_written c' = bytes_written c + min (accepted_bytes (k_write k (steps s))) (length (write_buf c))"
    using assms by (rule conn_write_exact)
  then show ?thesis
    using that [OF w(1,2,3), of "take (accepted_bytes (k_write k (steps s))) (write_buf c)"] by (simp add: ac_simps)
qed

lemma has_pending_send_ok:
  assumes "conn_heap s i = Some c"
  obtains b s' where "has_pending_send k i s = Some (b, s')" and "calm s s'" and "conn_heap s' = conn_heap s"
proof -
  have "has_pending_send k i s = Some (write_buf c \<noteq> [] \<or> (conn_fd c \<ge> 0 \<and> k_pending k (steps s) > 0), s\<lparr>steps := steps s + 1\<rparr>)"
    using assms by (simp add: has_pending_send_def ask_def)
  moreover have "calm s (s\<lparr>steps := steps s + 1\<rparr>)" by (simp add: calm_def same_shape_def)
  ultimately show ?thesis using that by simp
qed

lemma start_backpressure_heap [simp]: "conn_heap (start_backpressure k f s) = conn_heap s"
  by (simp add: start_backpressure_def ask_def upd_metrics_def Let_def split: prod.splits)

lemma clear_backpressure_heap [simp]: "conn_heap (clear_backpressure f s) = conn_heap s"
  by (simp add: clear_backpressure_def upd_metrics_def Let_def split: prod.splits)

lemma mod_fd_heap [simp]: "conn_heap (mod_fd f ev s) = conn_heap s"
  by (simp add: mod_fd_def)

text \<open>
  Steps that open nothing: connections may leave the table, none enters it, and no descriptor
  is closed that is not open.
\<close>

definition contracts :: "lb_state \<Rightarrow> lb_state \<Rightarrow> bool" where
  "contracts s s' \<longleftrightarrow>
     (\<forall>g i. get_connection g s' = Some i \<longrightarrow> get_connection g s = Some i) \<and>
     bad_closes s' = bad_closes s \<and> open_fds s' \<subseteq> open_fds s \<and> (pool_manager s = None \<longrightarrow> pool_manager s' = None)"

lemma contracts_refl [simp]: "contracts s s"
  by (simp add: contracts_def)

lemma contracts_trans: "contracts s s1 \<Longrightarrow> contracts s1 s2 \<Longrightarrow> contracts s s2"
  by (auto simp: contracts_def)

lemma contracts_shape: "same_shape s s' \<Longrightarrow> contracts s s'"
  by (auto simp: contracts_def same_shape_def get_connection_def)

lemma contracts_None: "contracts s s' \<Longrightarrow> get_connection f s = None \<Longrightarrow> get_connection f s' = None"
  by (cases "get_connection f s'") (auto simp: contracts_def)

lemma with_conn_pool: "with_conn i g s = Some s' \<Longrightarrow> pool_manager s' = pool_manager s"
  by (auto simp: with_conn_def bind_eq_Some_conv)

lemma ssl_free_pool: "ssl_free x s = Some s' \<Longrightarrow> pool_manager s' = pool_manager s"
  by (auto simp: ssl_free_def split: option.splits if_splits)

lemma sys_close_pool [simp]: "pool_manager (sys_close f s) = pool_manager s"
  by (simp add: sys_close_def)

lemma conn_close_pool: "conn_close i s = Some s' \<Longrightarrow> pool_manager s' = pool_manager s"
  by (auto simp: conn_close_def shut_def bind_eq_Some_conv Let_def split: option.split_asm if_split_asm
      dest!: ssl_free_pool with_conn_pool)

lemma destroy_pool: "destroy i s = Some s' \<Longrightarrow> pool_manager s' = pool_manager s"
  by (auto simp: destroy_def bind_eq_Some_conv dest: conn_close_pool)

lemma table_erase_pool: "table_erase f s = Some s' \<Longrightarrow> pool_manager s' = pool_manager s"
  by (auto simp: table_erase_def table_remove_def split: option.splits dest: destroy_pool)

lemma del_fd_pool [simp]: "pool_manager (del_fd f s) = pool_manager s"
  by (simp add: del_fd_def)

lemma close_peer_pool: "close_peer k b i j s = Some s' \<Longrightarrow> pool_manager s = None \<Longrightarrow> pool_manager s' = None"
  by (auto simp: close_peer_def bind_eq_Some_conv Let_def split: option.splits if_splits
      dest!: with_conn_pool table_erase_pool conn_close_pool)

lemma close_connection_pool:
  assumes "close_connection k f s = Some s'" and "pool_manager s = None"
  shows "pool_manager s' = None"
  using assms
  by (auto simp: close_connection_def bind_eq_Some_conv Let_def split: option.splits if_splits
      dest!: close_peer_pool table_erase_pool conn_close_pool)

lemma close_backend_connection_only_pool:
  assumes "close_backend_connection_only f s = Some s'" and "pool_manager s = None"
  shows "pool_manager s' = None"
  using assms
  by (auto simp: close_backend_connection_only_def untrack_backpressure_def bind_eq_Some_conv Let_def split: option.splits if_splits
      dest!: with_conn_pool table_erase_pool conn_close_pool)

lemma close_connection_contracts:
  assumes "lb_good L s"
  obtains s' where "close_connection k f s = Some s'" and "lb_good L s'" and "contracts s s'" and "get_connection f s' = None"
proof -
  obtain s' where "close_connection k f s = Some s'" "lb_good L s'" "shrinks s s'" "get_connection f s' = None"
    using cc.close_total [OF assms] by blast
  then show ?thesis using that close_connection_pool by (auto simp: contracts_def shrinks_def)
qed

lemma close_backend_connection_only_contracts:
  assumes "lb_good L s"
  obtains s' where "close_backend_connection_only f s = Some s'" and "lb_good L s'" and "contracts s s'"
    and "get_connection f s' = None"
proof -
  obtain s' where "close_backend_connection_only f s = Some s'" "lb_good L s'" "shrinks s s'" "get_connection f s' = None"
    using cb.close_total [OF assms] by blast
  then show ?thesis using that close_backend_connection_only_pool by (auto simp: contracts_def shrinks_def)
qed

end
