(* ===== verification/Data_Forwarder.thy ===== *)
theory Data_Forwarder
  imports Connection_Frames
begin

text \<open>
  \<^verbatim>\<open>core/data_forwarder.cpp\<close>: copying buffered bytes from a connection to its peer and
  writing them out, with backpressure when the peer's buffer is full or its socket does not
  take everything.
\<close>

definition forward_events :: "Connection \<Rightarrow> epoll_events" where
  "forward_events c = (if \<not> memory_blocked c \<and> \<not> buffer_full c then EPOLLINOUT else EPOLLOUT)"

definition forward :: "kernel \<Rightarrow> conn_id \<Rightarrow> conn_id \<Rightarrow> lb_state \<Rightarrow> lb_state option" where
  "forward k from to s = do {
     c \<leftarrow> conn_heap s from;
     d \<leftarrow> conn_heap s to;
     if conn_state c \<noteq> ESTABLISHED \<or> conn_state d \<noteq> ESTABLISHED then Some s
     else if read_buf c = [] then Some s
     else do {
       let to_copy = min (length (read_buf c)) (write_available d);
       if to_copy = 0 then Some (mod_fd (conn_fd c) EPOLLOUT (start_backpressure k (conn_fd c) s))
       else do {
         let (c1, d1) = transfer to_copy c d;
         let c2 = (if buffer_full c \<and> has_read_space c1 then set_buffer_full False c1 else c1);
         let s1 = put_conn to d1 (put_conn from c2 s);
         let s2 = mod_fd (conn_fd c2) (forward_events c2) (mod_fd (conn_fd d1) EPOLLINOUT s1);
         (written, s3) \<leftarrow> conn_write k to s2;
         if \<not> written then close_connection k (conn_fd d1) s3
         else do {
           (pending, s4) \<leftarrow> has_pending_send k to s3;
           Some (if pending then start_backpressure k (conn_fd c2) s4 else clear_backpressure (conn_fd c2) s4)
         }
       }
     }
   }"

section \<open>Forwarding keeps the stream\<close>

text \<open>The bytes a call of \<open>forward\<close> copies from \<open>c\<close> to its peer \<open>d\<close>.\<close>

definition copied_bytes :: "Connection \<Rightarrow> Connection \<Rightarrow> nat" where
  "copied_bytes c d =
     (if conn_state c = ESTABLISHED \<and> conn_state d = ESTABLISHED
      then min (length (read_buf c)) (write_available d) else 0)"

text \<open>\<open>streamed n m c d c' d'\<close>: \<open>n\<close> bytes moved from \<open>c\<close>'s read buffer to the end of \<open>d\<close>'s write
  buffer, of which up to \<open>m\<close> left for the socket from the front.\<close>

definition streamed :: "nat \<Rightarrow> nat \<Rightarrow> Connection \<Rightarrow> Connection \<Rightarrow> Connection \<Rightarrow> Connection \<Rightarrow> bool" where
  "streamed n m c d c' d' \<longleftrightarrow>
     read_buf c' = drop n (read_buf c) \<and> write_buf d' = drop m (write_buf d @ take n (read_buf c)) \<and>
     bytes_written d' = bytes_written d + min m (length (write_buf d @ take n (read_buf c))) \<and>
     write_buf c' = write_buf c \<and> read_buf d' = read_buf d"

lemma streamed_refl [simp]: "streamed 0 0 c d c d"
  by (simp add: streamed_def)

lemma conn_core_transfer [simp]:
  "conn_core (fst (transfer n c d)) = conn_core c" "conn_core (snd (transfer n c d)) = conn_core d"
  "conn_core (set_buffer_full b c) = conn_core c"
  by (simp_all add: transfer_def conn_core_def set_buffer_full_def)

lemma calm_put_two:
  assumes "conn_heap s i = Some c" and "conn_heap s j = Some d" and "i \<noteq> j"
    and "conn_core c' = conn_core c" and "conn_core d' = conn_core d"
  shows "calm s (put_conn j d' (put_conn i c' s))"
proof -
  have "calm s (put_conn i c' s)" using assms by (intro calm_put_conn)
  moreover have "calm (put_conn i c' s) (put_conn j d' (put_conn i c' s))"
    using assms by (intro calm_put_conn) auto
  ultimately show ?thesis by (rule calm_trans)
qed

text \<open>The copying: the bytes move to the peer's buffer and are written from there.\<close>

lemma forward_moves:
  assumes c: "conn_heap s i = Some c" and d: "conn_heap s j = Some d" and ij: "i \<noteq> j" and n0: "copied_bytes c d \<noteq> 0"
  obtains s3 c2 d3 where "calm s s3" and "conn_heap s3 = (conn_heap s)(i \<mapsto> c2, j \<mapsto> d3)"
    and "streamed (copied_bytes c d) (accepted_bytes (k_write k (steps s))) c d c2 d3"
    and "forward k i j s = (if k_write k (steps s) = WriteFailed then close_connection k (conn_fd d) s3
          else do { (pending, s4) \<leftarrow> has_pending_send k j s3;
                    Some (if pending then start_backpressure k (conn_fd c) s4 else clear_backpressure (conn_fd c) s4) })"
proof -
  define n where "n = min (length (read_buf c)) (write_available d)"
  have live: "conn_state c = ESTABLISHED" "conn_state d = ESTABLISHED" "n \<noteq> 0" "read_buf c \<noteq> []" "copied_bytes c d = n"
    using n0 by (auto simp: copied_bytes_def n_def split: if_splits)
  define c1 d1 where "c1 = fst (transfer n c d)" and "d1 = snd (transfer n c d)"
  define c2 where "c2 = (if buffer_full c \<and> has_read_space c1 then set_buffer_full False c1 else c1)"
  define s2 where "s2 = mod_fd (conn_fd c2) (forward_events c2) (mod_fd (conn_fd d1) EPOLLINOUT (put_conn j d1 (put_conn i c2 s)))"
  note defs = c2_def c1_def d1_def transfer_def set_buffer_full_def
  have core: "conn_core c2 = conn_core c" "conn_core d1 = conn_core d" by (simp_all add: c2_def c1_def d1_def)
  have steps: "steps s2 = steps s" by (simp add: s2_def put_conn_def mod_fd_def)
  have ne: "write_buf d1 \<noteq> []" using live(3,4) by (simp add: d1_def transfer_def)
  have "calm s s2"
    unfolding s2_def using calm_put_two [OF c d ij core] by (meson calm_trans calm_mod_fd)
  moreover have "conn_heap s2 j = Some d1" by (simp add: s2_def)
  then obtain s3 d3 where w: "conn_write k j s2 = Some (k_write k (steps s) \<noteq> WriteFailed, s3)" "calm s2 s3"
    "conn_heap s3 = (conn_heap s2)(j \<mapsto> d3)" "read_buf d3 = read_buf d1"
    "write_buf d3 = drop (accepted_bytes (k_write k (steps s))) (write_buf d1)"
    "bytes_written d3 = bytes_written d1 + min (accepted_bytes (k_write k (steps s))) (length (write_buf d1))"
    by (rule conn_write_exact [where k = k]) (simp add: ne steps)
  moreover have "streamed n (accepted_bytes (k_write k (steps s))) c d c2 d3"
    using w(4-6) by (simp add: streamed_def defs)
  moreover have "transfer n c d = (c1, d1)" by (simp add: c1_def d1_def)
  then have run: "forward k i j s = (if k_write k (steps s) = WriteFailed then close_connection k (conn_fd d1) s3
      else do { (pending, s4) \<leftarrow> has_pending_send k j s3;
                Some (if pending then start_backpressure k (conn_fd c2) s4 else clear_backpressure (conn_fd c2) s4) })"
    using live c d
    by (simp add: forward_def n_def [symmetric] c2_def [symmetric] s2_def [symmetric] w(1) Let_def) (simp add: c2_def cong: if_cong)
  have "conn_fd c2 = conn_fd c" "conn_fd d1 = conn_fd d" using core by (simp_all add: conn_core_def)
  note run = run [unfolded this]
  ultimately show ?thesis using run by (intro that [of s3 c2 d3]) (auto simp: s2_def live(5) intro: calm_trans)
qed

text \<open>Without copying, \<open>forward\<close> at most stops reading from the sender.\<close>

lemma forward_idle:
  assumes c: "conn_heap s i = Some c" and d: "conn_heap s j = Some d" and n0: "copied_bytes c d = 0"
  obtains s' where "forward k i j s = Some s'" and "calm s s'" and "conn_heap s' = conn_heap s"
proof (cases "conn_state c \<noteq> ESTABLISHED \<or> conn_state d \<noteq> ESTABLISHED \<or> read_buf c = []")
  case True
  with c d show ?thesis by (intro that [of s]) (auto simp: forward_def)
next
  case False
  let ?s1 = "mod_fd (conn_fd c) EPOLLOUT (start_backpressure k (conn_fd c) s)"
  have "calm s ?s1" by (rule calm_trans) (rule calm_steps)+
  with False c d n0 show ?thesis by (intro that [of ?s1]) (auto simp: forward_def copied_bytes_def)
qed

lemma forward_ok:
  assumes good: "lb_good L s" and c: "conn_heap s i = Some c" and d: "conn_heap s j = Some d" and ij: "i \<noteq> j"
  obtains s' where "forward k i j s = Some s'" and "lb_good L s'" and "contracts s s'"
    and "if copied_bytes c d \<noteq> 0 \<and> k_write k (steps s) = WriteFailed then get_connection (conn_fd d) s' = None
         else same_shape s s' \<and> (\<exists>c' d'. conn_heap s' = (conn_heap s)(i \<mapsto> c', j \<mapsto> d') \<and>
           streamed (copied_bytes c d) (if copied_bytes c d = 0 then 0 else accepted_bytes (k_write k (steps s))) c d c' d')"
    and "\<exists>s1. calm s s1 \<and> (s' = s1 \<or> close_connection k (conn_fd d) s1 = Some s')"
proof (cases "copied_bytes c d = 0")
  case True
  obtain s' where s': "forward k i j s = Some s'" "calm s s'" "conn_heap s' = conn_heap s"
    using c d True by (rule forward_idle)
  note sh = calm_shape [OF s'(2)]
  have "conn_heap s' = (conn_heap s)(i \<mapsto> c, j \<mapsto> d)" using s'(3) c d by auto
  then have "\<exists>c' d'. conn_heap s' = (conn_heap s)(i \<mapsto> c', j \<mapsto> d') \<and> streamed 0 0 c d c' d'" by (metis streamed_refl)
  with that [OF s'(1) lb_good_shape [OF good sh] contracts_shape [OF sh]] s'(2) sh True show ?thesis by auto
next
  case False
  note result = that
  obtain s3 c2 d3 where m: "calm s s3" "conn_heap s3 = (conn_heap s)(i \<mapsto> c2, j \<mapsto> d3)"
    "streamed (copied_bytes c d) (accepted_bytes (k_write k (steps s))) c d c2 d3"
    "forward k i j s = (if k_write k (steps s) = WriteFailed then close_connection k (conn_fd d) s3
        else do { (pending, s4) \<leftarrow> has_pending_send k j s3;
                  Some (if pending then start_backpressure k (conn_fd c) s4 else clear_backpressure (conn_fd c) s4) })"
    by (rule forward_moves [OF c d ij False])
  note sh3 = calm_shape [OF m(1)]
  show ?thesis
  proof (cases "k_write k (steps s) = WriteFailed")
    case True
    obtain s' where s': "close_connection k (conn_fd d) s3 = Some s'" "lb_good L s'" "contracts s3 s'" "get_connection (conn_fd d) s' = None"
      by (rule close_connection_contracts [OF lb_good_shape [OF good sh3]])
    with True m contracts_trans [OF contracts_shape [OF sh3] s'(3)] False show ?thesis using result [of s'] by auto
  next
    case ok: False
    have "conn_heap s3 j = Some d3" by (simp add: m)
    then obtain b s4 where p: "has_pending_send k j s3 = Some (b, s4)" "calm s3 s4" "conn_heap s4 = conn_heap s3"
      by (rule has_pending_send_ok)
    let ?s' = "if b then start_backpressure k (conn_fd c) s4 else clear_backpressure (conn_fd c) s4"
    have "calm s4 ?s'" by (simp add: calm_start_backpressure calm_clear_backpressure)
    then have cs: "calm s ?s'" by (meson calm_trans p(2) m(1))
    note sh = calm_shape [OF cs]
    have run: "forward k i j s = Some ?s'" using ok m(4) p(1) by simp
    have "conn_heap ?s' = (conn_heap s)(i \<mapsto> c2, j \<mapsto> d3)" using p(3) m(2) by simp
    with m(3) result [OF run lb_good_shape [OF good sh] contracts_shape [OF sh]] cs sh ok False show ?thesis by (simp del: fun_upd_apply) blast
  qed
qed

section \<open>Properties\<close>

text \<open>C4: forwarding between two peers never loses, repeats or reorders a byte. \<open>forward\<close> always
  returns and keeps the invariants of the tables. It copies \<open>n\<close> bytes, as many as the sender
  has read and the receiver has room for, when both are established, else none. The receiver is
  closed exactly when bytes were copied and the kernel then refuses the write; otherwise every
  connection stays in the table, the first \<open>n\<close> bytes of the sender's read buffer have moved to
  the end of the receiver's write buffer, from whose front exactly the bytes that the kernel
  accepted are gone and counted as written, and the buffers of the opposite direction are
  untouched.\<close>

theorem forward_keeps_stream:
  assumes "lb_good [] s" and "conn_heap s i = Some c" and "peer c = Some j" and "conn_heap s j = Some d"
  shows "case forward k i j s of
           None \<Rightarrow> False
         | Some s' \<Rightarrow> lb_good [] s' \<and> bad_closes s' = bad_closes s \<and>
             (let n = (if conn_state c = ESTABLISHED \<and> conn_state d = ESTABLISHED
                       then min (length (read_buf c)) (write_available d) else 0);
                  out = write_buf d @ take n (read_buf c);
                  m = (if n = 0 then 0 else accepted_bytes (k_write k (steps s)))
              in if n \<noteq> 0 \<and> k_write k (steps s) = WriteFailed then get_connection (conn_fd d) s' = None
                 else (\<forall>f. get_connection f s' = get_connection f s) \<and>
                   (\<exists>c' d'. conn_heap s' = (conn_heap s)(i \<mapsto> c', j \<mapsto> d') \<and>
                      read_buf c' = drop n (read_buf c) \<and> write_buf d' = drop m out \<and>
                      bytes_written d' = bytes_written d + min m (length out) \<and>
                      write_buf c' = write_buf c \<and> read_buf d' = read_buf d))"
proof -
  have "lb_inv [] s" using assms(1) by (simp add: lb_good_def)
  then have "i \<noteq> j" using heap_inv_peer [OF lb_inv_heap assms(2,3)] by metis
  from forward_ok [OF assms(1,2,4) this, of k] obtain s' where s': "forward k i j s = Some s'" "lb_good [] s'" "contracts s s'"
    "if copied_bytes c d \<noteq> 0 \<and> k_write k (steps s) = WriteFailed then get_connection (conn_fd d) s' = None
     else same_shape s s' \<and> (\<exists>c' d'. conn_heap s' = (conn_heap s)(i \<mapsto> c', j \<mapsto> d') \<and>
       streamed (copied_bytes c d) (if copied_bytes c d = 0 then 0 else accepted_bytes (k_write k (steps s))) c d c' d')" by metis
  have "bad_closes s' = bad_closes s" using s'(3) by (simp add: contracts_def)
  with s'(2,4) same_shape_at(2) [of s s'] show ?thesis
    unfolding s'(1) option.case Let_def streamed_def copied_bytes_def [symmetric] by (simp split: if_splits)
qed

text \<open>An example: the client of the pair has read four bytes.\<close>

definition example_loaded :: lb_state where
  "example_loaded = put_conn 0 ((new_connection 10)\<lparr>peer := Some 1, accounted := True, read_buf := ''data''\<rparr>) example_pair"

theorem forward_keeps_stream_witness:
  "case forward example_kernel 0 1 example_loaded of
     None \<Rightarrow> False
   | Some s' \<Rightarrow> get_connection 11 s' = Some 1 \<and>
       (\<exists>c' d'. conn_heap s' = (conn_heap example_loaded)(0 \<mapsto> c', 1 \<mapsto> d') \<and> read_buf c' = [] \<and> write_buf d' = [] \<and>
          bytes_written d' = length ''data'')"
proof -
  have c: "conn_heap example_pair 0 = Some ((new_connection 10)\<lparr>peer := Some 1, accounted := True\<rparr>)"
    by (simp add: example_pair_def)
  have "same_shape example_pair example_loaded"
    unfolding example_loaded_def using c by (rule put_conn_shape) (simp add: conn_core_def)
  with example_pair_good have good: "lb_good [] example_loaded" by (rule lb_good_shape)
  have "conn_heap example_loaded 0 = Some ((new_connection 10)\<lparr>peer := Some 1, accounted := True, read_buf := ''data''\<rparr>)"
    "conn_heap example_loaded 1 = Some ((new_connection 11)\<lparr>peer := Some 0, accounted := True\<rparr>)"
    by (simp_all add: example_loaded_def example_pair_def)
  note run = forward_keeps_stream [OF good this(1) _ this(2), where k = example_kernel]
  have room: "write_available ((new_connection 11)\<lparr>peer := Some 0, accounted := True\<rparr>) = 65536"
    by (simp add: write_available_room new_connection_def MAX_BUFFER_SIZE_def)
  have "get_connection 11 example_loaded = Some 1"
    by (simp add: example_loaded_def example_pair_def get_connection_def put_conn_def)
  with run room show ?thesis
    by (simp add: new_connection_def example_kernel_def MAX_BUFFER_SIZE_def Let_def split: option.splits del: fun_upd_apply)
       blast
qed

end
