(* ===== verification/Backend_Connector.thy ===== *)
theory Backend_Connector
  imports Connection_Safety
begin

text \<open>
  \<^verbatim>\<open>core/backend_connector.cpp\<close> and \<^verbatim>\<open>core/retry_handler.cpp\<close>: choosing a backend for a client
  connection, taking a pooled connection or opening a new one, and retrying on another
  backend. \<open>connect_once\<close> is the body of \<open>BackendConnector::connect\<close> up to the call of the
  retry callback: its first component says that the callback is called, with the client
  connection still owned. The closed connection of a failed attempt is destroyed before the
  callback runs instead of after it, which nothing can observe. \<open>connect\<close> closes the recursion through \<open>RetryHandler::retry\<close>.
\<close>

definition MAX_RETRY_ATTEMPTS :: int where
  "MAX_RETRY_ATTEMPTS = 3"

definition get_backend_info :: "fd \<Rightarrow> lb_state \<Rightarrow> BackendInfo" where
  "get_backend_info f s =
     (case pooled_connections s f of
        Some info \<Rightarrow> info
      | None \<Rightarrow> \<lparr>bi_host = [], bi_port = 0, bi_pooled = False\<rparr>)"

text \<open>\<open>HttpDataForwarder::set_backend_for_request\<close>, called when a forwarder is installed.\<close>

definition set_backend_for_request :: "fd \<Rightarrow> string \<Rightarrow> lb_state \<Rightarrow> lb_state" where
  "set_backend_for_request client_fd key s =
     (case http_states s client_fd of
        None \<Rightarrow> s
      | Some h \<Rightarrow> s\<lparr>http_states := (http_states s)(client_fd \<mapsto>
          h\<lparr>request_info := (request_info h)\<lparr>ri_backend := key\<rparr>\<rparr>)\<rparr>)"

definition backend_selected :: "fd \<Rightarrow> string \<Rightarrow> u16 \<Rightarrow> lb_state \<Rightarrow> lb_state" where
  "backend_selected client_fd h p s =
     (if http_forwarder s = None then s else set_backend_for_request client_fd (backend_key h p) s)"

subsection \<open>Sticky sessions\<close>

definition uses_sessions :: "string \<Rightarrow> lb_state \<Rightarrow> bool" where
  "uses_sessions key s \<longleftrightarrow>
     bcn_sticky_enabled (settings_of s) \<and> bcn_sessions (settings_of s) \<and> key \<noteq> []"

definition sticky_hint :: "kernel \<Rightarrow> string \<Rightarrow> lb_state \<Rightarrow> (string \<times> u16) \<times> lb_state" where
  "sticky_hint k key s =
     (if uses_sessions key s then
        (let (now, s1) = ask (k_now k) s in
         case get_session now key (session_table s1) of
           None \<Rightarrow> (([], 0), s1)
         | Some si \<Rightarrow> ((backend_host si, backend_port si), s1))
      else (([], 0), s))"

definition remember_session :: "kernel \<Rightarrow> string \<Rightarrow> string \<Rightarrow> u16 \<Rightarrow> lb_state \<Rightarrow> lb_state" where
  "remember_session k key h p s =
     (if uses_sessions key s then
        (let (now, s1) = ask (k_now k) s in
         s1\<lparr>session_table := set_session now key h p (bcn_sticky_ttl_seconds (settings_of s1)) (session_table s1)\<rparr>)
      else s)"

subsection \<open>Borrowing from the connection pool\<close>

definition kernel_dial :: "kernel \<Rightarrow> lb_state \<Rightarrow> dial" where
  "kernel_dial k s =
     \<lparr>dial_socket = k_socket k (steps s) (open_fds s), dial_resolved = k_resolves k (steps s),
      dial_connect = k_connect k (steps s), dial_select = k_select k (steps s),
      dial_so_error = k_so_error k (steps s)\<rparr>"

definition peek_valid :: "kernel \<Rightarrow> lb_state \<Rightarrow> conn_id \<Rightarrow> bool" where
  "peek_valid k s i =
     (case conn_heap s i of None \<Rightarrow> False | Some c \<Rightarrow> validate_connection (k_peek k (steps s)) c)"

text \<open>
  The pool's connection for a backend, if it has one to give. A failed attempt to open one
  closes its descriptor again. \<open>None\<close> is the undefined behaviour of \<open>borrow\<close> on an idle
  connection that fails the check.
\<close>

definition borrow_backend ::
    "kernel \<Rightarrow> string \<Rightarrow> u16 \<Rightarrow> lb_state \<Rightarrow> (conn_id option \<times> lb_state) option" where
  "borrow_backend k h p s =
     (case pool_manager s of
        None \<Rightarrow> Some (None, s)
      | Some pm \<Rightarrow>
          let created = fst (create_connection (kernel_dial k s));
              (r, pm') = pm_borrow (peek_valid k s) (created \<noteq> None) h p pm;
              s1 = s\<lparr>pool_manager := Some pm', steps := steps s + 1\<rparr>
          in (case r of
                Borrowed b \<Rightarrow> Some (Some b, s1)
              | Created \<Rightarrow>
                  let (b, s2) = make_connection (dial_socket (kernel_dial k s)) (sys_open (dial_socket (kernel_dial k s)) s1)
                  in Some (Some b, s2)
              | NoConnection \<Rightarrow> Some (None, s1)
              | BorrowUndefined \<Rightarrow> None))"

subsection \<open>Entering a pair of connections into the tables\<close>

text \<open>What both branches of \<open>connect\<close> do once client and backend connection are peers.\<close>

definition register_pair ::
    "kernel \<Rightarrow> conn_id \<Rightarrow> conn_id \<Rightarrow> node_id \<Rightarrow> int \<Rightarrow> string \<Rightarrow> u16 \<Rightarrow> epoll_events \<Rightarrow> lb_state \<Rightarrow>
     lb_state option" where
  "register_pair k client backend n retry_count h p ev s = do {
     c \<leftarrow> conn_heap s client;
     d \<leftarrow> conn_heap s backend;
     let client_fd = conn_fd c;
     let backend_fd = conn_fd d;
     s1 \<leftarrow> table_put client_fd client s;
     s2 \<leftarrow> table_put backend_fd backend s1;
     let (now, s3) = ask (k_now k) (s2\<lparr>backend_connections := (backend_connections s2)(backend_fd \<mapsto> n)\<rparr>);
     let s4 = s3\<lparr>connection_times := (connection_times s3)(backend_fd \<mapsto> now),
                 backend_to_client_map := (backend_to_client_map s3)(backend_fd \<mapsto> client_fd),
                 client_retry_counts := (client_retry_counts s3)(client_fd \<mapsto> retry_count)\<rparr>;
     let s5 = backend_selected client_fd h p s4;
     let s6 = snd (add_fd client_fd EPOLLINOUT ClientHandler s5);
     Some (snd (add_fd backend_fd ev BackendHandler s6))
   }"

definition link_peers :: "conn_id \<Rightarrow> conn_id \<Rightarrow> lb_state \<Rightarrow> lb_state option" where
  "link_peers client backend s = do {
     s1 \<leftarrow> with_conn client (set_peer (Some backend)) s;
     with_conn backend (set_peer (Some client)) s1
   }"

definition count_routed :: "node_id \<Rightarrow> string \<Rightarrow> lb_state \<Rightarrow> lb_state" where
  "count_routed n key s =
     upd_metrics increment_connections_active
       (upd_metrics (increment_backend_routed key) (upd_nodes n increment_connections s))"

definition count_failure :: "node_id \<Rightarrow> string \<Rightarrow> lb_state \<Rightarrow> lb_state" where
  "count_failure n key s = upd_metrics (increment_backend_failures key) (upd_nodes n increment_failures s)"

subsection \<open>Opening a new connection\<close>

definition connect_new ::
    "kernel \<Rightarrow> conn_id \<Rightarrow> node_id \<Rightarrow> int \<Rightarrow> string \<Rightarrow> u16 \<Rightarrow> lb_state \<Rightarrow> (bool \<times> lb_state) option" where
  "connect_new k client n retry_count h p s = do {
     let key = backend_key h p;
     let (backend_fd, s1) = ask (\<lambda>t. k_socket k t (open_fds s)) s;
     if backend_fd < 0 then do { s2 \<leftarrow> close_and_destroy client s1; Some (False, s2) }
     else do {
       let (resolved, s2) = ask (k_resolves k) (sys_open backend_fd s1);
       if \<not> resolved then do {
         s3 \<leftarrow> conn_close client (count_failure n key s2);
         s4 \<leftarrow> destroy client (sys_close backend_fd s3);
         Some (False, s4)
       }
       else do {
         let (answer, s3) = ask (k_connect k) s2;
         let (backend, s4) = make_connection backend_fd s3;
         s5 \<leftarrow> attach_memory_accounting backend s4;
         if answer = ConnectFailed then do {
           s6 \<leftarrow> conn_close backend (count_failure n key s5);
           s7 \<leftarrow> destroy backend (sys_close backend_fd s6);
           Some (True, s7)
         }
         else do {
           s6 \<leftarrow> link_peers client backend s5;
           let s7 = s6\<lparr>pooled_connections := (pooled_connections s6)(backend_fd \<mapsto>
                         \<lparr>bi_host = h, bi_port = p, bi_pooled = False\<rparr>)\<rparr>;
           s8 \<leftarrow> (if answer = ConnectDone
                  then do { t \<leftarrow> with_conn backend (set_conn_state ESTABLISHED) s7; Some (count_routed n key t) }
                  else with_conn backend (set_conn_state CONNECTING) s7);
           s9 \<leftarrow> register_pair k client backend n retry_count h p
                   (if answer = ConnectDone then EPOLLINOUT else EPOLLOUT) s8;
           Some (False, s9)
         }
       }
     }
   }"

subsection \<open>One attempt, and the retries\<close>

definition connect_once ::
    "kernel \<Rightarrow> conn_id \<Rightarrow> int \<Rightarrow> string \<Rightarrow> lb_state \<Rightarrow> (bool \<times> lb_state) option" where
  "connect_once k client retry_count session_key s = do {
     s1 \<leftarrow> attach_memory_accounting client s;
     let ((sticky_host, sticky_port), s2) = sticky_hint k session_key s1;
     let (choice, bp) = select_backend (nodes s2) (bcn_max_connections_per_backend (settings_of s2))
                          sticky_host sticky_port (backend_pool s2);
     let s3 = s2\<lparr>backend_pool := bp\<rparr>;
     (case choice of
        None \<Rightarrow> do {
          s4 \<leftarrow> close_and_destroy client (upd_metrics increment_backend_routes_failed s3);
          Some (False, s4)
        }
      | Some n \<Rightarrow> do {
          let h = host (nodes s3 n);
          let p = port (nodes s3 n);
          let s4 = remember_session k session_key h p s3;
          (borrowed, s5) \<leftarrow> borrow_backend k h p s4;
          (case borrowed of
             Some b \<Rightarrow> do {
               s6 \<leftarrow> attach_memory_accounting b s5;
               d \<leftarrow> conn_heap s6 b;
               s7 \<leftarrow> link_peers client b s6;
               let s8 = s7\<lparr>pooled_connections := (pooled_connections s7)(conn_fd d \<mapsto>
                             \<lparr>bi_host = h, bi_port = p, bi_pooled = True\<rparr>)\<rparr>;
               s9 \<leftarrow> register_pair k client b n retry_count h p EPOLLINOUT
                       (count_routed n (backend_key h p) s8);
               Some (False, s9)
             }
           | None \<Rightarrow> connect_new k client n retry_count h p s5)
        })
   }"

definition session_key_of :: "conn_id \<Rightarrow> lb_state \<Rightarrow> string" where
  "session_key_of client s =
     (case conn_heap s client of
        None \<Rightarrow> []
      | Some c \<Rightarrow> (case client_session_keys s (conn_fd c) of None \<Rightarrow> [] | Some key \<Rightarrow> key))"

function connect :: "kernel \<Rightarrow> conn_id \<Rightarrow> int \<Rightarrow> string \<Rightarrow> lb_state \<Rightarrow> lb_state option" where
  "connect k client retry_count session_key s =
     (case connect_once k client retry_count session_key s of
        None \<Rightarrow> None
      | Some (again, s1) \<Rightarrow>
          if \<not> again then Some s1
          else if retry_count \<ge> MAX_RETRY_ATTEMPTS
          then close_and_destroy client (upd_metrics increment_backend_routes_failed s1)
          else connect k client (retry_count + 1) (session_key_of client s1) s1)"
  by pat_completeness auto

termination
  by (relation "measure (\<lambda>(k, client, retry_count, session_key, s). nat (MAX_RETRY_ATTEMPTS - retry_count))") auto

declare connect.simps [simp del]

text \<open>\<open>RetryHandler::retry\<close>, as the event handlers call it.\<close>

definition retry :: "kernel \<Rightarrow> conn_id \<Rightarrow> int \<Rightarrow> lb_state \<Rightarrow> lb_state option" where
  "retry k client retry_count s =
     (if retry_count \<ge> MAX_RETRY_ATTEMPTS
      then close_and_destroy client (upd_metrics increment_backend_routes_failed s)
      else connect k client (retry_count + 1) (session_key_of client s) s)"

end
