(* ===== verification/Connection_Wiring.thy ===== *)
theory Connection_Wiring
  imports Connection_Frames Backend_Connector
begin

text \<open>
  How the map from backends' descriptors to their clients' follows the table of connections
  (\<open>wired\<close>), and which parts of the state closing leaves alone (\<open>tame\<close>). The retries of
  \<^verbatim>\<open>core/event_handlers.cpp\<close> rely on it: they take the client that the map names out of the
  table after its backend was closed.
\<close>

section \<open>What closing leaves alone\<close>

lemma count_static [simp]:
  "static (count_failure n key s) = static s" "static (count_routed n key s) = static s"
  "backend_to_client_map (count_failure n key s) = backend_to_client_map s"
  "backend_to_client_map (count_routed n key s) = backend_to_client_map s"
  by (simp_all add: count_failure_def count_routed_def)

text \<open>\<open>tame s s'\<close>: the static part is the same and no client is entered for a backend's descriptor.\<close>

definition tame :: "lb_state \<Rightarrow> lb_state \<Rightarrow> bool" where
  "tame s s' \<longleftrightarrow> static s' = static s \<and> (\<forall>f g. backend_to_client_map s' f = Some g \<longrightarrow> backend_to_client_map s f = Some g)"

lemma tame_refl [simp]: "tame s s"
  by (simp add: tame_def)

lemma tame_trans: "tame s s1 \<Longrightarrow> tame s1 s2 \<Longrightarrow> tame s s2"
  by (simp add: tame_def)

lemma tame_frame: "static s' = static s \<Longrightarrow> backend_to_client_map s' = backend_to_client_map s \<Longrightarrow> tame s s'"
  by (simp add: tame_def)

lemma with_conn_tame: "with_conn i g s = Some s' \<Longrightarrow> tame s s'"
  by (auto simp: with_conn_def bind_eq_Some_conv intro: tame_frame)

lemma ssl_free_tame: "ssl_free x s = Some s' \<Longrightarrow> tame s s'"
  by (auto simp: ssl_free_def split: option.splits if_splits intro: tame_frame)

lemma conn_close_tame:
  assumes "conn_close i s = Some s'" shows "tame s s'"
proof -
  obtain c s1 where c: "conn_heap s i = Some c"
    and s1: "ssl_free (ssl c) ((put_conn i (fst (shut release_bytes c (mem s))) s)\<lparr>mem := snd (shut release_bytes c (mem s))\<rparr>) = Some s1"
    and s': "(case peer c of None \<Rightarrow> Some (if conn_fd c \<ge> 0 then sys_close (conn_fd c) s1 else s1)
       | Some j \<Rightarrow> with_conn j (set_peer None) (if conn_fd c \<ge> 0 then sys_close (conn_fd c) s1 else s1)) = Some s'"
    using assms by (auto simp: conn_close_def bind_eq_Some_conv Let_def case_prod_unfold)
  have "tame s s1" using ssl_free_tame [OF s1] by (rule tame_trans [rotated]) (rule tame_frame, simp_all)
  moreover have "tame s1 (if conn_fd c \<ge> 0 then sys_close (conn_fd c) s1 else s1)" by (rule tame_frame) simp_all
  moreover have "tame (if conn_fd c \<ge> 0 then sys_close (conn_fd c) s1 else s1) s'"
    using s' by (auto split: option.splits dest: with_conn_tame)
  ultimately show ?thesis by (meson tame_trans)
qed

lemma destroy_tame: "destroy i s = Some s' \<Longrightarrow> tame s s'"
  by (auto simp: destroy_def bind_eq_Some_conv tame_def dest!: conn_close_tame)

lemma table_erase_tame: "table_erase f s = Some s' \<Longrightarrow> tame s s'"
  by (auto simp: table_erase_def tame_def split: option.splits dest!: destroy_tame)

lemma erase_key_None [simp]: "erase_key m f f = None"
  by (simp add: erase_key_def)

lemma erase_key_sub: "erase_key m f x = Some y \<Longrightarrow> m x = Some y"
  by (simp add: erase_key_def split: if_splits)

lemma forget_fd_tame: "tame s (forget_fd f s)" and forget_fd_b2c: "backend_to_client_map (forget_fd f s) f = None"
  by (auto simp: tame_def forget_fd_def untrack_backpressure_def Let_def upd_metrics_def static_def dest: erase_key_sub)

lemma untrack_tame: "tame s (untrack_backpressure f s)"
  by (auto simp: tame_def untrack_backpressure_def Let_def upd_metrics_def static_def)

lemma drop_slot_tame: "tame s (drop_backend_slot f e s)"
  by (auto simp: tame_def drop_backend_slot_def Let_def static_def upd_nodes_def split: option.splits)

lemma tame_del_fd: "tame s (del_fd f s)"
  by (rule tame_frame) simp_all

lemma tame_None: "tame s s' \<Longrightarrow> backend_to_client_map s f = None \<Longrightarrow> backend_to_client_map s' f = None"
  by (cases "backend_to_client_map s' f") (auto simp: tame_def)


text \<open>Closing: the descriptor and its peer are no longer in the map from backends to clients.\<close>

lemma destroy_all_tame: "destroy_all js s = Some s' \<Longrightarrow> tame s s'"
  by (induction js arbitrary: s) (auto simp: bind_eq_Some_conv dest: destroy_tame intro: tame_trans)

lemma release_to_pool_tame:
  assumes "release_to_pool k f i s = Some (b, s')" shows "tame s s'"
proof (cases "\<exists>pm info. pool_manager s = Some pm \<and> pooled_connections s f = Some info \<and> bi_host info \<noteq> []")
  case True
  then obtain pm info where pm: "pool_manager s = Some pm" "pooled_connections s f = Some info" "bi_host info \<noteq> []" by blast
  obtain c where c: "conn_heap s i = Some c" using assms pm by (auto simp: release_to_pool_def bind_eq_Some_conv)
  obtain c1 m where c1: "clear_buffers release_bytes c (mem s) = (c1, m)" by fastforce
  let ?s1 = "\<lambda>n pm'. (put_conn i (set_conn_state ESTABLISHED c1) s)\<lparr>mem := m, steps := n, pool_manager := pm'\<rparr>"
  obtain closed n pm' where "destroy_all closed (?s1 n pm') = Some s'"
    using assms pm c c1 by (auto simp: release_to_pool_def bind_eq_Some_conv ask_def Let_def split: prod.splits)
  moreover have "tame s (?s1 n pm')" by (rule tame_frame) simp_all
  ultimately show ?thesis by (meson tame_trans destroy_all_tame)
next
  case False
  then have "destroy i s = Some s'" using assms by (auto simp: release_to_pool_def bind_eq_Some_conv split: option.splits if_splits)
  then show ?thesis by (rule destroy_tame)
qed

lemma close_peer_tame:
  assumes "close_peer k b i j s = Some s'"
  shows "tame s s'"
proof -
  obtain d s1 where d: "conn_heap s j = Some d" and s1: "with_conn i (set_peer None) s = Some s1"
    using assms by (auto simp: close_peer_def bind_eq_Some_conv Let_def)
  show ?thesis
  proof (cases "get_connection (conn_fd d) s1")
    case None
    with assms d s1 show ?thesis by (auto simp: close_peer_def dest: with_conn_tame)
  next
    case (Some q)
    then obtain e where e: "conn_heap s1 q = Some e" using assms d s1 by (auto simp: close_peer_def bind_eq_Some_conv Let_def)
    show ?thesis
    proof (cases "conn_state e = CLOSED")
      case True
      with assms d s1 Some e have "table_erase (conn_fd d) s1 = Some s'" by (simp add: close_peer_def)
      with s1 show ?thesis by (meson tame_trans with_conn_tame table_erase_tame)
    next
      case False
      obtain s2 where s2: "with_conn q (set_peer None) s1 = Some s2"
        using assms d s1 Some e False by (auto simp: close_peer_def bind_eq_Some_conv Let_def)
      let ?s4 = "del_fd (conn_fd d) (forget_fd (conn_fd d) (drop_backend_slot (conn_fd d) (conn_state e = ESTABLISHED) s2))"
      let ?s4' = "table_remove (conn_fd d) ?s4"
      have "tame s2 ?s4" by (meson tame_trans drop_slot_tame forget_fd_tame tame_del_fd)
      with s1 s2 have s4: "tame s ?s4" "tame s ?s4'" by (meson tame_trans with_conn_tame tame_frame static_simple(10) b2c_simple(10))+
      consider (pool) r where "release_to_pool k (conn_fd d) q ?s4' = Some (r, s')"
        | (close) s5 where "conn_close q ?s4 = Some s5" "table_erase (conn_fd d) s5 = Some s'"
        using assms d s1 Some e False s2 by (auto simp: close_peer_def bind_eq_Some_conv Let_def split: if_splits)
      then show ?thesis
      proof cases
        case pool
        with s4(2) show ?thesis by (meson tame_trans release_to_pool_tame)
      next
        case close
        with s4(1) show ?thesis by (meson tame_trans conn_close_tame table_erase_tame)
      qed
    qed
  qed
qed

lemma close_peer_b2c:
  assumes "close_peer k b i j s = Some s'" and "pool_manager s = None" and "conn_heap s j = Some d"
    and "i \<noteq> j" and "get_connection (conn_fd d) s = Some j" and "conn_state d \<noteq> CLOSED"
  shows "backend_to_client_map s' (conn_fd d) = None"
proof -
  obtain s1 where s1: "with_conn i (set_peer None) s = Some s1"
    using assms by (auto simp: close_peer_def bind_eq_Some_conv Let_def)
  have e: "get_connection (conn_fd d) s1 = Some j" "conn_heap s1 j = Some d"
    using s1 assms by (auto simp: with_conn_def bind_eq_Some_conv put_conn_def get_connection_def)
  have pool: "pool_manager s1 = None" using with_conn_pool [OF s1] assms(2) by simp
  obtain s2 where s2: "with_conn j (set_peer None) s1 = Some s2"
    using assms s1 e by (auto simp: close_peer_def bind_eq_Some_conv Let_def)
  let ?s4 = "del_fd (conn_fd d) (forget_fd (conn_fd d) (drop_backend_slot (conn_fd d) (conn_state d = ESTABLISHED) s2))"
  have "pool_manager ?s4 = None" using with_conn_pool [OF s2] pool by simp
  then obtain s5 where s5: "conn_close j ?s4 = Some s5" "table_erase (conn_fd d) s5 = Some s'"
    using assms s1 e s2 by (auto simp: close_peer_def bind_eq_Some_conv Let_def)
  have "backend_to_client_map ?s4 (conn_fd d) = None" by (simp add: forget_fd_b2c)
  with s5 show ?thesis by (meson tame_None conn_close_tame table_erase_tame)
qed

lemma log_unfinished_tame: "tame s (log_unfinished_request k f c s)"
  by (auto simp: tame_def log_unfinished_request_def log_access_def clear_request_info_def ask_def Let_def upd_metrics_def
      static_def split: option.splits)

lemma tame_erase_where: "tame s (s\<lparr>backend_to_client_map := erase_where P (backend_to_client_map s)\<rparr>)"
  by (auto simp: tame_def erase_where_def split: option.splits if_splits)

lemma peer_entry:
  assumes inv: "lb_inv L s" and c: "conn_heap s i = Some c" "peer c = Some j"
  obtains d where "conn_heap s j = Some d" and "peer d = Some i" and "i \<noteq> j"
    and "get_connection (conn_fd d) s = Some j" and "(conn_fd d, j) \<in> set (connections s)"
proof -
  note h = lb_inv_heap [OF inv]
  obtain d where d: "conn_heap s j = Some d" "peer d = Some i" "j \<noteq> i" using heap_inv_peer [OF h c] by metis
  have "j \<in> snd ` set (connections s)" using h c by (auto simp: heap_inv_def linked_def)
  then obtain f where f: "(f, j) \<in> set (connections s)" by auto
  then have "map_option conn_fd (conn_heap s j) = Some f" using inv by (auto simp: lb_inv_def table_inv_def)
  then have "f = conn_fd d" using d by simp
  moreover have "distinct (map fst (connections s))" using inv by (simp add: lb_inv_def table_inv_def)
  ultimately show ?thesis using that d f by (simp add: get_connection_def)
qed

lemma close_connection_b2c:
  assumes good: "lb_good L s" and pool: "pool_manager s = None" and g: "get_connection f s = Some i"
    and run: "close_connection k f s = Some s'"
  shows "tame s s'" and "backend_to_client_map s' f = None"
    and "\<And>h. peer_fd s f = Some h \<Longrightarrow> backend_to_client_map s' h = None"
proof -
  have inv: "lb_inv L s" and st: "table_states_ok s" using good by (simp_all add: lb_good_def)
  obtain c where c: "conn_heap s i = Some c" "conn_fd c = f" using get_connection_live [OF inv g] by blast
  have open_c: "conn_state c \<noteq> CLOSED" using st get_connection_in [OF g] c by (auto simp: table_states_ok_def)
  define b where "b = (backend_connections s f = None)"
  define s3 where "s3 = upd_metrics (add_bytes_out (of_nat (bytes_written c)))
      (upd_metrics (add_bytes_in (of_nat (bytes_read c)))
        (put_conn i (set_conn_state CLOSED c) (drop_backend_slot f (conn_state c = ESTABLISHED) s)))"
  define s5 where "s5 = forget_fd f (if b then upd_metrics decrement_connections_active (log_unfinished_request k f c s3) else s3)"
  define s6 where "s6 = s5\<lparr>backend_to_client_map := erase_where (\<lambda>g. g = f) (backend_to_client_map s5)\<rparr>"
  have "(do { s7 \<leftarrow> (case peer c of None \<Rightarrow> Some s6 | Some j \<Rightarrow> close_peer k b i j s6);
      s8 \<leftarrow> conn_close i (del_fd f s7); table_erase f s8 }) = Some s'"
    using run g c open_c unfolding close_connection_def Let_def b_def s3_def s5_def s6_def by simp
  then obtain s7 s8 where s7: "(case peer c of None \<Rightarrow> Some s6 | Some j \<Rightarrow> close_peer k b i j s6) = Some s7"
    and s8: "conn_close i (del_fd f s7) = Some s8" "table_erase f s8 = Some s'"
    unfolding bind_eq_Some_conv by blast
  have t3: "tame s s3"
    unfolding s3_def using drop_slot_tame [of s f] by (rule tame_trans) (rule tame_frame, simp_all)
  define s4 where "s4 = (if b then upd_metrics decrement_connections_active (log_unfinished_request k f c s3) else s3)"
  have t4: "tame s3 s4" using log_unfinished_tame [of s3 k f c] by (auto simp: tame_def s4_def)
  have s5: "s5 = forget_fd f s4" by (simp add: s5_def s4_def)
  have t5: "tame s4 s5" "backend_to_client_map s5 f = None" unfolding s5 by (rule forget_fd_tame) (rule forget_fd_b2c)
  have t56: "tame s5 s6" unfolding s6_def by (rule tame_erase_where)
  have t6: "tame s s6" "backend_to_client_map s6 f = None"
    using tame_trans [OF tame_trans [OF t3 t4] tame_trans [OF t5(1) t56]] tame_None [OF t56 t5(2)] by simp_all
  have pool6: "pool_manager s6 = None" using pool by (simp add: s6_def s5_def s3_def)
  have t7: "tame s6 s7"
  proof (cases "peer c")
    case (Some j)
    with s7 show ?thesis using close_peer_tame by simp
  qed (use s7 in simp)
  have t8: "tame s7 s'" using s8 by (meson tame_trans tame_del_fd conn_close_tame table_erase_tame)
  show "tame s s'" using t6(1) t7 t8 by (meson tame_trans)
  show "backend_to_client_map s' f = None" using tame_None [OF t8 tame_None [OF t7 t6(2)]] .
  show "backend_to_client_map s' h = None" if h: "peer_fd s f = Some h" for h
  proof -
    obtain j d where j: "peer c = Some j" "conn_heap s j = Some d" "conn_fd d = h"
      using h g c by (auto simp: peer_fd_def conn_at_def split: option.splits)
    have ij: "i \<noteq> j" and tab: "get_connection h s = Some j" "(h, j) \<in> set (connections s)"
      using peer_entry [OF inv c(1) j(1)] j by (metis option.inject)+
    have st_d: "conn_state d \<noteq> CLOSED" using st tab(2) j(2) by (auto simp: table_states_ok_def)
    have "conn_heap s6 j = Some d" "get_connection (conn_fd d) s6 = Some j"
      using j ij tab(1) by (simp_all add: s6_def s5_def s3_def get_connection_def)
    moreover have "close_peer k b i j s6 = Some s7" using s7 j(1) by simp
    ultimately have "backend_to_client_map s7 h = None"
      using close_peer_b2c [OF _ pool6 _ ij] st_d j(3) by metis
    then show ?thesis using tame_None [OF t8] by blast
  qed
qed

lemma close_backend_only_b2c:
  assumes run: "close_backend_connection_only f s = Some s'" and g: "get_connection f s = Some i"
  shows "tame s s'" and "backend_to_client_map s' f = None"
proof -
  obtain c s1 s2 s6 where c: "conn_heap s i = Some c"
    and s1: "(case peer c of None \<Rightarrow> Some s | Some j \<Rightarrow> with_conn j (set_peer None) s) = Some s1"
    and s2: "with_conn i (set_conn_state CLOSED) s1 = Some s2"
    and s6: "conn_close i (del_fd f ((untrack_backpressure f ((drop_backend_slot f (conn_state c = ESTABLISHED) s2)
        \<lparr>connection_times := erase_key (connection_times (drop_backend_slot f (conn_state c = ESTABLISHED) s2)) f\<rparr>))
        \<lparr>backend_to_client_map := erase_key (backend_to_client_map (untrack_backpressure f ((drop_backend_slot f (conn_state c = ESTABLISHED) s2)
        \<lparr>connection_times := erase_key (connection_times (drop_backend_slot f (conn_state c = ESTABLISHED) s2)) f\<rparr>))) f\<rparr>)) = Some s6"
    and s': "table_erase f s6 = Some s'"
    using run g by (auto simp: close_backend_connection_only_def bind_eq_Some_conv Let_def)
  let ?s3 = "drop_backend_slot f (conn_state c = ESTABLISHED) s2"
  let ?s4 = "untrack_backpressure f (?s3\<lparr>connection_times := erase_key (connection_times ?s3) f\<rparr>)"
  let ?s5 = "del_fd f (?s4\<lparr>backend_to_client_map := erase_key (backend_to_client_map ?s4) f\<rparr>)"
  have "tame s s1" using s1 by (auto split: option.splits dest: with_conn_tame)
  then have "tame s s2" using s2 by (meson tame_trans with_conn_tame)
  moreover have "tame s2 ?s3" by (rule drop_slot_tame)
  moreover have "tame ?s3 (?s3\<lparr>connection_times := erase_key (connection_times ?s3) f\<rparr>)" by (rule tame_frame) simp_all
  moreover have "tame (?s3\<lparr>connection_times := erase_key (connection_times ?s3) f\<rparr>) ?s4" by (rule untrack_tame)
  moreover have "tame ?s4 ?s5" by (auto simp: tame_def dest: erase_key_sub)
  moreover have t6: "tame ?s5 s'" using s6 s' by (meson tame_trans conn_close_tame table_erase_tame)
  ultimately show "tame s s'" by (meson tame_trans)
  have "backend_to_client_map ?s5 f = None" by simp
  with t6 show "backend_to_client_map s' f = None" by (rule tame_None)
qed

section \<open>How backends and clients are wired\<close>

text \<open>
  The map from backends to clients only has entries for peers in the table, and the client is
  not itself a backend; a connection whose TLS handshake is under way has no peer yet.
\<close>

definition wired :: "lb_state \<Rightarrow> bool" where
  "wired s \<longleftrightarrow>
     (\<forall>f g. backend_to_client_map s f = Some g \<longrightarrow>
        backend_connections s g = None \<and>
        (\<exists>j. get_connection g s = Some j \<and> map_option peer (conn_at s f) = Some (Some j))) \<and>
     (\<forall>f c. conn_at s f = Some c \<longrightarrow> conn_state c = HANDSHAKE \<longrightarrow> peer c = None \<and> backend_connections s f = None)"

lemma wired_shape:
  assumes "wired s" and shape: "same_shape s s'" and b: "backend_to_client_map s' = backend_to_client_map s"
  shows "wired s'"
proof -
  note at = same_shape_at [OF shape]
  have "map_option peer (conn_at s' f) = map_option peer (conn_at s f)" for f
    using at(1) [of f] by (cases "conn_at s f"; cases "conn_at s' f") (auto simp: conn_core_def)
  moreover have "\<exists>c0. conn_at s f = Some c0 \<and> conn_state c0 = conn_state c \<and> peer c0 = peer c" if "conn_at s' f = Some c" for f c
    using at(1) [of f] that by (cases "conn_at s f") (auto simp: conn_core_def)
  moreover have "backend_connections s' = backend_connections s" using shape by (simp add: same_shape_def)
  ultimately show ?thesis using assms(1) unfolding wired_def b at(2) by metis
qed

text \<open>The connections that stay keep their descriptors, states and peers.\<close>

lemma wired_after:
  assumes w: "wired s" and tame: "tame s s'"
    and keep: "\<And>f g. backend_to_client_map s' f = Some g \<Longrightarrow>
      get_connection g s' = get_connection g s \<and> map_option peer (conn_at s' f) = map_option peer (conn_at s f)"
    and bck: "\<And>f n. backend_connections s' f = Some n \<Longrightarrow> backend_connections s f = Some n"
    and old: "\<And>f c'. conn_at s' f = Some c' \<Longrightarrow> conn_state c' = HANDSHAKE \<Longrightarrow>
      \<exists>c. conn_at s f = Some c \<and> conn_state c = HANDSHAKE \<and> (peer c = None \<longrightarrow> peer c' = None)"
  shows "wired s'"
  unfolding wired_def
proof (intro conjI allI impI)
  fix f g assume fg: "backend_to_client_map s' f = Some g"
  then have "backend_to_client_map s f = Some g" using tame by (simp add: tame_def)
  with w have *: "backend_connections s g = None" "\<exists>j. get_connection g s = Some j \<and> map_option peer (conn_at s f) = Some (Some j)"
    by (auto simp: wired_def)
  show "backend_connections s' g = None" using *(1) bck by (cases "backend_connections s' g") auto
  show "\<exists>j. get_connection g s' = Some j \<and> map_option peer (conn_at s' f) = Some (Some j)" using *(2) keep [OF fg] by simp
next
  fix f c' assume "conn_at s' f = Some c'" "conn_state c' = HANDSHAKE"
  then obtain c where c: "conn_at s f = Some c" "conn_state c = HANDSHAKE" "peer c = None \<longrightarrow> peer c' = None" using old by metis
  with w have "peer c = None" "backend_connections s f = None" by (auto simp: wired_def)
  with c(3) bck show "peer c' = None" "backend_connections s' f = None"
    by (auto) (cases "backend_connections s' f"; auto)
qed

lemma peer_fd_of:
  assumes inv: "lb_inv L s" and f: "map_option peer (conn_at s f) = Some (Some j)" and g: "get_connection g s = Some j"
  shows "peer_fd s f = Some g" and "peer_fd s g = Some f"
proof -
  obtain i c where i: "get_connection f s = Some i" "conn_heap s i = Some c" "peer c = Some j"
    using f by (auto simp: conn_at_def split: option.splits)
  obtain d where d: "conn_heap s j = Some d" "conn_fd d = g" using get_connection_live [OF inv g] by blast
  show "peer_fd s f = Some g" using i d by (simp add: peer_fd_def conn_at_def)
  have "peer d = Some i" using heap_inv_peer [OF lb_inv_heap [OF inv] i(2,3)] d by (metis option.inject)
  moreover have "conn_fd c = f" using get_connection_live [OF inv i(1)] i(2) by auto
  ultimately show "peer_fd s g = Some f" using g d i by (simp add: peer_fd_def conn_at_def)
qed

lemma wired_close:
  assumes good: "lb_good L s" and pool: "pool_manager s = None" and w: "wired s" and run: "close_connection k f s = Some s'"
  shows "wired s'" and "tame s s'"
proof -
  have *: "wired s' \<and> tame s s'"
  proof (cases "get_connection f s")
    case None
    then have "s' = s" using run by (simp add: close_connection_def)
    then show ?thesis using w by simp
  next
    case (Some i)
    have inv: "lb_inv L s" and st: "table_states_ok s" using good by (simp_all add: lb_good_def)
    note b2c = close_connection_b2c [OF good pool Some run]
    obtain g: "gone f (peer_fd s f) s s'" and bc: "backend_connections s' = (case peer_fd s f of None \<Rightarrow> erase_key (backend_connections s) f
           | Some h \<Rightarrow> erase_key (erase_key (backend_connections s) f) h)"
      using close_connection_ok [OF inv st Some, of k] run by (metis option.inject)
    have kept: "get_connection h s' = get_connection h s \<and> conn_at s' h = conn_at s h" if "h \<noteq> f" "peer_fd s f \<noteq> Some h" for h
      using that g by (auto simp: gone_def)
    have "wired s'"
    proof (rule wired_after [OF w b2c(1)])
      fix x y assume xy: "backend_to_client_map s' x = Some y"
      then have ne: "x \<noteq> f" "peer_fd s f \<noteq> Some x" using b2c(2,3) by force+
      from xy b2c(1) w obtain j where j: "get_connection y s = Some j" "map_option peer (conn_at s x) = Some (Some j)"
        unfolding tame_def wired_def by metis
      note p = peer_fd_of [OF inv j(2,1)]
      have "y \<noteq> f" using p ne(2) by auto
      moreover have "peer_fd s f \<noteq> Some y"
      proof
        assume a: "peer_fd s f = Some y"
        then obtain c j' where c: "conn_at s f = Some c" "peer c = Some j'" by (auto simp: peer_fd_def split: option.splits)
        then have "conn_heap s i = Some c" using Some by (simp add: conn_at_def)
        then obtain d where d: "conn_heap s j' = Some d" "get_connection (conn_fd d) s = Some j'"
          using peer_entry [OF inv _ c(2)] by metis
        then have "conn_fd d = y" using a c by (simp add: peer_fd_def)
        then have "peer_fd s y = Some f" using peer_fd_of(2) [OF inv, of f j' y] c d by simp
        with p ne show False by simp
      qed
      ultimately show "get_connection y s' = get_connection y s \<and> map_option peer (conn_at s' x) = map_option peer (conn_at s x)"
        using kept ne by simp
    next
      fix x n assume "backend_connections s' x = Some n"
      then show "backend_connections s x = Some n" unfolding bc by (auto split: option.splits dest!: erase_key_sub)
    next
      fix x c' assume x: "conn_at s' x = Some c'" "conn_state c' = HANDSHAKE"
      have "x \<noteq> f" "peer_fd s f \<noteq> Some x" using x(1) g by (auto simp: gone_def conn_at_def)
      with x kept show "\<exists>c. conn_at s x = Some c \<and> conn_state c = HANDSHAKE \<and> (peer c = None \<longrightarrow> peer c' = None)" by auto
    qed
    with b2c(1) show ?thesis by simp
  qed
  then show "wired s'" and "tame s s'" by simp_all
qed

text \<open>A descriptor whose connection, if it is in the table, was opened to a backend.\<close>

definition is_backend :: "fd \<Rightarrow> lb_state \<Rightarrow> bool" where
  "is_backend f s \<longleftrightarrow> get_connection f s = None \<or> backend_connections s f \<noteq> None"

lemma is_backend_shape: "same_shape s s' \<Longrightarrow> is_backend f s' = is_backend f s"
  by (simp add: is_backend_def same_shape_def get_connection_def)

lemma is_backend_close:
  assumes good: "lb_good L s" and b: "is_backend h s" and run: "close_connection k f s = Some s'"
  shows "is_backend h s'"
proof (cases "get_connection f s")
  case None
  then show ?thesis using run b by (simp add: close_connection_def)
next
  case (Some i)
  have inv: "lb_inv L s" "table_states_ok s" using good by (simp_all add: lb_good_def)
  obtain g: "gone f (peer_fd s f) s s'" and bc: "backend_connections s' = (case peer_fd s f of None \<Rightarrow> erase_key (backend_connections s) f
         | Some h \<Rightarrow> erase_key (erase_key (backend_connections s) f) h)"
    using close_connection_ok [OF inv Some, of k] run by (metis option.inject)
  show ?thesis
  proof (cases "h = f \<or> peer_fd s f = Some h")
    case True
    then show ?thesis using g by (auto simp: is_backend_def gone_def)
  next
    case False
    then have "backend_connections s' h = backend_connections s h" by (auto simp: bc erase_key_def split: option.splits)
    then show ?thesis using b g False by (auto simp: is_backend_def gone_def)
  qed
qed

lemma wired_close_backend_only:
  assumes good: "lb_good L s" and w: "wired s" and be: "is_backend f s" and run: "close_backend_connection_only f s = Some s'"
  shows "wired s'" and "tame s s'" and "get_connection f s \<noteq> None \<Longrightarrow> backend_to_client_map s' f = None"
proof -
  have *: "wired s' \<and> tame s s' \<and> (get_connection f s \<noteq> None \<longrightarrow> backend_to_client_map s' f = None)"
  proof (cases "get_connection f s")
    case None
    then have "s' = s" using run by (simp add: close_backend_connection_only_def)
    then show ?thesis using w None by simp
  next
    case (Some i)
    have inv: "lb_inv L s" and st: "table_states_ok s" using good by (simp_all add: lb_good_def)
    note b2c = close_backend_only_b2c [OF run Some]
    obtain c where c: "conn_at s f = Some c" and T: "connections s' = AList.delete f (connections s)"
      and x: "\<forall>x. x \<noteq> i \<longrightarrow> peer c \<noteq> Some x \<longrightarrow> conn_heap s' x = conn_heap s x"
      and j: "\<forall>j. peer c = Some j \<longrightarrow> conn_heap s' j = map_option (set_peer None) (conn_heap s j)"
      and bc: "backend_connections s' = erase_key (backend_connections s) f"
      using close_backend_connection_only_ok [OF inv st Some] run by (metis option.inject)
    have ci: "conn_heap s i = Some c" using c Some by (simp add: conn_at_def)
    have g: "get_connection h s' = (if h = f then None else get_connection h s)" for h
      using T by (simp add: get_connection_def AList.delete_conv')
    have ne: "y \<noteq> i" if "get_connection h s = Some y" "h \<noteq> f" for h y
      using connections_key_unique [OF inv, of h y f] that get_connection_in [OF that(1)] get_connection_in [OF Some] by blast
    have "wired s'"
    proof (rule wired_after [OF w b2c(1)])
      fix a b assume ab: "backend_to_client_map s' a = Some b"
      then have af: "a \<noteq> f" using b2c(2) by auto
      from ab b2c(1) w obtain y where y: "get_connection b s = Some y" "map_option peer (conn_at s a) = Some (Some y)"
        unfolding tame_def wired_def by metis
      have "backend_connections s b = None" using ab b2c(1) w unfolding tame_def wired_def by metis
      then have bf: "b \<noteq> f" using be Some by (auto simp: is_backend_def)
      from y(2) obtain z ca where z: "get_connection a s = Some z" "conn_heap s z = Some ca" "peer ca = Some y"
        by (auto simp: conn_at_def split: option.splits)
      have "peer c \<noteq> Some z"
      proof
        assume "peer c = Some z"
        then have "peer ca = Some i" using peer_entry [OF inv ci] z by (metis option.inject)
        then show False using z y(1) ne bf by auto
      qed
      then have "conn_heap s' z = conn_heap s z" using x ne [OF z(1) af] by simp
      then show "get_connection b s' = get_connection b s \<and> map_option peer (conn_at s' a) = map_option peer (conn_at s a)"
        using g af bf z by (simp add: conn_at_def)
    next
      fix a n assume "backend_connections s' a = Some n"
      then show "backend_connections s a = Some n" unfolding bc by (rule erase_key_sub)
    next
      fix a c' assume a: "conn_at s' a = Some c'" "conn_state c' = HANDSHAKE"
      then have af: "a \<noteq> f" using g by (auto simp: conn_at_def)
      from a(1) obtain z where z: "get_connection a s = Some z" "conn_heap s' z = Some c'"
        using g by (auto simp: conn_at_def split: option.splits if_splits)
      show "\<exists>c. conn_at s a = Some c \<and> conn_state c = HANDSHAKE \<and> (peer c = None \<longrightarrow> peer c' = None)"
        using x j ne [OF z(1) af] z a(2) by (cases "peer c = Some z"; cases "conn_heap s z") (auto simp: conn_at_def)
    qed
    with b2c show ?thesis by simp
  qed
  then show "wired s'" and "tame s s'" and "get_connection f s \<noteq> None \<Longrightarrow> backend_to_client_map s' f = None" by simp_all
qed

end
