(* ===== verification/Connector_Safety.thy ===== *)
theory Connector_Safety
  imports Connection_Wiring
begin

text \<open>
  What \<open>BackendConnector::connect\<close> (\<^verbatim>\<open>core/backend_connector.cpp\<close>) and the retries of
  \<^verbatim>\<open>core/retry_handler.cpp\<close> keep of the invariants of the connection tables: every attempt
  returns, and in the end the client connection is destroyed or in the table with a peer.
\<close>

section \<open>Connecting keeps the invariants\<close>

subsection \<open>New, borrowed and paired connections\<close>

lemma lb_inv_no_peer:
  assumes inv: "lb_inv (L1 @ i # L2) s" and c: "conn_heap s i = Some c"
  shows "peer c = None"
proof (rule ccontr)
  assume "peer c \<noteq> None"
  then obtain j where j: "peer c = Some j" by blast
  note h = lb_inv_heap [OF inv]
  obtain d where "conn_heap s j = Some d" "peer d = Some i" using heap_inv_peer [OF h c j] by metis
  with h have "i \<in> snd ` set (connections s)" by (auto simp: heap_inv_def linked_def)
  with inv show False by (auto simp: lb_inv_def owned_def)
qed

lemma lb_inv_loose:
  assumes "lb_inv (L1 @ i # L2) s"
  obtains c where "conn_heap s i = Some c" and "peer c = None" and "0 \<le> conn_fd c" and "conn_fd c \<in> open_fds s"
    and "get_connection (conn_fd c) s = None"
proof -
  have own: "i \<in> set (owned (L1 @ i # L2) s)" by (simp add: owned_def)
  then have "i \<in> dom (conn_heap s)" using lb_inv_heap [OF assms] by (simp add: heap_inv_def)
  then obtain c where c: "conn_heap s i = Some c" by blast
  have "get_connection (conn_fd c) s = None"
  proof (cases "get_connection (conn_fd c) s")
    case (Some j)
    with get_connection_of_fd [OF assms c Some] get_connection_in [OF Some] assms show ?thesis
      by (auto simp: lb_inv_def owned_def rev_image_eqI)
  qed
  with c lb_inv_no_peer [OF assms c] heap_inv_live [OF lb_inv_heap [OF assms] c] that show ?thesis by blast
qed

lemma lb_inv_open:
  assumes inv: "lb_inv L s" and f: "0 \<le> f" "f \<notin> open_fds s"
  shows "lb_inv (next_conn s # L) (snd (make_connection f (sys_open f s)))"
proof -
  let ?n = "next_conn s" and ?H = "(conn_heap s)(next_conn s \<mapsto> new_connection f)"
  note h = lb_inv_heap [OF inv]
  have new: "?n \<notin> set (owned L s)" using inv by (auto simp: lb_inv_def)
  then have none: "conn_heap s ?n = None" using h by (auto simp: heap_inv_def)
  have "conn_fd c \<noteq> f" if "conn_heap s x = Some c" for x c using heap_inv_live [OF h that] f by auto
  moreover have "linked ?H tab x y" if "linked (conn_heap s) tab x y" for tab x y
    using that none by (auto simp: linked_def)
  ultimately have "heap_inv ?H (insert ?n (set (owned L s))) (snd ` set (connections s)) (insert f (open_fds s)) (live_ssl s)"
    using h f by (auto simp: heap_inv_def new_connection_def split: if_splits)
  moreover have "table_inv (connections s) ?H (dom (backend_connections s))"
    using inv none unfolding lb_inv_def table_inv_def by (metis fun_upd_apply option.simps(8) option.distinct(1))
  moreover have "\<forall>i \<in> set (owned L s). i < Suc ?n" using inv by (auto simp: lb_inv_def less_Suc_eq)
  ultimately show ?thesis
    using inv new by (simp add: lb_inv_def make_connection_def sys_open_def owned_def put_conn_def)
qed

lemma heap_inv_link:
  assumes h: "heap_inv H own tab F X" and i: "H i = Some c" "peer c = None" and j: "H j = Some d" "peer d = None"
    and ij: "i \<noteq> j"
  shows "heap_inv (H(i \<mapsto> set_peer (Some j) c, j \<mapsto> set_peer (Some i) d)) own (insert i (insert j tab)) F X"
proof -
  let ?H = "H(i \<mapsto> set_peer (Some j) c, j \<mapsto> set_peer (Some i) d)"
  have old: "\<exists>e0. H x = Some e0 \<and> conn_fd e = conn_fd e0 \<and> ssl e = ssl e0 \<and>
      (x \<noteq> i \<and> x \<noteq> j \<longrightarrow> e = e0)" if "?H x = Some e" for x e
    using that i j by (auto split: if_splits)
  have "linked ?H (insert i (insert j tab)) x y" if e: "?H x = Some e" "peer e = Some y" for x y e
  proof (cases "x = i \<or> x = j")
    case True
    with e ij show ?thesis by (auto simp: linked_def split: if_splits)
  next
    case False
    with e have "H x = Some e" by simp
    with e h have l: "linked H tab x y" by (auto simp: heap_inv_def)
    then have "y \<noteq> i" "y \<noteq> j" using i j by (auto simp: linked_def)
    with l show ?thesis by (auto simp: linked_def)
  qed
  moreover have "0 \<le> conn_fd e \<and> conn_fd e \<in> F \<and> set_option (ssl e) \<subseteq> X" if "?H x = Some e" for x e
    using old [OF that] h unfolding heap_inv_def by metis
  moreover have "conn_fd e \<noteq> conn_fd e' \<and> set_option (ssl e) \<inter> set_option (ssl e') = {}"
    if "?H x = Some e" "?H y = Some e'" "x \<noteq> y" for x y e e'
    using old [OF that(1)] old [OF that(2)] that(3) h unfolding heap_inv_def by metis
  moreover have "dom ?H = own" using h i j by (auto simp: heap_inv_def)
  ultimately show ?thesis by (simp only: heap_inv_def) blast
qed

lemma update_new_key: "map_of T k = None \<Longrightarrow> AList.update k v T = T @ [(k, v)]"
  by (induction T) (auto split: if_splits)

lemma table_put_new:
  "get_connection f s = None \<Longrightarrow> table_put f i s = Some (s\<lparr>connections := connections s @ [(f, i)]\<rparr>)"
  by (simp add: table_put_def get_connection_def update_new_key Let_def)


definition enter_pair :: "conn_id \<Rightarrow> Connection \<Rightarrow> conn_id \<Rightarrow> Connection \<Rightarrow> node_id \<Rightarrow> lb_state \<Rightarrow> lb_state" where
  "enter_pair i c j d n s =
     s\<lparr>conn_heap := (conn_heap s)(i \<mapsto> set_peer (Some j) c, j \<mapsto> set_peer (Some i) d),
       connections := connections s @ [(conn_fd c, i), (conn_fd d, j)],
       backend_connections := (backend_connections s)(conn_fd d \<mapsto> n)\<rparr>"

lemma lb_inv_enter_pair:
  assumes inv: "lb_inv (i # j # L) s" and i: "conn_heap s i = Some c" and j: "conn_heap s j = Some d"
  shows "lb_inv L (enter_pair i c j d n s)"
proof -
  have p: "peer c = None" "peer d = None"
    using lb_inv_no_peer [of "[]" i "j # L"] lb_inv_no_peer [of "[i]" j L] inv i j by simp_all
  have ij: "i \<noteq> j" using inv by (auto simp: lb_inv_def owned_def)
  have free: "get_connection (conn_fd c) s = None" "get_connection (conn_fd d) s = None"
    using lb_inv_loose [of "[]" i "j # L" s] lb_inv_loose [of "[i]" j L s] inv i j by auto
  have fds: "conn_fd c \<noteq> conn_fd d" using lb_inv_heap [OF inv] i j ij by (auto simp: heap_inv_def)
  let ?T = "connections s @ [(conn_fd c, i), (conn_fd d, j)]"
  let ?H = "(conn_heap s)(i \<mapsto> set_peer (Some j) c, j \<mapsto> set_peer (Some i) d)"
  have "heap_inv ?H (set (owned (i # j # L) s)) (snd ` set ?T) (open_fds s) (live_ssl s)"
    using heap_inv_link [OF lb_inv_heap [OF inv] i p(1) j p(2) ij] by (simp add: insert_commute)
  moreover have "table_inv ?T ?H (dom ((backend_connections s)(conn_fd d \<mapsto> n)))"
  proof -
    have "fst ` set (connections s) = dom (map_of (connections s))" by (simp add: dom_map_of_conv_image_fst)
    then have "conn_fd c \<notin> fst ` set (connections s)" "conn_fd d \<notin> fst ` set (connections s)"
      using free by (auto simp: get_connection_def)
    moreover have "map_option conn_fd (?H x) = Some f" if "(f, x) \<in> set (connections s)" for f x
      using that inv i j by (fastforce simp: lb_inv_def table_inv_def)
    moreover have "dom (backend_connections s) \<subseteq> fst ` set (connections s)" "distinct (map fst (connections s))"
      using inv by (simp_all add: lb_inv_def table_inv_def)
    ultimately show ?thesis using fds by (auto simp: table_inv_def ij)
  qed
  moreover have "mset (owned L (enter_pair i c j d n s)) = mset (owned (i # j # L) s)"
    by (simp add: owned_def enter_pair_def)
  then have "distinct (owned L (enter_pair i c j d n s))" "set (owned L (enter_pair i c j d n s)) = set (owned (i # j # L) s)"
    using inv by (auto simp: lb_inv_def dest: mset_eq_setD mset_eq_imp_distinct_iff)
  ultimately show ?thesis using inv by (simp add: lb_inv_def) (simp add: enter_pair_def)
qed


subsection \<open>Steps that keep all invariants\<close>

lemma map_of_snd: "map_of T f = Some i \<Longrightarrow> i \<in> snd ` set T"
  by (force dest: map_of_SomeD)

lemma lb_good_core:
  assumes "lb_good L s" and "conn_heap s' = conn_heap s" and "connections s' = connections s"
    and "pool_manager s' = pool_manager s" and "open_fds s' = open_fds s" and "live_ssl s' = live_ssl s"
    and "backend_connections s' = backend_connections s" and "next_conn s \<le> next_conn s'"
    and "\<And>n. active_connections (nodes s' n) = active_connections (nodes s n)"
    and "backends (backend_pool s') = backends (backend_pool s)"
    and "hc_backends (health_checker s') = hc_backends (health_checker s)"
  shows "lb_good L s'"
proof -
  have "lb_inv L s'"
  proof -
    have own: "owned L s' = owned L s" using assms by (simp add: owned_def)
    have "\<forall>i \<in> set (owned L s). i < next_conn s'" using assms(1,8) by (auto simp: lb_good_def lb_inv_def)
    with assms own show ?thesis by (simp add: lb_good_def lb_inv_def)
  qed
  moreover have "est_fds s' n = est_fds s n" for n
    using assms(7) by (simp add: est_fds_def conn_at_core [OF assms(2,3)])
  then have "counters_exact s'" using assms by (simp add: lb_good_def counters_exact_def node_alive_def)
  ultimately show ?thesis using assms by (simp add: lb_good_def table_states_ok_def)
qed

lemma lb_good_put:
  assumes "lb_good L s" and "conn_heap s i = Some c"
    and "conn_fd c' = conn_fd c" "ssl c' = ssl c" "peer c' = peer c" "conn_state c' = conn_state c"
  shows "lb_good L (put_conn i c' s)"
  using assms by (intro lb_good_shape [OF assms(1)] put_conn_shape [OF assms(2)]) (simp add: conn_core_def)

lemma lb_good_loose:
  assumes "lb_good (L1 @ i # L2) s"
  obtains c where "conn_heap s i = Some c" and "peer c = None" and "0 \<le> conn_fd c" and "conn_fd c \<in> open_fds s"
    and "get_connection (conn_fd c) s = None"
proof -
  have "lb_inv (L1 @ i # L2) s" using assms by (simp add: lb_good_def)
  then show ?thesis by (rule lb_inv_loose) (rule that)
qed

text \<open>A connection that no table knows is closed and destroyed.\<close>

lemma close_and_destroy_eq: "destructible i c s \<Longrightarrow> close_and_destroy i s = Some (buried i c s)"
  by (cases "ssl c")
     (auto simp: close_and_destroy_def destroy_def conn_close_def destructible_def ssl_free_def sys_close_def
       put_conn_def shut_def buried_def release_bytes_def split: prod.splits)

lemma lb_good_buried:
  assumes good: "lb_good (i # L) s" and c: "conn_heap s i = Some c"
  shows "lb_good L (buried i c s)" and "destructible i c s"
proof -
  have inv: "lb_inv (i # L) s" using good by (simp add: lb_good_def)
  have p: "peer c = None" using lb_inv_no_peer [of "[]" i L s] inv c by simp
  show "destructible i c s" using lb_inv_destructible [OF inv c p] .
  have "i \<notin> snd ` set (connections s)" using inv by (auto simp: lb_inv_def owned_def)
  then have "conn_at (buried i c s) f = conn_at s f" for f
    by (auto simp: conn_at_def get_connection_def split: option.splits dest: map_of_snd)
  then have "est_fds (buried i c s) n = est_fds s n" for n by (simp add: est_fds_def)
  then have "counters_exact (buried i c s)" using good by (simp add: lb_good_def counters_exact_def node_alive_def)
  moreover have "table_states_ok (buried i c s)"
    using good by (auto simp: lb_good_def table_states_ok_def)
  ultimately show "lb_good L (buried i c s)"
    using lb_inv_buried [OF inv c p] by (simp add: lb_good_def)
qed

lemma close_and_destroy_good:
  assumes "lb_good (i # L) s"
  obtains s' c where "conn_heap s i = Some c" and "close_and_destroy i s = Some s'" and "lb_good L s'" and "s' = buried i c s"
proof -
  obtain c where c: "conn_heap s i = Some c" using lb_good_loose [of "[]" i L s] assms by auto
  from lb_good_buried [OF assms c] close_and_destroy_eq c that show ?thesis by blast
qed

lemma lb_good_open:
  assumes good: "lb_good L s" and f: "0 \<le> f" "f \<notin> open_fds s"
  shows "lb_good (next_conn s # L) (snd (make_connection f (sys_open f s)))"
proof -
  let ?s = "snd (make_connection f (sys_open f s))"
  have inv: "lb_inv L s" using good by (simp add: lb_good_def)
  have new: "next_conn s \<notin> snd ` set (connections s)" using inv by (auto simp: lb_inv_def owned_def)
  have H: "conn_heap ?s = (conn_heap s)(next_conn s \<mapsto> new_connection f)" "connections ?s = connections s"
    "backend_connections ?s = backend_connections s" "nodes ?s = nodes s" "backend_pool ?s = backend_pool s"
    "health_checker ?s = health_checker s"
    by (simp_all add: make_connection_def sys_open_def)
  have "conn_at ?s g = conn_at s g" for g
    using new by (auto simp: conn_at_def get_connection_def H split: option.splits dest: map_of_snd)
  then have "est_fds ?s n = est_fds s n" for n by (simp add: est_fds_def H)
  then have "counters_exact ?s" using good by (simp add: lb_good_def counters_exact_def node_alive_def H)
  moreover have "table_states_ok ?s"
    using good by (auto simp: lb_good_def table_states_ok_def H new_connection_def split: if_splits)
  ultimately show ?thesis using lb_inv_open [OF inv f] by (simp add: lb_good_def)
qed

subsection \<open>Entering the pair\<close>

lemma enter_pair_frame [simp]:
  "conn_heap (enter_pair i c j d n s) = (conn_heap s)(i \<mapsto> set_peer (Some j) c, j \<mapsto> set_peer (Some i) d)"
  "connections (enter_pair i c j d n s) = connections s @ [(conn_fd c, i), (conn_fd d, j)]"
  "backend_connections (enter_pair i c j d n s) = (backend_connections s)(conn_fd d \<mapsto> n)"
  "nodes (enter_pair i c j d n s) = nodes s" "backend_pool (enter_pair i c j d n s) = backend_pool s"
  "health_checker (enter_pair i c j d n s) = health_checker s" "pool_manager (enter_pair i c j d n s) = pool_manager s"
  "open_fds (enter_pair i c j d n s) = open_fds s" "live_ssl (enter_pair i c j d n s) = live_ssl s"
  "next_conn (enter_pair i c j d n s) = next_conn s" "bad_closes (enter_pair i c j d n s) = bad_closes s"
  by (simp_all add: enter_pair_def)

lemma conn_at_enter_pair:
  assumes inv: "lb_inv (i # j # L) s" and i: "conn_heap s i = Some c" and j: "conn_heap s j = Some d"
  shows "conn_at (enter_pair i c j d n s) f =
    (if f = conn_fd c then Some (set_peer (Some j) c) else if f = conn_fd d then Some (set_peer (Some i) d)
     else conn_at s f)"
proof -
  have ij: "i \<noteq> j" "i \<notin> snd ` set (connections s)" "j \<notin> snd ` set (connections s)"
    using inv by (auto simp: lb_inv_def owned_def)
  have free: "get_connection (conn_fd c) s = None" "get_connection (conn_fd d) s = None"
    using lb_inv_loose [of "[]" i "j # L" s] lb_inv_loose [of "[i]" j L s] inv i j by auto
  have fds: "conn_fd c \<noteq> conn_fd d" using lb_inv_heap [OF inv] i j ij(1) by (auto simp: heap_inv_def)
  show ?thesis
    using free fds ij
    by (auto simp: conn_at_def get_connection_def map_add_def split: option.splits dest: map_of_snd)
qed

text \<open>The counter of the backend goes up by one exactly when the connection is established.\<close>

lemma lb_good_enter_pair:
  assumes good: "lb_good (i # j # L) s" and i: "conn_heap s i = Some c" "conn_state c \<noteq> CLOSED"
    and j: "conn_heap s j = Some d" "conn_state d \<noteq> CLOSED"
    and few: "card (est_fds s n) + 1 < 2 ^ 32"
    and s': "nodes s' = (if conn_state d = ESTABLISHED then upd_node n increment_connections (nodes s) else nodes s)"
    and core: "conn_heap s' = conn_heap (enter_pair i c j d n s)" "connections s' = connections (enter_pair i c j d n s)"
      "backend_connections s' = backend_connections (enter_pair i c j d n s)" "pool_manager s' = pool_manager s"
      "open_fds s' = open_fds s" "live_ssl s' = live_ssl s" "next_conn s' = next_conn s"
      "backends (backend_pool s') = backends (backend_pool s)" "hc_backends (health_checker s') = hc_backends (health_checker s)"
  shows "lb_good L s'"
proof -
  let ?e = "enter_pair i c j d n s"
  have inv: "lb_inv (i # j # L) s" using good by (simp add: lb_good_def)
  have inv': "lb_inv L s'"
    using lb_inv_enter_pair [OF inv i(1) j(1), of n] by (rule lb_inv_core [rotated -1]) (simp_all add: core)
  have at: "conn_at s' f = conn_at ?e f" for f by (rule conn_at_core) (simp_all add: core)
  note at' = conn_at_enter_pair [OF inv i(1) j(1), of n]
  have free: "get_connection (conn_fd c) s = None" "get_connection (conn_fd d) s = None"
    using lb_inv_loose [of "[]" i "j # L" s] lb_inv_loose [of "[i]" j L s] inv i j by auto
  then have nb: "backend_connections s (conn_fd c) = None" "backend_connections s (conn_fd d) = None"
    using inv by (force simp: lb_inv_def table_inv_def get_connection_def map_of_eq_None_iff)+
  have fds: "conn_fd c \<noteq> conn_fd d" using lb_inv_heap [OF inv] i j inv by (auto simp: heap_inv_def lb_inv_def owned_def)
  have est: "est_fds s' m = (if m = n \<and> conn_state d = ESTABLISHED then insert (conn_fd d) (est_fds s m) else est_fds s m)" for m
    using nb fds by (auto simp: est_fds_def core at at' split: if_splits)
  have new: "conn_fd d \<notin> est_fds s n" using nb by (simp add: est_fds_def)
  have "counters_exact s'"
    unfolding counters_exact_def
  proof (intro allI impI)
    fix m assume "node_alive s' m"
    then have "unat (active_connections (nodes s m)) = card (est_fds s m)"
      using good core by (auto simp: lb_good_def counters_exact_def node_alive_def)
    then show "unat (active_connections (nodes s' m)) = card (est_fds s' m)"
      using few new finite_est_fds [OF inv, of n]
      by (cases "m = n") (auto simp: s' est unat_increment_connections)
  qed
  moreover have "table_states_ok s'"
    using good i j by (auto simp: lb_good_def table_states_ok_def core split: if_splits)
  ultimately show ?thesis using inv' by (simp add: lb_good_def)
qed

lemma backend_selected_frame [simp]:
  "conn_heap (backend_selected f h p s) = conn_heap s" "connections (backend_selected f h p s) = connections s"
  "pool_manager (backend_selected f h p s) = pool_manager s" "open_fds (backend_selected f h p s) = open_fds s"
  "live_ssl (backend_selected f h p s) = live_ssl s" "next_conn (backend_selected f h p s) = next_conn s"
  "bad_closes (backend_selected f h p s) = bad_closes s"
  "backend_connections (backend_selected f h p s) = backend_connections s"
  "nodes (backend_selected f h p s) = nodes s" "backend_pool (backend_selected f h p s) = backend_pool s"
  "health_checker (backend_selected f h p s) = health_checker s" "static (backend_selected f h p s) = static s"
  "backend_to_client_map (backend_selected f h p s) = backend_to_client_map s"
  by (simp_all add: backend_selected_def set_backend_for_request_def split: option.splits)

lemma add_fd_frame [simp]:
  "conn_heap (snd (add_fd f ev cb s)) = conn_heap s" "connections (snd (add_fd f ev cb s)) = connections s"
  "pool_manager (snd (add_fd f ev cb s)) = pool_manager s" "open_fds (snd (add_fd f ev cb s)) = open_fds s"
  "live_ssl (snd (add_fd f ev cb s)) = live_ssl s" "next_conn (snd (add_fd f ev cb s)) = next_conn s"
  "bad_closes (snd (add_fd f ev cb s)) = bad_closes s"
  "backend_connections (snd (add_fd f ev cb s)) = backend_connections s"
  "nodes (snd (add_fd f ev cb s)) = nodes s" "backend_pool (snd (add_fd f ev cb s)) = backend_pool s"
  "health_checker (snd (add_fd f ev cb s)) = health_checker s"
  by (simp_all add: add_fd_def)

lemma register_pair_run:
  assumes "conn_heap s i = Some c" and "conn_heap s j = Some d"
    and "get_connection (conn_fd c) s = None" and "get_connection (conn_fd d) s = None" and "conn_fd c \<noteq> conn_fd d"
  obtains t where "register_pair k i j n rc h p ev s = Some t" and "conn_heap t = conn_heap s"
    and "connections t = connections s @ [(conn_fd c, i), (conn_fd d, j)]"
    and "backend_connections t = (backend_connections s)(conn_fd d \<mapsto> n)"
    and "pool_manager t = pool_manager s" and "open_fds t = open_fds s" and "live_ssl t = live_ssl s"
    and "next_conn t = next_conn s" and "nodes t = nodes s" and "backend_pool t = backend_pool s"
    and "health_checker t = health_checker s" and "bad_closes t = bad_closes s" and "static t = static s"
    and "backend_to_client_map t = (backend_to_client_map s)(conn_fd d \<mapsto> conn_fd c)"
proof -
  let ?s1 = "s\<lparr>connections := connections s @ [(conn_fd c, i)]\<rparr>"
  let ?s2 = "?s1\<lparr>connections := connections ?s1 @ [(conn_fd d, j)]\<rparr>"
  have p1: "table_put (conn_fd c) i s = Some ?s1" using assms(3) by (rule table_put_new)
  have p2: "table_put (conn_fd d) j ?s1 = Some ?s2"
    using assms(4,5) by (intro table_put_new) (simp add: get_connection_def map_add_def)
  show ?thesis
    by (rule that, simp add: register_pair_def assms(1,2) p1 p2 ask_def Let_def) simp_all
qed

lemma link_peers_run:
  assumes "conn_heap s i = Some c" and "conn_heap s j = Some d" and "i \<noteq> j"
  shows "link_peers i j s = Some (put_conn j (set_peer (Some i) d) (put_conn i (set_peer (Some j) c) s))"
  using assms by (simp add: link_peers_def with_conn_def)

subsection \<open>A new connection to a backend\<close>

lemma count_frame [simp]:
  "conn_heap (count_failure n key s) = conn_heap s" "connections (count_failure n key s) = connections s"
  "pool_manager (count_failure n key s) = pool_manager s" "open_fds (count_failure n key s) = open_fds s"
  "live_ssl (count_failure n key s) = live_ssl s" "next_conn (count_failure n key s) = next_conn s"
  "bad_closes (count_failure n key s) = bad_closes s"
  "backend_connections (count_failure n key s) = backend_connections s"
  "backend_pool (count_failure n key s) = backend_pool s" "health_checker (count_failure n key s) = health_checker s"
  "mem (count_failure n key s) = mem s" "epoll_set (count_failure n key s) = epoll_set s"
  "conn_heap (count_routed n key s) = conn_heap s" "connections (count_routed n key s) = connections s"
  "pool_manager (count_routed n key s) = pool_manager s" "open_fds (count_routed n key s) = open_fds s"
  "live_ssl (count_routed n key s) = live_ssl s" "next_conn (count_routed n key s) = next_conn s"
  "bad_closes (count_routed n key s) = bad_closes s"
  "backend_connections (count_routed n key s) = backend_connections s"
  "backend_pool (count_routed n key s) = backend_pool s" "health_checker (count_routed n key s) = health_checker s"
  "nodes (count_routed n key s) = upd_node n increment_connections (nodes s)"
  "nodes (count_failure n key s) = upd_node n increment_failures (nodes s)"
  by (simp_all add: count_failure_def count_routed_def upd_nodes_def upd_metrics_def)

lemma active_upd_failures [simp]:
  "active_connections (upd_node n increment_failures h m) = active_connections (h m)"
  by (cases "m = n") (simp_all add: increment_failures_def)

lemma wired_same:
  assumes "wired s" and "\<And>f. conn_at s' f = conn_at s f" and "connections s' = connections s"
    and "backend_to_client_map s' = backend_to_client_map s" and "backend_connections s' = backend_connections s"
  shows "wired s'"
  using assms by (simp add: wired_def get_connection_def)

lemma wired_frame:
  assumes "wired s" and "conn_heap s' = conn_heap s" and "connections s' = connections s"
    and "backend_to_client_map s' = backend_to_client_map s" and "backend_connections s' = backend_connections s"
  shows "wired s'"
  using assms(1) conn_at_core [OF assms(2,3)] assms(3-5) by (rule wired_same)

text \<open>A connection outside the table may be changed, made or destroyed.\<close>

lemma wired_loose:
  assumes "wired s" and "i \<notin> snd ` set (connections s)" and "\<And>x. x \<noteq> i \<Longrightarrow> conn_heap s' x = conn_heap s x"
    and "connections s' = connections s" and "backend_to_client_map s' = backend_to_client_map s"
    and "backend_connections s' = backend_connections s"
  shows "wired s'"
proof (rule wired_same [OF assms(1)])
  show "conn_at s' f = conn_at s f" for f
  proof (cases "map_of (connections s) f")
    case (Some y)
    then have "y \<noteq> i" using assms(2) map_of_snd by metis
    then show ?thesis using Some assms(3,4) by (simp add: conn_at_def get_connection_def)
  qed (simp add: conn_at_def get_connection_def assms(4))
qed (use assms in simp_all)

lemma wired_enter_pair:
  assumes w: "wired s" and inv: "lb_inv (i # j # L) s" and i: "conn_heap s i = Some c" "conn_state c \<noteq> HANDSHAKE"
    and j: "conn_heap s j = Some d" "conn_state d \<noteq> HANDSHAKE"
    and core: "conn_heap t = conn_heap (enter_pair i c j d n s)" "connections t = connections (enter_pair i c j d n s)"
      "backend_connections t = backend_connections (enter_pair i c j d n s)"
      "backend_to_client_map t = (backend_to_client_map s)(conn_fd d \<mapsto> conn_fd c)"
  shows "wired t"
proof -
  let ?e = "enter_pair i c j d n s"
  have at: "conn_at t f = (if f = conn_fd c then Some (set_peer (Some j) c) else if f = conn_fd d then Some (set_peer (Some i) d)
     else conn_at s f)" for f
    using conn_at_core [OF core(1,2), of f] conn_at_enter_pair [OF inv i(1) j(1), of n f] by simp
  have free: "get_connection (conn_fd c) s = None" "get_connection (conn_fd d) s = None"
    using lb_inv_loose [of "[]" i "j # L" s] lb_inv_loose [of "[i]" j L s] inv i j by auto
  then have at0: "conn_at s (conn_fd c) = None" "conn_at s (conn_fd d) = None" by (simp_all add: conn_at_def)
  have nb: "backend_connections s (conn_fd c) = None"
    using inv free(1) by (force simp: lb_inv_def table_inv_def get_connection_def map_of_eq_None_iff)
  have fds: "conn_fd c \<noteq> conn_fd d" using lb_inv_heap [OF inv] i j inv by (auto simp: heap_inv_def lb_inv_def owned_def)
  have get: "get_connection f t = (if f = conn_fd c then Some i else if f = conn_fd d then Some j else get_connection f s)" for f
    using core(2) free fds by (simp add: get_connection_def map_add_def split: option.splits)
  show ?thesis
    unfolding wired_def
  proof (intro conjI allI impI)
    fix f g assume fg: "backend_to_client_map t f = Some g"
    have "backend_connections t g = None \<and> (\<exists>j. get_connection g t = Some j \<and> map_option peer (conn_at t f) = Some (Some j))"
    proof (cases "f = conn_fd d")
      case True
      then show ?thesis using fg fds nb by (auto simp: core(3,4) at get)
    next
      case False
      then have "backend_to_client_map s f = Some g" using fg by (simp add: core(4))
      then obtain x where x: "backend_connections s g = None" "get_connection g s = Some x" "map_option peer (conn_at s f) = Some (Some x)"
        using w unfolding wired_def by metis
      then have "g \<noteq> conn_fd c" "g \<noteq> conn_fd d" "f \<noteq> conn_fd c" using free at0 by auto
      with x False show ?thesis by (simp add: core(3) at get)
    qed
    then show "backend_connections t g = None" "\<exists>j. get_connection g t = Some j \<and> map_option peer (conn_at t f) = Some (Some j)"
      by simp_all
  next
    fix f c' assume *: "conn_at t f = Some c'" "conn_state c' = HANDSHAKE"
    then have "f \<noteq> conn_fd c" "f \<noteq> conn_fd d" "conn_at s f = Some c'" using i(2) j(2) by (auto simp: at split: if_splits)
    with *(2) w show "peer c' = None" "backend_connections t f = None" by (auto simp: wired_def core(3))
  qed
qed

text \<open>The last part of a connection attempt, from two unpaired connections to the tables.\<close>

lemma pair_up:
  assumes good: "lb_good (i # j # L) s" and w: "wired s"
    and i: "conn_heap s i = Some c" "conn_state c \<noteq> CLOSED" "conn_state c \<noteq> HANDSHAKE"
    and j: "conn_heap s j = Some d" and st: "st = ESTABLISHED \<or> st = CONNECTING"
    and few: "card (est_fds s n) + 1 < 2 ^ 32"
    and s1: "conn_heap s1 = (conn_heap s)(i \<mapsto> set_peer (Some j) c, j \<mapsto> set_peer (Some i) (set_conn_state st d))"
      "connections s1 = connections s" "backend_connections s1 = backend_connections s" "pool_manager s1 = pool_manager s"
      "open_fds s1 = open_fds s" "live_ssl s1 = live_ssl s" "next_conn s1 = next_conn s"
      "backend_pool s1 = backend_pool s" "health_checker s1 = health_checker s" "bad_closes s1 = bad_closes s"
      "nodes s1 = (if st = ESTABLISHED then upd_node n increment_connections (nodes s) else nodes s)"
      "static s1 = static s" "backend_to_client_map s1 = backend_to_client_map s"
  obtains t where "register_pair k i j n rc h p ev s1 = Some t" and "lb_good L t"
    and "conn_at t (conn_fd c) = Some (set_peer (Some j) c)"
    and "open_fds t = open_fds s" and "pool_manager t = pool_manager s" and "bad_closes t = bad_closes s"
    and "wired t" and "static t = static s"
proof -
  let ?d = "set_conn_state st d"
  have inv: "lb_inv (i # j # L) s" using good by (simp add: lb_good_def)
  have free: "get_connection (conn_fd c) s = None" "get_connection (conn_fd d) s = None"
    using lb_inv_loose [of "[]" i "j # L" s] lb_inv_loose [of "[i]" j L s] inv i j by auto
  have ij: "i \<noteq> j" using inv by (auto simp: lb_inv_def owned_def)
  have fds: "conn_fd c \<noteq> conn_fd d" using lb_inv_heap [OF inv] i j ij by (auto simp: heap_inv_def)
  have sel: "conn_fd ?d = conn_fd d" "ssl ?d = ssl d" "peer ?d = peer d" "conn_state ?d = st" by (simp_all add: set_conn_state_def)
  let ?s0 = "put_conn j ?d s"
  have inv0: "lb_inv (i # j # L) ?s0" using lb_inv_put [OF inv j, of ?d] sel by simp
  have tab: "j \<notin> snd ` set (connections s)" using inv by (auto simp: lb_inv_def owned_def)
  have at0: "conn_at ?s0 f = conn_at s f" for f
    using tab by (auto simp: conn_at_def get_connection_def split: option.splits dest: map_of_snd)
  then have est0: "est_fds ?s0 m = est_fds s m" for m by (simp add: est_fds_def)
  have good0: "lb_good (i # j # L) ?s0"
    using good inv0 est0 tab
    by (auto simp: lb_good_def counters_exact_def node_alive_def table_states_ok_def rev_image_eqI)
  obtain t where t: "register_pair k i j n rc h p ev s1 = Some t" "conn_heap t = conn_heap s1"
    "connections t = connections s1 @ [(conn_fd c, i), (conn_fd d, j)]"
    "backend_connections t = (backend_connections s1)(conn_fd d \<mapsto> n)" "pool_manager t = pool_manager s1"
    "open_fds t = open_fds s1" "live_ssl t = live_ssl s1" "next_conn t = next_conn s1" "nodes t = nodes s1"
    "backend_pool t = backend_pool s1" "health_checker t = health_checker s1" "bad_closes t = bad_closes s1"
    "static t = static s1" "backend_to_client_map t = (backend_to_client_map s1)(conn_fd d \<mapsto> conn_fd c)"
    using register_pair_run [of s1 i "set_peer (Some j) c" j "set_peer (Some i) ?d" k n rc h p ev]
      ij free fds sel by (auto simp: s1 get_connection_def)
  have "lb_good L t"
    using lb_good_enter_pair [OF good0, of c ?d n t] i st few ij t sel est0 by (simp add: s1) auto
  moreover have "conn_at t (conn_fd c) = Some (set_peer (Some j) c)"
    using t free(1) fds ij by (simp add: conn_at_def get_connection_def s1 map_add_def)
  moreover have "wired t"
  proof (rule wired_enter_pair [OF _ inv0, where c = c and d = ?d and n = n])
    show "wired ?s0" using w tab by (rule wired_loose) simp_all
  qed (use i st ij t sel in \<open>auto simp: s1\<close>)
  ultimately show ?thesis using that t s1 by simp
qed

lemma diff_swap: "A - {x} - {y} = A - {y} - {x}"
  by blast

lemma close_gap:
  assumes "destructible i c s" and "g \<in> open_fds s" and "g \<noteq> conn_fd c"
  shows "(do { s1 \<leftarrow> conn_close i s; destroy i (sys_close g s1) }) = Some (buried i c (sys_close g s))"
  using assms
  by (cases "ssl c")
     (auto simp: destroy_def conn_close_def destructible_def ssl_free_def sys_close_def
       put_conn_def shut_def buried_def release_bytes_def fun_upd_twist diff_swap split: prod.splits)

text \<open>Closing the descriptor of a connection that has been closed is recorded.\<close>

lemma close_twice:
  assumes "destructible i c s"
  shows "(do { s1 \<leftarrow> conn_close i s; destroy i (sys_close (conn_fd c) s1) }) =
    Some ((buried i c s)\<lparr>bad_closes := bad_closes s @ [conn_fd c]\<rparr>)"
  using assms
  by (cases "ssl c")
     (auto simp: destroy_def conn_close_def destructible_def ssl_free_def sys_close_def
       put_conn_def shut_def buried_def release_bytes_def split: prod.splits)

definition few_connections :: "lb_state \<Rightarrow> bool" where
  "few_connections s \<longleftrightarrow> (\<forall>n. card (est_fds s n) + 1 < 2 ^ 32)"

text \<open>Descriptors are 32-bit integers, so the counters of established connections do not wrap.\<close>

definition fds_ok :: "lb_state \<Rightarrow> bool" where
  "fds_ok s \<longleftrightarrow> open_fds s \<subseteq> {0..<MAX_FD}"

lemma fds_ok_few:
  assumes "fds_ok s" and "lb_inv L s"
  shows "few_connections s"
proof -
  have "card (est_fds s n) \<le> 2 ^ 31" for n
  proof -
    have "est_fds s n \<subseteq> open_fds s"
    proof
      fix f assume "f \<in> est_fds s n"
      then obtain i c where i: "get_connection f s = Some i" "conn_heap s i = Some c"
        by (auto simp: est_fds_def conn_at_def split: option.splits)
      with get_connection_live [OF assms(2) i(1)] heap_inv_live(2) [OF lb_inv_heap [OF assms(2)] i(2)]
      show "f \<in> open_fds s" by auto
    qed
    also have "\<dots> \<subseteq> {0..<MAX_FD}" using assms(1) by (simp add: fds_ok_def)
    finally have "card (est_fds s n) \<le> card {0..<MAX_FD}" by (intro card_mono) simp_all
    then show ?thesis by (simp add: MAX_FD_def)
  qed
  moreover have "(2 :: nat) ^ 31 + 1 < 2 ^ 32" by simp
  ultimately show ?thesis unfolding few_connections_def by (meson add_le_mono1 le_less_trans)
qed

text \<open>The client has been destroyed, or it is in the table with a peer.\<close>

definition placed :: "conn_id \<Rightarrow> fd \<Rightarrow> lb_state \<Rightarrow> bool" where
  "placed i f s \<longleftrightarrow> conn_heap s i = None \<or> (\<exists>d. conn_at s f = Some d \<and> peer d \<noteq> None)"

definition same_tables :: "lb_state \<Rightarrow> lb_state \<Rightarrow> bool" where
  "same_tables s s' \<longleftrightarrow>
     conn_heap s' = conn_heap s \<and> connections s' = connections s \<and> backend_connections s' = backend_connections s"

lemma few_connections_same: "same_tables s s' \<Longrightarrow> few_connections s' = few_connections s"
proof -
  assume *: "same_tables s s'"
  then have "conn_at s' f = conn_at s f" for f by (intro conn_at_core) (simp_all add: same_tables_def)
  with * show ?thesis by (simp add: few_connections_def est_fds_def same_tables_def)
qed

lemma sys_open_frame [simp]:
  "conn_heap (sys_open f s) = conn_heap s" "connections (sys_open f s) = connections s"
  "backend_connections (sys_open f s) = backend_connections s" "open_fds (sys_open f s) = insert f (open_fds s)"
  "bad_closes (sys_open f s) = bad_closes s" "steps (sys_open f s) = steps s" "next_conn (sys_open f s) = next_conn s"
  "nodes (sys_open f s) = nodes s" "pool_manager (sys_open f s) = pool_manager s"
  "live_ssl (sys_open f s) = live_ssl s" "backend_pool (sys_open f s) = backend_pool s"
  "health_checker (sys_open f s) = health_checker s"
  by (simp_all add: sys_open_def)

lemma connect_new_unresolved:
  assumes good: "lb_good (i # L) s" and c: "conn_heap s i = Some c" and f: "0 \<le> f" "f \<notin> open_fds s"
    and s2: "s2 = count_failure n key ((sys_open f s)\<lparr>steps := m\<rparr>)"
  obtains s' where "(do { s3 \<leftarrow> conn_close i s2; destroy i (sys_close f s3) }) = Some s'" and "lb_good L s'"
    and "conn_heap s' i = None" and "bad_closes s' = bad_closes s" and "open_fds s' \<subseteq> open_fds s"
    and "pool_manager s' = pool_manager s" and "static s' = static s" and "wired s \<longrightarrow> wired s'"
proof -
  have d: "destructible i c s" using lb_good_buried(2) [OF good c] .
  have core: "conn_heap s2 = conn_heap s" "open_fds s2 = insert f (open_fds s)" "live_ssl s2 = live_ssl s"
    "connections s2 = connections s" "pool_manager s2 = pool_manager s" "next_conn s2 = next_conn s"
    "backend_connections s2 = backend_connections s" "backend_pool s2 = backend_pool s"
    "health_checker s2 = health_checker s" "bad_closes s2 = bad_closes s"
    "\<And>m. active_connections (nodes s2 m) = active_connections (nodes s m)"
    by (simp_all add: s2)
  have d2: "destructible i c s2" using d by (auto simp: destructible_def core)
  have g: "f \<in> open_fds s2" "f \<noteq> conn_fd c" using d f by (auto simp: destructible_def core)
  have "lb_good (i # L) (sys_close f s2)"
    using good by (rule lb_good_core) (use f in \<open>simp_all add: sys_close_def core\<close>)
  moreover have "conn_heap (sys_close f s2) i = Some c" using c by (simp add: sys_close_def core)
  ultimately have "lb_good L (buried i c (sys_close f s2))" by (rule lb_good_buried(1))
  moreover have "open_fds (buried i c (sys_close f s2)) \<subseteq> open_fds s"
    using g(1) by (auto simp: sys_close_def core buried_def)
  moreover have "static (buried i c (sys_close f s2)) = static s" by (simp add: buried_def s2)
  moreover have "i \<notin> snd ` set (connections s)" using good by (auto simp: lb_good_def lb_inv_def owned_def)
  then have "wired s \<longrightarrow> wired (buried i c (sys_close f s2))"
    by (intro impI, elim wired_loose) (auto simp: buried_def sys_close_def core s2)
  ultimately show ?thesis using close_gap [OF d2 g] that core g(1) by (simp add: sys_close_def)
qed

lemma connect_new_refused:
  assumes good: "lb_good (i # L) s" and f: "0 \<le> f" "f \<notin> open_fds s"
    and mk: "make_connection f ((sys_open f s)\<lparr>steps := m\<rparr>) = (b, s4)"
  obtains s5 s' where "attach_memory_accounting b s4 = Some s5"
    and "(do { s6 \<leftarrow> conn_close b (count_failure n key s5); destroy b (sys_close f s6) }) = Some s'"
    and "lb_good (i # L) s'" and "same_tables s s'" and "bad_closes s' = bad_closes s @ [f]"
    and "pool_manager s' = pool_manager s" and "open_fds s' \<subseteq> insert f (open_fds s)"
    and "static s' = static s" and "backend_to_client_map s' = backend_to_client_map s"
proof -
  let ?c = "set_memory_accounting (new_connection f)"
  have b: "b = next_conn s" and s4: "s4 = (snd (make_connection f (sys_open f s)))\<lparr>steps := m\<rparr>"
    using mk by (auto simp: make_connection_def sys_open_def put_conn_def)
  have g4: "lb_good (b # i # L) s4"
    using lb_good_open [OF good f] unfolding b by (rule lb_good_core) (simp_all add: s4)
  have h4: "conn_heap s4 b = Some (new_connection f)" by (simp add: s4 b make_connection_def)
  let ?s5 = "put_conn b ?c s4"
  have at: "attach_memory_accounting b s4 = Some ?s5"
    using h4 by (simp add: attach_memory_accounting_def with_conn_def)
  have g5: "lb_good (b # i # L) ?s5"
    using g4 h4 by (rule lb_good_put) (simp_all add: set_memory_accounting_def)
  let ?s6 = "count_failure n key ?s5"
  have g6: "lb_good (b # i # L) ?s6" using g5 by (rule lb_good_core) simp_all
  have h6: "conn_heap ?s6 b = Some ?c" by simp
  have fd: "conn_fd ?c = f" by (simp add: set_memory_accounting_def new_connection_def)
  let ?s' = "(buried b ?c ?s6)\<lparr>bad_closes := bad_closes ?s6 @ [f]\<rparr>"
  have run: "(do { s7 \<leftarrow> conn_close b ?s6; destroy b (sys_close f s7) }) = Some ?s'"
    using close_twice [OF lb_good_buried(2) [OF g6 h6]] unfolding fd .
  have "lb_good (i # L) ?s'"
    using lb_good_buried(1) [OF g6 h6] by (rule lb_good_core) simp_all
  moreover have "conn_heap s b = None"
    using good unfolding b lb_good_def lb_inv_def heap_inv_def by (metis domIff less_irrefl)
  then have "same_tables s ?s'"
    by (auto simp: same_tables_def buried_def s4 make_connection_def b)
  moreover have "bad_closes ?s' = bad_closes s @ [f]" "pool_manager ?s' = pool_manager s"
    "open_fds ?s' \<subseteq> insert f (open_fds s)" "static ?s' = static s" "backend_to_client_map ?s' = backend_to_client_map s"
    by (auto simp add: s4 make_connection_def buried_def put_conn_def sys_open_def count_failure_def upd_metrics_def upd_nodes_def)
  ultimately show ?thesis using that at run by blast
qed

lemma few_connections_est: "few_connections s \<Longrightarrow> card (est_fds s n) + 1 < 2 ^ 32"
  by (simp add: few_connections_def)

lemma lb_good_swap: "lb_good (i # j # L) s = lb_good (j # i # L) s"
  by (auto simp: lb_good_def lb_inv_def owned_def insert_commute)

lemma connect_new_paired:
  assumes good: "lb_good (i # L) s" and w: "wired s" and few: "few_connections s"
    and c: "conn_heap s i = Some c" "conn_state c \<noteq> CLOSED" "conn_state c \<noteq> HANDSHAKE"
    and f: "0 \<le> f" "f \<notin> open_fds s" and mk: "make_connection f ((sys_open f s)\<lparr>steps := m\<rparr>) = (b, s4)"
  obtains s5 s6 s8 s' where "attach_memory_accounting b s4 = Some s5" and "link_peers i b s5 = Some s6"
    and "(let s7 = s6\<lparr>pooled_connections := P s6\<rparr> in
          if est then do { t \<leftarrow> with_conn b (set_conn_state ESTABLISHED) s7; Some (count_routed n key t) }
          else with_conn b (set_conn_state CONNECTING) s7) = Some s8"
    and "register_pair k i b n rc h p ev s8 = Some s'"
    and "lb_good L s'" and "placed i (conn_fd c) s'" and "bad_closes s' = bad_closes s"
    and "open_fds s' = insert f (open_fds s)" and "pool_manager s' = pool_manager s"
    and "static s' = static s" and "wired s'"
proof -
  let ?d = "set_memory_accounting (new_connection f)" and ?st = "if est then ESTABLISHED else CONNECTING"
  have b: "b = next_conn s" and s4: "s4 = (snd (make_connection f (sys_open f s)))\<lparr>steps := m\<rparr>"
    using mk by (auto simp: make_connection_def sys_open_def put_conn_def)
  have ib: "i \<noteq> b" using good by (auto simp: b lb_good_def lb_inv_def owned_def)
  have g4: "lb_good (b # i # L) s4"
    using lb_good_open [OF good f] unfolding b by (rule lb_good_core) (simp_all add: s4)
  have h4: "conn_heap s4 b = Some (new_connection f)" "conn_heap s4 i = Some c"
    using c ib by (simp_all add: s4 b make_connection_def)
  let ?s5 = "put_conn b ?d s4"
  have at: "attach_memory_accounting b s4 = Some ?s5"
    using h4 by (simp add: attach_memory_accounting_def with_conn_def)
  have "lb_good (b # i # L) ?s5"
    using g4 h4(1) by (rule lb_good_put) (simp_all add: set_memory_accounting_def)
  then have g5: "lb_good (i # b # L) ?s5" by (simp only: lb_good_swap)
  have h5: "conn_heap ?s5 i = Some c" "conn_heap ?s5 b = Some ?d" using h4 ib by simp_all
  let ?s6 = "put_conn b (set_peer (Some i) ?d) (put_conn i (set_peer (Some b) c) ?s5)"
  have link: "link_peers i b ?s5 = Some ?s6" using link_peers_run [OF h5 ib] .
  let ?s7 = "?s6\<lparr>pooled_connections := P ?s6\<rparr>"
  let ?t = "put_conn b (set_peer (Some i) (set_conn_state ?st ?d)) ?s7"
  let ?s8 = "if est then count_routed n key ?t else ?t"
  have st: "set_conn_state x (set_peer y z) = set_peer y (set_conn_state x z)" for x y z
    by (simp add: set_conn_state_def set_peer_def)
  have run8: "(let s7 = ?s7 in
          if est then do { t \<leftarrow> with_conn b (set_conn_state ESTABLISHED) s7; Some (count_routed n key t) }
          else with_conn b (set_conn_state CONNECTING) s7) = Some ?s8"
    by (simp add: with_conn_def st)
  have none: "conn_heap s b = None"
    using good unfolding b lb_good_def lb_inv_def heap_inv_def by (metis domIff less_irrefl)
  have tab: "b \<notin> snd ` set (connections s)" using good by (auto simp: b lb_good_def lb_inv_def owned_def)
  have "conn_at ?s5 g = conn_at s g" for g
    using tab by (auto simp: conn_at_def get_connection_def s4 make_connection_def b split: option.splits dest: map_of_snd)
  then have "est_fds ?s5 n = est_fds s n" by (simp add: est_fds_def s4 make_connection_def)
  then have few5: "card (est_fds ?s5 n) + 1 < 2 ^ 32" using few_connections_est [OF few] by simp
  have w5: "wired ?s5"
    using w tab by (rule wired_loose) (auto simp: s4 make_connection_def b)
  obtain t where t: "register_pair k i b n rc h p ev ?s8 = Some t" "lb_good L t"
    "conn_at t (conn_fd c) = Some (set_peer (Some b) c)" "open_fds t = open_fds ?s5" "pool_manager t = pool_manager ?s5" "bad_closes t = bad_closes ?s5"
    "wired t" "static t = static ?s5"
    by (rule pair_up [OF g5 w5 h5(1) c(2,3) h5(2), of ?st n ?s8 k rc h p ev])
       (use ib few5 in \<open>auto simp: fun_upd_twist\<close>)
  moreover have "placed i (conn_fd c) t" using t(3) by (auto simp: placed_def)
  moreover have "bad_closes ?s5 = bad_closes s" "open_fds ?s5 = insert f (open_fds s)" "pool_manager ?s5 = pool_manager s"
    "static ?s5 = static s"
    by (simp_all add: s4 make_connection_def)
  ultimately show ?thesis using that [OF at link run8] by simp
qed

text \<open>What an attempt does once it has a socket and an address.\<close>

lemma connect_new_run:
  assumes "f = k_socket k (steps s) (open_fds s)" and "\<not> f < 0" and "k_resolves k (Suc (steps s))"
    and "make_connection f ((sys_open f (s\<lparr>steps := steps s + 1\<rparr>))\<lparr>steps := steps s + 3\<rparr>) = (b, s4)"
    and "a = k_connect k (Suc (Suc (steps s)))"
  shows "connect_new k i n rc h p s = do {
      s5 \<leftarrow> attach_memory_accounting b s4;
      if a = ConnectFailed then do {
        s6 \<leftarrow> conn_close b (count_failure n (backend_key h p) s5);
        s7 \<leftarrow> destroy b (sys_close f s6);
        Some (True, s7)
      }
      else do {
        s6 \<leftarrow> link_peers i b s5;
        s8 \<leftarrow> (let s7 = s6\<lparr>pooled_connections := (pooled_connections s6)(f \<mapsto> \<lparr>bi_host = h, bi_port = p, bi_pooled = False\<rparr>)\<rparr> in
          if a = ConnectDone then do { t \<leftarrow> with_conn b (set_conn_state ESTABLISHED) s7; Some (count_routed n (backend_key h p) t) }
          else with_conn b (set_conn_state CONNECTING) s7);
        s9 \<leftarrow> register_pair k i b n rc h p (if a = ConnectDone then EPOLLINOUT else EPOLLOUT) s8;
        Some (False, s9)
      }
    }"
  using assms(2-4) unfolding connect_new_def Let_def ask_def
  by (simp add: assms(1,5) [symmetric] sys_open_def numeral_3_eq_3)

lemma connect_new_gives_up:
  assumes good: "lb_good (i # L) s" and fresh: "kernel_fresh k" and w: "wired s" and c: "conn_heap s i = Some c"
    and f: "f = k_socket k (steps s) (open_fds s)" and no: "f < 0 \<or> \<not> k_resolves k (Suc (steps s))"
  obtains s' where "connect_new k i n rc h p s = Some (False, s')" and "lb_good L s'" and "conn_heap s' i = None"
    and "bad_closes s' = bad_closes s" and "open_fds s' \<subseteq> open_fds s" and "pool_manager s' = pool_manager s"
    and "static s' = static s" and "wired s'"
proof -
  define s1 where "s1 = s\<lparr>steps := steps s + 1\<rparr>"
  have good1: "lb_good (i # L) s1" using good by (rule lb_good_core) (simp_all add: s1_def)
  have c1: "conn_heap s1 i = Some c" using c by (simp add: s1_def)
  have w1: "wired s1" using w by (rule wired_frame) (simp_all add: s1_def)
  show ?thesis
  proof (cases "f < 0")
    case True
    have "close_and_destroy i s1 = Some (buried i c s1)" "lb_good L (buried i c s1)"
      using lb_good_buried [OF good1 c1] close_and_destroy_eq by blast+
    moreover from this have "connect_new k i n rc h p s = Some (False, buried i c s1)"
      using True by (simp add: connect_new_def ask_def f [symmetric] s1_def)
    moreover have "i \<notin> snd ` set (connections s1)" using good1 by (auto simp: lb_good_def lb_inv_def owned_def)
    with w1 have "wired (buried i c s1)" by (rule wired_loose) (simp_all add: buried_def)
    ultimately show ?thesis using that [of "buried i c s1"] by (auto simp: buried_def s1_def)
  next
    case False
    then have nf: "0 \<le> f" "f \<notin> open_fds s1" using fresh by (simp_all add: f s1_def kernel_fresh_def)
    obtain s' where s': "(do { s3 \<leftarrow> conn_close i (count_failure n (backend_key h p) ((sys_open f s1)\<lparr>steps := steps s + 2\<rparr>));
        destroy i (sys_close f s3) }) = Some s'" "lb_good L s'" "conn_heap s' i = None" "bad_closes s' = bad_closes s1"
      "open_fds s' \<subseteq> open_fds s1" "pool_manager s' = pool_manager s1" "static s' = static s1" "wired s1 \<longrightarrow> wired s'"
      using connect_new_unresolved [OF good1 c1 nf refl] by blast
    have "connect_new k i n rc h p s = (do { s3 \<leftarrow> conn_close i (count_failure n (backend_key h p) ((sys_open f s1)\<lparr>steps := steps s + 2\<rparr>));
        s4 \<leftarrow> destroy i (sys_close f s3); Some (False, s4) })"
      using False no by (simp add: connect_new_def ask_def f [symmetric] s1_def Let_def sys_open_def)
    also have "\<dots> = Some (False, s')" using s'(1) by (auto simp: bind_eq_Some_conv)
    finally show ?thesis using that [of s'] s' w1 by (simp add: s1_def)
  qed
qed

lemma connect_new_ok:
  assumes good: "lb_good (i # L) s" and fresh: "kernel_fresh k" and w: "wired s"
    and c: "conn_heap s i = Some c" "conn_state c \<noteq> CLOSED" "conn_state c \<noteq> HANDSHAKE"
    and few: "few_connections s"
  obtains again s' where "connect_new k i n rc h p s = Some (again, s')"
    and "if again then lb_good (i # L) s' \<and> same_tables s s' else lb_good L s' \<and> placed i (conn_fd c) s'"
    and "bad_closes s' = bad_closes s @ (if again then [k_socket k (steps s) (open_fds s)] else [])"
    and "pool_manager s' = pool_manager s" and "fds_ok s \<longrightarrow> fds_ok s'" and "static s' = static s" and "wired s'"
proof -
  note result = that
  define f where "f = k_socket k (steps s) (open_fds s)"
  show ?thesis
  proof (cases "f < 0 \<or> \<not> k_resolves k (Suc (steps s))")
    case True
    obtain s' where "connect_new k i n rc h p s = Some (False, s')" "lb_good L s'" "conn_heap s' i = None"
      "bad_closes s' = bad_closes s" "open_fds s' \<subseteq> open_fds s" "pool_manager s' = pool_manager s" "static s' = static s" "wired s'"
      by (rule connect_new_gives_up [OF good fresh w c(1) f_def True])
    then show ?thesis using result [of False s'] by (auto simp: placed_def fds_ok_def)
  next
    case ok: False
    define s1 where "s1 = s\<lparr>steps := steps s + 1\<rparr>"
    have good1: "lb_good (i # L) s1" using good by (rule lb_good_core) (simp_all add: s1_def)
    have c1: "conn_heap s1 i = Some c" using c by (simp add: s1_def)
    have w1: "wired s1" using w by (rule wired_frame) (simp_all add: s1_def)
    have few1: "few_connections s1" using few few_connections_same [of s s1] by (simp add: s1_def same_tables_def)
    have nf: "0 \<le> f" "f \<notin> open_fds s1" and lt: "f < MAX_FD" using ok fresh by (simp_all add: f_def s1_def kernel_fresh_def)
    obtain b s4 where mk: "make_connection f ((sys_open f s1)\<lparr>steps := steps s + 3\<rparr>) = (b, s4)" by (rule prod.exhaust)
    define a where "a = k_connect k (Suc (Suc (steps s)))"
    note run = connect_new_run [OF f_def _ _ mk [unfolded s1_def] a_def]
    show ?thesis
    proof (cases "a = ConnectFailed")
      case True
      obtain s5 s' where *: "attach_memory_accounting b s4 = Some s5"
        "(do { s6 \<leftarrow> conn_close b (count_failure n (backend_key h p) s5); destroy b (sys_close f s6) }) = Some s'"
        "lb_good (i # L) s'" "same_tables s1 s'" "bad_closes s' = bad_closes s1 @ [f]" "pool_manager s' = pool_manager s1"
        "open_fds s' \<subseteq> insert f (open_fds s1)" "static s' = static s1" "backend_to_client_map s' = backend_to_client_map s1"
        by (rule connect_new_refused [OF good1 nf mk]) blast
      have "connect_new k i n rc h p s = Some (True, s')" using * True ok by (auto simp: run bind_eq_Some_conv)
      moreover have "fds_ok s \<longrightarrow> fds_ok s'" using *(7) nf(1) lt by (auto simp: s1_def fds_ok_def)
      moreover have "wired s'" using w1 by (rule wired_frame) (use * in \<open>simp_all add: same_tables_def\<close>)
      ultimately show ?thesis using result [of True s'] * by (simp add: f_def s1_def same_tables_def)
    next
      case False
      obtain s5 s6 s8 s' where *: "attach_memory_accounting b s4 = Some s5" "link_peers i b s5 = Some s6"
        "(let s7 = s6\<lparr>pooled_connections := (pooled_connections s6)(f \<mapsto> \<lparr>bi_host = h, bi_port = p, bi_pooled = False\<rparr>)\<rparr> in
            if a = ConnectDone then do { t \<leftarrow> with_conn b (set_conn_state ESTABLISHED) s7; Some (count_routed n (backend_key h p) t) }
            else with_conn b (set_conn_state CONNECTING) s7) = Some s8"
        "register_pair k i b n rc h p (if a = ConnectDone then EPOLLINOUT else EPOLLOUT) s8 = Some s'"
        "lb_good L s'" "placed i (conn_fd c) s'" "bad_closes s' = bad_closes s1"
        "open_fds s' = insert f (open_fds s1)" "pool_manager s' = pool_manager s1" "static s' = static s1" "wired s'"
        by (rule connect_new_paired [OF good1 w1 few1 c1 c(2,3) nf mk,
          of "\<lambda>s6. (pooled_connections s6)(f \<mapsto> \<lparr>bi_host = h, bi_port = p, bi_pooled = False\<rparr>)" "a = ConnectDone" n
            "backend_key h p" k rc h p "if a = ConnectDone then EPOLLINOUT else EPOLLOUT"])
      have "connect_new k i n rc h p s = Some (False, s')" using False ok by (simp add: run * del: Let_def)
      then show ?thesis using result [of False s'] * nf(1) lt by (simp add: s1_def fds_ok_def)
    qed
  qed
qed

text \<open>A client connection that \<open>connect\<close> is given: owned by its caller, not closed, no pool.\<close>

definition trying :: "conn_id list \<Rightarrow> conn_id \<Rightarrow> fd \<Rightarrow> lb_state \<Rightarrow> bool" where
  "trying L i f s \<longleftrightarrow>
     lb_good (i # L) s \<and> fds_ok s \<and> pool_manager s = None \<and> wired s \<and>
     (\<exists>c. conn_heap s i = Some c \<and> conn_fd c = f \<and> conn_state c \<noteq> CLOSED \<and> conn_state c \<noteq> HANDSHAKE)"

lemma sticky_hint_frame [simp]:
  "conn_heap (snd (sticky_hint k key s)) = conn_heap s" "connections (snd (sticky_hint k key s)) = connections s"
  "pool_manager (snd (sticky_hint k key s)) = pool_manager s" "open_fds (snd (sticky_hint k key s)) = open_fds s"
  "live_ssl (snd (sticky_hint k key s)) = live_ssl s" "next_conn (snd (sticky_hint k key s)) = next_conn s"
  "bad_closes (snd (sticky_hint k key s)) = bad_closes s"
  "backend_connections (snd (sticky_hint k key s)) = backend_connections s"
  "nodes (snd (sticky_hint k key s)) = nodes s" "backend_pool (snd (sticky_hint k key s)) = backend_pool s"
  "health_checker (snd (sticky_hint k key s)) = health_checker s" "static (snd (sticky_hint k key s)) = static s"
  "backend_to_client_map (snd (sticky_hint k key s)) = backend_to_client_map s"
  by (simp_all add: sticky_hint_def ask_def split: option.splits)

lemma remember_session_frame [simp]:
  "conn_heap (remember_session k key h p s) = conn_heap s" "connections (remember_session k key h p s) = connections s"
  "pool_manager (remember_session k key h p s) = pool_manager s" "open_fds (remember_session k key h p s) = open_fds s"
  "live_ssl (remember_session k key h p s) = live_ssl s" "next_conn (remember_session k key h p s) = next_conn s"
  "bad_closes (remember_session k key h p s) = bad_closes s"
  "backend_connections (remember_session k key h p s) = backend_connections s"
  "nodes (remember_session k key h p s) = nodes s" "backend_pool (remember_session k key h p s) = backend_pool s"
  "health_checker (remember_session k key h p s) = health_checker s" "static (remember_session k key h p s) = static s"
  "backend_to_client_map (remember_session k key h p s) = backend_to_client_map s"
  by (simp_all add: remember_session_def ask_def)

lemma trying_core:
  assumes "trying L i f s" and "conn_heap s' = conn_heap s" and "connections s' = connections s"
    and "pool_manager s' = pool_manager s" and "open_fds s' = open_fds s" and "live_ssl s' = live_ssl s"
    and "backend_connections s' = backend_connections s" and "next_conn s \<le> next_conn s'"
    and "\<And>n. active_connections (nodes s' n) = active_connections (nodes s n)"
    and "backends (backend_pool s') = backends (backend_pool s)"
    and "hc_backends (health_checker s') = hc_backends (health_checker s)"
    and "backend_to_client_map s' = backend_to_client_map s"
  shows "trying L i f s'"
proof -
  have "lb_good (i # L) s" using assms(1) by (simp add: trying_def)
  then have "lb_good (i # L) s'" by (rule lb_good_core) (use assms in simp_all)
  moreover have "wired s" using assms(1) by (simp add: trying_def)
  then have "wired s'"
    by (rule wired_frame) (use assms in simp_all)
  ultimately show ?thesis using assms by (simp add: trying_def fds_ok_def)
qed

lemma trying_attach:
  assumes "trying L i f s"
  obtains s' where "attach_memory_accounting i s = Some s'" and "trying L i f s'" and "bad_closes s' = bad_closes s"
    and "static s' = static s"
proof -
  obtain c where c: "conn_heap s i = Some c" "conn_fd c = f" "conn_state c \<noteq> CLOSED" "conn_state c \<noteq> HANDSHAKE"
    and good: "lb_good (i # L) s" and few: "fds_ok s" and pm: "pool_manager s = None" and w: "wired s"
    using assms by (auto simp: trying_def)
  let ?s = "put_conn i (set_memory_accounting c) s"
  have "lb_good (i # L) ?s" using good c(1) by (rule lb_good_put) (simp_all add: set_memory_accounting_def)
  moreover have "wired ?s"
    using w by (rule wired_shape) (use c(1) in \<open>auto intro!: put_conn_shape simp: set_memory_accounting_def conn_core_def\<close>)
  ultimately have "trying L i f ?s"
    using c pm few by (simp add: trying_def set_memory_accounting_def fds_ok_def)
  then show ?thesis
    using that c by (simp add: attach_memory_accounting_def with_conn_def)
qed

lemma trying_give_up:
  assumes "trying L i f s"
  obtains s' where "close_and_destroy i (upd_metrics g s) = Some s'" and "lb_good L s'" and "conn_heap s' i = None"
    and "bad_closes s' = bad_closes s" and "pool_manager s' = None" and "fds_ok s'"
    and "static s' = static s" and "wired s'"
proof -
  have "trying L i f (upd_metrics g s)" using assms by (rule trying_core) simp_all
  then have "lb_good (i # L) (upd_metrics g s)" by (simp add: trying_def)
  then obtain s' c where "close_and_destroy i (upd_metrics g s) = Some s'" "lb_good L s'" "s' = buried i c (upd_metrics g s)"
    by (rule close_and_destroy_good)
  moreover have "wired (buried i c (upd_metrics g s))"
  proof -
    have "i \<notin> snd ` set (connections s)" using assms by (auto simp: trying_def lb_good_def lb_inv_def owned_def)
    moreover have "wired s" using assms by (simp add: trying_def)
    ultimately show ?thesis by (elim wired_loose) (auto simp: buried_def)
  qed
  ultimately show ?thesis using that assms by (auto simp: trying_def fds_ok_def buried_def)
qed

lemma connect_once_ok:
  assumes tr: "trying L i f s" and fresh: "kernel_fresh k"
  obtains again s' fs where "connect_once k i rc key s = Some (again, s')"
    and "if again then trying L i f s' else lb_good L s' \<and> placed i f s' \<and> pool_manager s' = None \<and> fds_ok s' \<and> wired s'"
    and "bad_closes s' = bad_closes s @ fs" and "length fs = (if again then 1 else 0)" and "static s' = static s"
proof -
  note result = that
  obtain s1 where s1: "attach_memory_accounting i s = Some s1" "trying L i f s1" "bad_closes s1 = bad_closes s" "static s1 = static s"
    using trying_attach [OF tr] by metis
  obtain sh sp s2 where hint: "sticky_hint k key s1 = ((sh, sp), s2)" by (metis prod.exhaust)
  have s2: "s2 = snd (sticky_hint k key s1)" by (simp add: hint)
  obtain choice bp where sel: "select_backend (nodes s2) (bcn_max_connections_per_backend (settings_of s2)) sh sp (backend_pool s2) = (choice, bp)"
    by (rule prod.exhaust)
  then have bp: "backends bp = backends (backend_pool s2)" by (metis select_backend_frame(1) snd_conv)
  let ?s3 = "s2\<lparr>backend_pool := bp\<rparr>"
  have t3: "trying L i f ?s3" using s1(2) by (rule trying_core) (simp_all add: s2 bp [unfolded s2])
  have b3: "bad_closes ?s3 = bad_closes s" "static ?s3 = static s" by (simp_all add: s2 s1)
  show ?thesis
  proof (cases choice)
    case None
    obtain s' where "close_and_destroy i (upd_metrics increment_backend_routes_failed ?s3) = Some s'" "lb_good L s'"
      "conn_heap s' i = None" "bad_closes s' = bad_closes ?s3" "pool_manager s' = None" "fds_ok s'"
      "static s' = static ?s3" "wired s'"
      by (rule trying_give_up [OF t3])
    with None show ?thesis
      using result [of False s' "[]"] b3 by (simp add: connect_once_def s1 hint sel Let_def placed_def)
  next
    case (Some n)
    let ?h = "host (nodes ?s3 n)" and ?p = "port (nodes ?s3 n)"
    let ?s4 = "remember_session k key ?h ?p ?s3"
    have t4: "trying L i f ?s4" using t3 by (rule trying_core) simp_all
    then obtain c where c: "conn_heap ?s4 i = Some c" "conn_state c \<noteq> CLOSED" "conn_state c \<noteq> HANDSHAKE" "conn_fd c = f"
      and w4: "wired ?s4" and g4: "lb_good (i # L) ?s4" "few_connections ?s4" "pool_manager ?s4 = None" "fds_ok ?s4"
      using fds_ok_few by (auto simp: trying_def lb_good_def)
    obtain again s' where *: "connect_new k i n rc ?h ?p ?s4 = Some (again, s')"
      "if again then lb_good (i # L) s' \<and> same_tables ?s4 s' else lb_good L s' \<and> placed i (conn_fd c) s'"
      "bad_closes s' = bad_closes ?s4 @ (if again then [k_socket k (steps ?s4) (open_fds ?s4)] else [])"
      "pool_manager s' = pool_manager ?s4" "fds_ok ?s4 \<longrightarrow> fds_ok s'" "static s' = static ?s4" "wired s'"
      by (rule connect_new_ok [OF g4(1) fresh w4 c(1-3) g4(2)])
    have "borrow_backend k ?h ?p ?s4 = Some (None, ?s4)" using g4(3) by (simp add: borrow_backend_def)
    then have "connect_once k i rc key s = Some (again, s')"
      using *(1) Some by (simp add: connect_once_def s1 hint sel Let_def)
    moreover have "if again then trying L i f s' else lb_good L s' \<and> placed i f s' \<and> pool_manager s' = None \<and> fds_ok s' \<and> wired s'"
      using *(2,4,5,7) c g4 by (auto simp: trying_def same_tables_def)
    ultimately show ?thesis using result *(3,6) b3 by simp
  qed
qed

lemma connect_ok:
  assumes "trying L i f s" and fresh: "kernel_fresh k"
  shows "\<exists>s' fs. connect k i rc key s = Some s' \<and> lb_good L s' \<and> placed i f s' \<and> pool_manager s' = None \<and> fds_ok s' \<and> wired s' \<and> static s' = static s \<and>
    bad_closes s' = bad_closes s @ fs \<and> length fs \<le> nat (MAX_RETRY_ATTEMPTS - rc) + 1"
  using assms(1)
proof (induction "nat (MAX_RETRY_ATTEMPTS - rc)" arbitrary: rc key s rule: less_induct)
  case less
  obtain again s1 fs where 1: "connect_once k i rc key s = Some (again, s1)"
    "if again then trying L i f s1 else lb_good L s1 \<and> placed i f s1 \<and> pool_manager s1 = None \<and> fds_ok s1 \<and> wired s1"
    "bad_closes s1 = bad_closes s @ fs" "length fs = (if again then 1 else 0)" "static s1 = static s"
    using connect_once_ok [OF less.prems fresh] by metis
  show ?case
  proof (cases "again \<and> rc < MAX_RETRY_ATTEMPTS")
    case True
    then have lt: "nat (MAX_RETRY_ATTEMPTS - (rc + 1)) < nat (MAX_RETRY_ATTEMPTS - rc)" by simp
    moreover have "trying L i f s1" using 1(2) True by simp
    ultimately obtain s' fs' where "connect k i (rc + 1) (session_key_of i s1) s1 = Some s'" "lb_good L s'" "placed i f s'"
      "pool_manager s' = None" "fds_ok s'" "wired s'" "static s' = static s1" "bad_closes s' = bad_closes s1 @ fs'" "length fs' \<le> nat (MAX_RETRY_ATTEMPTS - (rc + 1)) + 1"
      using less.hyps by blast
    with 1 True lt show ?thesis by (auto simp: connect.simps [of k i rc])
  next
    case False
    show ?thesis
    proof (cases again)
      case True
      then obtain s' where "close_and_destroy i (upd_metrics increment_backend_routes_failed s1) = Some s'" "lb_good L s'"
        "conn_heap s' i = None" "bad_closes s' = bad_closes s1" "pool_manager s' = None" "fds_ok s'" "wired s'" "static s' = static s1"
        using 1(2) trying_give_up by metis
      with 1 True False show ?thesis by (auto simp: connect.simps [of k i rc] placed_def)
    next
      case no: False
      with 1 show ?thesis by (simp add: connect.simps [of k i rc])
    qed
  qed
qed

section \<open>Properties\<close>

text \<open>An example: a client on descriptor 10 that no table knows yet, and one backend.\<close>

definition example_client :: lb_state where
  "example_client = new_load_balancer
     \<lparr>conn_heap := [0 \<mapsto> new_connection 10], next_conn := 1, open_fds := {10},
      nodes := (\<lambda>_. new_backend_node ''10.0.0.1'' 8000 1), next_node := 1,
      backend_pool := pool_add_backend 0 (new_pool ROUND_ROBIN)\<rparr>"

lemma example_client_good: "lb_good [0] example_client"
proof -
  have "est_fds example_client n = {}" for n
    by (auto simp: est_fds_def example_client_def new_load_balancer_def)
  then have "counters_exact example_client"
    by (simp add: counters_exact_def) (simp add: example_client_def new_load_balancer_def new_backend_node_def)
  moreover have "lb_inv [0] example_client"
    by (auto simp: lb_inv_def heap_inv_def table_inv_def owned_def pooled_ids_def example_client_def
        new_load_balancer_def new_connection_def split: if_splits)
  ultimately show ?thesis
    by (simp add: lb_good_def table_states_ok_def) (simp add: example_client_def new_load_balancer_def)
qed

text \<open>C3: connecting a client always comes to an end and settles the client. Whatever the kernel
  answers, \<open>connect\<close> returns without touching a destroyed connection; the client connection is
  then either destroyed, or in the table with a peer; the invariants of the tables and of the
  backends' counters hold again; and the only descriptors closed twice are those of refused
  attempts, of which there are at most one for each attempt left. (Without a connection pool.)\<close>

theorem connect_settles_client:
  assumes "lb_good [i] s" and "fds_ok s" and "pool_manager s = None" and "kernel_fresh k"
    and "wired s" and "conn_heap s i = Some c" and "conn_state c = ESTABLISHED" and "0 \<le> rc"
  shows "case connect k i rc key s of
           None \<Rightarrow> False
         | Some s' \<Rightarrow> lb_good [] s' \<and> fds_ok s' \<and> wired s' \<and>
             (conn_heap s' i = None \<or> (\<exists>d. conn_at s' (conn_fd c) = Some d \<and> peer d \<noteq> None)) \<and>
             (\<exists>fs. bad_closes s' = bad_closes s @ fs \<and> int (length fs) \<le> max 1 (4 - rc))"
proof -
  have "trying [] i (conn_fd c) s" using assms by (simp add: trying_def)
  then obtain s' fs where "connect k i rc key s = Some s'" "lb_good [] s'" "placed i (conn_fd c) s'" "fds_ok s'" "wired s'"
    "bad_closes s' = bad_closes s @ fs" "length fs \<le> nat (MAX_RETRY_ATTEMPTS - rc) + 1"
    using connect_ok [OF _ assms(4)] by blast
  then show ?thesis by (auto simp: placed_def MAX_RETRY_ATTEMPTS_def)
qed

theorem connect_settles_client_witness:
  "case connect example_kernel 0 0 [] example_client of
     None \<Rightarrow> False
   | Some s' \<Rightarrow> lb_good [] s' \<and> (conn_heap s' 0 = None \<or> (\<exists>d. conn_at s' 10 = Some d \<and> peer d \<noteq> None))"
proof -
  have "conn_heap example_client 0 = Some (new_connection 10)" "fds_ok example_client" "pool_manager example_client = None"
    "wired example_client"
    by (simp_all add: example_client_def new_load_balancer_def fds_ok_def MAX_FD_def wired_def conn_at_def get_connection_def)
  then show ?thesis
    using connect_settles_client [OF example_client_good, where k = example_kernel and rc = 0 and key = "[]"] example_kernel_fresh
    by (auto simp: new_connection_def split: option.splits)
qed

end
