(* ===== verification/Splice_Forwarder.thy ===== *)
theory Splice_Forwarder
  imports Data_Forwarder
begin

text \<open>
  \<^verbatim>\<open>core/splice_forwarder.cpp\<close>: moving bytes between two sockets through a kernel pipe, one
  pipe for each direction of each pair of descriptors, with a fallback that copies through
  the connections' buffers. The table of pipes is \<open>splice_pipes\<close>; its 64-bit keys are the pairs
  (source, destination) they encode. The model is of the Linux build. Of a pipe's contents
  only the length \<open>pending\<close>, a 64-bit \<open>size_t\<close> whose updates wrap, is visible to the code;
  \<open>splice\<close> answers with the number of bytes the kernel was able to move, at most what was
  asked for.
\<close>

definition SPLICE_CHUNK_SIZE :: u64 where
  "SPLICE_CHUNK_SIZE = 65536"

definition MAX_PIPE_SIZE :: u64 where
  "MAX_PIPE_SIZE = 1048576"

type_synonym pipe_table = "((fd \<times> fd) \<times> PipePair) list"

definition pipes_of :: "lb_state \<Rightarrow> pipe_table" where
  "pipes_of s = (case splice_pipes s of None \<Rightarrow> [] | Some t \<Rightarrow> t)"

definition put_pipe :: "fd \<times> fd \<Rightarrow> PipePair \<Rightarrow> lb_state \<Rightarrow> lb_state" where
  "put_pipe key p s = s\<lparr>splice_pipes := map_option (AList.update key p) (splice_pipes s)\<rparr>"

definition close_pipe :: "PipePair \<Rightarrow> lb_state \<Rightarrow> lb_state" where
  "close_pipe p s =
     (let s1 = (if pipe_read p \<ge> 0 then sys_close (pipe_read p) s else s)
      in if pipe_write p \<ge> 0 then sys_close (pipe_write p) s1 else s1)"

definition is_available :: "kernel \<Rightarrow> lb_state \<Rightarrow> bool \<times> lb_state" where
  "is_available k s =
     (let (answer, s1) = ask (\<lambda>t. k_pipe k t (open_fds s)) s in
      case answer of
        None \<Rightarrow> (False, s1)
      | Some (r, w) \<Rightarrow> (True, sys_close w (sys_close r (sys_open w (sys_open r s1)))))"

definition destroy_splice_forwarder :: "lb_state \<Rightarrow> lb_state" where
  "destroy_splice_forwarder s = (fold (close_pipe \<circ> snd) (pipes_of s) s)\<lparr>splice_pipes := None\<rparr>"

definition get_or_create_pipe :: "kernel \<Rightarrow> fd \<Rightarrow> fd \<Rightarrow> lb_state \<Rightarrow> PipePair option \<times> lb_state" where
  "get_or_create_pipe k src_fd dst_fd s =
     (case map_of (pipes_of s) (src_fd, dst_fd) of
        Some p \<Rightarrow> (Some p, s)
      | None \<Rightarrow>
          let (answer, s1) = ask (\<lambda>t. k_pipe k t (open_fds s)) s in
          (case answer of
             None \<Rightarrow> (None, s1)
           | Some (r, w) \<Rightarrow>
               let p = \<lparr>pipe_read = r, pipe_write = w, pipe_pending = 0\<rparr>
               in (Some p, put_pipe (src_fd, dst_fd) p (sys_open w (sys_open r s1)))))"

text \<open>The results are those of the code: the number of bytes, \<open>- 1\<close> for a failure and, for
  \<open>splice_in\<close>, \<open>- 2\<close> when nothing can be read now.\<close>

definition splice_in :: "kernel \<Rightarrow> PipePair \<Rightarrow> lb_state \<Rightarrow> int \<times> lb_state" where
  "splice_in k p s =
     (if pipe_write p < 0 then (- 1, s)
      else if pipe_pending p \<ge> MAX_PIPE_SIZE then (- 2, s)
      else
        let max_splice = min SPLICE_CHUNK_SIZE (MAX_PIPE_SIZE - pipe_pending p);
            (io, s1) = ask (k_splice k) s
        in case io of
             WriteWouldBlock \<Rightarrow> (- 2, s1)
           | WriteFailed \<Rightarrow> (- 1, s1)
           | Accepted n \<Rightarrow> (int (min n (unat max_splice)), s1))"

definition splice_out :: "kernel \<Rightarrow> PipePair \<Rightarrow> lb_state \<Rightarrow> int \<times> lb_state" where
  "splice_out k p s =
     (if pipe_read p < 0 \<or> pipe_pending p = 0 then (0, s)
      else
        let to_splice = min (pipe_pending p) SPLICE_CHUNK_SIZE;
            (io, s1) = ask (k_splice k) s
        in case io of
             WriteWouldBlock \<Rightarrow> (0, s1)
           | WriteFailed \<Rightarrow> (- 1, s1)
           | Accepted n \<Rightarrow> (int (min n (unat to_splice)), s1))"

definition forward_with_buffers :: "kernel \<Rightarrow> conn_id \<Rightarrow> conn_id \<Rightarrow> lb_state \<Rightarrow> lb_state option" where
  "forward_with_buffers k from to s = do {
     c \<leftarrow> conn_heap s from;
     d \<leftarrow> conn_heap s to;
     if read_buf c = [] then Some s
     else do {
       let to_copy = min (length (read_buf c)) (write_available d);
       if to_copy = 0 then Some (mod_fd (conn_fd c) EPOLLOUT (start_backpressure k (conn_fd c) s))
       else do {
         let (c1, d1) = transfer to_copy c d;
         let s1 = put_conn to d1 (put_conn from c1 s);
         let s2 = (if write_buf d1 \<noteq> [] then start_backpressure k (conn_fd c1) s1 else clear_backpressure (conn_fd c1) s1);
         let s3 = mod_fd (conn_fd c1) EPOLLINOUT (mod_fd (conn_fd d1) EPOLLINOUT s2);
         (written, s4) \<leftarrow> conn_write k to s3;
         if \<not> written then close_connection k (conn_fd d1) s4
         else do {
           d2 \<leftarrow> conn_heap s4 to;
           Some (if write_buf d2 \<noteq> [] then start_backpressure k (conn_fd c1) s4 else clear_backpressure (conn_fd c1) s4)
         }
       }
     }
   }"

text \<open>The two halves of \<open>forward\<close>: filling the pipe and emptying it, then what is still pending.\<close>

definition splice_refill ::
    "kernel \<Rightarrow> fd \<Rightarrow> fd \<Rightarrow> PipePair \<Rightarrow> lb_state \<Rightarrow> lb_state option" where
  "splice_refill k from_fd to_fd p s =
     (let (got, s1) = splice_in k p s in
      if got = - 1 then close_connection k from_fd s1
      else if got = - 2 then Some s1
      else if got = 0 then close_connection k from_fd s1
      else
        let p1 = p\<lparr>pipe_pending := pipe_pending p + of_int got\<rparr>;
            s2 = put_pipe (from_fd, to_fd) p1 s1;
            (out, s3) = splice_out k p1 s2
        in if out < 0 then close_connection k to_fd s3
           else
             let p2 = p1\<lparr>pipe_pending := pipe_pending p1 - of_int out\<rparr>;
                 s4 = put_pipe (from_fd, to_fd) p2 s3
             in Some (if pipe_pending p2 > 0
                      then mod_fd to_fd EPOLLINOUT (start_backpressure k from_fd s4)
                      else clear_backpressure from_fd s4))"

definition splice_forward :: "kernel \<Rightarrow> conn_id \<Rightarrow> conn_id \<Rightarrow> lb_state \<Rightarrow> lb_state option" where
  "splice_forward k from to s = do {
     c \<leftarrow> conn_heap s from;
     d \<leftarrow> conn_heap s to;
     if conn_state c \<noteq> ESTABLISHED \<or> conn_state d \<noteq> ESTABLISHED then Some s
     else case get_or_create_pipe k (conn_fd c) (conn_fd d) s of
       (None, s1) \<Rightarrow> forward_with_buffers k from to s1
     | (Some p, s1) \<Rightarrow>
         if pipe_pending p > 0 then
           (let (out, s2) = splice_out k p s1 in
            if out < 0 then close_connection k (conn_fd d) s2
            else if out = 0 then Some (mod_fd (conn_fd d) EPOLLINOUT (start_backpressure k (conn_fd c) s2))
            else
              let p1 = p\<lparr>pipe_pending := pipe_pending p - of_int out\<rparr>
              in splice_refill k (conn_fd c) (conn_fd d) p1 (put_pipe (conn_fd c, conn_fd d) p1 s2))
         else splice_refill k (conn_fd c) (conn_fd d) p s1
   }"

definition cleanup_pipes :: "fd \<Rightarrow> lb_state \<Rightarrow> lb_state" where
  "cleanup_pipes f s =
     (let doomed = filter (\<lambda>((src, dst), p). src = f \<or> dst = f) (pipes_of s);
          s1 = fold (close_pipe \<circ> snd) doomed s
      in s1\<lparr>splice_pipes := map_option (filter (\<lambda>((src, dst), p). \<not> (src = f \<or> dst = f))) (splice_pipes s1)\<rparr>)"

end
