(* ===== verification/Http_Data_Forwarder.thy ===== *)
theory Http_Data_Forwarder
  imports Data_Forwarder
begin

text \<open>
  \<^verbatim>\<open>core/http_data_forwarder.cpp\<close>: forwarding in HTTP mode, where the first bytes of a request
  or response are parsed, its headers rewritten and the message put back into the read
  buffer, with the callbacks \<open>initialize_from_config\<close> installs
  (\<^verbatim>\<open>core/load_balancer.cpp\<close>): the client's address, the access log, the session key taken from
  a cookie and the injected cookie. \<open>w\<close> is the configuration of the forwarder.
\<close>

definition get_client_fd :: "fd \<Rightarrow> lb_state \<Rightarrow> fd" where
  "get_client_fd backend_fd s = (case backend_to_client_map s backend_fd of None \<Rightarrow> 0 | Some f \<Rightarrow> f)"

definition peer_address :: "kernel \<Rightarrow> fd \<Rightarrow> lb_state \<Rightarrow> string \<times> lb_state" where
  "peer_address k f s = (if get_connection f s = None then ([], s) else ask (k_client_ip k) s)"

definition http_state_of :: "fd \<Rightarrow> lb_state \<Rightarrow> HttpState" where
  "http_state_of f s = (case http_states s f of None \<Rightarrow> new_http_state | Some h \<Rightarrow> h)"

definition put_http_state :: "fd \<Rightarrow> HttpState \<Rightarrow> lb_state \<Rightarrow> lb_state" where
  "put_http_state f h s = s\<lparr>http_states := (http_states s)(f \<mapsto> h)\<rparr>"

definition upd_request_info :: "fd \<Rightarrow> (RequestInfo \<Rightarrow> RequestInfo) \<Rightarrow> lb_state \<Rightarrow> lb_state" where
  "upd_request_info f g s =
     (case http_states s f of
        None \<Rightarrow> s
      | Some h \<Rightarrow> put_http_state f (h\<lparr>request_info := g (request_info h)\<rparr>) s)"

subsection \<open>Callbacks\<close>

definition log_finished_request :: "kernel \<Rightarrow> RequestInfo \<Rightarrow> lb_state \<Rightarrow> lb_state" where
  "log_finished_request k ri s =
     (if ri_method ri = [] then s
      else
        let (end_time, s1) = (if ri_response_complete ri \<and> ri_response_complete_time ri > 0
                              then (ri_response_complete_time ri, s) else ask (k_system_now k) s)
        in log_access (access_log_entry ri (ri_bytes_sent ri) (ri_bytes_received ri)
             (duration_cast_us (end_time - ri_start_time ri))) s1)"

definition cookie_for_client :: "kernel \<Rightarrow> string \<times> u32 \<Rightarrow> fd \<Rightarrow> lb_state \<Rightarrow> string \<times> lb_state" where
  "cookie_for_client k cookie client_fd s =
     (let (key, s1) =
        (case client_session_keys s client_fd of
           Some key \<Rightarrow>
             if key \<noteq> [] then (key, s)
             else (let (now, t) = ask (k_now k) s;
                       fresh = int_to_string client_fd @ ''_'' @ int_to_string now
                   in (fresh, t\<lparr>client_session_keys := (client_session_keys t)(client_fd \<mapsto> fresh)\<rparr>))
         | None \<Rightarrow>
             let (now, t) = ask (k_now k) s;
                 fresh = int_to_string client_fd @ ''_'' @ int_to_string now
             in (fresh, t\<lparr>client_session_keys := (client_session_keys t)(client_fd \<mapsto> fresh)\<rparr>))
      in (fst cookie @ ''='' @ key @ ''; Path=/; Max-Age='' @ nat_to_string (unat (snd cookie)), s1))"

definition update_session_key :: "HttpForwarder \<Rightarrow> fd \<Rightarrow> HttpRequest \<Rightarrow> lb_state \<Rightarrow> lb_state" where
  "update_session_key w f r s =
     (case fw_session_cookie w of
        None \<Rightarrow> s
      | Some name \<Rightarrow>
          if name = [] then s
          else let v = get_cookie r name in
            if v = [] then s else s\<lparr>client_session_keys := (client_session_keys s)(f \<mapsto> v)\<rparr>)"

subsection \<open>Rewriting a message in the read buffer\<close>

text \<open>
  The end of both rewriting functions: the budget is adjusted by the change in length, and
  when it does not allow the longer message the connection is put under backpressure.
\<close>

definition replace_read_buffer :: "kernel \<Rightarrow> conn_id \<Rightarrow> bytes \<Rightarrow> lb_state \<Rightarrow> (bool \<times> lb_state) option" where
  "replace_read_buffer k i modified s = do {
     c \<leftarrow> conn_heap s i;
     let before = length (read_buf c);
     let after = length modified;
     if after > before then
       (case try_reserve_additional_bytes reserve_bytes (after - before) c (mem s) of
          (False, c1, m) \<Rightarrow>
            Some (False, mod_fd (conn_fd c) EPOLLOUT (start_backpressure k (conn_fd c) ((put_conn i c1 s)\<lparr>mem := m\<rparr>)))
        | (True, c1, m) \<Rightarrow> Some (True, (put_conn i (c1\<lparr>read_buf := modified\<rparr>) s)\<lparr>mem := m\<rparr>))
     else
       (let (c1, m) = release_accounted_bytes release_bytes (before - after) c (mem s)
        in Some (True, (put_conn i (c1\<lparr>read_buf := modified\<rparr>) s)\<lparr>mem := m\<rparr>))
   }"

definition parse_and_modify_http_request ::
    "kernel \<Rightarrow> HttpForwarder \<Rightarrow> conn_id \<Rightarrow> fd \<Rightarrow> lb_state \<Rightarrow> (bool \<times> lb_state) option" where
  "parse_and_modify_http_request k w i f s = do {
     c \<leftarrow> conn_heap s i;
     if \<not> is_http_request (read_buf c) then Some (False, s)
     else do {
       let h = http_state_of f s;
       (case parse_request (read_buf c) (req_parser h) of
          (False, consumed, p) \<Rightarrow> Some (False, put_http_state f (h\<lparr>req_parser := p\<rparr>) s)
        | (True, consumed, p) \<Rightarrow> do {
            let (ip, s1) = peer_address k f s;
            let client_ip = (if ip = [] then ''unknown'' else ip);
            let (now, s2) = ask (k_system_now k) s1;
            let r = message p;
            let ri = (request_info h)\<lparr>ri_method := method_to_string (http_method r),
                        ri_path := path r @ (if query_string r \<noteq> [] then ''?'' @ query_string r else []),
                        ri_client_ip := client_ip, ri_start_time := now\<rparr>;
            let r1 = modify_request_headers client_ip (fw_is_https w) r;
            let r2 = (case fw_request_headers w of
                        None \<Rightarrow> r1 | Some (adds, removes) \<Rightarrow> apply_custom_request_headers adds removes r1);
            let s3 = update_session_key w f r2 s2;
            let s4 = put_http_state f (h\<lparr>req_parser := p\<lparr>message := r2\<rparr>, request_info := ri\<rparr>) s3;
            replace_read_buffer k i (serialize_http_request r2) s4
          })
     }
   }"

definition parse_and_modify_http_response ::
    "kernel \<Rightarrow> HttpForwarder \<Rightarrow> conn_id \<Rightarrow> fd \<Rightarrow> lb_state \<Rightarrow> (bool \<times> lb_state) option" where
  "parse_and_modify_http_response k w i client_fd s = do {
     c \<leftarrow> conn_heap s i;
     let h = http_state_of client_fd s;
     (case parse_response (read_buf c) (resp_parser h) of
        (False, consumed, p) \<Rightarrow> Some (False, put_http_state client_fd (h\<lparr>resp_parser := p\<rparr>) s)
      | (True, consumed, p) \<Rightarrow> do {
          let r = message p;
          let r1 = (case fw_response_headers w of
                      None \<Rightarrow> r | Some (adds, removes) \<Rightarrow> apply_custom_response_headers adds removes r);
          let (r2, s1) =
            (case fw_cookie_injection w of
               None \<Rightarrow> (r1, s)
             | Some cookie \<Rightarrow>
                 let (v, t) = cookie_for_client k cookie client_fd s
                 in (if v = [] then r1 else put_resp_header ''Set-Cookie'' v r1, t));
          let s2 = put_http_state client_fd (h\<lparr>resp_parser := p\<lparr>message := r2\<rparr>\<rparr>) s1;
          replace_read_buffer k i (serialize_http_response r2) s2
        })
   }"

subsection \<open>The status of a response\<close>

fun read_status :: "nat \<Rightarrow> nat \<Rightarrow> bytes \<Rightarrow> nat" where
  "read_status 0 acc b = acc"
| "read_status (Suc n) acc [] = acc"
| "read_status (Suc n) acc (x # b) = (if is_digit x then read_status n (acc * 10 + digit_val x) b else acc)"

definition is_status_prefix :: "bytes \<Rightarrow> bool" where
  "is_status_prefix b \<longleftrightarrow>
     take 5 b = ''HTTP/'' \<and> (b ! 5 = CHR ''1'' \<or> b ! 5 = CHR ''2'') \<and> b ! 6 = CHR ''.'' \<and>
     (b ! 7 = CHR ''0'' \<or> b ! 7 = CHR ''1'') \<and> b ! 8 = CHR '' ''"

text \<open>The search for the status line; \<open>None\<close> when there is none or it has no valid code.\<close>

fun find_status :: "bytes \<Rightarrow> nat option" where
  "find_status [] = None"
| "find_status (x # b) =
     (if length (x # b) \<le> 8 then None
      else if is_status_prefix (x # b) then
        (if length (x # b) > 12 then
           (let status = read_status 3 0 (drop 9 (x # b))
            in if status \<ge> 100 \<and> status < 600 then Some status else None)
         else None)
      else find_status b)"

definition parse_response_status :: "fd \<Rightarrow> bytes \<Rightarrow> lb_state \<Rightarrow> lb_state" where
  "parse_response_status client_fd b s =
     (case http_states s client_fd of
        None \<Rightarrow> s
      | Some h \<Rightarrow>
          if ri_status_code (request_info h) > 0 \<or> length b < 12 then s
          else (case find_status b of
                  None \<Rightarrow> s
                | Some status \<Rightarrow> upd_request_info client_fd (\<lambda>ri. ri\<lparr>ri_status_code := int status\<rparr>) s))"

subsection \<open>Forwarding\<close>

text \<open>The part of \<open>forward\<close> for a request whose parser has failed: a 400 page to the client. When the budget does
  not allow the page both ends are closed.\<close>

definition send_bad_request_page :: "kernel \<Rightarrow> conn_id \<Rightarrow> conn_id \<Rightarrow> lb_state \<Rightarrow> lb_state option" where
  "send_bad_request_page k from to s = do {
     c \<leftarrow> conn_heap s from;
     d \<leftarrow> conn_heap s to;
     let f = conn_fd c;
     let page = to_bytes (bad_request ''Invalid HTTP request'');
     let (granted, c1, m) =
       (if length page > length (write_buf c)
        then try_reserve_additional_bytes reserve_bytes (length page - length (write_buf c)) c (mem s)
        else (True, release_accounted_bytes release_bytes (length (write_buf c) - length page) c (mem s)));
     if \<not> granted then do {
       s1 \<leftarrow> close_connection k f ((put_conn from c1 s)\<lparr>mem := m\<rparr>);
       d1 \<leftarrow> conn_heap s1 to;
       close_connection k (conn_fd d1) s1
     }
     else do {
       let s1 = (put_conn from (c1\<lparr>write_buf := page, read_buf := []\<rparr>) s)\<lparr>mem := m\<rparr>;
       let h = http_state_of f s1;
       let s2 = put_http_state f (h\<lparr>request_parsed := False, req_parser := reset_request_parser (req_parser h)\<rparr>)
                  (mod_fd f EPOLLINOUT s1);
       close_connection k (conn_fd d) s2
     }
   }"

definition reject_bad_request :: "kernel \<Rightarrow> conn_id \<Rightarrow> conn_id \<Rightarrow> lb_state \<Rightarrow> lb_state option" where
  "reject_bad_request k from to s = do {
     c \<leftarrow> conn_heap s from;
     let f = conn_fd c;
     let s1 = upd_metrics increment_bad_requests s;
     let (ip, s2) = peer_address k f s1;
     let (now, s3) = ask (k_system_now k) s2;
     let bad = new_request_info\<lparr>ri_client_ip := (if ip = [] then ''unknown'' else ip), ri_method := ''INVALID'',
                 ri_status_code := 400, ri_start_time := now, ri_response_complete_time := now,
                 ri_response_complete := True, ri_bytes_received := length (read_buf c)\<rparr>;
     send_bad_request_page k from to (log_finished_request k bad s3)
   }"

text \<open>What precedes the copying; the first component is false when \<open>forward\<close> returns there.\<close>

definition prepare_request ::
    "kernel \<Rightarrow> HttpForwarder \<Rightarrow> conn_id \<Rightarrow> fd \<Rightarrow> lb_state \<Rightarrow> (bool \<times> lb_state) option" where
  "prepare_request k w from f s = do {
     let s1 = put_http_state f (http_state_of f s) s;
     if request_parsed (http_state_of f s1) then Some (True, s1)
     else do {
       (ok, s2) \<leftarrow> parse_and_modify_http_request k w from f s1;
       Some (ok, if ok then put_http_state f ((http_state_of f s2)\<lparr>request_parsed := True\<rparr>) s2 else s2)
     }
   }"

definition prepare_response ::
    "kernel \<Rightarrow> HttpForwarder \<Rightarrow> conn_id \<Rightarrow> fd \<Rightarrow> lb_state \<Rightarrow> (bool \<times> lb_state) option" where
  "prepare_response k w from f s = do {
     let client_fd = get_client_fd f s;
     if client_fd \<le> 0 then Some (True, s)
     else do {
       let s1 = put_http_state client_fd (http_state_of client_fd s) s;
       (ok, s2) \<leftarrow> (if response_parsed (http_state_of client_fd s1) then Some (True, s1)
                    else do {
                      (ok, t) \<leftarrow> parse_and_modify_http_response k w from client_fd s1;
                      Some (ok, if ok then put_http_state client_fd ((http_state_of client_fd t)\<lparr>response_parsed := True\<rparr>) t else t)
                    });
       if \<not> ok then Some (False, s2)
       else do {
         c \<leftarrow> conn_heap s2 from;
         Some (True, if ri_status_code (request_info (http_state_of client_fd s2)) = 0
                     then parse_response_status client_fd (read_buf c) s2 else s2)
       }
     }
   }"

definition count_copied :: "bool \<Rightarrow> fd \<Rightarrow> nat \<Rightarrow> lb_state \<Rightarrow> lb_state" where
  "count_copied is_request f n s =
     (if is_request then upd_request_info f (\<lambda>ri. ri\<lparr>ri_bytes_received := ri_bytes_received ri + n\<rparr>) s
      else let client_fd = get_client_fd f s in
        if client_fd > 0 then upd_request_info client_fd (\<lambda>ri. ri\<lparr>ri_bytes_sent := ri_bytes_sent ri + n\<rparr>) s else s)"

definition finish_response :: "kernel \<Rightarrow> conn_id \<Rightarrow> fd \<Rightarrow> lb_state \<Rightarrow> lb_state option" where
  "finish_response k from f s = do {
     let client_fd = get_client_fd f s;
     if client_fd \<le> 0 then Some s
     else (case http_states s client_fd of
             None \<Rightarrow> Some s
           | Some h \<Rightarrow> do {
               c \<leftarrow> conn_heap s from;
               if ri_status_code (request_info h) > 0 \<and> read_buf c = [] \<and> \<not> ri_response_complete (request_info h) then do {
                 let (now, s1) = ask (k_system_now k) s;
                 let ri = (request_info h)\<lparr>ri_response_complete_time := now, ri_response_complete := True\<rparr>;
                 let s2 = log_finished_request k ri s1;
                 Some (put_http_state client_fd
                   (h\<lparr>request_info := new_request_info, request_parsed := False, response_parsed := False,
                      req_parser := reset_request_parser (req_parser h),
                      resp_parser := reset_response_parser (resp_parser h)\<rparr>) s2)
               }
               else Some s
             })
   }"

text \<open>The copying, once the message is prepared.\<close>

definition copy_prepared :: "kernel \<Rightarrow> bool \<Rightarrow> conn_id \<Rightarrow> conn_id \<Rightarrow> lb_state \<Rightarrow> lb_state option" where
  "copy_prepared k is_request from to s = do {
     c \<leftarrow> conn_heap s from;
     d \<leftarrow> conn_heap s to;
     let f = conn_fd c;
     let to_copy = min (length (read_buf c)) (write_available d);
     if to_copy = 0 then Some (mod_fd f EPOLLOUT (start_backpressure k f s))
     else do {
       let (c1, d1) = transfer to_copy c d;
       let c2 = (if buffer_full c \<and> has_read_space c1 then set_buffer_full False c1 else c1);
       let s2 = count_copied is_request f to_copy (put_conn to d1 (put_conn from c2 s));
       let s3 = mod_fd f (forward_events c2) (mod_fd (conn_fd d1) EPOLLINOUT s2);
       (written, s4) \<leftarrow> conn_write k to s3;
       if \<not> written then close_connection k (conn_fd d1) s4
       else do {
         (pending, s5) \<leftarrow> has_pending_send k to s4;
         let s6 = (if pending then start_backpressure k f s5 else clear_backpressure f s5);
         if is_request then Some s6 else finish_response k from f s6
       }
     }
   }"

definition http_forward :: "kernel \<Rightarrow> HttpForwarder \<Rightarrow> conn_id \<Rightarrow> conn_id \<Rightarrow> lb_state \<Rightarrow> lb_state option" where
  "http_forward k w from to s = do {
     c \<leftarrow> conn_heap s from;
     d \<leftarrow> conn_heap s to;
     if conn_state c \<noteq> ESTABLISHED \<or> conn_state d \<noteq> ESTABLISHED then Some s
     else if read_buf c = [] then Some s
     else do {
       let f = conn_fd c;
       let is_request = is_http_request (read_buf c);
       (ready, s1) \<leftarrow> (if is_request then prepare_request k w from f s else prepare_response k w from f s);
       if \<not> ready then Some s1
       else if is_request \<and> has_error (req_parser (http_state_of f s1)) then reject_bad_request k from to s1
       else copy_prepared k is_request from to s1
     }
   }"

end
