(* ===== verification/Event_Handlers.thy ===== *)
theory Event_Handlers
  imports Backend_Connector Splice_Forwarder Http_Data_Forwarder
begin

text \<open>
  \<^verbatim>\<open>core/event_handlers.cpp\<close>: what happens when a client's or a backend's socket is ready, with
  the callbacks the constructor of the load balancer wires (\<^verbatim>\<open>core/load_balancer.cpp\<close>). The
  handlers hold a raw pointer to the connection across calls that may destroy it; in the
  model every later use of the pointer reads the heap again, and a use after the connection
  was destroyed has the result \<open>None\<close>.
\<close>

section \<open>Callbacks\<close>

definition check_backpressure :: "kernel \<Rightarrow> fd \<Rightarrow> lb_state \<Rightarrow> lb_state option" where
  "check_backpressure k f s =
     (if backpressure_start_times s f = None then Some s
      else
        let (now, s1) = ask (k_now k) s in
        if timed_out now (bpm_timeout_ms (settings_of s1)) f (backpressure_start_times s1)
        then close_connection k f (upd_metrics increment_backpressure_timeouts s1)
        else Some s1)"

text \<open>Closing from the event handlers frees the SSL object, the pipes and the handshake timer first.\<close>

definition drop_ssl :: "fd \<Rightarrow> lb_state \<Rightarrow> lb_state option" where
  "drop_ssl f s =
     (case get_connection f s of
        None \<Rightarrow> Some s
      | Some i \<Rightarrow> do {
          c \<leftarrow> conn_heap s i;
          if ssl c \<noteq> None \<and> tls_ready s then ssl_free (ssl c) (put_conn i (c\<lparr>ssl := None\<rparr>) s) else Some s
        })"

definition handler_close :: "kernel \<Rightarrow> fd \<Rightarrow> lb_state \<Rightarrow> lb_state option" where
  "handler_close k f s = do {
     s1 \<leftarrow> drop_ssl f s;
     let s2 = (if splice_pipes s1 = None then s1 else cleanup_pipes f s1);
     close_connection k f (s2\<lparr>handshake_start_times := erase_key (handshake_start_times s2) f\<rparr>)
   }"

definition forward_data :: "kernel \<Rightarrow> conn_id \<Rightarrow> conn_id \<Rightarrow> lb_state \<Rightarrow> lb_state option" where
  "forward_data k from to s =
     (if lb_mode (settings_of s) = ''http'' \<and> http_forwarder s \<noteq> None
      then http_forward k (the (http_forwarder s)) from to s
      else if lb_use_splice (settings_of s) \<and> splice_pipes s \<noteq> None then splice_forward k from to s
      else forward k from to s)"

definition tls_handshake_complete :: "kernel \<Rightarrow> fd \<Rightarrow> lb_state \<Rightarrow> lb_state option" where
  "tls_handshake_complete k f s =
     (let s1 = s\<lparr>handshake_start_times := erase_key (handshake_start_times s) f\<rparr> in
      case get_connection f s1 of
        None \<Rightarrow> Some s1
      | Some i \<Rightarrow> connect k i 0 [] (table_remove f s1))"

section \<open>Handlers\<close>

text \<open>\<open>conn->peer() && conn->peer()->state() == ESTABLISHED\<close>, with the peer.\<close>

definition established_peer :: "conn_id \<Rightarrow> lb_state \<Rightarrow> conn_id option option" where
  "established_peer i s = do {
     c \<leftarrow> conn_heap s i;
     (case peer c of
        None \<Rightarrow> Some None
      | Some j \<Rightarrow> do {
          d \<leftarrow> conn_heap s j;
          Some (if conn_state d = ESTABLISHED then Some j else None)
        })
   }"

text \<open>Forwarding to an established peer when something was read.\<close>

definition push_to_peer :: "kernel \<Rightarrow> conn_id \<Rightarrow> lb_state \<Rightarrow> lb_state option" where
  "push_to_peer k i s = do {
     p \<leftarrow> established_peer i s;
     c \<leftarrow> conn_heap s i;
     (case p of
        None \<Rightarrow> Some s
      | Some j \<Rightarrow> if read_buf c = [] then Some s else forward_data k i j s)
   }"

definition try_retry_on_backend_error :: "kernel \<Rightarrow> fd \<Rightarrow> lb_state \<Rightarrow> (bool \<times> lb_state) option" where
  "try_retry_on_backend_error k backend_fd s =
     (case backend_to_client_map s backend_fd of
        None \<Rightarrow> Some (False, s)
      | Some client_fd \<Rightarrow>
          (case get_connection client_fd s of
             None \<Rightarrow> Some (False, s)
           | Some i \<Rightarrow> do {
               let retry_count = (case client_retry_counts s client_fd of None \<Rightarrow> 0 | Some n \<Rightarrow> n);
               s1 \<leftarrow> close_backend_connection_only backend_fd s;
               s2 \<leftarrow> retry k i retry_count (table_remove client_fd s1);
               Some (True, s2)
             }))"

definition handle_tls_handshake :: "kernel \<Rightarrow> conn_id \<Rightarrow> fd \<Rightarrow> lb_state \<Rightarrow> (bool \<times> lb_state) option" where
  "handle_tls_handshake k i f s = do {
     c \<leftarrow> conn_heap s i;
     if \<not> is_tls c then Some (False, s)
     else do {
       let (answer, s1) = ask (k_ssl_accept k) s;
       (case answer of
          SslDone \<Rightarrow> do {
            s2 \<leftarrow> with_conn i (set_conn_state ESTABLISHED) s1;
            s3 \<leftarrow> tls_handshake_complete k f (mod_fd f EPOLLINOUT s2);
            Some (True, s3)
          }
        | SslWantRead \<Rightarrow> Some (True, mod_fd f EPOLLIN s1)
        | SslWantWrite \<Rightarrow> Some (True, mod_fd f EPOLLOUT s1)
        | SslFailed \<Rightarrow> Some (False, s1))
     }
   }"

definition client_readable :: "kernel \<Rightarrow> conn_id \<Rightarrow> fd \<Rightarrow> lb_state \<Rightarrow> lb_state option" where
  "client_readable k i f s = do {
     p \<leftarrow> established_peer i s;
     if evh_use_splice (settings_of s) \<and> p \<noteq> None then forward_data k i (the p) s
     else do {
       (read_success, s1) \<leftarrow> conn_read k i s;
       c \<leftarrow> conn_heap s1 i;
       if memory_blocked c then Some (mod_fd f EPOLLOUT (start_backpressure k f s1))
       else if buffer_full c then push_to_peer k i (mod_fd f EPOLLOUT s1)
       else do {
         s2 \<leftarrow> push_to_peer k i s1;
         if read_success then Some s2
         else do {
           q \<leftarrow> established_peer i s2;
           (case q of
              None \<Rightarrow> handler_close k f s2
            | Some j \<Rightarrow> do {
                s3 \<leftarrow> push_to_peer k i s2;
                c3 \<leftarrow> conn_heap s3 i;
                j3 \<leftarrow> peer c3;
                d \<leftarrow> conn_heap s3 j3;
                Some (mod_fd f EPOLLOUT (shutdown_wr (conn_fd d) s3))
              })
         }
       }
     }
   }"

definition client_writable :: "kernel \<Rightarrow> conn_id \<Rightarrow> fd \<Rightarrow> lb_state \<Rightarrow> lb_state option" where
  "client_writable k i f s = do {
     (written, s1) \<leftarrow> conn_write k i s;
     if \<not> written then handler_close k f s1
     else do {
       c \<leftarrow> conn_heap s1 i;
       let s2 = (if memory_blocked c then s1 else mod_fd f EPOLLINOUT s1);
       (pending, s3) \<leftarrow> has_pending_send k i s2;
       let s4 = (if pending then start_backpressure k f s3 else s3);
       (case peer c of
          None \<Rightarrow> Some s4
        | Some j \<Rightarrow> do {
            d \<leftarrow> conn_heap s4 j;
            let s5 = (if conn_state d = ESTABLISHED then mod_fd (conn_fd d) EPOLLINOUT s4 else s4);
            (peer_pending, s6) \<leftarrow> has_pending_send k j s5;
            Some (if peer_pending then start_backpressure k (conn_fd d) s6 else s6)
          })
     }
   }"

definition handle_client_event :: "kernel \<Rightarrow> fd \<Rightarrow> EventType \<Rightarrow> lb_state \<Rightarrow> lb_state option" where
  "handle_client_event k f type s =
     (case get_connection f s of
        None \<Rightarrow> Some s
      | Some i \<Rightarrow> do {
          c0 \<leftarrow> conn_heap s i;
          if conn_state c0 = CLOSED then Some s
          else do {
            s1 \<leftarrow> check_backpressure k f s;
            if type = ERROR_EVENT \<or> type = HUP then handler_close k f s1
            else do {
              c \<leftarrow> conn_heap s1 i;
              if conn_state c = HANDSHAKE then do {
                (ok, s2) \<leftarrow> handle_tls_handshake k i f s1;
                if ok then Some s2 else handler_close k f s2
              }
              else if conn_state c \<noteq> ESTABLISHED then Some s1
              else if type = READ then client_readable k i f s1
              else client_writable k i f s1
            }
          }
        })"

subsection \<open>Backends\<close>

definition count_backend_failure :: "fd \<Rightarrow> lb_state \<Rightarrow> lb_state" where
  "count_backend_failure f s =
     (case lock_backend f s of
        None \<Rightarrow> s
      | Some n \<Rightarrow> count_failure n (backend_key (host (nodes s n)) (port (nodes s n))) s)"

definition give_up_on_backend :: "kernel \<Rightarrow> fd \<Rightarrow> lb_state \<Rightarrow> lb_state option" where
  "give_up_on_backend k f s = do {
     (retried, s1) \<leftarrow> try_retry_on_backend_error k f (count_backend_failure f s);
     if retried then Some s1 else handler_close k f s1
   }"

definition count_backend_established :: "fd \<Rightarrow> lb_state \<Rightarrow> lb_state" where
  "count_backend_established f s =
     (case lock_backend f s of
        None \<Rightarrow> s
      | Some n \<Rightarrow> count_routed n (backend_key (host (nodes s n)) (port (nodes s n))) s)"

text \<open>
  A connection attempt that has come to a result. The first component says whether the
  handler goes on with the event after the connection was established.
\<close>

definition backend_connected :: "kernel \<Rightarrow> conn_id \<Rightarrow> fd \<Rightarrow> lb_state \<Rightarrow> (bool \<times> lb_state) option" where
  "backend_connected k i f s = do {
     let (late, s1) =
       (case connection_times s f of
          None \<Rightarrow> (False, s)
        | Some start \<Rightarrow>
            let (now, t) = ask (k_now k) s
            in (now - start > duration_seconds (lb_connection_timeout_seconds new_settings), t));
     if late then do { s2 \<leftarrow> give_up_on_backend k f s1; Some (False, s2) }
     else do {
       let (so_error, s2) = ask (k_so_error k) s1;
       if so_error = Some 0 then do {
         s3 \<leftarrow> with_conn i (set_conn_state ESTABLISHED) s2;
         let s4 = mod_fd f EPOLLINOUT (count_backend_established f s3);
         p \<leftarrow> established_peer i s4;
         (case p of
            None \<Rightarrow> Some (True, s4)
          | Some j \<Rightarrow> do {
              d \<leftarrow> conn_heap s4 j;
              s5 \<leftarrow> (if read_buf d = [] then Some s4 else forward_data k j i s4);
              Some (True, s5)
            })
       }
       else do { s3 \<leftarrow> give_up_on_backend k f s2; Some (False, s3) }
     }
   }"

definition backend_failed :: "kernel \<Rightarrow> conn_id \<Rightarrow> fd \<Rightarrow> lb_state \<Rightarrow> lb_state option" where
  "backend_failed k i f s = do {
     c \<leftarrow> conn_heap s i;
     if conn_state c = CONNECTING then give_up_on_backend k f s
     else if conn_state c = ESTABLISHED then do {
       (read_success, s1) \<leftarrow> conn_read k i s;
       p \<leftarrow> established_peer i s1;
       s2 \<leftarrow> (case p of
                None \<Rightarrow> Some s1
              | Some j \<Rightarrow> do {
                  s2 \<leftarrow> push_to_peer k i s1;
                  d \<leftarrow> conn_heap s2 j;
                  Some (shutdown_wr (conn_fd d) (mod_fd (conn_fd d) EPOLLINOUT s2))
                });
       close_backend_connection_only f s2
     }
     else handler_close k f s
   }"

definition backend_readable :: "kernel \<Rightarrow> conn_id \<Rightarrow> fd \<Rightarrow> lb_state \<Rightarrow> lb_state option" where
  "backend_readable k i f s = do {
     p \<leftarrow> established_peer i s;
     if evh_use_splice (settings_of s) \<and> p \<noteq> None then forward_data k i (the p) s
     else do {
       (read_success, s1) \<leftarrow> conn_read k i s;
       c \<leftarrow> conn_heap s1 i;
       if memory_blocked c then Some (mod_fd f EPOLLOUT (start_backpressure k f s1))
       else if buffer_full c then push_to_peer k i (mod_fd f EPOLLOUT s1)
       else do {
         s2 \<leftarrow> push_to_peer k i s1;
         if read_success then Some s2
         else do {
           q \<leftarrow> established_peer i s2;
           s4 \<leftarrow> (case q of
                    None \<Rightarrow> Some s2
                  | Some j \<Rightarrow> do {
                      s3 \<leftarrow> push_to_peer k i s2;
                      c3 \<leftarrow> conn_heap s3 i;
                      j3 \<leftarrow> peer c3;
                      d \<leftarrow> conn_heap s3 j3;
                      Some (shutdown_wr (conn_fd d) s3)
                    });
           close_backend_connection_only f s4
         }
       }
     }
   }"

definition backend_writable :: "kernel \<Rightarrow> conn_id \<Rightarrow> fd \<Rightarrow> lb_state \<Rightarrow> lb_state option" where
  "backend_writable k i f s = do {
     (written, s1) \<leftarrow> conn_write k i s;
     if \<not> written then handler_close k f s1
     else do {
       (pending, s2) \<leftarrow> has_pending_send k i s1;
       let s3 = (if pending then start_backpressure k f s2 else s2);
       p \<leftarrow> established_peer i s3;
       (case p of
          None \<Rightarrow> Some s3
        | Some j \<Rightarrow> do {
            d \<leftarrow> conn_heap s3 j;
            let s4 = mod_fd (conn_fd d) (forward_events d) s3;
            (peer_pending, s5) \<leftarrow> has_pending_send k j s4;
            Some (if peer_pending then start_backpressure k (conn_fd d) s5 else s5)
          })
     }
   }"

definition handle_backend_event :: "kernel \<Rightarrow> fd \<Rightarrow> EventType \<Rightarrow> lb_state \<Rightarrow> lb_state option" where
  "handle_backend_event k f type s =
     (case get_connection f s of
        None \<Rightarrow> Some s
      | Some i \<Rightarrow> do {
          c0 \<leftarrow> conn_heap s i;
          if conn_state c0 = CLOSED then Some s
          else do {
            s1 \<leftarrow> check_backpressure k f s;
            if type = ERROR_EVENT \<or> type = HUP then backend_failed k i f s1
            else do {
              c \<leftarrow> conn_heap s1 i;
              (go_on, s2) \<leftarrow> (if conn_state c = CONNECTING then backend_connected k i f s1 else Some (True, s1));
              if \<not> go_on then Some s2
              else do {
                c2 \<leftarrow> conn_heap s2 i;
                if conn_state c2 \<noteq> ESTABLISHED then Some s2
                else if type = READ then backend_readable k i f s2
                else backend_writable k i f s2
              }
            }
          }
        })"

end
