(* ===== verification/Load_Balancer.thy ===== *)
theory Load_Balancer
  imports Event_Handlers
begin

text \<open>
  \<^verbatim>\<open>core/load_balancer.cpp\<close> and \<^verbatim>\<open>net/tcp_listener.cpp\<close>: accepting, rejecting and queueing clients,
  the periodic checks, the application of a configuration and the shutdown. Loops that the
  environment could keep alive forever (\<open>send\<close> accepting nothing, clients that never stop
  arriving) are partial functions whose value is \<open>None\<close> when they do not return; iterations
  over hash tables take the order of the iteration as an argument.
\<close>

section \<open>Error pages\<close>

text \<open>The \<open>send\<close> loop of \<open>send_http_error_and_close\<close>: the unsent rest, \<open>None\<close> inside on an error.\<close>

partial_function (option) send_loop ::
    "kernel \<Rightarrow> bytes \<Rightarrow> lb_state \<Rightarrow> (bytes option \<times> lb_state) option" where
  "send_loop k rest s =
     (if rest = [] then Some (Some [], s)
      else
        let (io, s1) = ask (k_send k) s in
        (case io of
           WriteWouldBlock \<Rightarrow> Some (Some rest, s1)
         | WriteFailed \<Rightarrow> Some (None, s1)
         | Accepted n \<Rightarrow> send_loop k (drop n rest) s1))"

definition send_http_error_and_close :: "kernel \<Rightarrow> fd \<Rightarrow> HttpResponse \<Rightarrow> lb_state \<Rightarrow> lb_state option" where
  "send_http_error_and_close k client_fd response s = do {
     (unsent, s1) \<leftarrow> send_loop k (to_bytes response) s;
     (case unsent of
        None \<Rightarrow> Some (sys_close client_fd s1)
      | Some rest \<Rightarrow>
          if rest = [] then Some (sys_close client_fd s1)
          else do {
            let (i, s2) = make_connection client_fd s1;
            s3 \<leftarrow> with_conn i (\<lambda>c. (set_conn_state ESTABLISHED c)\<lparr>write_buf := rest\<rparr>) s2;
            s4 \<leftarrow> table_put client_fd i s3;
            let (now, s5) = ask (k_now k) s4;
            let s6 = s5\<lparr>connection_times := (connection_times s5)(client_fd \<mapsto> now)\<rparr>;
            Some (snd (add_fd client_fd EPOLLOUT ErrorPageHandler s6))
          })
   }"

definition handle_error_page_event :: "kernel \<Rightarrow> fd \<Rightarrow> EventType \<Rightarrow> lb_state \<Rightarrow> lb_state option" where
  "handle_error_page_event k f type s =
     (case get_connection f s of
        None \<Rightarrow> Some s
      | Some i \<Rightarrow>
          (case type of
             WRITE \<Rightarrow> do {
               (written, s1) \<leftarrow> conn_write k i s;
               if \<not> written then close_connection k f s1
               else do {
                 c \<leftarrow> conn_heap s1 i;
                 if write_buf c = [] then close_connection k f s1 else Some s1
               }
             }
           | READ \<Rightarrow> Some s
           | _ \<Rightarrow> close_connection k f s))"

text \<open>Turning a client away: with a page in HTTP mode, by closing otherwise.\<close>

definition turn_away :: "kernel \<Rightarrow> Config option \<Rightarrow> fd \<Rightarrow> HttpResponse \<Rightarrow> lb_state \<Rightarrow> lb_state option" where
  "turn_away k cfg client_fd page s =
     (if (case cfg of None \<Rightarrow> False | Some c \<Rightarrow> cfg_mode c = ''http'')
      then send_http_error_and_close k client_fd page s
      else Some (sys_close client_fd s))"

section \<open>Accepting\<close>

definition get_config :: "lb_state \<Rightarrow> Config option" where
  "get_config s = map_option config (config_manager s)"

definition accept_fd :: "kernel \<Rightarrow> fd \<Rightarrow> lb_state \<Rightarrow> fd \<times> lb_state" where
  "accept_fd k l s = (if l < 0 then (- 1, s) else ask (\<lambda>t. k_accept k t (open_fds s)) s)"

definition can_queue :: "Config option \<Rightarrow> lb_state \<Rightarrow> bool" where
  "can_queue cfg s =
     (case cfg of
        None \<Rightarrow> False
      | Some c \<Rightarrow> queue_enabled c \<and> length (pending_clients s) < unat (queue_max_size c))"

definition enqueue_client :: "kernel \<Rightarrow> fd \<Rightarrow> string \<Rightarrow> lb_state \<Rightarrow> lb_state" where
  "enqueue_client k f ip s =
     (let (now, s1) = ask (k_now k) s
      in s1\<lparr>pending_clients := pending_clients s1 @ [\<lparr>qc_fd = f, qc_client_ip = ip, qc_enqueue_time = now\<rparr>]\<rparr>)"

text \<open>From a descriptor to a connection on its way: the last part of accepting and of dequeuing.\<close>

definition start_tls :: "kernel \<Rightarrow> conn_id \<Rightarrow> fd \<Rightarrow> lb_state \<Rightarrow> lb_state option" where
  "start_tls k i f s = do {
     let (answer, s1) = ask (\<lambda>t. k_new_ssl k t (live_ssl s)) s;
     (case answer of
        None \<Rightarrow> destroy i (sys_close f s1)
      | Some x \<Rightarrow> do {
          s2 \<leftarrow> with_conn i (\<lambda>c. (set_conn_state HANDSHAKE c)\<lparr>ssl := Some x\<rparr>) (s1\<lparr>live_ssl := insert x (live_ssl s1)\<rparr>);
          s3 \<leftarrow> table_put f i s2;
          let (now, s4) = ask (k_now k) s3;
          let (now', s5) = ask (k_now k) s4;
          let s6 = s5\<lparr>connection_times := (connection_times s5)(f \<mapsto> now),
                      handshake_start_times := (handshake_start_times s5)(f \<mapsto> now')\<rparr>;
          Some (snd (add_fd f EPOLLINOUT ClientHandler s6))
        })
   }"

definition start_client :: "kernel \<Rightarrow> Config option \<Rightarrow> fd \<Rightarrow> string \<Rightarrow> lb_state \<Rightarrow> lb_state option" where
  "start_client k cfg f ip s = do {
     let (i, s1) = make_connection f (upd_metrics increment_connections_total s);
     s2 \<leftarrow> attach_memory_accounting i s1;
     if tls_ready s2 then start_tls k i f s2
     else do {
       s3 \<leftarrow> with_conn i (set_conn_state ESTABLISHED) s2;
       let (now, s4) = ask (k_now k) s3;
       let s5 = s4\<lparr>connection_times := (connection_times s4)(f \<mapsto> now)\<rparr>;
       let key = get_session_key f ip cfg (client_session_keys s5);
       connect k i 0 key (s5\<lparr>client_session_keys := (client_session_keys s5)(f \<mapsto> key)\<rparr>)
     }
   }"

definition admit_client :: "kernel \<Rightarrow> fd \<Rightarrow> lb_state \<Rightarrow> lb_state option" where
  "admit_client k f s = do {
     let (raw_ip, s1) = ask (k_client_ip k) s;
     let ip = (if raw_ip = [] then ''unknown'' else raw_ip);
     let cfg = get_config s1;
     if \<not> is_ip_allowed ip cfg
     then turn_away k cfg f (forbidden ''IP address not allowed'') (upd_metrics increment_overload_drops s1)
     else do {
       let (now, s2) = ask (k_now k) s1;
       let (within, tr) = check_rate_limit now ip cfg (rate_limit_tracker s2);
       let s3 = s2\<lparr>rate_limit_tracker := tr\<rparr>;
       if \<not> within
       then turn_away k cfg f (too_many_requests ''Rate limit exceeded'') (upd_metrics increment_rate_limit_drops s3)
       else if is_exceeded (mem s3) then
         (if can_queue cfg s3 then Some (enqueue_client k f ip s3)
          else turn_away k cfg f (service_unavailable ''Service temporarily unavailable'')
                 (upd_metrics increment_memory_budget_drops s3))
       else if count_active_client_connections s3 \<ge> unat (lb_max_global_connections (settings_of s3)) then
         (if can_queue cfg s3 then Some (enqueue_client k f ip s3)
          else turn_away k cfg f (service_unavailable ''Service temporarily unavailable'')
                 (upd_metrics increment_overload_drops s3))
       else start_client k cfg f ip s3
     }
   }"

partial_function (option) handle_accept :: "kernel \<Rightarrow> lb_state \<Rightarrow> lb_state option" where
  "handle_accept k s = do {
     l \<leftarrow> listener s;
     (case accept_fd k l s of
        (f, s1) \<Rightarrow>
          if f < 0 then Some s1
          else do {
            s2 \<leftarrow> admit_client k f (sys_open f s1);
            handle_accept k s2
          })
   }"

section \<open>The queue of waiting clients\<close>

fun expire_clients ::
    "kernel \<Rightarrow> Config \<Rightarrow> time \<Rightarrow> QueuedClient list \<Rightarrow> lb_state \<Rightarrow> (QueuedClient list \<times> lb_state) option" where
  "expire_clients k cfg now [] s = Some ([], s)"
| "expire_clients k cfg now (qc # qs) s =
     (if queue_max_wait_ms cfg > 0 \<and> elapsed_at_least_ms now (qc_enqueue_time qc) (queue_max_wait_ms cfg) then do {
        s1 \<leftarrow> turn_away k (Some cfg) (qc_fd qc) (service_unavailable ''Request timeout while waiting in queue'')
                (upd_metrics increment_queue_drops s);
        expire_clients k cfg now qs s1
      }
      else do {
        (kept, s1) \<leftarrow> expire_clients k cfg now qs s;
        Some (qc # kept, s1)
      })"

fun admit_queued :: "kernel \<Rightarrow> QueuedClient list \<Rightarrow> lb_state \<Rightarrow> lb_state option" where
  "admit_queued k [] s = Some (s\<lparr>pending_clients := []\<rparr>)"
| "admit_queued k (qc # qs) s =
     (if count_active_client_connections s < unat (lb_max_global_connections (settings_of s)) \<and> \<not> is_exceeded (mem s)
      then do {
        s1 \<leftarrow> start_client k (get_config s) (qc_fd qc) (qc_client_ip qc) (s\<lparr>pending_clients := qs\<rparr>);
        admit_queued k qs s1
      }
      else Some (s\<lparr>pending_clients := qc # qs\<rparr>))"

definition try_dequeue_clients :: "kernel \<Rightarrow> lb_state \<Rightarrow> lb_state option" where
  "try_dequeue_clients k s =
     (case get_config s of
        None \<Rightarrow> Some s
      | Some cfg \<Rightarrow>
          if \<not> queue_enabled cfg \<or> queue_max_size cfg = 0 then Some s
          else do {
            let (now, s1) = ask (k_now k) s;
            (kept, s2) \<leftarrow> expire_clients k cfg now (pending_clients s1) s1;
            admit_queued k kept s2
          })"

section \<open>Periodic checks\<close>

text \<open>Closing a list of timed-out descriptors, with what each sweep does before and after.\<close>

fun sweep :: "(fd \<Rightarrow> lb_state \<Rightarrow> lb_state) \<Rightarrow> kernel \<Rightarrow> (fd \<Rightarrow> lb_state \<Rightarrow> lb_state) \<Rightarrow> fd list \<Rightarrow> lb_state \<Rightarrow> lb_state option" where
  "sweep pre k post [] s = Some s"
| "sweep pre k post (f # fs) s = do { s1 \<leftarrow> close_connection k f (pre f s); sweep pre k post fs (post f s1) }"

definition request_timed_out :: "time \<Rightarrow> lb_state \<Rightarrow> fd \<times> conn_id \<Rightarrow> bool" where
  "request_timed_out now s e \<longleftrightarrow>
     backend_connections s (fst e) = None \<and>
     map_option conn_state (conn_heap s (snd e)) = Some ESTABLISHED \<and>
     (case connection_times s (fst e) of
        None \<Rightarrow> False
      | Some start \<Rightarrow> elapsed_at_least_ms now start (lb_request_timeout_ms (settings_of s)))"

definition check_request_timeouts :: "kernel \<Rightarrow> lb_state \<Rightarrow> lb_state option" where
  "check_request_timeouts k s =
     (if lb_request_timeout_ms (settings_of s) = 0 then Some s
      else
        let (now, s1) = ask (k_now k) s
        in sweep (\<lambda>_. upd_metrics increment_request_timeouts) k (\<lambda>_ t. t)
             (map fst (filter (request_timed_out now s1) (connections s1))) s1)"

definition handshake_timed_out :: "time \<Rightarrow> lb_state \<Rightarrow> fd \<Rightarrow> bool" where
  "handshake_timed_out now s f \<longleftrightarrow>
     (case handshake_start_times s f of
        None \<Rightarrow> False
      | Some start \<Rightarrow>
          elapsed_at_least_ms now start (lb_tls_handshake_timeout_ms (settings_of s)) \<and>
          (case get_connection f s of None \<Rightarrow> False | Some i \<Rightarrow> map_option conn_state (conn_heap s i) = Some HANDSHAKE))"

definition check_handshake_timeouts :: "kernel \<Rightarrow> fd list \<Rightarrow> lb_state \<Rightarrow> lb_state option" where
  "check_handshake_timeouts k order s =
     (if lb_tls_handshake_timeout_ms (settings_of s) = 0 then Some s
      else
        let (now, s1) = ask (k_now k) s
        in sweep (\<lambda>_ t. t) k (\<lambda>f t. t\<lparr>handshake_start_times := erase_key (handshake_start_times t) f\<rparr>)
             (filter (handshake_timed_out now s1) order) s1)"

definition backpressure_timed_out :: "time \<Rightarrow> lb_state \<Rightarrow> fd \<Rightarrow> bool" where
  "backpressure_timed_out now s f \<longleftrightarrow>
     timed_out now (lb_backpressure_timeout_ms (settings_of s)) f (backpressure_start_times s) \<and>
     (case get_connection f s of
        None \<Rightarrow> False
      | Some i \<Rightarrow> (case conn_heap s i of None \<Rightarrow> False | Some c \<Rightarrow> conn_state c \<noteq> CLOSED))"

definition check_backpressure_timeouts :: "kernel \<Rightarrow> fd list \<Rightarrow> lb_state \<Rightarrow> lb_state option" where
  "check_backpressure_timeouts k order s =
     (if lb_backpressure_timeout_ms (settings_of s) = 0 then Some s
      else
        let (now, s1) = ask (k_now k) s
        in sweep (\<lambda>_. upd_metrics increment_backpressure_timeouts) k
             (\<lambda>f t. t\<lparr>backpressure_start_times := erase_key (backpressure_start_times t) f\<rparr>)
             (filter (backpressure_timed_out now s1) order) s1)"

section \<open>Backends and configuration\<close>

definition add_backend :: "string \<Rightarrow> u16 \<Rightarrow> u32 \<Rightarrow> lb_state \<Rightarrow> lb_state" where
  "add_backend h p w s =
     (if find_backend (nodes s) h p (backend_pool s) \<noteq> None then s
      else
        let n = next_node s
        in s\<lparr>nodes := (nodes s)(n := new_backend_node h p w), next_node := n + 1,
             backend_pool := pool_add_backend n (backend_pool s),
             health_checker := hc_add_backend n (health_checker s)\<rparr>)"

definition cleanup_drained_backend :: "node_id \<Rightarrow> lb_state \<Rightarrow> lb_state" where
  "cleanup_drained_backend n s =
     (if state (nodes s n) = DRAINING \<and> active_connections (nodes s n) = 0
      then s\<lparr>backend_pool := pool_remove_backend (nodes s) (host (nodes s n)) (port (nodes s n)) (backend_pool s),
             health_checker := hc_remove_backend n (health_checker s)\<rparr>
      else s)"

definition cleanup_drained_backends :: "lb_state \<Rightarrow> lb_state" where
  "cleanup_drained_backends s = fold cleanup_drained_backend (backends (backend_pool s)) s"

definition drain_backend :: "node_id \<Rightarrow> lb_state \<Rightarrow> lb_state" where
  "drain_backend n s = (if state (nodes s n) \<noteq> DRAINING then upd_nodes n (set_state DRAINING) s else s)"

definition budget_limit :: "Config \<Rightarrow> budget \<Rightarrow> budget" where
  "budget_limit cfg b =
     (if global_buffer_budget_kb cfg > 0 then set_limit_bytes (ucast (global_buffer_budget_kb cfg) * 1024) b
      else set_limit_mb (global_buffer_budget_mb cfg) b)"

definition header_rules :: "(string \<times> string) list \<Rightarrow> string list \<Rightarrow> ((string \<times> string) list \<times> string list) option" where
  "header_rules adds removes = (if adds \<noteq> [] \<or> removes \<noteq> [] then Some (adds, removes) else None)"

definition cookie_sessions :: "Config \<Rightarrow> bool" where
  "cookie_sessions cfg \<longleftrightarrow> sticky_sessions_enabled cfg \<and> sticky_sessions_method cfg = ''cookie''"

definition configure_forwarder :: "Config \<Rightarrow> HttpForwarder \<Rightarrow> HttpForwarder" where
  "configure_forwarder cfg w =
     w\<lparr>fw_request_headers := header_rules (http_request_headers_add cfg) (http_request_headers_remove cfg),
       fw_response_headers := header_rules (http_response_headers_add cfg) (http_response_headers_remove cfg),
       fw_session_cookie := (if cookie_sessions cfg then Some (sticky_sessions_cookie_name cfg) else None),
       fw_cookie_injection := (if cookie_sessions cfg
          then Some (sticky_sessions_cookie_name cfg, sticky_sessions_ttl_seconds cfg) else None)\<rparr>"

definition health_settings_changed :: "Config \<Rightarrow> Config \<Rightarrow> bool" where
  "health_settings_changed cfg prev \<longleftrightarrow>
     health_check_interval_ms cfg \<noteq> health_check_interval_ms prev \<or>
     health_check_timeout_ms cfg \<noteq> health_check_timeout_ms prev \<or>
     health_check_failure_threshold cfg \<noteq> health_check_failure_threshold prev \<or>
     health_check_success_threshold cfg \<noteq> health_check_success_threshold prev \<or>
     health_check_type cfg \<noteq> health_check_type prev"

definition configure_health :: "Config \<Rightarrow> lb_state \<Rightarrow> lb_state" where
  "configure_health cfg s =
     s\<lparr>health_checker := hc_configure (health_check_interval_ms cfg) (health_check_timeout_ms cfg)
         (health_check_failure_threshold cfg) (health_check_success_threshold cfg)
         (health_check_type cfg) (health_check_path cfg) (health_checker s)\<rparr>"

definition apply_settings :: "Config \<Rightarrow> settings \<Rightarrow> settings" where
  "apply_settings cfg st =
     st\<lparr>lb_max_global_connections := max_global_connections cfg,
        lb_max_connections_per_backend := max_connections_per_backend cfg,
        lb_backpressure_timeout_ms := backpressure_timeout_ms cfg,
        lb_request_timeout_ms := request_timeout_ms cfg,
        lb_graceful_shutdown_timeout_seconds := graceful_shutdown_timeout_seconds cfg,
        lb_tls_handshake_timeout_ms := tls_handshake_timeout_ms cfg,
        bcn_sndbuf := backend_socket_sndbuf cfg,
        bcn_sticky_enabled := sticky_sessions_enabled cfg,
        bcn_sticky_method := sticky_sessions_method cfg,
        bcn_sticky_ttl_seconds := sticky_sessions_ttl_seconds cfg,
        bpm_timeout_ms := backpressure_timeout_ms cfg\<rparr>"

definition configured_algorithm :: "Config \<Rightarrow> RoutingAlgorithm" where
  "configured_algorithm cfg =
     (if routing_algorithm cfg = ''least_connections'' then LEAST_CONNECTIONS else ROUND_ROBIN)"

definition restore_or_add :: "BackendConfig \<Rightarrow> lb_state \<Rightarrow> lb_state" where
  "restore_or_add bc s =
     (case find_backend (nodes s) (bc_host bc) (bc_port bc) (backend_pool s) of
        None \<Rightarrow> add_backend (bc_host bc) (bc_port bc) (bc_weight bc) s
      | Some n \<Rightarrow> if state (nodes s n) = DRAINING then upd_nodes n (set_state HEALTHY) s else s)"

definition drain_if_unlisted :: "BackendConfig list \<Rightarrow> node_id \<Rightarrow> lb_state \<Rightarrow> lb_state" where
  "drain_if_unlisted bcs n s =
     (if (host (nodes s n), port (nodes s n)) \<in> (\<lambda>bc. (bc_host bc, bc_port bc)) ` set bcs then s else drain_backend n s)"

definition apply_config :: "Config \<Rightarrow> lb_state \<Rightarrow> lb_state" where
  "apply_config cfg s =
     (let s1 = (case last_applied_config s of
                  None \<Rightarrow> s
                | Some prev \<Rightarrow> if health_settings_changed cfg prev then configure_health cfg s else s);
          s2 = s1\<lparr>settings_of := apply_settings cfg (settings_of s1), mem := budget_limit cfg (mem s1)\<rparr>;
          s3 = (if algorithm (backend_pool s2) \<noteq> configured_algorithm cfg
                then s2\<lparr>backend_pool := set_algorithm (configured_algorithm cfg) (backend_pool s2)\<rparr> else s2);
          s4 = (if lb_mode (settings_of s3) = ''http''
                then s3\<lparr>http_forwarder := map_option (configure_forwarder cfg) (http_forwarder s3)\<rparr> else s3);
          s5 = fold (drain_if_unlisted (cfg_backends cfg)) (backends (backend_pool s4)) s4;
          s6 = fold restore_or_add (cfg_backends cfg) s5
      in (cleanup_drained_backends s6)\<lparr>last_applied_config := Some cfg\<rparr>)"

section \<open>Starting up\<close>

definition tcp_bind :: "kernel \<Rightarrow> string \<Rightarrow> u16 \<Rightarrow> lb_state \<Rightarrow> fd option \<times> lb_state" where
  "tcp_bind k h p s =
     (let (f, s1) = ask (\<lambda>t. k_socket k t (open_fds s)) s in
      if f < 0 then (None, s1)
      else
        let s2 = sys_open f s1; (reuse, s3) = ask (k_reuseaddr k) s2 in
        if \<not> reuse then (None, sys_close f s3)
        else
          let (known, s4) = (if h = ''0.0.0.0'' \<or> h = [] then (True, s3) else ask (\<lambda>t. k_address k t h) s3) in
          if \<not> known then (None, sys_close f s4)
          else
            let (bound, s5) = ask (k_bind k) s4 in
            if \<not> bound then (None, sys_close f s5) else (Some f, s5))"

definition initialize :: "kernel \<Rightarrow> string \<Rightarrow> u16 \<Rightarrow> lb_state \<Rightarrow> bool \<times> lb_state" where
  "initialize k h p s =
     (case tcp_bind k h p s of
        (None, s1) \<Rightarrow> (False, s1\<lparr>listener := Some (- 1)\<rparr>)
      | (Some f, s1) \<Rightarrow>
          let s2 = s1\<lparr>listener := Some f\<rparr>; (listening, s3) = ask (k_listen k) s2 in
          if \<not> listening then (False, s3)
          else
            let (registered, s4) = add_fd f EPOLLIN AcceptHandler s3 in
            if \<not> registered then (False, s4)
            else (True, s4\<lparr>health_checker := hc_start (health_checker s4)\<rparr>))"

definition initial_settings :: "Config \<Rightarrow> settings \<Rightarrow> settings" where
  "initial_settings cfg st =
     (apply_settings cfg st)\<lparr>bcn_max_connections_per_backend := max_connections_per_backend cfg, bcn_sessions := True,
        lb_mode := (if cfg_mode cfg = [] then ''tcp'' else cfg_mode cfg)\<rparr>"

definition initialize_splice :: "kernel \<Rightarrow> Config \<Rightarrow> lb_state \<Rightarrow> lb_state" where
  "initialize_splice k cfg s =
     (if cfg_use_splice cfg \<and> lb_mode (settings_of s) = ''tcp'' then
        (let (available, s1) = is_available k s in
         if available
         then s1\<lparr>splice_pipes := Some [], settings_of := (settings_of s1)\<lparr>lb_use_splice := True, evh_use_splice := True\<rparr>\<rparr>
         else s1\<lparr>settings_of := (settings_of s1)\<lparr>lb_use_splice := False\<rparr>\<rparr>)
      else s\<lparr>settings_of := (settings_of s)\<lparr>lb_use_splice := False\<rparr>\<rparr>)"

definition initialize_tls :: "kernel \<Rightarrow> Config \<Rightarrow> lb_state \<Rightarrow> bool \<times> lb_state" where
  "initialize_tls k cfg s =
     (if \<not> tls_enabled cfg then (True, s)
      else
        let (made, s1) = ask (k_tls_context k) s in
        if \<not> made then (False, s1)
        else let (loaded, s2) = ask (k_tls_certificate k) s1 in (loaded, s2\<lparr>tls_ready := True\<rparr>))"

definition pool_settings :: "Config \<Rightarrow> PoolConfig" where
  "pool_settings cfg =
     \<lparr>min_connections = unat (pool_min_connections cfg), max_connections = unat (pool_max_connections cfg),
      max_idle_time_ms = unat (pool_idle_timeout_ms cfg), connect_timeout_ms = unat (pool_connect_timeout_ms cfg),
      validate_on_borrow = True\<rparr>"

definition initialize_from_config :: "kernel \<Rightarrow> Config \<Rightarrow> lb_state \<Rightarrow> bool \<times> lb_state" where
  "initialize_from_config k cfg s =
     (case initialize k (listen_host cfg) (listen_port cfg) (configure_health cfg s) of
        (False, s1) \<Rightarrow> (False, s1)
      | (True, s1) \<Rightarrow>
          let s2 = s1\<lparr>has_thread_pool := (thread_pool_worker_count cfg > 0),
                      settings_of := initial_settings cfg (settings_of s1), mem := budget_limit cfg (mem s1)\<rparr>;
              s3 = (if lb_mode (settings_of s2) = ''http''
                    then s2\<lparr>http_forwarder := Some (configure_forwarder cfg
                           \<lparr>fw_is_https = tls_ready s2, fw_request_headers = None, fw_response_headers = None,
                            fw_session_cookie = None, fw_cookie_injection = None\<rparr>)\<rparr>
                    else s2);
              (secured, s4) = initialize_tls k cfg (initialize_splice k cfg s3)
          in if \<not> secured then (False, s4)
             else
               let s5 = fold (\<lambda>bc. add_backend (bc_host bc) (bc_port bc) (bc_weight bc)) (cfg_backends cfg) s4;
                   s6 = s5\<lparr>mem := budget_limit cfg (mem s5)\<rparr>;
                   s7 = (if connection_pool_enabled cfg
                         then s6\<lparr>pool_manager := Some (new_pool_manager (pool_settings cfg))\<rparr> else s6)
               in (True, s7\<lparr>last_applied_config := Some cfg\<rparr>))"

section \<open>Shutting down\<close>

definition force_close_all_connections :: "kernel \<Rightarrow> lb_state \<Rightarrow> lb_state option" where
  "force_close_all_connections k s =
     close_each (close_connection k)
       (map fst (filter (\<lambda>e. case conn_heap s (snd e) of None \<Rightarrow> False | Some c \<Rightarrow> conn_state c \<noteq> CLOSED) (connections s))) s"

definition finish_shutdown :: "kernel \<Rightarrow> lb_state \<Rightarrow> lb_state option" where
  "finish_shutdown k s = do {
     s1 \<leftarrow> force_close_all_connections k s;
     Some (s1\<lparr>health_checker := hc_stop (health_checker s1), reactor_running := False, draining := False\<rparr>)
   }"

definition close_listener :: "lb_state \<Rightarrow> lb_state" where
  "close_listener s =
     (case listener s of
        None \<Rightarrow> s
      | Some l \<Rightarrow> (if l \<ge> 0 then sys_close l (del_fd l s) else s)\<lparr>listener := None\<rparr>)"

definition shutdown_gracefully :: "kernel \<Rightarrow> lb_state \<Rightarrow> lb_state option" where
  "shutdown_gracefully k s =
     (if shutdown_requested s then Some s
      else do {
        let s1 = close_listener (s\<lparr>shutdown_requested := True\<rparr>);
        let s2 = fold drain_backend (backends (backend_pool s1)) s1;
        let (now, s3) = ask (k_now k) s2;
        let s4 = s3\<lparr>draining := True,
                    shutdown_deadline := now + duration_seconds (lb_graceful_shutdown_timeout_seconds (settings_of s3))\<rparr>;
        if count_active_client_connections s4 = 0 then finish_shutdown k s4 else Some s4
      })"

definition check_graceful_shutdown :: "kernel \<Rightarrow> lb_state \<Rightarrow> lb_state option" where
  "check_graceful_shutdown k s =
     (if \<not> draining s then Some s
      else
        let (now, s1) = ask (k_now k) s in
        if count_active_client_connections s1 = 0 then finish_shutdown k s1
        else if now \<ge> shutdown_deadline s1 then finish_shutdown k s1
        else Some s1)"

definition stop :: "lb_state \<Rightarrow> lb_state" where
  "stop s = s\<lparr>health_checker := hc_stop (health_checker s), reactor_running := False\<rparr>"

text \<open>The destructor: every SSL object is freed, then every connection closed, which frees it again.\<close>

fun free_all_ssl :: "conn_id list \<Rightarrow> lb_state \<Rightarrow> lb_state option" where
  "free_all_ssl [] s = Some s"
| "free_all_ssl (i # is) s = do { c \<leftarrow> conn_heap s i; s1 \<leftarrow> ssl_free (ssl c) s; free_all_ssl is s1 }"

fun close_all :: "conn_id list \<Rightarrow> lb_state \<Rightarrow> lb_state option" where
  "close_all [] s = Some s"
| "close_all (i # is) s = do { s1 \<leftarrow> conn_close i s; close_all is s1 }"

definition destroy_load_balancer :: "lb_state \<Rightarrow> lb_state option" where
  "destroy_load_balancer s = do {
     let s1 = s\<lparr>health_checker := hc_stop (health_checker s)\<rparr>;
     let ids = map snd (connections s1);
     s2 \<leftarrow> (if tls_ready s1 then free_all_ssl ids s1 else Some s1);
     s3 \<leftarrow> close_all ids s2;
     destroy_all ids (s3\<lparr>connections := []\<rparr>)
   }"

section \<open>The periodic callback\<close>

definition apply_pending_config :: "lb_state \<Rightarrow> lb_state" where
  "apply_pending_config s =
     (case pending_config s of
        None \<Rightarrow> s
      | Some cfg \<Rightarrow> (apply_config cfg s)\<lparr>pending_config := None\<rparr>)"

text \<open>The task that the thread pool runs, or that the callback runs itself without one.\<close>

definition background_reload :: "'y yaml_api \<Rightarrow> 'y file_view \<Rightarrow> lb_state \<Rightarrow> lb_state" where
  "background_reload Y fv s =
     (case config_manager s of
        None \<Rightarrow> s
      | Some m \<Rightarrow>
          let (reloaded, m') = check_and_reload Y fv m; s1 = s\<lparr>config_manager := Some m'\<rparr>
          in (if reloaded then s1\<lparr>pending_config := Some (config m')\<rparr> else s1)\<lparr>config_check_in_progress := False\<rparr>)"

definition check_config :: "'y yaml_api \<Rightarrow> 'y file_view \<Rightarrow> lb_state \<Rightarrow> lb_state" where
  "check_config Y fv s =
     (case config_manager s of
        None \<Rightarrow> s
      | Some m \<Rightarrow>
          if config_check_in_progress s then s
          else if has_thread_pool s then s\<lparr>config_check_in_progress := True\<rparr>
          else
            let (reloaded, m') = check_and_reload Y fv m; s1 = s\<lparr>config_manager := Some m'\<rparr>
            in if reloaded then apply_config (config m') s1 else s1)"

definition evict_idle :: "kernel \<Rightarrow> lb_state \<Rightarrow> lb_state option" where
  "evict_idle k s =
     (case pool_manager s of
        None \<Rightarrow> Some s
      | Some pm \<Rightarrow>
          let (now, s1) = ask (k_now k) s; (closed, pm') = pm_evict_expired now pm
          in destroy_all closed (s1\<lparr>pool_manager := Some pm'\<rparr>))"

definition periodic ::
    "kernel \<Rightarrow> 'y yaml_api \<Rightarrow> 'y file_view \<Rightarrow> fd list \<Rightarrow> fd list \<Rightarrow> lb_state \<Rightarrow> lb_state option" where
  "periodic k Y fv handshake_order backpressure_order s =
     (if draining s then check_graceful_shutdown k s
      else do {
        let s1 = cleanup_drained_backends (check_config Y fv (apply_pending_config s));
        s2 \<leftarrow> evict_idle k s1;
        s3 \<leftarrow> check_request_timeouts k s2;
        s4 \<leftarrow> check_handshake_timeouts k handshake_order s3;
        s5 \<leftarrow> check_backpressure_timeouts k backpressure_order s4;
        let (now, s6) = ask (k_now k) s5;
        s7 \<leftarrow> try_dequeue_clients k
          (s6\<lparr>rate_limit_tracker := cleanup_rate_limit_entries now (get_config s6) (rate_limit_tracker s6)\<rparr>);
        let (now', s8) = ask (k_now k) s7;
        let s9 = s8\<lparr>session_table := cleanup_expired_sessions now' (session_table s8)\<rparr>;
        Some (upd_metrics (set_memory_budget_limit (limit_bytes (mem s9)))
               (upd_metrics (set_memory_budget_used (used_bytes (mem s9))) s9))
      })"

section \<open>The event loop\<close>

text \<open>\<^verbatim>\<open>net/epoll_reactor.cpp\<close>: the callbacks of one event, and one round of the loop.\<close>

record ready_event =
  re_fd :: fd
  re_error :: bool
  re_in :: bool
  re_out :: bool

definition run_callback :: "kernel \<Rightarrow> callback \<Rightarrow> fd \<Rightarrow> EventType \<Rightarrow> lb_state \<Rightarrow> lb_state option" where
  "run_callback k cb f type s =
     (case cb of
        AcceptHandler \<Rightarrow> handle_accept k s
      | ClientHandler \<Rightarrow> handle_client_event k f type s
      | BackendHandler \<Rightarrow> handle_backend_event k f type s
      | ErrorPageHandler \<Rightarrow> handle_error_page_event k f type s)"

definition notify :: "kernel \<Rightarrow> bool \<Rightarrow> fd \<Rightarrow> EventType \<Rightarrow> lb_state \<Rightarrow> lb_state option" where
  "notify k wanted f type s =
     (case callbacks s f of
        None \<Rightarrow> Some s
      | Some cb \<Rightarrow> if wanted then run_callback k cb f type s else Some s)"

definition dispatch :: "kernel \<Rightarrow> ready_event \<Rightarrow> lb_state \<Rightarrow> lb_state option" where
  "dispatch k e s = do {
     s1 \<leftarrow> notify k (re_error e) (re_fd e) ERROR_EVENT s;
     s2 \<leftarrow> notify k (re_in e) (re_fd e) READ s1;
     notify k (re_out e) (re_fd e) WRITE s2
   }"

fun dispatch_all :: "kernel \<Rightarrow> ready_event list \<Rightarrow> lb_state \<Rightarrow> lb_state option" where
  "dispatch_all k [] s = Some s"
| "dispatch_all k (e # es) s = do { s1 \<leftarrow> dispatch k e s; dispatch_all k es s1 }"

end
