(* ===== verification/Reactor.thy ===== *)
theory Reactor
  imports Load_Balancer
begin

text \<open>
  \<^verbatim>\<open>net/epoll_reactor.cpp\<close>: the loop of the reactor. Each turn waits for events, runs the periodic
  callback when its interval has passed, and then runs the callbacks of the events. What a turn
  meets is an argument: the answer of \<open>epoll_wait\<close>, the configuration file, and the orders in
  which the periodic checks see the hash tables. A list of turns that ends while the loop
  still runs has the value \<open>None\<close>.
\<close>

definition MAX_EVENTS :: nat where
  "MAX_EVENTS = 64"

datatype wait_answer = Ready "ready_event list" | Interrupted | WaitFailed

record 'y reactor_turn =
  rt_wait :: wait_answer
  rt_view :: "'y file_view"
  rt_handshakes :: "fd list"
  rt_backpressure :: "fd list"

text \<open>The members the loop uses beside the tables of the balancer: the interval of the periodic
  callback and the time of its last run.\<close>

record EpollReactor =
  periodic_interval_ms :: u32
  last_periodic_check :: time

definition new_reactor :: "time \<Rightarrow> EpollReactor" where
  "new_reactor now = \<lparr>periodic_interval_ms = 0, last_periodic_check = now\<rparr>"

definition set_periodic_callback :: "u32 \<Rightarrow> time \<Rightarrow> EpollReactor \<Rightarrow> EpollReactor" where
  "set_periodic_callback interval now r = r\<lparr>periodic_interval_ms := interval, last_periodic_check := now\<rparr>"

text \<open>The timeout the loop passes to \<open>epoll_wait\<close>.\<close>

definition wait_timeout_ms :: "EpollReactor \<Rightarrow> int" where
  "wait_timeout_ms r = (if periodic_interval_ms r > 0 then uint (periodic_interval_ms r) else 1000)"

definition run_periodic ::
    "kernel \<Rightarrow> 'y yaml_api \<Rightarrow> 'y reactor_turn \<Rightarrow> EpollReactor \<times> lb_state \<Rightarrow> (EpollReactor \<times> lb_state) option" where
  "run_periodic k Y t rs =
     (let (r, s) = rs in
      if periodic_interval_ms r > 0 then
        let (now, s1) = ask (k_now k) s in
        if elapsed_at_least_ms now (last_periodic_check r) (periodic_interval_ms r)
        then map_option (\<lambda>s2. (r\<lparr>last_periodic_check := now\<rparr>, s2))
               (periodic k Y (rt_view t) (rt_handshakes t) (rt_backpressure t) s1)
        else Some (r, s1)
      else Some (r, s))"

text \<open>One turn; the flag says whether the loop goes on.\<close>

definition reactor_turn_step ::
    "kernel \<Rightarrow> 'y yaml_api \<Rightarrow> 'y reactor_turn \<Rightarrow> EpollReactor \<times> lb_state \<Rightarrow> (bool \<times> EpollReactor \<times> lb_state) option" where
  "reactor_turn_step k Y t rs = do {
     (r, s) \<leftarrow> run_periodic k Y t rs;
     (case rt_wait t of
        Interrupted \<Rightarrow> Some (True, r, s)
      | WaitFailed \<Rightarrow> Some (False, r, s)
      | Ready es \<Rightarrow> map_option (\<lambda>s1. (True, r, s1)) (dispatch_all k (take MAX_EVENTS es) s))
   }"

fun reactor_loop ::
    "kernel \<Rightarrow> 'y yaml_api \<Rightarrow> 'y reactor_turn list \<Rightarrow> EpollReactor \<times> lb_state \<Rightarrow> (EpollReactor \<times> lb_state) option" where
  "reactor_loop k Y [] (r, s) = (if reactor_running s then None else Some (r, s))"
| "reactor_loop k Y (t # ts) (r, s) =
     (if \<not> reactor_running s then Some (r, s)
      else case reactor_turn_step k Y t (r, s) of
        None \<Rightarrow> None
      | Some (go_on, rs) \<Rightarrow> if go_on then reactor_loop k Y ts rs else Some rs)"

definition reactor_run ::
    "kernel \<Rightarrow> 'y yaml_api \<Rightarrow> 'y reactor_turn list \<Rightarrow> EpollReactor \<times> lb_state \<Rightarrow> (EpollReactor \<times> lb_state) option" where
  "reactor_run k Y ts rs = (let (r, s) = rs in reactor_loop k Y ts (r, s\<lparr>reactor_running := True\<rparr>))"

lemma run_periodic_spacing:
  assumes "run_periodic k Y t (r, s) = Some (r', s')"
  shows "periodic_interval_ms r' = periodic_interval_ms r"
    and "last_periodic_check r' \<noteq> last_periodic_check r \<Longrightarrow>
      elapsed_at_least_ms (last_periodic_check r') (last_periodic_check r) (periodic_interval_ms r)"
  using assms by (auto simp: run_periodic_def ask_def Let_def split: if_splits)

end
