(* ===== verification/Registrations.thy ===== *)
theory Registrations
  imports Connector_Safety
begin

text \<open>
  The reactor's table of callbacks against the connection tables. Closing a descriptor takes it out of
  epoll but leaves its callback behind, so a descriptor that is used again may for a moment
  have the callback of another connection. \<open>cb_ok\<close> says that this does no harm: whatever has the
  backend handler as its callback is a backend connection or not in the table at all. It also says
  that the tables only refer to nodes that have been made, so that a backend added later starts
  without connections.
\<close>

section \<open>The invariant\<close>

definition cb_ok :: "lb_state \<Rightarrow> bool" where
  "cb_ok s \<longleftrightarrow> dom (epoll_set s) \<subseteq> open_fds s \<and> (\<forall>f. callbacks s f = Some BackendHandler \<longrightarrow> is_backend f s) \<and>
     ran (backend_connections s) \<subseteq> {..<next_node s} \<and> set (backends (backend_pool s)) \<subseteq> {..<next_node s}"

text \<open>Steps that register nothing: callbacks, watched descriptors and backends only go.\<close>

definition regs :: "lb_state \<Rightarrow> lb_state \<Rightarrow> bool" where
  "regs s s' \<longleftrightarrow> callbacks s' \<subseteq>\<^sub>m callbacks s \<and> dom (epoll_set s') \<subseteq> dom (epoll_set s) \<and>
     (dom (epoll_set s) \<subseteq> open_fds s \<longrightarrow> dom (epoll_set s') \<subseteq> open_fds s') \<and> next_node s' = next_node s \<and>
     backend_connections s' \<subseteq>\<^sub>m backend_connections s \<and> set (backends (backend_pool s')) \<subseteq> set (backends (backend_pool s))"

lemma regs_refl [simp]: "regs s s"
  by (simp add: regs_def)

lemma regs_trans: "regs s s1 \<Longrightarrow> regs s1 s2 \<Longrightarrow> regs s s2"
  unfolding regs_def by (intro conjI) (meson map_le_trans, meson subset_trans, simp, simp, meson map_le_trans, meson subset_trans)

lemma regs_same:
  "registrations s' = registrations s \<Longrightarrow> open_fds s \<subseteq> open_fds s' \<Longrightarrow> backend_connections s' \<subseteq>\<^sub>m backend_connections s \<Longrightarrow>
   set (backends (backend_pool s')) \<subseteq> set (backends (backend_pool s)) \<Longrightarrow> regs s s'"
  by (auto simp: regs_def registrations_def)

lemma erase_key_le [simp]: "erase_key m k \<subseteq>\<^sub>m m"
  by (simp add: erase_key_def map_le_def)

lemma ran_le: "m \<subseteq>\<^sub>m m' \<Longrightarrow> ran m \<subseteq> ran m'"
  by (force simp: map_le_def ran_def)

lemma regs_calm: "calm s s' \<Longrightarrow> regs s s'"
  by (rule regs_same) (simp_all add: calm_def same_shape_def)

lemma regs_sys_close: "regs s (sys_close f s)"
  by (auto simp: regs_def sys_close_def)

lemma regs_del_fd: "regs s (del_fd f s)"
  by (auto simp: regs_def del_fd_def map_le_def split: if_splits)

lemma cb_ok_regs:
  assumes "cb_ok s" and "regs s s'" and "\<And>g. is_backend g s \<Longrightarrow> is_backend g s'"
  shows "cb_ok s'"
proof -
  have "is_backend g s'" if "callbacks s' g = Some BackendHandler" for g
  proof -
    have "callbacks s' \<subseteq>\<^sub>m callbacks s" using assms(2) by (simp add: regs_def)
    then have "callbacks s g = Some BackendHandler" using that by (force simp: map_le_def)
    then show ?thesis using assms(1,3) by (simp add: cb_ok_def)
  qed
  moreover have "ran (backend_connections s') \<subseteq> {..<next_node s'}"
    using assms(1,2) ran_le [of "backend_connections s'" "backend_connections s"] unfolding cb_ok_def regs_def by (metis subset_trans)
  moreover have "set (backends (backend_pool s')) \<subseteq> {..<next_node s'}" using assms(1,2) unfolding cb_ok_def regs_def by (metis subset_trans)
  ultimately show ?thesis using assms(1,2) by (simp add: cb_ok_def regs_def)
qed

section \<open>Closing\<close>

text \<open>Steps on a connection outside the table: the tables stay, and nothing is registered.\<close>

definition steady :: "lb_state \<Rightarrow> lb_state \<Rightarrow> bool" where
  "steady s s' \<longleftrightarrow> regs s s' \<and> connections s' = connections s \<and> backend_connections s' = backend_connections s"

named_theorems steady_steps \<open>steps that keep the tables and register nothing\<close>

lemma steady_refl [simp]: "steady s s"
  by (simp add: steady_def)

lemma steady_trans: "steady s s1 \<Longrightarrow> steady s1 s2 \<Longrightarrow> steady s s2"
  by (auto simp: steady_def intro: regs_trans)

lemma steady_regs: "steady s s' \<Longrightarrow> regs s s'"
  by (simp add: steady_def)

lemma steady_same:
  "registrations s' = registrations s \<Longrightarrow> open_fds s \<subseteq> open_fds s' \<Longrightarrow> connections s' = connections s \<Longrightarrow>
   backend_connections s' = backend_connections s \<Longrightarrow> set (backends (backend_pool s')) \<subseteq> set (backends (backend_pool s)) \<Longrightarrow> steady s s'"
  by (simp add: steady_def regs_same)

lemma steady_cb_ok: "steady s s' \<Longrightarrow> cb_ok s \<Longrightarrow> cb_ok s'"
  by (erule cb_ok_regs) (auto simp: steady_def is_backend_def get_connection_def)

lemma steady_sys_close: "steady s (sys_close f s)"
  by (simp add: steady_def regs_sys_close) (simp add: sys_close_def)

lemma steady_with_conn: "with_conn i g s = Some s' \<Longrightarrow> steady s s'"
  by (rule steady_same) (auto simp: with_conn_def bind_eq_Some_conv)

lemma steady_conn_close:
  assumes "conn_close i s = Some s'"
  shows "steady s s'"
proof -
  obtain c where c: "conn_heap s i = Some c" using assms by (auto simp: conn_close_def bind_eq_Some_conv)
  obtain c' m where sh: "shut release_bytes c (mem s) = (c', m)" by fastforce
  obtain s1 where s1: "ssl_free (ssl c) ((put_conn i c' s)\<lparr>mem := m\<rparr>) = Some s1"
    and r: "(case peer c of None \<Rightarrow> Some (if conn_fd c \<ge> 0 then sys_close (conn_fd c) s1 else s1)
      | Some j \<Rightarrow> with_conn j (set_peer None) (if conn_fd c \<ge> 0 then sys_close (conn_fd c) s1 else s1)) = Some s'"
    using assms c sh by (auto simp: conn_close_def bind_eq_Some_conv Let_def)
  have "steady s s1" by (rule steady_same) (use s1 in \<open>auto simp: ssl_free_def split: option.splits if_splits\<close>)
  moreover have "steady s1 (if conn_fd c \<ge> 0 then sys_close (conn_fd c) s1 else s1)" by (simp add: steady_sys_close)
  ultimately have "steady s (if conn_fd c \<ge> 0 then sys_close (conn_fd c) s1 else s1)" by (rule steady_trans)
  then show ?thesis using r steady_trans [OF _ steady_with_conn] by (cases "peer c") auto
qed

lemma steady_destroy: "destroy i s = Some s' \<Longrightarrow> steady s s'"
proof -
  assume "destroy i s = Some s'"
  then obtain s1 where "conn_close i s = Some s1" "s' = s1\<lparr>conn_heap := (conn_heap s1)(i := None)\<rparr>"
    by (auto simp: destroy_def bind_eq_Some_conv)
  then show ?thesis using steady_trans [OF steady_conn_close steady_same] by simp
qed

lemma steady_close_and_destroy: "close_and_destroy i s = Some s' \<Longrightarrow> steady s s'"
  using steady_trans [OF steady_conn_close steady_destroy] by (auto simp: close_and_destroy_def bind_eq_Some_conv)

lemma steady_close_twice: "conn_close i s = Some s1 \<Longrightarrow> destroy j (sys_close g s1) = Some s' \<Longrightarrow> steady s s'"
  by (rule steady_trans [OF steady_trans [OF steady_conn_close steady_sys_close] steady_destroy])

lemma steady_destroy_all: "destroy_all js s = Some s' \<Longrightarrow> steady s s'"
  by (induction js arbitrary: s) (auto simp: bind_eq_Some_conv intro: steady_trans [OF steady_destroy])

lemma regs_table_erase: "table_erase f s = Some s' \<Longrightarrow> regs s s'"
proof -
  assume run: "table_erase f s = Some s'"
  have "regs s (table_remove f s)" by (rule regs_same) (simp_all add: table_remove_def registrations_def)
  then show ?thesis using run regs_trans [OF _ steady_regs [OF steady_destroy]] by (auto simp: table_erase_def split: option.splits)
qed

lemma regs_release:
  assumes "release_to_pool k f i s = Some (b, s')" and "pool_manager s = None"
  shows "regs s s'"
  using assms by (auto simp: release_to_pool_def bind_eq_Some_conv intro: steady_regs [OF steady_destroy])

lemma regs_bookkeeping:
  "regs s (drop_backend_slot f b s)" "regs s (forget_fd f s)" "regs s (untrack_backpressure f s)"
  "regs s (log_unfinished_request k f c s)"
  by (rule regs_same;
      auto simp: drop_backend_slot_def forget_fd_def untrack_backpressure_def log_unfinished_request_def log_access_def
        clear_request_info_def upd_nodes_def upd_metrics_def ask_def registrations_def Let_def split: option.splits)+

lemma regs_close_peer:
  assumes run: "close_peer k b i j s = Some s'" and pm: "pool_manager s = None"
  shows "regs s s'"
proof -
  obtain d s1 where d: "conn_heap s j = Some d" "with_conn i (set_peer None) s = Some s1"
    using run by (auto simp: close_peer_def bind_eq_Some_conv Let_def)
  note s1 = steady_regs [OF steady_with_conn [OF d(2)]]
  have pm1: "pool_manager s1 = None" using with_conn_pool [OF d(2)] pm by simp
  show ?thesis
  proof (cases "get_connection (conn_fd d) s1")
    case None
    then show ?thesis using run d s1 by (simp add: close_peer_def)
  next
    case (Some q)
    obtain e where e: "conn_heap s1 q = Some e" using run d Some by (auto simp: close_peer_def bind_eq_Some_conv Let_def)
    show ?thesis
    proof (cases "conn_state e = CLOSED")
      case True
      then show ?thesis using run d Some e regs_trans [OF s1 regs_table_erase] by (simp add: close_peer_def)
    next
      case False
      obtain s2 where s2: "with_conn q (set_peer None) s1 = Some s2" using e by (simp add: with_conn_def)
      let ?s4 = "del_fd (conn_fd d) (forget_fd (conn_fd d) (drop_backend_slot (conn_fd d) (conn_state e = ESTABLISHED) s2))"
      have "pool_manager ?s4 = None" using pm1 with_conn_pool [OF s2] by (simp add: del_fd_def)
      then obtain s5 where s5: "conn_close q ?s4 = Some s5" "table_erase (conn_fd d) s5 = Some s'"
        using run d Some e s2 False by (auto simp: close_peer_def bind_eq_Some_conv Let_def split: if_splits)
      have "regs s s2" using regs_trans [OF s1 steady_regs [OF steady_with_conn [OF s2]]] .
      then have "regs s ?s4" using regs_bookkeeping regs_del_fd regs_trans by metis
      then show ?thesis using s5 regs_trans regs_table_erase steady_regs [OF steady_conn_close] by metis
    qed
  qed
qed

lemma regs_close:
  assumes run: "close_connection k f s = Some s'" and pm: "pool_manager s = None"
  shows "regs s s'"
proof (cases "get_connection f s")
  case None
  then show ?thesis using run by (simp add: close_connection_def)
next
  case (Some i)
  then obtain c where c: "conn_heap s i = Some c" using run by (auto simp: close_connection_def bind_eq_Some_conv)
  show ?thesis
  proof (cases "conn_state c = CLOSED")
    case True
    let ?t = "forget_fd f (s\<lparr>backend_connections := erase_key (backend_connections s) f\<rparr>)"
    have "regs s (s\<lparr>backend_connections := erase_key (backend_connections s) f\<rparr>)" by (rule regs_same) simp_all
    then have "regs s ?t" using regs_bookkeeping(2) regs_trans by blast
    then show ?thesis using run Some c True regs_trans [OF _ regs_table_erase] by (simp add: close_connection_def)
  next
    case False
    define b where "b = (backend_connections s f = None)"
    define s3 where "s3 = upd_metrics (add_bytes_out (of_nat (bytes_written c)))
        (upd_metrics (add_bytes_in (of_nat (bytes_read c)))
          (put_conn i (set_conn_state CLOSED c) (drop_backend_slot f (conn_state c = ESTABLISHED) s)))"
    define s5 where "s5 = forget_fd f (if b then upd_metrics decrement_connections_active (log_unfinished_request k f c s3) else s3)"
    define s6 where "s6 = s5\<lparr>backend_to_client_map := erase_where (\<lambda>g. g = f) (backend_to_client_map s5)\<rparr>"
    have "(do { s7 \<leftarrow> (case peer c of None \<Rightarrow> Some s6 | Some j \<Rightarrow> close_peer k b i j s6);
        s8 \<leftarrow> conn_close i (del_fd f s7); table_erase f s8 }) = Some s'"
      using run Some c False unfolding close_connection_def Let_def b_def s3_def s5_def s6_def by simp
    then obtain s7 s8 where s7: "(case peer c of None \<Rightarrow> Some s6 | Some j \<Rightarrow> close_peer k b i j s6) = Some s7"
      and s8: "conn_close i (del_fd f s7) = Some s8" "table_erase f s8 = Some s'"
      unfolding bind_eq_Some_conv by blast
    have m: "regs s (upd_metrics g t)" "regs s (put_conn j d t)" if "regs s t" for g t j d
      by (rule regs_trans [OF that regs_same]; simp add: upd_metrics_def put_conn_def)+
    have "regs s s3" unfolding s3_def by (intro m regs_bookkeeping)
    then have "regs s (if b then upd_metrics decrement_connections_active (log_unfinished_request k f c s3) else s3)"
      using m regs_trans regs_bookkeeping(4) by simp
    then have "regs s s5" unfolding s5_def using regs_trans regs_bookkeeping(2) by blast
    then have "regs s s6" by (rule regs_trans) (rule regs_same, simp_all add: s6_def)
    moreover have "pool_manager s6 = None" using pm by (simp add: s6_def s5_def s3_def upd_metrics_def put_conn_def)
    then have "regs s6 s7" using s7 regs_close_peer by (auto split: option.splits)
    ultimately have "regs s (del_fd f s7)" using regs_del_fd regs_trans by metis
    then show ?thesis using s8 regs_trans regs_table_erase steady_regs [OF steady_conn_close] by metis
  qed
qed

lemma regs_close_backend_only:
  assumes run: "close_backend_connection_only f s = Some s'"
  shows "regs s s'"
proof (cases "get_connection f s")
  case None
  then show ?thesis using run by (simp add: close_backend_connection_only_def)
next
  case (Some i)
  then obtain c s1 s2 where c: "conn_heap s i = Some c"
    and s1: "(case peer c of None \<Rightarrow> Some s | Some j \<Rightarrow> with_conn j (set_peer None) s) = Some s1"
    and s2: "with_conn i (set_conn_state CLOSED) s1 = Some s2"
    and rest: "(do {
          let s3 = drop_backend_slot f (conn_state c = ESTABLISHED) s2;
          let s4 = untrack_backpressure f (s3\<lparr>connection_times := erase_key (connection_times s3) f\<rparr>);
          let s5 = del_fd f (s4\<lparr>backend_to_client_map := erase_key (backend_to_client_map s4) f\<rparr>);
          s6 \<leftarrow> conn_close i s5;
          table_erase f s6 }) = Some s'"
    using run by (auto simp: close_backend_connection_only_def bind_eq_Some_conv)
  define s3 where "s3 = drop_backend_slot f (conn_state c = ESTABLISHED) s2"
  define s4 where "s4 = untrack_backpressure f (s3\<lparr>connection_times := erase_key (connection_times s3) f\<rparr>)"
  obtain s6 where s6: "conn_close i (del_fd f (s4\<lparr>backend_to_client_map := erase_key (backend_to_client_map s4) f\<rparr>)) = Some s6"
    "table_erase f s6 = Some s'"
    using rest by (auto simp: s3_def s4_def bind_eq_Some_conv Let_def)
  have "regs s s1" using s1 steady_regs [OF steady_with_conn] by (auto split: option.splits)
  then have "regs s s2" using s2 regs_trans steady_regs [OF steady_with_conn] by blast
  then have "regs s s3" unfolding s3_def using regs_trans regs_bookkeeping(1) by blast
  moreover have "regs s3 (s3\<lparr>connection_times := erase_key (connection_times s3) f\<rparr>)" by (rule regs_same) simp_all
  ultimately have "regs s s4" unfolding s4_def using regs_trans regs_bookkeeping(3) by blast
  moreover have "regs s4 (s4\<lparr>backend_to_client_map := erase_key (backend_to_client_map s4) f\<rparr>)" by (rule regs_same) simp_all
  ultimately have "regs s (del_fd f (s4\<lparr>backend_to_client_map := erase_key (backend_to_client_map s4) f\<rparr>))"
    using regs_trans regs_del_fd by blast
  then show ?thesis using s6 regs_trans regs_table_erase steady_regs [OF steady_conn_close] by metis
qed

section \<open>Connecting\<close>

text \<open>A descriptor that may become a client's: it is not watched yet, or has not the callback of a backend.\<close>

definition client_free :: "fd \<Rightarrow> lb_state \<Rightarrow> bool" where
  "client_free f s \<longleftrightarrow> epoll_set s f = None \<or> callbacks s f \<noteq> Some BackendHandler"

lemma client_free_regs: "client_free f s \<Longrightarrow> regs s s' \<Longrightarrow> client_free f s'"
  unfolding client_free_def regs_def map_le_def by (metis domIff in_mono option.distinct(1))

lemma client_free_entry: "cb_ok s \<Longrightarrow> get_connection f s \<noteq> None \<Longrightarrow> backend_connections s f = None \<Longrightarrow> client_free f s"
  by (auto simp: cb_ok_def client_free_def is_backend_def)

lemma backend_selected_registrations [simp]: "registrations (backend_selected f h p s) = registrations s"
  by (simp add: backend_selected_def set_backend_for_request_def split: option.splits)

lemma count_registrations [simp]:
  "registrations (count_failure n key s) = registrations s" "registrations (count_routed n key s) = registrations s"
  by (simp_all add: count_failure_def count_routed_def)

lemma register_pair_calls:
  assumes ok: "cb_ok s" and free: "client_free (conn_fd c) s" and heap: "conn_heap s i = Some c" "conn_heap s j = Some d"
    and new: "get_connection (conn_fd c) s = None" "get_connection (conn_fd d) s = None" "conn_fd c \<noteq> conn_fd d"
    and op: "conn_fd c \<in> open_fds s" and old: "n < next_node s" and run: "register_pair k i j n rc h p ev s = Some s'"
  shows "cb_ok s'"
proof -
  let ?f = "conn_fd c" and ?g = "conn_fd d"
  let ?s1 = "s\<lparr>connections := connections s @ [(?f, i)]\<rparr>"
  let ?s2 = "?s1\<lparr>connections := connections ?s1 @ [(?g, j)]\<rparr>"
  have p1: "table_put ?f i s = Some ?s1" using new(1) by (rule table_put_new)
  have p2: "table_put ?g j ?s1 = Some ?s2" using new(2,3) by (intro table_put_new) (simp add: get_connection_def map_add_def)
  obtain t where s': "s' = snd (add_fd ?g ev BackendHandler (snd (add_fd ?f EPOLLINOUT ClientHandler t)))"
    and t: "registrations t = registrations s" "open_fds t = open_fds s" "connections t = connections s @ [(?f, i), (?g, j)]"
      "backend_connections t = (backend_connections s)(?g \<mapsto> n)" "backend_pool t = backend_pool s"
    using run that by (auto simp: register_pair_def heap p1 p2 ask_def Let_def)
  have reg: "callbacks t = callbacks s" "dom (epoll_set t) = dom (epoll_set s)" "next_node t = next_node s" using t(1) by (simp_all add: registrations_def)
  have "dom (epoll_set s') \<subseteq> open_fds s'" using ok reg(2) t(2) by (auto simp: s' add_fd_def cb_ok_def)
  moreover have "is_backend h s'" if h: "callbacks s' h = Some BackendHandler" for h
  proof -
    have tab: "get_connection x s' = (if x = ?f then Some i else if x = ?g then Some j else get_connection x s)"
      "backend_connections s' x = (if x = ?g then Some n else backend_connections s x)" for x
      using new t by (auto simp: s' get_connection_def map_add_def split: option.splits)
    have "h \<noteq> ?f"
    proof
      assume "h = ?f"
      then have "callbacks (snd (add_fd ?f EPOLLINOUT ClientHandler t)) ?f = Some BackendHandler"
        using h new(3) by (auto simp: s' add_fd_def split: if_splits)
      moreover have "epoll_set t ?f = None \<longleftrightarrow> epoll_set s ?f = None" using reg(2) by (metis domIff)
      ultimately show False using free op t(2) reg(1) by (auto simp: add_fd_def client_free_def split: if_splits)
    qed
    moreover have "is_backend h s" if "h \<noteq> ?g"
      using h that \<open>h \<noteq> ?f\<close> ok reg(1) by (auto simp: s' add_fd_def cb_ok_def split: if_splits)
    ultimately show ?thesis by (auto simp: is_backend_def tab)
  qed
  moreover have "next_node s' = next_node s" "backend_connections s' = (backend_connections s)(?g \<mapsto> n)" "backend_pool s' = backend_pool s"
    using t(4,5) reg(3) by (simp_all add: s' add_fd_def)
  then have "ran (backend_connections s') \<subseteq> {..<next_node s'}" "set (backends (backend_pool s')) \<subseteq> {..<next_node s'}"
    using ok old by (auto simp: cb_ok_def ran_def split: if_splits)
  ultimately show ?thesis by (simp add: cb_ok_def)
qed

text \<open>An attempt either registers nothing, or enters the client and a new backend connection.\<close>

lemma connect_new_outcome:
  assumes ib: "i \<noteq> next_conn s" and c: "conn_heap s i = Some c" and run: "connect_new k i n rc h p s = Some (again, s')"
  shows "steady s s' \<or>
    \<not> again \<and> (\<exists>t d ev. steady s t \<and> conn_heap t i = Some (set_peer (Some (next_conn s)) c) \<and> conn_heap t (next_conn s) = Some d \<and>
      conn_fd d = k_socket k (steps s) (open_fds s) \<and> 0 \<le> conn_fd d \<and> open_fds s \<subseteq> open_fds t \<and>
      register_pair k i (next_conn s) n rc h p ev t = Some s')"
proof -
  let ?g = "k_socket k (steps s) (open_fds s)" and ?s1 = "s\<lparr>steps := steps s + 1\<rparr>" and ?key = "backend_key h p"
  let ?s2 = "(sys_open ?g ?s1)\<lparr>steps := steps s + 2\<rparr>" and ?b = "next_conn s" and ?a = "k_connect k (Suc (Suc (steps s)))"
  have s1: "steady s ?s1" and s2: "steady s (count_failure n ?key ?s2)" by (rule steady_same; auto)+
  let ?d = "set_memory_accounting (new_connection ?g)"
  let ?s4 = "snd (make_connection ?g ((sys_open ?g ?s1)\<lparr>steps := steps s + 3\<rparr>))"
  let ?s5 = "put_conn ?b ?d ?s4"
  have h5: "conn_heap ?s5 i = Some c" "conn_heap ?s5 ?b = Some ?d" using c ib by (simp_all add: make_connection_def)
  have s5: "steady s ?s5" by (rule steady_same) (auto simp: make_connection_def)
  consider "?g < 0" | "?g \<ge> 0" "\<not> k_resolves k (Suc (steps s))" | "?g \<ge> 0" "k_resolves k (Suc (steps s))" by linarith
  then show ?thesis
  proof cases
    case 1
    then have "close_and_destroy i ?s1 = Some s'" using run by (auto simp: connect_new_def ask_def bind_eq_Some_conv)
    then show ?thesis using steady_trans [OF s1 steady_close_and_destroy] by blast
  next
    case 2
    then obtain s3 where "conn_close i (count_failure n ?key ?s2) = Some s3" "destroy i (sys_close ?g s3) = Some s'"
      using run by (auto simp: connect_new_def ask_def bind_eq_Some_conv Let_def)
    then show ?thesis using steady_trans [OF s2 steady_close_twice] by blast
  next
    case 3
    have mk: "make_connection ?g ((sys_open ?g ?s1)\<lparr>steps := steps s + 3\<rparr>) = (?b, ?s4)" by (simp add: make_connection_def)
    have at: "attach_memory_accounting ?b ?s4 = Some ?s5" by (simp add: make_connection_def attach_memory_accounting_def with_conn_def)
    have "\<not> ?g < 0" using 3(1) by simp
    note run5 = connect_new_run [OF refl this 3(2) mk refl, of i n rc h p, unfolded at bind.bind_lunit]
    show ?thesis
    proof (cases "?a = ConnectFailed")
      case True
      then obtain s6 where s6: "conn_close ?b (count_failure n ?key ?s5) = Some s6" "destroy ?b (sys_close ?g s6) = Some s'"
        using run run5 by (auto simp: bind_eq_Some_conv)
      have "steady ?s5 (count_failure n ?key ?s5)" by (rule steady_same) auto
      then show ?thesis using steady_trans [OF steady_trans [OF s5] steady_close_twice [OF s6]] by blast
    next
      case False
      let ?s6 = "put_conn ?b (set_peer (Some i) ?d) (put_conn i (set_peer (Some ?b) c) ?s5)"
      let ?st = "if ?a = ConnectDone then ESTABLISHED else CONNECTING"
      let ?s7 = "?s6\<lparr>pooled_connections := (pooled_connections ?s6)(?g \<mapsto> \<lparr>bi_host = h, bi_port = p, bi_pooled = False\<rparr>)\<rparr>"
      let ?t = "put_conn ?b (set_conn_state ?st (set_peer (Some i) ?d)) ?s7"
      let ?s8 = "if ?a = ConnectDone then count_routed n ?key ?t else ?t"
      have step: "(let s7 = ?s7 in
            if ?a = ConnectDone then do { t \<leftarrow> with_conn ?b (set_conn_state ESTABLISHED) s7; Some (count_routed n ?key t) }
            else with_conn ?b (set_conn_state CONNECTING) s7) = Some ?s8"
        by (simp add: with_conn_def)
      have reg: "register_pair k i ?b n rc h p (if ?a = ConnectDone then EPOLLINOUT else EPOLLOUT) ?s8 = Some s'" and na: "\<not> again"
        using run unfolding run5 if_not_P [OF False] link_peers_run [OF h5 ib] bind.bind_lunit step
        by (auto simp only: bind_eq_Some_conv option.inject prod.inject)
      have "steady s ?s8" by (rule steady_same) (auto simp: make_connection_def)
      moreover have "conn_heap ?s8 i = Some (set_peer (Some ?b) c)" "conn_heap ?s8 ?b = Some (set_conn_state ?st (set_peer (Some i) ?d))"
        using ib by simp_all
      moreover have "conn_fd (set_conn_state ?st (set_peer (Some i) ?d)) = ?g"
        by (simp add: set_conn_state_def set_peer_def set_memory_accounting_def new_connection_def)
      moreover have "open_fds s \<subseteq> open_fds ?s8" by (auto simp: make_connection_def)
      ultimately show ?thesis using reg na 3(1)
        by (intro disjI2 conjI exI [of _ ?s8] exI [of _ "set_conn_state ?st (set_peer (Some i) ?d)"]
            exI [of _ "if ?a = ConnectDone then EPOLLINOUT else EPOLLOUT"]) simp_all
    qed
  qed
qed

lemma connect_new_calls:
  assumes good: "lb_good (i # L) s" and fresh: "kernel_fresh k" and ok: "cb_ok s" and c: "conn_heap s i = Some c"
    and free: "client_free (conn_fd c) s" and old: "n < next_node s" and run: "connect_new k i n rc h p s = Some (again, s')"
  shows "cb_ok s' \<and> (again \<longrightarrow> client_free (conn_fd c) s')"
proof -
  let ?g = "k_socket k (steps s) (open_fds s)" and ?b = "next_conn s"
  have inv: "lb_inv (i # L) s" using good by (simp add: lb_good_def)
  then have ib: "i \<noteq> ?b" by (auto simp: lb_inv_def owned_def)
  from connect_new_outcome [OF ib c run] show ?thesis
  proof
    assume "steady s s'"
    then show ?thesis using steady_cb_ok [OF _ ok] client_free_regs [OF free steady_regs] by blast
  next
    assume "\<not> again \<and> (\<exists>t d ev. steady s t \<and> conn_heap t i = Some (set_peer (Some ?b) c) \<and> conn_heap t ?b = Some d \<and>
      conn_fd d = ?g \<and> 0 \<le> conn_fd d \<and> open_fds s \<subseteq> open_fds t \<and> register_pair k i ?b n rc h p ev t = Some s')"
    then obtain t d ev where t: "\<not> again" "steady s t" "conn_heap t i = Some (set_peer (Some ?b) c)" "conn_heap t ?b = Some d"
      "conn_fd d = ?g" "0 \<le> ?g" "open_fds s \<subseteq> open_fds t" "register_pair k i ?b n rc h p ev t = Some s'" by auto
    have "lb_good ([] @ i # L) s" using good by simp
    then obtain c0 where "conn_heap s i = Some c0" "conn_fd c0 \<in> open_fds s" "get_connection (conn_fd c0) s = None"
      by (rule lb_good_loose)
    then have f0: "conn_fd c \<in> open_fds s" "get_connection (conn_fd c) s = None" using c by simp_all
    have fg: "?g \<notin> open_fds s" using fresh t(6) by (simp add: kernel_fresh_def)
    then have new: "get_connection ?g s = None"
      using get_connection_live [OF inv, of ?g] heap_inv_live(2) [OF lb_inv_heap [OF inv]] by (metis not_None_eq)
    have same: "get_connection x t = get_connection x s" for x using t(2) by (simp add: steady_def get_connection_def)
    have fd: "conn_fd (set_peer (Some ?b) c) = conn_fd c" by (simp add: set_peer_def)
    have "client_free (conn_fd (set_peer (Some ?b) c)) t" using client_free_regs [OF free steady_regs [OF t(2)]] fd by simp
    moreover have "conn_fd c \<noteq> ?g" "conn_fd c \<in> open_fds t" using f0(1) fg t(7) by auto
    moreover have "n < next_node t" using old t(2) by (simp add: steady_def regs_def)
    ultimately show ?thesis
      using register_pair_calls [OF steady_cb_ok [OF t(2) ok] _ t(3,4) _ _ _ _ _ t(8)] t(1,5) f0(2) new by (simp add: fd same)
  qed
qed

lemma session_registrations [simp]:
  "registrations (snd (sticky_hint k key s)) = registrations s" "registrations (remember_session k key h p s) = registrations s"
  by (simp_all add: sticky_hint_def remember_session_def ask_def split: option.splits)

lemma connect_once_calls:
  assumes tr: "trying L i f s" and fresh: "kernel_fresh k" and ok: "cb_ok s" and free: "client_free f s"
    and run: "connect_once k i rc key s = Some (again, s')"
  shows "cb_ok s' \<and> (again \<longrightarrow> client_free f s')"
proof -
  obtain s1 where s1: "attach_memory_accounting i s = Some s1" "trying L i f s1" using trying_attach [OF tr] by metis
  have q1: "steady s s1" using s1(1) by (auto simp: attach_memory_accounting_def intro: steady_with_conn)
  obtain sh sp s2 where hint: "sticky_hint k key s1 = ((sh, sp), s2)" by (metis prod.exhaust)
  have s2: "s2 = snd (sticky_hint k key s1)" by (simp add: hint)
  obtain choice bp where sel: "select_backend (nodes s2) (bcn_max_connections_per_backend (settings_of s2)) sh sp (backend_pool s2) = (choice, bp)"
    by (rule prod.exhaust)
  then have bp: "backends bp = backends (backend_pool s2)" by (metis select_backend_frame(1) snd_conv)
  let ?s3 = "s2\<lparr>backend_pool := bp\<rparr>"
  have t3: "trying L i f ?s3" using s1(2) by (rule trying_core) (simp_all add: s2 bp [unfolded s2])
  have "steady s1 ?s3" by (rule steady_same) (simp_all add: s2 bp [unfolded s2])
  with q1 have q3: "steady s ?s3" by (rule steady_trans)
  show ?thesis
  proof (cases choice)
    case None
    then have gone: "close_and_destroy i (upd_metrics increment_backend_routes_failed ?s3) = Some s'" and na: "\<not> again"
      using run s1 hint sel by (auto simp: connect_once_def bind_eq_Some_conv)
    have "steady ?s3 (upd_metrics increment_backend_routes_failed ?s3)" by (rule steady_same) (simp_all add: upd_metrics_def)
    then have "steady s s'" using q3 steady_close_and_destroy [OF gone] steady_trans by blast
    then show ?thesis using na steady_cb_ok ok by blast
  next
    case (Some n)
    let ?h = "host (nodes ?s3 n)" and ?p = "port (nodes ?s3 n)"
    let ?s4 = "remember_session k key ?h ?p ?s3"
    have t4: "trying L i f ?s4" using t3 by (rule trying_core) simp_all
    then obtain c where c: "conn_heap ?s4 i = Some c" "conn_fd c = f" and g4: "lb_good (i # L) ?s4" "pool_manager ?s4 = None"
      by (auto simp: trying_def)
    have "steady ?s3 ?s4" by (rule steady_same) simp_all
    with q3 have q4: "steady s ?s4" by (rule steady_trans)
    have "borrow_backend k ?h ?p ?s4 = Some (None, ?s4)" using g4(2) by (simp add: borrow_backend_def)
    then have "connect_new k i n rc ?h ?p ?s4 = Some (again, s')"
      using run Some by (simp add: connect_once_def s1 hint sel Let_def)
    moreover have "n < next_node ?s4"
    proof -
      have "n \<in> set (backends (backend_pool s2))" using select_backend_eligible [OF sel [unfolded Some]] by simp
      then show ?thesis using steady_cb_ok [OF q4 ok] by (auto simp: cb_ok_def bp)
    qed
    ultimately have "cb_ok s' \<and> (again \<longrightarrow> client_free (conn_fd c) s')"
      using connect_new_calls [OF g4(1) fresh steady_cb_ok [OF q4 ok] c(1)] client_free_regs [OF free steady_regs [OF q4]] c(2) by simp
    then show ?thesis
      using client_free_regs [OF free steady_regs [OF q4]] c(2) by simp
  qed
qed

lemma connect_calls:
  assumes "trying L i f s" and fresh: "kernel_fresh k" and "cb_ok s" and "client_free f s" and "connect k i rc key s = Some s'"
  shows "cb_ok s'"
  using assms(1,3-5)
proof (induction "nat (MAX_RETRY_ATTEMPTS - rc)" arbitrary: rc key s rule: less_induct)
  case less
  obtain again s1 where 1: "connect_once k i rc key s = Some (again, s1)" "if again then trying L i f s1 else True"
    using connect_once_ok [OF less.prems(1) fresh, of rc key] by (metis (full_types))
  note 2 = connect_once_calls [OF less.prems(1) fresh less.prems(2,3) 1(1)]
  show ?case
  proof (cases "again \<and> rc < MAX_RETRY_ATTEMPTS")
    case True
    then have "nat (MAX_RETRY_ATTEMPTS - (rc + 1)) < nat (MAX_RETRY_ATTEMPTS - rc)" by simp
    moreover have "connect k i (rc + 1) (session_key_of i s1) s1 = Some s'"
      using less.prems(4) 1(1) True by (simp add: connect.simps [of k i rc])
    ultimately show ?thesis using less.hyps 1(2) 2 True by (metis (full_types))
  next
    case False
    have "steady s1 (upd_metrics increment_backend_routes_failed s1)" by (rule steady_same) (simp_all add: upd_metrics_def)
    moreover have "s' = s1 \<or> close_and_destroy i (upd_metrics increment_backend_routes_failed s1) = Some s'"
      using less.prems(4) 1(1) False by (auto simp: connect.simps [of k i rc] split: if_splits)
    ultimately have "steady s1 s'" using steady_close_and_destroy steady_trans by auto
    then show ?thesis using steady_cb_ok 2 by blast
  qed
qed

lemma retry_calls:
  assumes "trying L i f s" and fresh: "kernel_fresh k" and "cb_ok s" and "client_free f s" and run: "retry k i rc s = Some s'"
  shows "cb_ok s'"
proof (cases "rc \<ge> MAX_RETRY_ATTEMPTS")
  case True
  then have gone: "close_and_destroy i (upd_metrics increment_backend_routes_failed s) = Some s'" using run by (simp add: retry_def)
  have "steady s (upd_metrics increment_backend_routes_failed s)" by (rule steady_same) (simp_all add: upd_metrics_def)
  then show ?thesis using steady_cb_ok [OF steady_trans [OF _ steady_close_and_destroy [OF gone]] assms(3)] by blast
next
  case False
  then show ?thesis using connect_calls [OF assms(1-4)] run by (simp add: retry_def)
qed

end
