(* ===== verification/Http_Safety.thy ===== *)
theory Http_Safety
  imports Http_Data_Forwarder
begin

text \<open>
  Forwarding in HTTP mode keeps the tables: parsing, rewriting, logging and copying are calm steps, and
  what may follow them is the closing of connections.
\<close>

section \<open>Calm steps\<close>

lemma calm_core:
  assumes "conn_heap s' = conn_heap s" "connections s' = connections s" "pool_manager s' = pool_manager s" "open_fds s' = open_fds s"
    "live_ssl s' = live_ssl s" "backend_connections s' = backend_connections s" "next_conn s' = next_conn s" "bad_closes s' = bad_closes s"
    "nodes s' = nodes s" "backend_pool s' = backend_pool s" "health_checker s' = health_checker s"
    "static s' = static s" "backend_to_client_map s' = backend_to_client_map s" "registrations s' = registrations s"
  shows "calm s s'"
  using assms by (simp add: calm_def same_shape_core)

lemma calm_put_mem:
  assumes "conn_heap s i = Some c" and "conn_core c' = conn_core c"
  shows "calm s ((put_conn i c' s)\<lparr>mem := m\<rparr>)"
  by (rule calm_trans [OF calm_put_conn [OF assms]], rule calm_core) simp_all

lemma calm_http_state: "calm s (put_http_state f h s)"
  by (rule calm_core) (simp_all add: put_http_state_def)

lemma calm_request_info: "calm s (upd_request_info f g s)"
  by (simp add: upd_request_info_def calm_http_state split: option.splits)

lemma calm_ask: "calm s (snd (ask q s))"
  by (rule calm_core) (simp_all add: ask_def)

lemma calm_peer_address: "calm s (snd (peer_address k f s))"
  by (simp add: peer_address_def calm_ask)

lemma calm_log_access: "calm s (log_access e s)"
proof -
  have "calm s (s\<lparr>access_log := access_log s @ [e]\<rparr>)" by (rule calm_core) simp_all
  with calm_trans [OF _ calm_upd_metrics] show ?thesis by (simp add: log_access_def Let_def)
qed

lemma calm_log_finished: "calm s (log_finished_request k ri s)"
  using calm_trans [OF calm_ask calm_log_access] calm_log_access
  by (auto simp: log_finished_request_def ask_def split: prod.splits)

lemma calm_session_key: "calm s (s\<lparr>client_session_keys := x\<rparr>)"
  by (rule calm_core) simp_all

lemma calm_update_session_key: "calm s (update_session_key w f r s)"
  by (simp add: update_session_key_def Let_def calm_session_key split: option.splits)

lemma calm_cookie: "calm s (snd (cookie_for_client k cookie f s))"
  using calm_trans [OF calm_ask calm_session_key]
  by (auto simp: cookie_for_client_def Let_def case_prod_unfold split: option.splits)

lemma calm_status: "calm s (parse_response_status f b s)"
  by (simp add: parse_response_status_def calm_request_info split: option.splits)

lemma calm_count_copied: "calm s (count_copied r f n s)"
  by (simp add: count_copied_def Let_def calm_request_info)

lemmas http_calm = calm_http_state calm_request_info calm_ask calm_peer_address calm_log_access calm_log_finished
  calm_update_session_key calm_cookie calm_status calm_count_copied

lemma conn_read_calm:
  assumes "conn_read k i s = Some (r, s')" shows "calm s s'"
proof -
  obtain c where c: "conn_heap s i = Some c" using assms by (auto simp: conn_read_def bind_eq_Some_conv)
  show ?thesis using conn_read_ok [OF c, of k] assms by (metis option.inject prod.inject)
qed

lemma conn_write_calm:
  assumes "conn_write k i s = Some (r, s')" shows "calm s s'"
proof -
  obtain c where c: "conn_heap s i = Some c" using assms by (auto simp: conn_write_def bind_eq_Some_conv)
  show ?thesis using conn_write_ok [OF c, of k] assms by (metis option.inject prod.inject)
qed

lemma has_pending_send_calm:
  assumes "has_pending_send k i s = Some (r, s')" shows "calm s s'"
proof -
  obtain c where c: "conn_heap s i = Some c" using assms by (auto simp: has_pending_send_def bind_eq_Some_conv)
  show ?thesis using has_pending_send_ok [OF c, of k] assms by (metis option.inject prod.inject)
qed

lemmas io_calm = conn_read_calm conn_write_calm has_pending_send_calm

section \<open>Rewriting\<close>

lemma budget_core:
  "try_reserve_additional_bytes r n c b = (ok, c', b') \<Longrightarrow> conn_core c' = conn_core c"
  "release_accounted_bytes g n c b = (c', b') \<Longrightarrow> conn_core c' = conn_core c"
  by (auto simp: try_reserve_additional_bytes_def release_accounted_bytes_def conn_core_def split: if_splits prod.splits bool.splits)

lemma replace_read_buffer_calm:
  assumes "replace_read_buffer k i modified s = Some (ok, s')"
  shows "calm s s'"
proof -
  obtain c where c: "conn_heap s i = Some c" using assms by (auto simp: replace_read_buffer_def bind_eq_Some_conv)
  have put: "calm s ((put_conn i (c1\<lparr>read_buf := b\<rparr>) s)\<lparr>mem := m\<rparr>)" "calm s ((put_conn i c1 s)\<lparr>mem := m\<rparr>)"
    if "conn_core c1 = conn_core c" for c1 m b
    using that by (auto intro!: calm_put_mem [OF c] simp: conn_core_def)
  have blocked: "calm s (mod_fd f EPOLLOUT (start_backpressure k f t))" if "calm s t" for f t
    using that by (meson calm_trans calm_mod_fd calm_start_backpressure)
  show ?thesis
  proof (cases "length modified > length (read_buf c)")
    case True
    obtain b c1 m where r: "try_reserve_additional_bytes reserve_bytes (length modified - length (read_buf c)) c (mem s) = (b, c1, m)"
      by (metis prod.exhaust)
    show ?thesis using assms c True r put [OF budget_core(1) [OF r]] blocked
      by (cases b) (auto simp: replace_read_buffer_def Let_def)
  next
    case False
    obtain c1 m where r: "release_accounted_bytes release_bytes (length (read_buf c) - length modified) c (mem s) = (c1, m)" by fastforce
    show ?thesis using assms c False r put(1) [OF budget_core(2) [OF r]] by (auto simp: replace_read_buffer_def Let_def)
  qed
qed

lemma parse_and_modify_http_request_calm:
  assumes "parse_and_modify_http_request k w i f s = Some (ok, s')"
  shows "calm s s'"
proof -
  obtain c where c: "conn_heap s i = Some c" using assms by (auto simp: parse_and_modify_http_request_def bind_eq_Some_conv)
  obtain b n p where p: "parse_request (read_buf c) (req_parser (http_state_of f s)) = (b, n, p)" by (metis prod.exhaust)
  have rewrite: "calm s s'" if "replace_read_buffer k i m (put_http_state f h (update_session_key w f r (snd (ask q (snd (peer_address k f s)))))) = Some (ok, s')" for m h r q
    using replace_read_buffer_calm [OF that] http_calm by (meson calm_trans)
  show ?thesis using assms c p rewrite calm_http_state
    by (auto simp: parse_and_modify_http_request_def Let_def case_prod_unfold split: if_splits bool.splits)
qed

lemma parse_and_modify_http_response_calm:
  assumes "parse_and_modify_http_response k w i f s = Some (ok, s')"
  shows "calm s s'"
proof -
  obtain c where c: "conn_heap s i = Some c" using assms by (auto simp: parse_and_modify_http_response_def bind_eq_Some_conv)
  obtain b n p where p: "parse_response (read_buf c) (resp_parser (http_state_of f s)) = (b, n, p)" by (metis prod.exhaust)
  have rewrite: "calm s s'" if "replace_read_buffer k i m (put_http_state f h t) = Some (ok, s')" "calm s t" for m h t
    using replace_read_buffer_calm [OF that(1)] that(2) http_calm by (meson calm_trans)
  show ?thesis using assms c p rewrite calm_http_state calm_cookie
    by (fastforce simp: parse_and_modify_http_response_def Let_def case_prod_unfold split: if_splits bool.splits option.splits)
qed

lemma prepare_request_calm:
  assumes "prepare_request k w i f s = Some (ok, s')"
  shows "calm s s'"
proof -
  let ?s1 = "put_http_state f (http_state_of f s) s"
  have "s' = ?s1 \<or> (\<exists>s2. parse_and_modify_http_request k w i f ?s1 = Some (ok, s2) \<and> (s' = s2 \<or> (\<exists>h. s' = put_http_state f h s2)))"
    using assms by (auto simp: prepare_request_def Let_def bind_eq_Some_conv split: if_splits)
  then show ?thesis using parse_and_modify_http_request_calm calm_http_state by (metis calm_trans)
qed

lemma prepare_response_calm:
  assumes "prepare_response k w i f s = Some (ok, s')"
  shows "calm s s'"
proof (cases "get_client_fd f s \<le> 0")
  case False
  let ?c = "get_client_fd f s"
  let ?s1 = "put_http_state ?c (http_state_of ?c s) s"
  obtain s2 where s2: "s2 = ?s1 \<or> (\<exists>t ok. parse_and_modify_http_response k w i ?c ?s1 = Some (ok, t) \<and> (s2 = t \<or> (\<exists>h. s2 = put_http_state ?c h t)))"
    and s': "s' = s2 \<or> (\<exists>b. s' = parse_response_status ?c b s2)"
    using assms False by (auto simp: prepare_response_def Let_def bind_eq_Some_conv split: if_splits)
  from s2 have "calm s s2" using parse_and_modify_http_response_calm calm_http_state by (metis calm_trans)
  with s' calm_status show ?thesis by (metis calm_trans)
qed (use assms in \<open>simp add: prepare_response_def\<close>)

lemma finish_response_calm:
  assumes "finish_response k i f s = Some s'"
  shows "calm s s'"
proof -
  have "s' = s \<or> (\<exists>g h ri. s' = put_http_state g h (log_finished_request k ri (snd (ask (k_system_now k) s))))"
    using assms by (auto simp: finish_response_def Let_def bind_eq_Some_conv case_prod_unfold split: if_splits option.splits)
  then show ?thesis using http_calm by (metis calm_refl calm_trans)
qed

section \<open>Forwarding\<close>

text \<open>Calm steps, and then possibly the closing of connections.\<close>

definition calm_then_closes :: "kernel \<Rightarrow> lb_state \<Rightarrow> lb_state \<Rightarrow> bool" where
  "calm_then_closes k s s' \<longleftrightarrow> (\<exists>s1 fs. calm s s1 \<and> close_each (close_connection k) fs s1 = Some s')"

lemma calm_then_closesI:
  "calm s s' \<Longrightarrow> calm_then_closes k s s'"
  "calm s s1 \<Longrightarrow> close_connection k f s1 = Some s' \<Longrightarrow> calm_then_closes k s s'"
  "calm s s1 \<Longrightarrow> close_connection k f s1 = Some s2 \<Longrightarrow> close_connection k g s2 = Some s' \<Longrightarrow> calm_then_closes k s s'"
proof -
  show "calm s s' \<Longrightarrow> calm_then_closes k s s'" unfolding calm_then_closes_def by (intro exI [of _ s'] exI [of _ "[]"]) simp
  show "calm s s1 \<Longrightarrow> close_connection k f s1 = Some s' \<Longrightarrow> calm_then_closes k s s'"
    unfolding calm_then_closes_def by (intro exI [of _ s1] exI [of _ "[f]"]) simp
  show "calm s s1 \<Longrightarrow> close_connection k f s1 = Some s2 \<Longrightarrow> close_connection k g s2 = Some s' \<Longrightarrow> calm_then_closes k s s'"
    unfolding calm_then_closes_def by (intro exI [of _ s1] exI [of _ "[f, g]"]) simp
qed

lemma calm_calm_then_closes: "calm s s1 \<Longrightarrow> calm_then_closes k s1 s' \<Longrightarrow> calm_then_closes k s s'"
  unfolding calm_then_closes_def using calm_trans by blast

lemma log_heap [simp]: "conn_heap (log_finished_request k ri s) = conn_heap s"
  by (auto simp: log_finished_request_def log_access_def ask_def upd_metrics_def Let_def split: prod.splits)

lemma send_bad_request_page_closes:
  assumes "send_bad_request_page k i j s = Some s'"
  shows "calm_then_closes k s s'"
proof -
  obtain c d where c: "conn_heap s i = Some c" and d: "conn_heap s j = Some d"
    using assms by (auto simp: send_bad_request_page_def bind_eq_Some_conv)
  let ?page = "to_bytes (bad_request ''Invalid HTTP request'')"
  obtain granted c1 m where x: "(if length ?page > length (write_buf c)
      then try_reserve_additional_bytes reserve_bytes (length ?page - length (write_buf c)) c (mem s)
      else (True, release_accounted_bytes release_bytes (length (write_buf c) - length ?page) c (mem s))) = (granted, c1, m)"
    by (metis prod.exhaust)
  then have core: "conn_core c1 = conn_core c" using budget_core by (auto split: if_splits)
  have put: "calm s ((put_conn i c1 s)\<lparr>mem := m\<rparr>)" "calm s ((put_conn i (c1\<lparr>write_buf := b, read_buf := []\<rparr>) s)\<lparr>mem := m\<rparr>)" for b
    using calm_put_mem [OF c] core by (simp_all add: conn_core_def)
  show ?thesis
  proof (cases granted)
    case True
    let ?s1 = "(put_conn i (c1\<lparr>write_buf := ?page, read_buf := []\<rparr>) s)\<lparr>mem := m\<rparr>"
    have "calm s (put_http_state (conn_fd c) h (mod_fd (conn_fd c) EPOLLINOUT ?s1))" for h
      by (rule calm_trans [OF put(2) calm_trans [OF calm_mod_fd calm_http_state]])
    then show ?thesis using assms c d x True unfolding send_bad_request_page_def Let_def
      by (intro calm_then_closesI(2)) (assumption, simp)
  next
    case False
    have "\<exists>s1 g. close_connection k (conn_fd c) ((put_conn i c1 s)\<lparr>mem := m\<rparr>) = Some s1 \<and> close_connection k g s1 = Some s'"
      using assms c d x False unfolding send_bad_request_page_def Let_def by (auto simp: bind_eq_Some_conv)
    then show ?thesis using calm_then_closesI(3) [OF put(1)] by blast
  qed
qed

lemma reject_bad_request_closes:
  assumes "reject_bad_request k i j s = Some s'"
  shows "calm_then_closes k s s'"
proof -
  obtain f ri where "send_bad_request_page k i j
      (log_finished_request k ri (snd (ask (k_system_now k) (snd (peer_address k f (upd_metrics increment_bad_requests s)))))) = Some s'"
    using assms by (auto simp: reject_bad_request_def Let_def bind_eq_Some_conv case_prod_unfold)
  moreover have "calm s (log_finished_request k ri (snd (ask (k_system_now k) (snd (peer_address k f (upd_metrics increment_bad_requests s))))))"
    using http_calm calm_upd_metrics by (meson calm_trans)
  ultimately show ?thesis using send_bad_request_page_closes calm_calm_then_closes by blast
qed

lemma copy_prepared_closes:
  assumes run: "copy_prepared k req i j s = Some s'" and "i \<noteq> j"
  shows "calm_then_closes k s s'"
proof -
  obtain c d where c: "conn_heap s i = Some c" and d: "conn_heap s j = Some d" using run by (auto simp: copy_prepared_def bind_eq_Some_conv)
  define n where "n = min (length (read_buf c)) (write_available d)"
  show ?thesis
  proof (cases "n = 0")
    case True
    have "calm s (mod_fd (conn_fd c) EPOLLOUT (start_backpressure k (conn_fd c) s))" by (rule calm_trans) (rule calm_steps)+
    then show ?thesis using run c d True by (auto simp: copy_prepared_def n_def Let_def intro: calm_then_closesI(1))
  next
    case False
    define c1 d1 where "c1 = fst (transfer n c d)" and "d1 = snd (transfer n c d)"
    define c2 where "c2 = (if buffer_full c \<and> has_read_space c1 then set_buffer_full False c1 else c1)"
    define s3 where "s3 = mod_fd (conn_fd c) (forward_events c2)
      (mod_fd (conn_fd d1) EPOLLINOUT (count_copied req (conn_fd c) n (put_conn j d1 (put_conn i c2 s))))"
    have "calm s (put_conn j d1 (put_conn i c2 s))"
      by (rule calm_put_two [OF c d \<open>i \<noteq> j\<close>]) (simp_all add: c2_def c1_def d1_def)
    then have s3: "calm s s3" unfolding s3_def using calm_count_copied calm_mod_fd by (meson calm_trans)
    have "\<exists>written s4. conn_write k j s3 = Some (written, s4) \<and> (close_connection k (conn_fd d1) s4 = Some s' \<or>
        (\<exists>p s5 s6. has_pending_send k j s4 = Some (p, s5) \<and>
           (s6 = start_backpressure k (conn_fd c) s5 \<or> s6 = clear_backpressure (conn_fd c) s5) \<and>
           (s' = s6 \<or> finish_response k i (conn_fd c) s6 = Some s')))"
      using run c d False unfolding copy_prepared_def s3_def c2_def c1_def d1_def n_def
      by (auto simp: Let_def case_prod_unfold bind_eq_Some_conv split: if_splits)
    then obtain written s4 where s4: "conn_write k j s3 = Some (written, s4)" "close_connection k (conn_fd d1) s4 = Some s' \<or>
        (\<exists>p s5 s6. has_pending_send k j s4 = Some (p, s5) \<and>
           (s6 = start_backpressure k (conn_fd c) s5 \<or> s6 = clear_backpressure (conn_fd c) s5) \<and>
           (s' = s6 \<or> finish_response k i (conn_fd c) s6 = Some s'))" by blast
    have calm4: "calm s s4" using calm_trans [OF s3 conn_write_calm [OF s4(1)]] .
    from s4(2) show ?thesis
    proof
      assume "\<exists>p s5 s6. has_pending_send k j s4 = Some (p, s5) \<and>
           (s6 = start_backpressure k (conn_fd c) s5 \<or> s6 = clear_backpressure (conn_fd c) s5) \<and>
           (s' = s6 \<or> finish_response k i (conn_fd c) s6 = Some s')"
      then have "calm s4 s'"
        using has_pending_send_calm calm_start_backpressure calm_clear_backpressure finish_response_calm by (metis calm_trans)
      then show ?thesis using calm4 calm_trans calm_then_closesI(1) by blast
    qed (rule calm_then_closesI(2) [OF calm4])
  qed
qed

lemma http_forward_closes:
  assumes run: "http_forward k w i j s = Some s'" and "i \<noteq> j"
  shows "calm_then_closes k s s'"
proof -
  obtain c d where c: "conn_heap s i = Some c" "conn_heap s j = Some d" using run by (auto simp: http_forward_def bind_eq_Some_conv)
  show ?thesis
  proof (cases "conn_state c \<noteq> ESTABLISHED \<or> conn_state d \<noteq> ESTABLISHED \<or> read_buf c = []")
    case True
    then show ?thesis using run c by (auto simp: http_forward_def intro: calm_then_closesI(1) split: if_splits)
  next
    case False
    define req where "req = is_http_request (read_buf c)"
    obtain ready s1 where s1: "(if req then prepare_request k w i (conn_fd c) s else prepare_response k w i (conn_fd c) s) = Some (ready, s1)"
      and rest: "s' = s1 \<or> reject_bad_request k i j s1 = Some s' \<or> copy_prepared k req i j s1 = Some s'"
      using run c False by (auto simp: http_forward_def req_def Let_def bind_eq_Some_conv split: if_splits)
    then have "calm s s1" using prepare_request_calm prepare_response_calm by (auto split: if_splits)
    with rest show ?thesis
      using reject_bad_request_closes copy_prepared_closes [OF _ \<open>i \<noteq> j\<close>] calm_calm_then_closes calm_then_closesI(1) by metis
  qed
qed

end
