(* ===== verification/Handler_Safety.thy ===== *)
theory Handler_Safety
  imports Load_Balancer Registrations Http_Safety
begin

text \<open>
  The event handlers keep the tables consistent. \<open>sound\<close> collects the invariants of a load balancer
  that copies through buffers; every step of a handler keeps it (\<open>keeps\<close>), a small calculus
  (\<open>guards\<close>, with one rule for each kind of step in \<open>guard_rules\<close>) carries this through the bodies of
  the handlers, and the retries go through the contract of the connector.
\<close>

section \<open>Soundness of a state\<close>

text \<open>
  \<open>sound L s\<close>: the invariants of the tables hold, backends and clients are wired, callbacks fit the tables, and the
  load balancer copies through buffers, in TCP or in HTTP mode: without splicing, without connection pools and
  without a queue of waiting clients.
\<close>

definition copy_mode :: "lb_state \<Rightarrow> bool" where
  "copy_mode s \<longleftrightarrow>
     splice_pipes s = None \<and> \<not> evh_use_splice (settings_of s) \<and>
     pending_clients s = [] \<and> (\<forall>m. config_manager s = Some m \<longrightarrow> \<not> queue_enabled (config m))"

definition sound :: "conn_id list \<Rightarrow> lb_state \<Rightarrow> bool" where
  "sound L s \<longleftrightarrow> lb_good L s \<and> wired s \<and> fds_ok s \<and> pool_manager s = None \<and> copy_mode s \<and> cb_ok s"

lemma copy_mode_static: "static s' = static s \<Longrightarrow> copy_mode s' = copy_mode s"
  by (simp add: copy_mode_def static_def)

lemma sound_calm:
  assumes "sound L s" and q: "calm s s'"
  shows "sound L s'"
proof -
  have sh: "same_shape s s'" "static s' = static s" "backend_to_client_map s' = backend_to_client_map s"
    using q by (simp_all add: calm_def)
  have "cb_ok s \<Longrightarrow> cb_ok s'" by (rule cb_ok_regs [OF _ regs_calm [OF q]]) (simp_all add: is_backend_shape [OF sh(1)])
  with sh assms(1) lb_good_shape [OF _ sh(1)] wired_shape [OF _ sh(1,3)] copy_mode_static [OF sh(2)] show ?thesis
    by (auto simp: sound_def fds_ok_def same_shape_def)
qed

lemma sound_close:
  assumes "sound L s" and run: "close_connection k f s = Some s'"
  shows "sound L s'"
proof -
  have s: "lb_good L s" "wired s" "fds_ok s" "pool_manager s = None" "copy_mode s" "cb_ok s" using assms(1) by (simp_all add: sound_def)
  have "cb_ok s'" by (rule cb_ok_regs [OF s(6) regs_close [OF run s(4)] is_backend_close [OF s(1) _ run]])
  moreover have "lb_good L s'" "contracts s s'"
    using close_connection_contracts [OF s(1), of k f] run by (metis option.inject)+
  moreover have "wired s'" "tame s s'" using wired_close [OF s(1,4,2) run] by simp_all
  ultimately show ?thesis
    using s copy_mode_static [of s' s] by (auto simp: sound_def contracts_def fds_ok_def tame_def)
qed

lemma is_backend_close_backend_only:
  assumes good: "lb_good L s" and b: "is_backend g s" and run: "close_backend_connection_only f s = Some s'"
  shows "is_backend g s'"
proof (cases "get_connection f s")
  case None
  then show ?thesis using run b by (simp add: close_backend_connection_only_def)
next
  case (Some i)
  have "lb_inv L s" "table_states_ok s" using good by (simp_all add: lb_good_def)
  then have "connections s' = AList.delete f (connections s)" "backend_connections s' = erase_key (backend_connections s) f"
    using close_backend_connection_only_ok [OF _ _ Some] run by (metis option.inject)+
  then show ?thesis using b by (auto simp: is_backend_def get_connection_def AList.delete_conv' erase_key_def)
qed

lemma sound_close_backend_only:
  assumes "sound L s" and "is_backend f s" and run: "close_backend_connection_only f s = Some s'"
  shows "sound L s'"
proof -
  have s: "lb_good L s" "wired s" "fds_ok s" "pool_manager s = None" "copy_mode s" "cb_ok s" using assms(1) by (simp_all add: sound_def)
  have "cb_ok s'" by (rule cb_ok_regs [OF s(6) regs_close_backend_only [OF run] is_backend_close_backend_only [OF s(1) _ run]])
  moreover have "lb_good L s'" "contracts s s'"
    using close_backend_connection_only_contracts [OF s(1), of f] run by (metis option.inject)+
  moreover have "wired s'" "tame s s'" using wired_close_backend_only [OF s(1,2) assms(2) run] by simp_all
  ultimately show ?thesis
    using s copy_mode_static [of s' s] by (auto simp: sound_def contracts_def fds_ok_def tame_def)
qed

text \<open>Every step of a handler keeps \<open>sound\<close> and that a descriptor, if it is in use, is a backend's.\<close>

definition keeps :: "fd \<Rightarrow> conn_id list \<Rightarrow> lb_state \<Rightarrow> lb_state \<Rightarrow> bool" where
  "keeps f L s s' \<longleftrightarrow> (sound L s \<and> is_backend f s \<longrightarrow> sound L s' \<and> is_backend f s')"

lemma keeps_refl [simp]: "keeps f L s s"
  by (simp add: keeps_def)

lemma keeps_trans: "keeps f L s s1 \<Longrightarrow> keeps f L s1 s2 \<Longrightarrow> keeps f L s s2"
  by (simp add: keeps_def)

lemma keeps_calm: "calm s s' \<Longrightarrow> keeps f L s s'"
  by (auto simp: keeps_def is_backend_shape [OF calm_shape] dest: sound_calm)

lemma sound_good: "sound L s \<Longrightarrow> lb_good L s"
  by (simp add: sound_def)

lemma keepsI: "(sound L s \<Longrightarrow> is_backend f s \<Longrightarrow> keeps f L s s') \<Longrightarrow> keeps f L s s'"
  by (auto simp: keeps_def)

lemma keeps_close: "close_connection k g s = Some s' \<Longrightarrow> keeps f L s s'"
  unfolding keeps_def using sound_close is_backend_close sound_good by metis

lemma calm_steps_of: "calm s (s\<lparr>steps := n\<rparr>)"
  by (simp add: calm_def same_shape_def)

subsection \<open>Forwarding\<close>

lemma established_peer_linked:
  assumes "sound L s" and "established_peer i s = Some (Some j)"
  obtains c d where "conn_heap s i = Some c" and "peer c = Some j" and "conn_heap s j = Some d" and "i \<noteq> j"
proof -
  obtain c where c: "conn_heap s i = Some c" "peer c = Some j"
    using assms(2) by (auto simp: established_peer_def bind_eq_Some_conv split: option.splits if_splits)
  moreover have "lb_inv L s" using assms(1) by (simp add: sound_def lb_good_def)
  ultimately show ?thesis using peer_entry [of L s i c j] that by metis
qed

lemma forward_keeps:
  assumes "conn_heap s i = Some c" and "conn_heap s j = Some d" and "i \<noteq> j" and "forward k i j s = Some s'"
  shows "keeps f L s s'"
proof (rule keepsI)
  assume "sound L s"
  then obtain s1 where s1: "calm s s1" "s' = s1 \<or> close_connection k (conn_fd d) s1 = Some s'"
    using forward_ok [OF sound_good assms(1-3), of L k] assms(4) by (metis option.inject)
  from s1(2) show "keeps f L s s'"
  proof
    assume "close_connection k (conn_fd d) s1 = Some s'"
    with keeps_calm [OF s1(1)] show ?thesis by (rule keeps_trans [OF _ keeps_close])
  qed (use keeps_calm [OF s1(1)] in simp)
qed

lemma keeps_closes: "close_each (close_connection k) fs s = Some s' \<Longrightarrow> keeps f L s s'"
proof (induction fs arbitrary: s)
  case (Cons g fs)
  then obtain s1 where "close_connection k g s = Some s1" "close_each (close_connection k) fs s1 = Some s'" by (auto simp: bind_eq_Some_conv)
  with Cons.IH keeps_close show ?case by (meson keeps_trans)
qed simp

lemma http_forward_keeps: "http_forward k w i j s = Some s' \<Longrightarrow> i \<noteq> j \<Longrightarrow> keeps f L s s'"
  using http_forward_closes keeps_calm keeps_closes unfolding calm_then_closes_def by (metis keeps_trans)

lemma forward_data_keeps:
  assumes "conn_heap s i = Some c" and "conn_heap s j = Some d" and "i \<noteq> j" and "forward_data k i j s = Some s'"
  shows "keeps f L s s'"
proof (rule keepsI)
  assume "sound L s"
  then have "(\<exists>w. http_forward k w i j s = Some s') \<or> forward k i j s = Some s'"
    using assms(4) by (auto simp: forward_data_def sound_def copy_mode_def split: if_splits)
  then show "keeps f L s s'" using forward_keeps [OF assms(1-3)] http_forward_keeps assms(3) by metis
qed

lemma push_to_peer_keeps:
  assumes run: "push_to_peer k i s = Some s'"
  shows "keeps f L s s'"
proof (rule keepsI)
  assume sound: "sound L s"
  obtain p c where p: "established_peer i s = Some p" "conn_heap s i = Some c"
    and r: "(case p of None \<Rightarrow> Some s | Some j \<Rightarrow> if read_buf c = [] then Some s else forward_data k i j s) = Some s'"
    using run by (auto simp: push_to_peer_def bind_eq_Some_conv)
  show "keeps f L s s'"
  proof (cases p)
    case (Some j)
    with p sound obtain d where "conn_heap s j = Some d" "i \<noteq> j" using established_peer_linked by metis
    with r Some p(2) show ?thesis using forward_data_keeps by (auto split: if_splits)
  qed (use r in simp)
qed

subsection \<open>Closing from a handler\<close>

lemma heap_inv_drop_ssl:
  assumes inv: "heap_inv H own tab F X" and c: "H i = Some c"
  shows "heap_inv (H(i \<mapsto> c\<lparr>ssl := None\<rparr>)) own tab F (X - set_option (ssl c))"
proof -
  let ?H = "H(i \<mapsto> c\<lparr>ssl := None\<rparr>)"
  have old: "\<exists>d0. H x = Some d0 \<and> conn_fd d = conn_fd d0 \<and> peer d = peer d0 \<and> set_option (ssl d) \<subseteq> set_option (ssl d0) \<and>
      set_option (ssl d) \<inter> set_option (ssl c) = {}" if "?H x = Some d" for x d
  proof (cases "x = i")
    case False
    then have "H x = Some d" using that by simp
    moreover have "set_option (ssl d) \<inter> set_option (ssl c) = {}" using inv c \<open>H x = Some d\<close> False unfolding heap_inv_def by metis
    ultimately show ?thesis by blast
  qed (use that c in auto)
  have peers: "map_option peer (?H x) = map_option peer (H x)" for x using c by simp
  have "0 \<le> conn_fd d \<and> conn_fd d \<in> F \<and> set_option (ssl d) \<subseteq> X - set_option (ssl c) \<and> (\<forall>j. peer d = Some j \<longrightarrow> linked ?H tab x j)"
    if "?H x = Some d" for x d
  proof -
    from old [OF that] obtain d0 where d0: "H x = Some d0" "conn_fd d = conn_fd d0" "peer d = peer d0"
      "set_option (ssl d) \<subseteq> set_option (ssl d0)" "set_option (ssl d) \<inter> set_option (ssl c) = {}" by blast
    with inv have "0 \<le> conn_fd d0" "conn_fd d0 \<in> F" "set_option (ssl d0) \<subseteq> X" "\<forall>j. peer d0 = Some j \<longrightarrow> linked H tab x j"
      unfolding heap_inv_def by blast+
    with d0 show ?thesis unfolding linked_def peers by auto
  qed
  moreover have "conn_fd d \<noteq> conn_fd e \<and> set_option (ssl d) \<inter> set_option (ssl e) = {}"
    if xy: "?H x = Some d" "?H y = Some e" "x \<noteq> y" for x y d e
  proof -
    from old [OF xy(1)] old [OF xy(2)] obtain d0 e0 where "H x = Some d0" "conn_fd d = conn_fd d0" "set_option (ssl d) \<subseteq> set_option (ssl d0)"
      "H y = Some e0" "conn_fd e = conn_fd e0" "set_option (ssl e) \<subseteq> set_option (ssl e0)" by blast
    moreover from this inv xy(3) have "conn_fd d0 \<noteq> conn_fd e0" "set_option (ssl d0) \<inter> set_option (ssl e0) = {}"
      unfolding heap_inv_def by metis+
    ultimately show ?thesis by auto
  qed
  moreover have "dom ?H = own" using inv c by (auto simp: heap_inv_def)
  ultimately show ?thesis by (simp only: heap_inv_def) blast
qed

lemma drop_ssl_keeps:
  assumes "drop_ssl f s = Some s'"
  shows "keeps g L s s'"
proof (rule keepsI)
  assume sound: "sound L s"
  show "keeps g L s s'"
  proof (cases "get_connection f s")
    case None
    then show ?thesis using assms by (simp add: drop_ssl_def)
  next
    case (Some i)
    then obtain c where c: "conn_heap s i = Some c" using assms by (auto simp: drop_ssl_def bind_eq_Some_conv)
    show ?thesis
    proof (cases "ssl c \<noteq> None \<and> tls_ready s")
      case False
      then have "s' = s" using assms Some c by (auto simp: drop_ssl_def split: if_splits)
      then show ?thesis by simp
    next
      case True
      then obtain x where x: "ssl c = Some x" by blast
      let ?c = "c\<lparr>ssl := None\<rparr>"
      have s': "s' = (put_conn i ?c s)\<lparr>live_ssl := live_ssl s - {x}\<rparr>"
        using assms Some c True x by (auto simp: drop_ssl_def ssl_free_def split: if_splits)
      have good: "lb_inv L s" "table_states_ok s" "counters_exact s" using sound by (simp_all add: sound_def lb_good_def)
      have "lb_inv L s'"
        using good(1) heap_inv_drop_ssl [OF lb_inv_heap [OF good(1)] c] c x
        by (auto simp: lb_inv_def s' put_conn_def intro: table_inv_put)
      moreover have at: "conn_at s' h = (if h = f then Some ?c else conn_at s h)" for h
      proof (cases "get_connection h s")
        case (Some y)
        have "y = i \<longleftrightarrow> h = f"
          using connections_key_unique [OF good(1), of h y f] get_connection_in [OF Some] get_connection_in [OF \<open>get_connection f s = Some i\<close>]
            Some \<open>get_connection f s = Some i\<close> by auto
        with Some show ?thesis by (simp add: conn_at_def s' get_connection_def)
      qed (use Some in \<open>auto simp: conn_at_def s' get_connection_def\<close>)
      have atf: "conn_at s f = Some c" using Some c by (simp add: conn_at_def)
      have st: "map_option conn_state (conn_at s' h) = map_option conn_state (conn_at s h)"
        "map_option peer (conn_at s' h) = map_option peer (conn_at s h)" for h using atf by (simp_all add: at)
      have fr: "backend_connections s' = backend_connections s" "nodes s' = nodes s" "backend_pool s' = backend_pool s"
        "health_checker s' = health_checker s" by (simp_all add: s' put_conn_def)
      have "est_fds s' n = est_fds s n" for n by (simp add: est_fds_def fr st del: map_option_eq_Some)
      then have "counters_exact s'" using good(3) by (simp add: counters_exact_def node_alive_def fr)
      moreover have "table_states_ok s'" using good(2) c by (auto simp: table_states_ok_def s' split: if_splits)
      moreover have "wired s'"
      proof -
        have "wired s" using sound by (simp add: sound_def)
        moreover have "tame s s'" by (rule tame_frame) (simp_all add: s')
        ultimately show ?thesis
        proof (rule wired_after)
          show "get_connection b s' = get_connection b s \<and> map_option peer (conn_at s' a) = map_option peer (conn_at s a)" for a b
            by (simp only: st) (simp add: get_connection_def s')
        qed (use atf in \<open>auto simp: at fr split: if_splits\<close>)
      qed
      moreover have "steady s s'" by (rule steady_same) (simp_all add: s')
      then have "cb_ok s'" using sound steady_cb_ok by (simp add: sound_def)
      ultimately show ?thesis using sound
        by (simp add: keeps_def sound_def lb_good_def fds_ok_def copy_mode_def is_backend_def get_connection_def)
           (simp add: s' put_conn_def)
    qed
  qed
qed

lemma handler_close_keeps:
  assumes "handler_close k f s = Some s'"
  shows "keeps g L s s'"
proof (rule keepsI)
  assume sound: "sound L s" "is_backend g s"
  obtain s1 where s1: "drop_ssl f s = Some s1"
    and s': "close_connection k f ((if splice_pipes s1 = None then s1 else cleanup_pipes f s1)
      \<lparr>handshake_start_times := erase_key (handshake_start_times (if splice_pipes s1 = None then s1 else cleanup_pipes f s1)) f\<rparr>) = Some s'"
    using assms by (auto simp: handler_close_def bind_eq_Some_conv Let_def)
  have k1: "keeps g L s s1" using drop_ssl_keeps [OF s1] .
  then have "sound L s1" using sound by (simp add: keeps_def)
  then have "splice_pipes s1 = None" by (simp add: sound_def copy_mode_def)
  with s' have "close_connection k f (s1\<lparr>handshake_start_times := erase_key (handshake_start_times s1) f\<rparr>) = Some s'" by simp
  moreover have "calm s1 (s1\<lparr>handshake_start_times := erase_key (handshake_start_times s1) f\<rparr>)"
    by (simp add: calm_def same_shape_def)
  ultimately show "keeps g L s s'" by (meson k1 keeps_trans keeps_calm keeps_close)
qed

lemma check_backpressure_keeps:
  assumes "check_backpressure k f s = Some s'"
  shows "keeps g L s s'"
proof (cases "backpressure_start_times s f")
  case None
  then show ?thesis using assms by (simp add: check_backpressure_def)
next
  case (Some t)
  let ?s1 = "s\<lparr>steps := steps s + 1\<rparr>"
  have k1: "keeps g L s ?s1" by (rule keeps_calm) (rule calm_steps_of)
  have k2: "keeps g L ?s1 (upd_metrics increment_backpressure_timeouts ?s1)" by (rule keeps_calm) (rule calm_upd_metrics)
  have "s' = ?s1 \<or> close_connection k f (upd_metrics increment_backpressure_timeouts ?s1) = Some s'"
    using assms Some by (auto simp: check_backpressure_def ask_def split: if_splits)
  then show ?thesis using k1 k2 by (meson keeps_trans keeps_close)
qed

subsection \<open>Taking a client out of the table\<close>

lemma table_states_remove: "table_states_ok s \<Longrightarrow> table_states_ok (table_remove f s)"
  by (auto simp: table_states_ok_def table_remove_def AList.delete_eq)

lemma wiredE:
  assumes "wired s" and "backend_to_client_map s x = Some y"
  obtains j where "get_connection y s = Some j" and "map_option peer (conn_at s x) = Some (Some j)"
    and "backend_connections s y = None"
  using assms unfolding wired_def by metis

lemma take_client:
  assumes good: "lb_good L s" and w: "wired s" and g: "get_connection f s = Some i"
    and c: "conn_heap s i = Some c" "peer c = None" and b: "backend_connections s f = None"
  shows "lb_good (i # L) (table_remove f s)" and "wired (table_remove f s)"
proof -
  let ?t = "table_remove f s"
  have inv: "lb_inv L s" using good by (simp add: lb_good_def)
  have fr: "conn_heap ?t = conn_heap s" "backend_connections ?t = backend_connections s" "nodes ?t = nodes s"
    "backend_pool ?t = backend_pool s" "health_checker ?t = health_checker s" by (simp_all add: table_remove_def)
  have at: "conn_at ?t h = (if h = f then None else conn_at s h)" for h
    by (simp add: conn_at_def fr split: option.splits)
  have "est_fds ?t n = est_fds s n" for n using b by (auto simp: est_fds_def at fr)
  then have "counters_exact ?t" using good by (simp add: lb_good_def counters_exact_def node_alive_def fr)
  then show "lb_good (i # L) ?t"
    using lb_inv_table_remove [OF inv g b c] table_states_remove good by (simp add: lb_good_def)
  have atf: "conn_at s f = Some c" using g c by (simp add: conn_at_def)
  show "wired ?t"
  proof (rule wired_after [OF w])
    show "tame s ?t" by (rule tame_frame) simp_all
    fix x y assume "backend_to_client_map ?t x = Some y"
    then have "backend_to_client_map s x = Some y" by simp
    with w obtain j where j: "get_connection y s = Some j" "map_option peer (conn_at s x) = Some (Some j)" by (rule wiredE)
    have "x \<noteq> f" using j(2) atf c(2) by auto
    moreover have "y \<noteq> f"
    proof
      assume "y = f"
      then have "peer_fd s f = Some x" using peer_fd_of(2) [OF inv j(2,1)] by simp
      with atf c(2) show False by (simp add: peer_fd_def)
    qed
    ultimately show "get_connection y ?t = get_connection y s \<and> map_option peer (conn_at ?t x) = map_option peer (conn_at s x)"
      by (simp add: at)
  qed (auto simp: at fr split: if_splits)
qed

text \<open>A connection that no table knows may change its state.\<close>

lemma lb_good_put_loose:
  assumes good: "lb_good L s" and c: "conn_heap s i = Some c" and tab: "i \<notin> snd ` set (connections s)"
    and same: "conn_fd c' = conn_fd c" "ssl c' = ssl c" "peer c' = peer c"
  shows "lb_good L (put_conn i c' s)"
proof -
  have inv: "lb_inv L (put_conn i c' s)" using good c same by (intro lb_inv_put) (auto simp: lb_good_def)
  have "conn_at (put_conn i c' s) f = conn_at s f" for f
    using tab by (auto simp: conn_at_def get_connection_def split: option.splits dest: map_of_snd)
  then have "est_fds (put_conn i c' s) n = est_fds s n" for n by (simp add: est_fds_def)
  then show ?thesis
    using good inv tab by (auto simp: lb_good_def counters_exact_def node_alive_def table_states_ok_def rev_image_eqI)
qed

lemma sound_after_connect:
  assumes "trying L i f s" and "kernel_fresh k" and "copy_mode s" and calls: "cb_ok s" "client_free f s"
    and run: "connect k i rc key s = Some s'"
  shows "sound L s'"
proof -
  have "cb_ok s'" by (rule connect_calls [OF assms(1,2) calls run])
  obtain s'' where "connect k i rc key s = Some s''" "lb_good L s''" "pool_manager s'' = None" "fds_ok s''" "wired s''" "static s'' = static s"
    using connect_ok [OF assms(1,2)] by blast
  with run \<open>cb_ok s'\<close> assms(3) copy_mode_static [of s'' s] show ?thesis by (simp add: sound_def)
qed

lemma sound_after_retry:
  assumes tr: "trying L i f s" and "kernel_fresh k" and "copy_mode s" and calls: "cb_ok s" "client_free f s"
    and run: "retry k i rc s = Some s'"
  shows "sound L s'"
proof (cases "rc \<ge> MAX_RETRY_ATTEMPTS")
  case True
  have "cb_ok s'" by (rule retry_calls [OF assms(1,2) calls run])
  obtain s'' where "close_and_destroy i (upd_metrics increment_backend_routes_failed s) = Some s''" "lb_good L s''"
    "pool_manager s'' = None" "fds_ok s''" "static s'' = static s" "wired s''"
    by (rule trying_give_up [OF tr])
  with run True \<open>cb_ok s'\<close> assms(3) copy_mode_static [of s'' s] show ?thesis by (simp add: retry_def sound_def)
next
  case False
  with run have "connect k i (rc + 1) (session_key_of i s) s = Some s'" by (simp add: retry_def)
  then show ?thesis by (rule sound_after_connect [OF assms(1-5)])
qed

text \<open>The end of a TLS handshake: the client leaves the table, established, and is connected.\<close>

lemma tls_handshake_complete_sound:
  assumes sound: "sound L s" and fresh: "kernel_fresh k" and g: "get_connection f s = Some i"
    and c: "conn_heap s i = Some c" "conn_state c = HANDSHAKE"
    and s1: "s1 = mod_fd f ev (put_conn i (set_conn_state ESTABLISHED c) (s\<lparr>steps := n\<rparr>))"
    and run: "tls_handshake_complete k f s1 = Some s'"
  shows "sound L s'"
proof -
  have good: "lb_good L s" "wired s" "fds_ok s" "pool_manager s = None" "copy_mode s" "cb_ok s" using sound by (simp_all add: sound_def)
  have inv: "lb_inv L s" using good(1) by (simp add: lb_good_def)
  have "conn_at s f = Some c" using g c by (simp add: conn_at_def)
  then have p: "peer c = None" "backend_connections s f = None" using good(2) c(2) by (auto simp: wired_def)
  note t = take_client [OF good(1,2) g c(1) p]
  let ?t = "table_remove f s" and ?c = "set_conn_state ESTABLISHED c"
  let ?s2 = "table_remove f (s1\<lparr>handshake_start_times := erase_key (handshake_start_times s1) f\<rparr>)"
  have fd: "conn_fd c = f" using get_connection_live [OF inv g] c(1) by auto
  have tab: "i \<notin> snd ` set (connections ?t)" using t(1) by (auto simp: lb_good_def lb_inv_def owned_def)
  have "lb_good (i # L) (put_conn i ?c ?t)"
    using t(1) _ tab by (rule lb_good_put_loose) (simp_all add: c(1) table_remove_def set_conn_state_def)
  then have "lb_good (i # L) ?s2"
    by (rule lb_good_core) (simp_all add: s1 table_remove_def mod_fd_def put_conn_def)
  moreover have "wired (put_conn i ?c ?t)" using t(2) tab by (rule wired_loose) simp_all
  then have "wired ?s2" by (rule wired_frame) (simp_all add: s1 table_remove_def mod_fd_def put_conn_def)
  ultimately have "trying L i f ?s2"
    using good(3,4) fd by (simp add: trying_def fds_ok_def) (simp add: s1 table_remove_def mod_fd_def put_conn_def set_conn_state_def)
  moreover have "static ?s2 = static s" by (simp add: s1)
  then have "copy_mode ?s2" using good(5) copy_mode_static by blast
  moreover have "registrations ?s2 = registrations s" "open_fds ?s2 = open_fds s"
    by (simp_all add: s1) (simp add: table_remove_def mod_fd_def put_conn_def)
  then have "regs s ?s2" using equalityD2 by (intro regs_same) (simp_all add: s1 table_remove_def mod_fd_def put_conn_def)
  then have "cb_ok ?s2" "client_free f ?s2"
    using client_free_regs [OF client_free_entry [OF good(6)]] g p(2)
    by (auto intro: cb_ok_regs [OF good(6)] simp: is_backend_def s1 table_remove_def mod_fd_def put_conn_def get_connection_def AList.delete_conv')
  moreover have "get_connection f (s1\<lparr>handshake_start_times := erase_key (handshake_start_times s1) f\<rparr>) = Some i"
    using g by (simp add: s1 get_connection_def mod_fd_def put_conn_def)
  then have "connect k i 0 [] ?s2 = Some s'" using run by (simp add: tls_handshake_complete_def Let_def)
  ultimately show ?thesis using sound_after_connect [OF _ fresh] by blast
qed

lemma handle_tls_handshake_sound:
  assumes sound: "sound L s" and fresh: "kernel_fresh k" and g: "get_connection f s = Some i"
    and c: "conn_heap s i = Some c" "conn_state c = HANDSHAKE" and run: "handle_tls_handshake k i f s = Some (ok, s')"
  shows "sound L s'"
proof -
  have c1: "sound L (s\<lparr>steps := Suc (steps s)\<rparr>)" using sound calm_steps_of by (rule sound_calm)
  have c2: "sound L (mod_fd f ev (s\<lparr>steps := Suc (steps s)\<rparr>))" for ev using c1 calm_mod_fd by (rule sound_calm)
  show ?thesis
  proof (cases "ssl c = None")
    case True
    then show ?thesis using run c(1) sound by (simp add: handle_tls_handshake_def is_tls_def)
  next
    case tls: False
    show ?thesis
    proof (cases "k_ssl_accept k (steps s)")
      case SslDone
      then obtain s3 where "tls_handshake_complete k f (mod_fd f EPOLLINOUT (put_conn i (set_conn_state ESTABLISHED c) (s\<lparr>steps := Suc (steps s)\<rparr>))) = Some s3"
        "s' = s3"
        using run c(1) tls by (auto simp: handle_tls_handshake_def is_tls_def ask_def with_conn_def bind_eq_Some_conv)
      then show ?thesis using tls_handshake_complete_sound [OF sound fresh g c refl] by blast
    qed (use run c(1) tls c1 c2 in \<open>auto simp: handle_tls_handshake_def is_tls_def ask_def\<close>)
  qed
qed

subsection \<open>A calculus of steps\<close>

text \<open>\<open>guards f L s m\<close>: whenever the computation \<open>m\<close>, started in \<open>s\<close>, returns, it has kept soundness.\<close>

definition guards :: "fd \<Rightarrow> conn_id list \<Rightarrow> lb_state \<Rightarrow> lb_state option \<Rightarrow> bool" where
  "guards f L s m \<longleftrightarrow> (\<forall>s'. m = Some s' \<longrightarrow> keeps f L s s')"

named_theorems guard_rules \<open>one rule for each step of a handler\<close>

lemma guardsI: "(\<And>s'. sound L s \<Longrightarrow> is_backend f s \<Longrightarrow> m = Some s' \<Longrightarrow> keeps f L s s') \<Longrightarrow> guards f L s m"
  by (auto simp: guards_def keeps_def)

lemma guards_then: "keeps f L s t \<Longrightarrow> guards f L t m \<Longrightarrow> guards f L s m"
  by (auto simp: guards_def intro: keeps_trans)

lemma guards_Some [guard_rules]: "keeps f L s t \<Longrightarrow> guards f L s (Some t)"
  by (simp add: guards_def)

lemma guards_lookup [guard_rules]:
  "(\<And>x. guards f L s (g x)) \<Longrightarrow> guards f L s (conn_heap t i \<bind> g)"
  "(\<And>x. guards f L s (g' x)) \<Longrightarrow> guards f L s (established_peer i t \<bind> g')"
  "(\<And>x. guards f L s (g'' x)) \<Longrightarrow> guards f L s (peer c \<bind> g'')"
  by (auto simp: guards_def bind_eq_Some_conv)

lemma guards_if [guard_rules]:
  "(P \<Longrightarrow> guards f L s m) \<Longrightarrow> (\<not> P \<Longrightarrow> guards f L s n) \<Longrightarrow> guards f L s (if P then m else n)"
  by simp

lemma guards_option [guard_rules]:
  "(x = None \<Longrightarrow> guards f L s m) \<Longrightarrow> (\<And>y. x = Some y \<Longrightarrow> guards f L s (n y)) \<Longrightarrow>
   guards f L s (case x of None \<Rightarrow> m | Some y \<Rightarrow> n y)"
  by (cases x) simp_all

lemma guards_let [guard_rules]: "guards f L s (g x) \<Longrightarrow> guards f L s (let y = x in g y)"
  by simp

lemma guards_bind:
  assumes "guards f L s m" and "\<And>s1. m = Some s1 \<Longrightarrow> guards f L s1 (g s1)"
  shows "guards f L s (m \<bind> g)"
  using assms by (auto simp: guards_def bind_eq_Some_conv intro: keeps_trans)

lemma keeps_io:
  "conn_read k i s = Some (r, s') \<Longrightarrow> keeps f L s s'" "conn_write k i s = Some (r, s') \<Longrightarrow> keeps f L s s'"
  "has_pending_send k i s = Some (r, s') \<Longrightarrow> keeps f L s s'"
  by (simp_all add: keeps_calm io_calm)

lemma guards_io [guard_rules]:
  "keeps f L s t \<Longrightarrow> (\<And>r s1. guards f L s1 (g r s1)) \<Longrightarrow> guards f L s (conn_read k i t \<bind> (\<lambda>(r, s1). g r s1))"
  "keeps f L s t \<Longrightarrow> (\<And>r s1. guards f L s1 (g r s1)) \<Longrightarrow> guards f L s (conn_write k i t \<bind> (\<lambda>(r, s1). g r s1))"
  "keeps f L s t \<Longrightarrow> (\<And>r s1. guards f L s1 (g r s1)) \<Longrightarrow> guards f L s (has_pending_send k i t \<bind> (\<lambda>(r, s1). g r s1))"
  unfolding guards_def bind_eq_Some_conv split_paired_Ex case_prod_conv by (metis keeps_trans keeps_io)+

lemma guards_push [guard_rules]:
  "keeps f L s t \<Longrightarrow> guards f L s (push_to_peer k i t)"
  "keeps f L s t \<Longrightarrow> (\<And>s1. guards f L s1 (g s1)) \<Longrightarrow> guards f L s (push_to_peer k i t \<bind> g)"
  unfolding guards_def bind_eq_Some_conv by (metis keeps_trans push_to_peer_keeps)+

lemma guards_handler_close [guard_rules]: "keeps f L s t \<Longrightarrow> guards f L s (handler_close k h t)"
  by (auto simp: guards_def intro: keeps_trans handler_close_keeps)

lemma guards_check [guard_rules]:
  "(\<And>s1. check_backpressure k h s = Some s1 \<Longrightarrow> guards f L s1 (g s1)) \<Longrightarrow> guards f L s (check_backpressure k h s \<bind> g)"
  unfolding guards_def bind_eq_Some_conv by (metis keeps_trans check_backpressure_keeps)

lemma keeps_step [guard_rules]:
  "keeps f L s s"
  "keeps f L s t \<Longrightarrow> keeps f L s (mod_fd h ev t)" "keeps f L s t \<Longrightarrow> keeps f L s (upd_metrics g t)"
  "keeps f L s t \<Longrightarrow> keeps f L s (shutdown_wr h t)" "keeps f L s t \<Longrightarrow> keeps f L s (start_backpressure k h t)"
  "keeps f L s t \<Longrightarrow> keeps f L s (clear_backpressure h t)" "keeps f L s t \<Longrightarrow> keeps f L s (t\<lparr>steps := n\<rparr>)"
  "(P \<Longrightarrow> keeps f L s t) \<Longrightarrow> (\<not> P \<Longrightarrow> keeps f L s u) \<Longrightarrow> keeps f L s (if P then t else u)"
  by (auto intro: keeps_trans keeps_calm calm_steps calm_steps_of)

lemma guards_splice [guard_rules]:
  "evh_use_splice (settings_of s) \<Longrightarrow> guards f L s m"
  "evh_use_splice (settings_of s) \<and> P \<Longrightarrow> guards f L s m"
  by (auto intro!: guardsI simp: sound_def copy_mode_def)

subsection \<open>Client events\<close>

lemma client_readable_guards: "guards g L s (client_readable k i f s)"
  unfolding client_readable_def by (intro guard_rules) (assumption | rule guard_rules)+

lemma client_writable_guards: "guards g L s (client_writable k i f s)"
  unfolding client_writable_def by (intro guard_rules)

text \<open>No connection has a negative descriptor, so \<open>is_backend (- 1)\<close> holds in every sound state.\<close>

lemma no_negative_fd: "sound L s \<Longrightarrow> is_backend (- 1) s"
proof -
  assume "sound L s"
  then have inv: "lb_inv L s" by (simp add: sound_def lb_good_def)
  have "get_connection (- 1) s = None"
  proof (rule ccontr)
    assume "get_connection (- 1) s \<noteq> None"
    then obtain i c where "conn_heap s i = Some c" "conn_fd c = - 1" using get_connection_live [OF inv] by blast
    then show False using heap_inv_live(1) [OF lb_inv_heap [OF inv]] by fastforce
  qed
  then show ?thesis by (simp add: is_backend_def)
qed

lemma keeps_sound: "keeps (- 1) L s s' \<Longrightarrow> sound L s \<Longrightarrow> sound L s'"
  using no_negative_fd by (auto simp: keeps_def)

lemma guards_sound: "guards (- 1) L s m \<Longrightarrow> m = Some s' \<Longrightarrow> sound L s \<Longrightarrow> sound L s'"
  using keeps_sound by (auto simp: guards_def)

lemma close_frees:
  assumes "sound L s" and g: "get_connection f s = Some i" and run: "close_connection k f s = Some s'"
  shows "conn_heap s' i = None"
proof (rule ccontr)
  assume "conn_heap s' i \<noteq> None"
  then obtain c' where c': "conn_heap s' i = Some c'" by blast
  have s: "lb_inv L s" "table_states_ok s" "pool_manager s = None" using assms(1) by (simp_all add: sound_def lb_good_def)
  have "sound L s'" by (rule sound_close [OF assms(1) run])
  then have s': "lb_inv L s'" "pool_manager s' = None" by (simp_all add: sound_def lb_good_def)
  have "i \<in> snd ` set (connections s)" using get_connection_in [OF g] by force
  then have "i \<notin> set L" using s(1) by (auto simp: lb_inv_def owned_def)
  moreover have "i \<in> set (owned L s')" using heap_inv_live(4) [OF lb_inv_heap [OF s'(1)] c'] .
  ultimately obtain h where h: "(h, i) \<in> set (connections s')" using s'(2) by (auto simp: owned_def pooled_ids_def)
  then have gh: "get_connection h s' = Some i"
    using s'(1) by (auto simp: lb_inv_def table_inv_def get_connection_def)
  have "gone f (peer_fd s f) s s'" using close_connection_ok [OF s(1,2) g, of k] run by (metis option.inject)
  with gh have "h \<noteq> f \<and> get_connection h s = Some i" unfolding gone_def by (cases "h = f \<or> peer_fd s f = Some h") auto
  with connections_key_unique [OF s(1)] get_connection_in g show False by metis
qed

lemma check_backpressure_still:
  assumes sound: "sound L s" and g: "get_connection f s = Some i" and run: "check_backpressure k f s = Some s1"
    and c: "conn_heap s1 i = Some c"
  shows "sound L s1" and "get_connection f s1 = Some i"
proof -
  show "sound L s1" using keeps_sound [OF check_backpressure_keeps [OF run] sound] .
  let ?s0 = "upd_metrics increment_backpressure_timeouts (s\<lparr>steps := steps s + 1\<rparr>)"
  have "close_connection k f ?s0 \<noteq> Some s1"
  proof
    assume close: "close_connection k f ?s0 = Some s1"
    have "sound L ?s0" using sound by (intro sound_calm [OF sound_calm [OF sound calm_steps_of] calm_upd_metrics])
    moreover have "get_connection f ?s0 = Some i" using g by (simp add: get_connection_def upd_metrics_def)
    ultimately show False using close_frees [OF _ _ close] c by auto
  qed
  then have "s1 = s \<or> s1 = s\<lparr>steps := steps s + 1\<rparr>"
    using run by (auto simp: check_backpressure_def ask_def split: if_splits)
  then show "get_connection f s1 = Some i" using g by (auto simp: get_connection_def)
qed

lemma handle_client_event_sound:
  assumes sound: "sound L s" and fresh: "kernel_fresh k" and run: "handle_client_event k f type s = Some s'"
  shows "sound L s'"
proof (cases "get_connection f s")
  case None
  then show ?thesis using sound run by (simp add: handle_client_event_def)
next
  case (Some i)
  then obtain c0 where c0: "conn_heap s i = Some c0" using run by (auto simp: handle_client_event_def bind_eq_Some_conv)
  show ?thesis
  proof (cases "conn_state c0 = CLOSED")
    case True
    then show ?thesis using Some c0 run sound by (simp add: handle_client_event_def)
  next
    case open_c: False
    then obtain s1 where s1: "check_backpressure k f s = Some s1"
      using Some c0 run by (auto simp: handle_client_event_def bind_eq_Some_conv)
    have snd1: "sound L s1" using keeps_sound [OF check_backpressure_keeps [OF s1] sound] .
    show ?thesis
    proof (cases "type = ERROR_EVENT \<or> type = HUP")
      case True
      then have "handler_close k f s1 = Some s'" using Some c0 open_c s1 run by (auto simp: handle_client_event_def)
      then show ?thesis using keeps_sound [OF handler_close_keeps snd1] by blast
    next
      case False
      then obtain c where c: "conn_heap s1 i = Some c"
        and r: "(if conn_state c = HANDSHAKE then do {
                (ok, s2) \<leftarrow> handle_tls_handshake k i f s1;
                if ok then Some s2 else handler_close k f s2
              }
              else if conn_state c \<noteq> ESTABLISHED then Some s1
              else if type = READ then client_readable k i f s1
              else client_writable k i f s1) = Some s'"
        using Some c0 open_c s1 run by (auto simp: handle_client_event_def bind_eq_Some_conv)
      note g1 = check_backpressure_still(2) [OF sound Some s1 c]
      show ?thesis
      proof (cases "conn_state c = HANDSHAKE")
        case True
        with r obtain ok s2 where t: "handle_tls_handshake k i f s1 = Some (ok, s2)"
          and e: "(if ok then Some s2 else handler_close k f s2) = Some s'" by (auto simp: bind_eq_Some_conv)
        have "sound L s2" by (rule handle_tls_handshake_sound [OF snd1 fresh g1 c True t])
        then show ?thesis using e keeps_sound [OF handler_close_keeps] by (auto split: if_splits)
      qed (use r snd1 guards_sound [OF client_readable_guards] guards_sound [OF client_writable_guards] in \<open>auto split: if_splits\<close>)
    qed
  qed
qed

subsection \<open>Backend events\<close>

lemma close_backend_only_keeps:
  assumes run: "close_backend_connection_only f s = Some s'"
  shows "keeps f L s s'"
proof (rule keepsI)
  assume sound: "sound L s" and be: "is_backend f s"
  have "sound L s'" by (rule sound_close_backend_only [OF sound be run])
  moreover have "get_connection f s' = None"
  proof (cases "get_connection f s")
    case None
    then show ?thesis using run by (simp add: close_backend_connection_only_def)
  next
    case (Some i)
    have "lb_inv L s" "table_states_ok s" using sound by (simp_all add: sound_def lb_good_def)
    then have "connections s' = AList.delete f (connections s)"
      using close_backend_connection_only_ok [OF _ _ Some] run by (metis option.inject)
    then show ?thesis by (simp add: get_connection_def AList.delete_conv')
  qed
  ultimately show "keeps f L s s'" by (simp add: keeps_def is_backend_def)
qed

lemma guards_close_backend_only [guard_rules]:
  "keeps f L s t \<Longrightarrow> guards f L s (close_backend_connection_only f t)"
  using close_backend_only_keeps keeps_trans by (auto simp: guards_def)

lemma guards_case_bind [guard_rules]:
  assumes "x = None \<Longrightarrow> guards f L s (m \<bind> g)" and "\<And>y. x = Some y \<Longrightarrow> guards f L s (n y \<bind> g)"
  shows "guards f L s ((case x of None \<Rightarrow> m | Some y \<Rightarrow> n y) \<bind> g)"
  using assms by (cases x) simp_all

lemma guards_bind_assoc [guard_rules]:
  "guards f L s (conn_heap t i \<bind> (\<lambda>x. p x \<bind> g)) \<Longrightarrow> guards f L s ((conn_heap t i \<bind> p) \<bind> g)"
  "guards f L s (peer c \<bind> (\<lambda>x. q x \<bind> g)) \<Longrightarrow> guards f L s ((peer c \<bind> q) \<bind> g)"
  "guards f L s (push_to_peer k i t \<bind> (\<lambda>x. r x \<bind> g)) \<Longrightarrow> guards f L s ((push_to_peer k i t \<bind> r) \<bind> g)"
  "guards f L s (g t) \<Longrightarrow> guards f L s (Some t \<bind> g)"
  by simp_all

lemma backend_readable_guards: "guards f L s (backend_readable k i f s)"
  unfolding backend_readable_def by (intro guard_rules)

lemma backend_writable_guards: "guards f L s (backend_writable k i f s)"
  unfolding backend_writable_def by (intro guard_rules)

lemma count_failure_calm: "keeps f L s (count_backend_failure f s)"
proof (rule keepsI)
  assume sound: "sound L s"
  show "keeps f L s (count_backend_failure f s)"
  proof (cases "lock_backend f s")
    case (Some n)
    let ?t = "count_failure n (backend_key (host (nodes s n)) (port (nodes s n))) s"
    have "lb_good L ?t"
      by (rule lb_good_core [OF sound_good [OF sound]]) (simp_all add: count_failure_def upd_nodes_def)
    moreover have "wired ?t" using sound by (intro wired_frame [of s ?t]) (simp_all add: sound_def count_failure_def upd_nodes_def)
    moreover have "static ?t = static s" by (simp add: count_static)
    moreover have "steady s ?t" by (rule steady_same) simp_all
    then have "cb_ok ?t" using sound steady_cb_ok by (simp add: sound_def)
    ultimately show ?thesis using Some sound copy_mode_static [of ?t s]
      by (simp add: count_backend_failure_def keeps_def sound_def fds_ok_def is_backend_def get_connection_def)
  qed (simp add: count_backend_failure_def)
qed

lemma take_client_trying:
  assumes sound: "sound L s" and g: "get_connection f s = Some i" and c: "conn_heap s i = Some c" "peer c = None"
    and b: "backend_connections s f = None" and st: "conn_state c \<noteq> HANDSHAKE"
  shows "trying L i f (table_remove f s)" and "copy_mode (table_remove f s)"
    and "cb_ok (table_remove f s)" and "client_free f (table_remove f s)"
proof -
  have good: "lb_good L s" "wired s" "fds_ok s" "pool_manager s = None" "copy_mode s" "cb_ok s" using sound by (simp_all add: sound_def)
  have regs: "regs s (table_remove f s)" by (rule regs_same) (simp_all add: table_remove_def registrations_def)
  show "cb_ok (table_remove f s)" by (rule cb_ok_regs [OF good(6) regs]) (auto simp: is_backend_def table_remove_def get_connection_def AList.delete_conv')
  show "client_free f (table_remove f s)" using client_free_regs [OF client_free_entry [OF good(6)] regs] g b by simp
  note t = take_client [OF good(1,2) g c b]
  have "conn_fd c = f" using get_connection_live [of L s f i] g c good(1) by (auto simp: lb_good_def)
  moreover have "conn_state c \<noteq> CLOSED" using good(1) get_connection_in [OF g] c by (auto simp: lb_good_def table_states_ok_def)
  ultimately show "trying L i f (table_remove f s)"
    using t good(3,4) c st by (simp add: trying_def fds_ok_def)
  show "copy_mode (table_remove f s)" using good(5) copy_mode_static [of "table_remove f s" s] by simp
qed

lemma try_retry_sound:
  assumes sound: "sound L s" and be: "is_backend f s" and fresh: "kernel_fresh k"
    and run: "try_retry_on_backend_error k f s = Some (r, s')"
  shows "sound L s'" and "\<not> r \<Longrightarrow> s' = s"
proof -
  have *: "sound L s' \<and> (\<not> r \<longrightarrow> s' = s)"
  proof (cases "backend_to_client_map s f")
    case None
    then show ?thesis using run sound by (simp add: try_retry_on_backend_error_def)
  next
    case (Some g)
    have w: "wired s" "lb_inv L s" "table_states_ok s" using sound by (simp_all add: sound_def lb_good_def)
    obtain j where j: "get_connection g s = Some j" "map_option peer (conn_at s f) = Some (Some j)" "backend_connections s g = None"
      using w(1) Some by (rule wiredE)
    obtain i c where i: "get_connection f s = Some i" "conn_heap s i = Some c" "peer c = Some j"
      using j(2) by (auto simp: conn_at_def split: option.splits)
    obtain d where d: "conn_heap s j = Some d" "peer d = Some i" "i \<noteq> j" using peer_entry [OF w(2) i(2,3)] by metis
    obtain s1 s2 where s1: "close_backend_connection_only f s = Some s1" and s2: "retry k j rc (table_remove g s1) = Some s2"
      and e: "r = True" "s' = s2" if "rc = (case client_retry_counts s g of None \<Rightarrow> 0 | Some n \<Rightarrow> n)" for rc
      using run Some j(1) by (auto simp: try_retry_on_backend_error_def bind_eq_Some_conv)
    note s1 = s1 [OF refl] and s2 = s2 [OF refl] and e = e [OF refl]
    have snd1: "sound L s1" by (rule sound_close_backend_only [OF sound be s1])
    have at: "conn_at s f = Some c" using i by (simp add: conn_at_def)
    obtain c' t where "conn_at s f = Some c'" "close_backend_connection_only f s = Some t"
      "connections t = AList.delete f (connections s)" "backend_connections t = erase_key (backend_connections s) f"
      "\<forall>j. peer c' = Some j \<longrightarrow> conn_heap t j = map_option (set_peer None) (conn_heap s j)"
      by (rule close_backend_connection_only_ok [OF w(2,3) i(1)])
    then have c1: "connections s1 = AList.delete f (connections s)" "backend_connections s1 = erase_key (backend_connections s) f"
      "conn_heap s1 j = Some (set_peer None d)" using s1 at i(3) d by simp_all
    have "g \<noteq> f" using i j d by auto
    then have g1: "get_connection g s1 = Some j" using j(1) c1(1) by (simp add: get_connection_def AList.delete_conv')
    have "conn_at s g = Some d" using j(1) d by (simp add: conn_at_def)
    then have "conn_state d \<noteq> HANDSHAKE" using w(1) d by (auto simp: wired_def)
    then have "trying L j g (table_remove g s1)" "copy_mode (table_remove g s1)" "cb_ok (table_remove g s1)" "client_free g (table_remove g s1)"
      using take_client_trying [OF snd1 g1 c1(3)] j(3) c1(2) by (simp_all add: set_peer_def erase_key_def)
    then show ?thesis using sound_after_retry [OF _ fresh _ _ _ s2] e by simp
  qed
  then show "sound L s'" "\<not> r \<Longrightarrow> s' = s" by simp_all
qed

lemma give_up_sound:
  assumes sound: "sound L s" and be: "is_backend f s" and fresh: "kernel_fresh k"
    and run: "give_up_on_backend k f s = Some s'"
  shows "sound L s'"
proof -
  have k0: "sound L (count_backend_failure f s)" "is_backend f (count_backend_failure f s)"
    using count_failure_calm [of f L s] sound be by (simp_all add: keeps_def)
  obtain r s1 where t: "try_retry_on_backend_error k f (count_backend_failure f s) = Some (r, s1)"
    and e: "(if r then Some s1 else handler_close k f s1) = Some s'"
    using run by (auto simp: give_up_on_backend_def bind_eq_Some_conv)
  have "sound L s1" by (rule try_retry_sound(1) [OF k0 fresh t])
  then show ?thesis using e keeps_sound [OF handler_close_keeps] by (auto split: if_splits)
qed

text \<open>A connecting backend becomes established and is counted: the counters stay exact.\<close>

lemma established_keeps:
  assumes g: "get_connection f s = Some i" and c: "conn_heap s i = Some c" "conn_state c = CONNECTING"
    and s': "s' = count_backend_established f (put_conn i (set_conn_state ESTABLISHED c) s)"
  shows "keeps f L s s'"
proof (rule keepsI)
  assume sound: "sound L s" and be: "is_backend f s"
  let ?c = "set_conn_state ESTABLISHED c"
  have good: "lb_inv L s" "table_states_ok s" "counters_exact s" "wired s" "fds_ok s"
    using sound by (simp_all add: sound_def lb_good_def)
  obtain n where n: "backend_connections s f = Some n" using be g by (auto simp: is_backend_def)
  let ?t = "put_conn i ?c s"
  have s'_eq: "s' = (if node_alive s n then count_routed n (backend_key (host (nodes s n)) (port (nodes s n))) ?t else ?t)"
    using n by (simp add: s' count_backend_established_def lock_backend_def node_alive_def)
  have fr: "conn_heap s' = (conn_heap s)(i \<mapsto> ?c)" "connections s' = connections s" "pool_manager s' = pool_manager s"
    "open_fds s' = open_fds s" "live_ssl s' = live_ssl s" "backend_connections s' = backend_connections s"
    "next_conn s' = next_conn s" "backend_pool s' = backend_pool s" "health_checker s' = health_checker s"
    "backend_to_client_map s' = backend_to_client_map s" "static s' = static s"
    by (simp_all add: s'_eq)
  have get': "get_connection h s' = get_connection h s" for h by (simp add: get_connection_def fr)
  have at: "conn_at s' h = (if h = f then Some ?c else conn_at s h)" for h
  proof (cases "get_connection h s")
    case (Some y)
    have "y = i \<longleftrightarrow> h = f"
      using connections_key_unique [OF good(1), of h y f] get_connection_in [OF Some] get_connection_in [OF g] Some g by auto
    then show ?thesis using Some by (simp add: conn_at_def get' fr)
  qed (use g in \<open>auto simp: conn_at_def get'\<close>)
  have atf: "conn_at s f = Some c" using g c by (simp add: conn_at_def)
  have "lb_inv L ?t" using good(1) c by (intro lb_inv_put) (simp_all add: set_conn_state_def)
  then have inv: "lb_inv L s'" by (auto simp: lb_inv_def owned_def fr)
  have est: "est_fds s' m = (if m = n then insert f (est_fds s n) else est_fds s m)" for m
    using n by (auto simp: est_fds_def fr at set_conn_state_def split: if_splits)
  have "f \<notin> est_fds s n" using atf c(2) by (simp add: est_fds_def)
  then have card: "card (est_fds s' n) = card (est_fds s n) + 1" using finite_est_fds [OF good(1)] by (simp add: est)
  have few: "card (est_fds s n) + 1 < 2 ^ 32" using few_connections_est [OF fds_ok_few [OF good(5,1)]] .
  have "unat (active_connections (nodes s' m)) = card (est_fds s' m)" if "node_alive s' m" for m
  proof -
    have alive: "node_alive s m" using that by (simp add: node_alive_def fr)
    then have old: "unat (active_connections (nodes s m)) = card (est_fds s m)" using good(3) by (simp add: counters_exact_def)
    show ?thesis
    proof (cases "m = n")
      case True
      then have "nodes s' m = increment_connections (nodes s n)" using alive by (simp add: s'_eq)
      then show ?thesis using True old card few unat_increment_connections [of "nodes s n"] by simp
    next
      case False
      then have "nodes s' m = nodes s m" by (simp add: s'_eq)
      with False show ?thesis using old by (simp add: est)
    qed
  qed
  then have "counters_exact s'" by (simp add: counters_exact_def)
  moreover have "table_states_ok s'" using good(2) by (auto simp: table_states_ok_def fr set_conn_state_def)
  moreover have "wired s'"
  proof (rule wired_after [OF good(4)])
    show "tame s s'" by (rule tame_frame) (simp_all add: fr)
    show "get_connection b s' = get_connection b s \<and> map_option peer (conn_at s' a) = map_option peer (conn_at s a)" for a b
      using atf by (simp add: at get_connection_def fr set_conn_state_def)
  qed (auto simp: at fr set_conn_state_def split: if_splits)
  moreover have "steady s s'" by (rule steady_same) (simp_all add: s'_eq)
  then have "cb_ok s'" using sound steady_cb_ok by (simp add: sound_def)
  ultimately show "keeps f L s s'"
    using sound be inv copy_mode_static [OF fr(11)] by (simp add: keeps_def sound_def lb_good_def fds_ok_def is_backend_def fr get_connection_def)
qed

lemma keeps_both: "keeps f L s s' \<Longrightarrow> sound L s \<and> is_backend f s \<Longrightarrow> sound L s' \<and> is_backend f s'"
  by (simp add: keeps_def)

lemma forward_from_peer_keeps:
  assumes p: "established_peer i s = Some p" and run: "(case p of
        None \<Rightarrow> Some (True, s)
      | Some j \<Rightarrow> do {
          d \<leftarrow> conn_heap s j;
          s1 \<leftarrow> (if read_buf d = [] then Some s else forward_data k j i s);
          Some (True, s1)
        }) = Some (b, s')"
  shows "b \<and> keeps f L s s'"
proof (cases p)
  case (Some j)
  then obtain d where d: "conn_heap s j = Some d" and b: "b"
    and r: "(if read_buf d = [] then Some s else forward_data k j i s) = Some s'"
    using run by (auto simp: bind_eq_Some_conv)
  have "keeps f L s s'"
  proof (rule keepsI)
    assume "sound L s"
    then obtain c where "conn_heap s i = Some c" "i \<noteq> j" using established_peer_linked p Some by metis
    then show "keeps f L s s'" using r forward_data_keeps [OF d] by (auto split: if_splits)
  qed
  with b show ?thesis by simp
qed (use run in simp)

lemma backend_connected_sound:
  assumes sound: "sound L s \<and> is_backend f s" and fresh: "kernel_fresh k" and g: "get_connection f s = Some i"
    and c: "conn_heap s i = Some c" "conn_state c = CONNECTING" and run: "backend_connected k i f s = Some (go, s')"
  shows "sound L s' \<and> (go \<longrightarrow> is_backend f s')"
proof -
  obtain late n where first: "(case connection_times s f of
          None \<Rightarrow> (False, s)
        | Some start \<Rightarrow>
            let (now, t) = ask (k_now k) s
            in (now - start > duration_seconds (lb_connection_timeout_seconds new_settings), t)) = (late, s\<lparr>steps := n\<rparr>)"
  proof (cases "connection_times s f")
    case None
    then show ?thesis using that [of False "steps s"] by simp
  next
    case (Some start)
    show ?thesis by (rule that) (simp add: Some ask_def)
  qed
  let ?s1 = "s\<lparr>steps := n\<rparr>" and ?s2 = "s\<lparr>steps := Suc n\<rparr>"
  have s1: "sound L ?s1 \<and> is_backend f ?s1" and s2: "sound L ?s2 \<and> is_backend f ?s2"
    using keeps_both [OF keeps_calm [OF calm_steps_of] sound] by blast+
  have give_up: "sound L t'" if "give_up_on_backend k f t = Some t'" "sound L t \<and> is_backend f t" for t t'
    using give_up_sound [OF _ _ fresh that(1)] that(2) by simp
  show ?thesis
  proof (cases "late \<or> k_so_error k n \<noteq> Some 0")
    case True
    then obtain t where "give_up_on_backend k f t = Some s'" "t = ?s1 \<or> t = ?s2" "\<not> go"
      using run by (auto simp: backend_connected_def first ask_def bind_eq_Some_conv split: if_splits)
    then show ?thesis using give_up s1 s2 by blast
  next
    case False
    let ?s4 = "mod_fd f EPOLLINOUT (count_backend_established f (put_conn i (set_conn_state ESTABLISHED c) ?s2))"
    have "keeps f L ?s2 (count_backend_established f (put_conn i (set_conn_state ESTABLISHED c) ?s2))"
      using g c by (intro established_keeps [OF _ _ c(2) refl]) (simp_all add: get_connection_def)
    then have s4: "sound L ?s4 \<and> is_backend f ?s4"
      using keeps_both [OF _ s2] keeps_both [OF keeps_calm [OF calm_mod_fd]] by blast
    have "established_peer i ?s4 \<bind> (\<lambda>p. case p of
            None \<Rightarrow> Some (True, ?s4)
          | Some j \<Rightarrow> do {
              d \<leftarrow> conn_heap ?s4 j;
              s5 \<leftarrow> (if read_buf d = [] then Some ?s4 else forward_data k j i ?s4);
              Some (True, s5)
            }) = Some (go, s')"
      using run False c(1) by (simp add: backend_connected_def first ask_def with_conn_def Let_def del: mod_fd_heap)
    then obtain p where p: "established_peer i ?s4 = Some p"
      and r: "(case p of
            None \<Rightarrow> Some (True, ?s4)
          | Some j \<Rightarrow> do {
              d \<leftarrow> conn_heap ?s4 j;
              s5 \<leftarrow> (if read_buf d = [] then Some ?s4 else forward_data k j i ?s4);
              Some (True, s5)
            }) = Some (go, s')"
      unfolding bind_eq_Some_conv by blast
    show ?thesis using forward_from_peer_keeps [OF p r] keeps_both [OF _ s4] by blast
  qed
qed

lemma backend_failed_sound:
  assumes sound: "sound L s \<and> is_backend f s" and fresh: "kernel_fresh k" and run: "backend_failed k i f s = Some s'"
  shows "sound L s'"
proof -
  obtain c where c: "conn_heap s i = Some c" using run by (auto simp: backend_failed_def bind_eq_Some_conv)
  show ?thesis
  proof (cases "conn_state c = CONNECTING")
    case True
    then have "give_up_on_backend k f s = Some s'" using run c by (simp add: backend_failed_def)
    then show ?thesis using sound give_up_sound [OF _ _ fresh] by blast
  next
    case False
    have "guards f L s (backend_failed k i f s)"
      unfolding backend_failed_def c Option.bind.bind_lunit if_not_P [OF False] by (intro guard_rules)
    then show ?thesis using run sound by (auto simp: guards_def keeps_def)
  qed
qed

lemma handle_backend_event_sound:
  assumes sound: "sound L s \<and> is_backend f s" and fresh: "kernel_fresh k" and run: "handle_backend_event k f type s = Some s'"
  shows "sound L s'"
proof (cases "get_connection f s")
  case None
  then show ?thesis using sound run by (simp add: handle_backend_event_def)
next
  case (Some i)
  then obtain c0 where c0: "conn_heap s i = Some c0" using run by (auto simp: handle_backend_event_def bind_eq_Some_conv)
  show ?thesis
  proof (cases "conn_state c0 = CLOSED")
    case True
    then show ?thesis using Some c0 run sound by (simp add: handle_backend_event_def)
  next
    case open_c: False
    then obtain s1 where s1: "check_backpressure k f s = Some s1"
      using Some c0 run by (auto simp: handle_backend_event_def bind_eq_Some_conv)
    have snd1: "sound L s1 \<and> is_backend f s1" using keeps_both [OF check_backpressure_keeps [OF s1] sound] .
    show ?thesis
    proof (cases "type = ERROR_EVENT \<or> type = HUP")
      case True
      then have "backend_failed k i f s1 = Some s'" using Some c0 open_c s1 run by (auto simp: handle_backend_event_def)
      then show ?thesis by (rule backend_failed_sound [OF snd1 fresh])
    next
      case False
      then obtain c go s2 where c: "conn_heap s1 i = Some c"
        and cn: "(if conn_state c = CONNECTING then backend_connected k i f s1 else Some (True, s1)) = Some (go, s2)"
        and r: "(if \<not> go then Some s2
              else do {
                c2 \<leftarrow> conn_heap s2 i;
                if conn_state c2 \<noteq> ESTABLISHED then Some s2
                else if type = READ then backend_readable k i f s2
                else backend_writable k i f s2
              }) = Some s'"
        using Some c0 open_c s1 run by (auto simp: handle_backend_event_def bind_eq_Some_conv)
      note g1 = check_backpressure_still(2) [OF conjunct1 [OF sound] Some s1 c]
      have snd2: "sound L s2 \<and> (go \<longrightarrow> is_backend f s2)"
        using cn snd1 backend_connected_sound [OF snd1 fresh g1 c] by (auto split: if_splits)
      have "guards f L s2 (do {
                c2 \<leftarrow> conn_heap s2 i;
                if conn_state c2 \<noteq> ESTABLISHED then Some s2
                else if type = READ then backend_readable k i f s2
                else backend_writable k i f s2 })"
        by (intro guard_rules backend_readable_guards backend_writable_guards)
      then show ?thesis using r snd2 by (cases go) (auto simp: guards_def keeps_def)
    qed
  qed
qed

end
