(* ===== verification/Accept_Safety.thy ===== *)
theory Accept_Safety
  imports Handler_Safety
begin

text \<open>
  The timeout sweeps, accepting and rejecting clients, the error pages and the changes of the backends
  keep the invariant \<open>sound\<close>. A client on its way in is first an accepted descriptor (\<open>opened\<close>), then a
  connection outside the tables (\<open>loose\<close>), then an entry of the table.
\<close>

subsection \<open>Sweeps\<close>

lemma sweep_sound:
  assumes "\<And>f s. sound L s \<Longrightarrow> sound L (pre f s)" and "\<And>f s. sound L s \<Longrightarrow> sound L (post f s)"
  shows "sound L s \<Longrightarrow> \<exists>s'. sweep pre k post fs s = Some s' \<and> sound L s'"
proof (induction fs arbitrary: s)
  case (Cons f fs)
  have p: "sound L (pre f s)" using assms(1) Cons.prems .
  obtain s1 where s1: "close_connection k f (pre f s) = Some s1"
    using close_connection_contracts [OF sound_good [OF p], of k f] by blast
  have "sound L (post f s1)" using assms(2) sound_close [OF p s1] .
  from Cons.IH [OF this] s1 show ?case by simp
qed simp

lemma sound_frame:
  assumes "sound L s" and "conn_heap s' = conn_heap s" "connections s' = connections s" "pool_manager s' = pool_manager s"
    "open_fds s' = open_fds s" "live_ssl s' = live_ssl s" "backend_connections s' = backend_connections s" "next_conn s' = next_conn s"
    "nodes s' = nodes s" "backend_pool s' = backend_pool s" "health_checker s' = health_checker s"
    "backend_to_client_map s' = backend_to_client_map s" "static s' = static s" "registrations s' = registrations s"
  shows "sound L s'"
proof -
  have "steady s s'" using assms by (intro steady_same) simp_all
  then show ?thesis using assms lb_good_core [of L s s'] wired_frame [of s s'] copy_mode_static [of s' s] steady_cb_ok
    by (auto simp: sound_def fds_ok_def)
qed

lemma sound_upd_metrics: "sound L s \<Longrightarrow> sound L (upd_metrics g s)"
  by (rule sound_calm [OF _ calm_upd_metrics])

lemma sound_timers:
  "sound L s \<Longrightarrow> sound L (s\<lparr>handshake_start_times := a\<rparr>)"
  "sound L s \<Longrightarrow> sound L (s\<lparr>backpressure_start_times := b\<rparr>)"
  "sound L s \<Longrightarrow> sound L (s\<lparr>steps := n\<rparr>)"
  "sound L s \<Longrightarrow> sound L (s\<lparr>rate_limit_tracker := r\<rparr>)"
  "sound L s \<Longrightarrow> sound L (s\<lparr>session_table := t\<rparr>)"
  "sound L s \<Longrightarrow> sound L (s\<lparr>connection_times := ct\<rparr>)"
  "sound L s \<Longrightarrow> sound L (s\<lparr>client_session_keys := ck\<rparr>)"
  by (rule sound_frame; simp add: static_def)+

lemma timeouts_sound:
  assumes "sound L s"
  shows "\<exists>s'. check_request_timeouts k s = Some s' \<and> sound L s'"
    and "\<exists>s'. check_handshake_timeouts k ord s = Some s' \<and> sound L s'"
    and "\<exists>s'. check_backpressure_timeouts k ord s = Some s' \<and> sound L s'"
  using assms
  by (simp_all add: check_request_timeouts_def check_handshake_timeouts_def check_backpressure_timeouts_def ask_def
      sweep_sound sound_timers sound_upd_metrics)

lemma evict_idle_sound: "sound L s \<Longrightarrow> evict_idle k s = Some s"
  by (simp add: evict_idle_def sound_def)

subsection \<open>Accepting\<close>

text \<open>A connection on a new descriptor, which no table knows yet.\<close>

lemma open_client:
  assumes sound: "sound L s" and f: "0 \<le> f" "f \<notin> open_fds s" "f < MAX_FD"
  shows "lb_good (next_conn s # L) (snd (make_connection f (sys_open f s)))"
    and "wired (snd (make_connection f (sys_open f s)))" and "fds_ok (snd (make_connection f (sys_open f s)))"
    and "get_connection f s = None" and "next_conn s \<notin> snd ` set (connections s)"
proof -
  have good: "lb_good L s" "lb_inv L s" "wired s" "fds_ok s" using sound by (simp_all add: sound_def lb_good_def)
  show "lb_good (next_conn s # L) (snd (make_connection f (sys_open f s)))" by (rule lb_good_open [OF good(1) f(1,2)])
  show new: "next_conn s \<notin> snd ` set (connections s)" using good(2) by (auto simp: lb_inv_def owned_def)
  show "wired (snd (make_connection f (sys_open f s)))"
    using good(3) new by (rule wired_loose) (simp_all add: make_connection_def put_conn_def sys_open_def)
  show "fds_ok (snd (make_connection f (sys_open f s)))"
    using good(4) f by (simp add: fds_ok_def make_connection_def)
  show "get_connection f s = None"
  proof (rule ccontr)
    assume "get_connection f s \<noteq> None"
    then obtain i c where "conn_heap s i = Some c" "conn_fd c = f" using get_connection_live [OF good(2)] by blast
    then show False using heap_inv_live(2) [OF lb_inv_heap [OF good(2)]] f(2) by metis
  qed
qed

text \<open>A loose connection without a peer enters the table.\<close>

lemma lb_good_enter:
  assumes good: "lb_good (i # L) s" and w: "wired s" and c: "conn_heap s i = Some c" "conn_state c \<noteq> CLOSED"
    and s': "s' = s\<lparr>connections := connections s @ [(conn_fd c, i)]\<rparr>"
  shows "lb_good L s'" and "wired s'"
proof -
  have inv: "lb_inv (i # L) s" using good by (simp add: lb_good_def)
  obtain c' where "conn_heap s i = Some c'" "peer c' = None" "get_connection (conn_fd c') s = None"
    using lb_good_loose [of "[]" i L s] good by auto
  then have p: "peer c = None" and g: "get_connection (conn_fd c) s = None" using c by simp_all
  have key: "conn_fd c \<notin> fst ` set (connections s)" using g by (simp add: get_connection_def map_of_eq_None_iff)
  have b: "backend_connections s (conn_fd c) = None"
    using inv key by (force simp: lb_inv_def table_inv_def)
  have get': "get_connection h s' = (if h = conn_fd c then Some i else get_connection h s)" for h
    using g by (auto simp: s' get_connection_def map_add_def split: option.splits)
  have heap': "conn_heap s' = conn_heap s" by (simp add: s')
  have at: "conn_at s' h = (if h = conn_fd c then Some c else conn_at s h)" for h
    unfolding conn_at_def get' heap' using c by simp
  have at0: "conn_at s (conn_fd c) = None" using g by (simp add: conn_at_def)
  have mono: "linked H tab x y \<Longrightarrow> linked H (insert i tab) x y" for H tab x y by (simp add: linked_def)
  have "lb_inv L s'"
    using inv c key mono unfolding lb_inv_def owned_def s'
    by (auto simp: heap_inv_def table_inv_def)
  moreover have "est_fds s' n = est_fds s n" for n using b by (auto simp: est_fds_def at) (auto simp: s')
  then have "counters_exact s'" using good by (simp add: lb_good_def counters_exact_def node_alive_def s')
  moreover have "table_states_ok s'" using good c by (auto simp: lb_good_def table_states_ok_def s')
  ultimately show "lb_good L s'" by (simp add: lb_good_def)
  have keep: "g \<noteq> conn_fd c \<and> f \<noteq> conn_fd c" if "backend_to_client_map s f = Some g" for f g
    using wiredE [OF w that] g at0 by (metis option.distinct(1) option.simps(8))
  show "wired s'"
    unfolding wired_def
  proof (intro conjI allI impI)
    fix f g assume "backend_to_client_map s' f = Some g"
    then have fg: "backend_to_client_map s f = Some g" by (simp add: s')
    with keep have ne: "g \<noteq> conn_fd c" "f \<noteq> conn_fd c" by blast+
    obtain j where "get_connection g s = Some j" "map_option peer (conn_at s f) = Some (Some j)" "backend_connections s g = None"
      using wiredE [OF w fg] .
    then show "backend_connections s' g = None" "\<exists>j. get_connection g s' = Some j \<and> map_option peer (conn_at s' f) = Some (Some j)"
      using ne by (auto simp: get' at) (simp add: s')
  next
    fix f d assume "conn_at s' f = Some d" "conn_state d = HANDSHAKE"
    then show "peer d = None" "backend_connections s' f = None"
      using w p b by (auto simp: at wired_def split: if_splits) (auto simp: s')
  qed
qed

text \<open>\<open>opened L f t\<close>: descriptor \<open>f\<close> has been accepted and nothing refers to it yet.\<close>

definition opened :: "conn_id list \<Rightarrow> fd \<Rightarrow> lb_state \<Rightarrow> bool" where
  "opened L f t \<longleftrightarrow> sound L (t\<lparr>open_fds := open_fds t - {f}\<rparr>) \<and> f \<in> open_fds t \<and> 0 \<le> f \<and> f < MAX_FD"

text \<open>\<open>loose L i f s\<close>: the connection \<open>i\<close> on \<open>f\<close> has been made but is in no table.\<close>

definition loose :: "conn_id list \<Rightarrow> conn_id \<Rightarrow> fd \<Rightarrow> lb_state \<Rightarrow> bool" where
  "loose L i f s \<longleftrightarrow>
     lb_good (i # L) s \<and> wired s \<and> fds_ok s \<and> pool_manager s = None \<and> copy_mode s \<and> cb_ok s \<and> epoll_set s f = None \<and>
     map_option conn_fd (conn_heap s i) = Some f"

lemma sound_opened:
  assumes "sound L s" and "0 \<le> f" "f \<notin> open_fds s" "f < MAX_FD"
  shows "opened L f (sys_open f s)"
proof -
  have "sound L ((sys_open f s)\<lparr>open_fds := open_fds (sys_open f s) - {f}\<rparr>)"
    by (rule sound_frame [OF assms(1)]) (use assms(3) in \<open>simp_all add: sys_open_def static_def\<close>)
  then show ?thesis using assms by (simp add: opened_def)
qed

lemma opened_frame:
  assumes o: "opened L f t" and same: "conn_heap t' = conn_heap t" "connections t' = connections t" "pool_manager t' = pool_manager t"
    "open_fds t' = open_fds t" "live_ssl t' = live_ssl t" "backend_connections t' = backend_connections t" "next_conn t' = next_conn t"
    "nodes t' = nodes t" "backend_pool t' = backend_pool t" "health_checker t' = health_checker t"
    "backend_to_client_map t' = backend_to_client_map t" "static t' = static t" "registrations t' = registrations t"
  shows "opened L f t'"
proof -
  have "sound L (t\<lparr>open_fds := open_fds t - {f}\<rparr>)" using o by (simp add: opened_def)
  then have "sound L (t'\<lparr>open_fds := open_fds t' - {f}\<rparr>)" by (rule sound_frame) (simp_all add: same)
  then show ?thesis using o by (simp add: opened_def same)
qed

lemma opened_unwatched: "opened L f t \<Longrightarrow> epoll_set t f = None"
  by (auto simp: opened_def sound_def cb_ok_def)

lemma opened_close:
  assumes "opened L f t" shows "sound L (sys_close f t)"
proof -
  have s: "sound L (t\<lparr>open_fds := open_fds t - {f}\<rparr>)" and f: "f \<in> open_fds t" using assms by (simp_all add: opened_def)
  then have "epoll_set t f = None" using opened_unwatched [OF assms] by simp
  with s f show ?thesis by (elim sound_frame) (auto simp: sys_close_def static_def registrations_def)
qed

lemma opened_make:
  assumes o: "opened L f t"
  obtains i t1 where "make_connection f t = (i, t1)" and "conn_heap t1 i = Some (new_connection f)" and "loose L i f t1"
proof -
  let ?s = "t\<lparr>open_fds := open_fds t - {f}\<rparr>"
  have s: "sound L ?s" "0 \<le> f" "f \<notin> open_fds ?s" "f < MAX_FD" using o by (simp_all add: opened_def)
  have t: "sys_open f ?s = t" using o by (simp add: sys_open_def opened_def insert_absorb)
  note op = open_client [OF s] 
  have "steady ?s (snd (make_connection f t))" by (rule steady_same) (auto simp: make_connection_def)
  then have "cb_ok (snd (make_connection f t))" using s(1) steady_cb_ok by (simp add: sound_def)
  moreover have "epoll_set (snd (make_connection f t)) f = None" using opened_unwatched [OF o] by (simp add: make_connection_def put_conn_def)
  ultimately have "loose L (next_conn t) f (snd (make_connection f t))"
    using op(1-3) s(1) copy_mode_static [of "snd (make_connection f t)" ?s] unfolding t
    by (simp add: loose_def sound_def make_connection_def) (simp add: new_connection_def)
  then show ?thesis by (rule that [rotated 2]) (simp_all add: make_connection_def)
qed

lemma loose_frame:
  assumes "loose L i f s" and "conn_heap s' = conn_heap s" "connections s' = connections s" "pool_manager s' = pool_manager s"
    "open_fds s' = open_fds s" "live_ssl s' = live_ssl s" "backend_connections s' = backend_connections s" "next_conn s' = next_conn s"
    "nodes s' = nodes s" "backend_pool s' = backend_pool s" "health_checker s' = health_checker s"
    "backend_to_client_map s' = backend_to_client_map s" "static s' = static s" "registrations s' = registrations s"
  shows "loose L i f s'"
proof -
  have "steady s s'" using assms by (intro steady_same) simp_all
  moreover have "epoll_set s' f = None \<longleftrightarrow> epoll_set s f = None" using assms(14) by (metis domIff registrations_def prod.inject)
  ultimately show ?thesis
    using assms lb_good_core [of "i # L" s s'] wired_frame [of s s'] copy_mode_static [of s' s] steady_cb_ok
    by (auto simp: loose_def fds_ok_def)
qed

lemma loose_tab: "loose L i f s \<Longrightarrow> i \<notin> snd ` set (connections s)"
  by (auto simp: loose_def lb_good_def lb_inv_def owned_def)

lemma loose_put:
  assumes l: "loose L i f s" and c: "conn_heap s i = Some c" and same: "conn_fd c' = conn_fd c" "ssl c' = ssl c" "peer c' = peer c"
  shows "loose L i f (put_conn i c' s)"
proof -
  have "lb_good (i # L) (put_conn i c' s)"
    using l same by (intro lb_good_put_loose [OF _ c loose_tab [OF l]]) (simp_all add: loose_def)
  moreover have "wired s" using l by (simp add: loose_def)
  then have "wired (put_conn i c' s)" by (rule wired_loose [OF _ loose_tab [OF l]]) simp_all
  moreover have "steady s (put_conn i c' s)" by (rule steady_same) simp_all
  ultimately show ?thesis using l c same copy_mode_static [of "put_conn i c' s" s] steady_cb_ok
    by (auto simp: loose_def fds_ok_def) (simp add: put_conn_def)
qed

lemma loose_trying:
  assumes "loose L i f s" and "conn_heap s i = Some c" and "conn_state c \<noteq> CLOSED" "conn_state c \<noteq> HANDSHAKE"
  shows "trying L i f s" and "copy_mode s" and "cb_ok s" and "client_free f s"
  using assms by (auto simp: loose_def trying_def client_free_def)

text \<open>\<open>entered L f s\<close>: the connection on \<open>f\<close> is in the table, but \<open>f\<close> is not registered yet and may still have
  the callback of an earlier connection.\<close>

definition entered :: "conn_id list \<Rightarrow> fd \<Rightarrow> lb_state \<Rightarrow> bool" where
  "entered L f s \<longleftrightarrow> sound L (s\<lparr>callbacks := (callbacks s)(f := None)\<rparr>) \<and> epoll_set s f = None \<and> f \<in> open_fds s"

lemma entered_frame:
  assumes e: "entered L f s" and same: "conn_heap s' = conn_heap s" "connections s' = connections s" "pool_manager s' = pool_manager s"
    "open_fds s' = open_fds s" "live_ssl s' = live_ssl s" "backend_connections s' = backend_connections s" "next_conn s' = next_conn s"
    "nodes s' = nodes s" "backend_pool s' = backend_pool s" "health_checker s' = health_checker s"
    "backend_to_client_map s' = backend_to_client_map s" "static s' = static s" "callbacks s' = callbacks s" "epoll_set s' = epoll_set s" "next_node s' = next_node s"
  shows "entered L f s'"
proof -
  have "sound L (s\<lparr>callbacks := (callbacks s)(f := None)\<rparr>)" using e by (simp add: entered_def)
  then have "sound L (s'\<lparr>callbacks := (callbacks s')(f := None)\<rparr>)" by (rule sound_frame) (simp_all add: same registrations_def)
  then show ?thesis using e by (simp add: entered_def same)
qed

lemma loose_enter:
  assumes l: "loose L i f s" and c: "conn_heap s i = Some c" "conn_state c \<noteq> CLOSED"
  obtains s' where "table_put f i s = Some s'" and "entered L f s'"
proof -
  have f: "conn_fd c = f" and good: "lb_good (i # L) s" "wired s" "cb_ok s" using l c by (simp_all add: loose_def)
  let ?s = "s\<lparr>connections := connections s @ [(conn_fd c, i)]\<rparr>"
  have new: "get_connection f s = None" and "f \<in> open_fds s" using lb_good_loose [of "[]" i L s] good c f by auto
  have "lb_good L ?s" "wired ?s" by (rule lb_good_enter [OF good(1,2) c refl])+
  then have "lb_good L (?s\<lparr>callbacks := (callbacks s)(f := None)\<rparr>)" "wired (?s\<lparr>callbacks := (callbacks s)(f := None)\<rparr>)"
    by (auto elim!: lb_good_core wired_frame)
  moreover have "cb_ok (?s\<lparr>callbacks := (callbacks s)(f := None)\<rparr>)"
    using good(3) f by (auto simp: cb_ok_def is_backend_def get_connection_def map_add_def split: option.splits if_splits)
  ultimately have "entered L f ?s"
    using l \<open>f \<in> open_fds s\<close> copy_mode_static [of "?s\<lparr>callbacks := (callbacks s)(f := None)\<rparr>" s] by (simp add: entered_def sound_def loose_def fds_ok_def)
  moreover have "table_put f i s = Some ?s" using table_put_new [OF new] by (simp add: f)
  ultimately show ?thesis using that by simp
qed

lemma entered_add_fd:
  assumes e: "entered L f s" and cb: "cb \<noteq> BackendHandler"
  shows "sound L (snd (add_fd f ev cb s))"
proof -
  let ?t = "s\<lparr>callbacks := (callbacks s)(f := None)\<rparr>" and ?s = "snd (add_fd f ev cb s)"
  have t: "sound L ?t" and f: "epoll_set s f = None" "f \<in> open_fds s" using e by (simp_all add: entered_def)
  have s: "?s = s\<lparr>epoll_set := (epoll_set s)(f \<mapsto> ev), callbacks := (callbacks s)(f \<mapsto> cb)\<rparr>" using f by (simp add: add_fd_def)
  have "lb_good L ?t" "wired ?t" using t by (simp_all add: sound_def)
  then have "lb_good L ?s" "wired ?s" by (auto elim!: lb_good_core wired_frame simp: s)
  moreover have "cb_ok ?t" using t by (simp add: sound_def)
  then have "cb_ok ?s" using f cb by (auto simp: cb_ok_def s is_backend_def get_connection_def split: if_splits)
  ultimately show ?thesis using t copy_mode_static [of ?s ?t] by (simp add: sound_def fds_ok_def)
qed

lemma heap_inv_give_ssl:
  assumes inv: "heap_inv H own tab F X" and c: "H i = Some c" and x: "x \<notin> X"
  shows "heap_inv (H(i \<mapsto> c\<lparr>conn_state := st, ssl := Some x\<rparr>)) own tab F (insert x X)"
proof -
  let ?c = "c\<lparr>conn_state := st, ssl := Some x\<rparr>" and ?H = "H(i \<mapsto> c\<lparr>conn_state := st, ssl := Some x\<rparr>)"
  have peers: "map_option peer (?H y) = map_option peer (H y)" for y using c by simp
  have old: "x \<notin> set_option (ssl d)" if "H y = Some d" for y d using inv that x by (auto simp: heap_inv_def)
  have "0 \<le> conn_fd d \<and> conn_fd d \<in> F \<and> set_option (ssl d) \<subseteq> insert x X \<and> (\<forall>j. peer d = Some j \<longrightarrow> linked ?H tab y j)"
    if "?H y = Some d" for y d
  proof -
    have "\<exists>d0. H y = Some d0 \<and> conn_fd d = conn_fd d0 \<and> peer d = peer d0 \<and> set_option (ssl d) \<subseteq> insert x (set_option (ssl d0))"
      using that c by (auto split: if_splits)
    then obtain d0 where d0: "H y = Some d0" "conn_fd d = conn_fd d0" "peer d = peer d0" "set_option (ssl d) \<subseteq> insert x (set_option (ssl d0))"
      by blast
    with inv have "0 \<le> conn_fd d0" "conn_fd d0 \<in> F" "set_option (ssl d0) \<subseteq> X" "\<forall>j. peer d0 = Some j \<longrightarrow> linked H tab y j"
      unfolding heap_inv_def by blast+
    with d0 show ?thesis unfolding linked_def peers by auto
  qed
  moreover have "conn_fd d \<noteq> conn_fd e \<and> set_option (ssl d) \<inter> set_option (ssl e) = {}"
    if de: "?H y = Some d" "?H z = Some e" "y \<noteq> z" for y z d e
  proof -
    have apart: "conn_fd a \<noteq> conn_fd b \<and> set_option (ssl a) \<inter> set_option (ssl b) = {}"
      if "H u = Some a" "H v = Some b" "u \<noteq> v" for u v a b using inv that unfolding heap_inv_def by metis
    show ?thesis
    proof (cases "y = i \<or> z = i")
      case True
      with de show ?thesis
        using apart [of i c z e] apart [of y d i c] c old [of z e] old [of y d] by auto
    qed (use de apart [of y d z e] in auto)
  qed
  moreover have "dom ?H = own" using inv c by (auto simp: heap_inv_def)
  ultimately show ?thesis by (simp only: heap_inv_def) blast
qed

lemma loose_give_ssl:
  assumes l: "loose L i f s" and c: "conn_heap s i = Some c" and x: "x \<notin> live_ssl s"
  shows "loose L i f ((put_conn i (c\<lparr>conn_state := st, ssl := Some x\<rparr>) s)\<lparr>live_ssl := insert x (live_ssl s)\<rparr>)"
    (is "loose L i f ?s")
proof -
  have good: "lb_inv (i # L) s" "table_states_ok s" "counters_exact s" "wired s" using l by (simp_all add: loose_def lb_good_def)
  note tab = loose_tab [OF l]
  have "lb_inv (i # L) ?s"
    using good(1) heap_inv_give_ssl [OF lb_inv_heap [OF good(1)] c x, of st] c
    by (auto simp: lb_inv_def put_conn_def intro: table_inv_put)
  moreover have at: "conn_at ?s h = conn_at s h" for h
    using tab by (auto simp: conn_at_def get_connection_def split: option.splits dest: map_of_snd)
  then have "est_fds ?s n = est_fds s n" for n by (simp add: est_fds_def)
  then have "counters_exact ?s" using good(3) by (simp add: counters_exact_def node_alive_def)
  moreover have "table_states_ok ?s" using good(2) tab by (auto simp: table_states_ok_def rev_image_eqI)
  moreover have "wired ?s" by (rule wired_loose [OF good(4) tab]) simp_all
  moreover have "steady s ?s" by (rule steady_same) simp_all
  then have "cb_ok ?s" using l steady_cb_ok by (simp add: loose_def)
  ultimately show ?thesis using l c copy_mode_static [of ?s s] by (simp add: loose_def lb_good_def fds_ok_def) (simp add: put_conn_def)
qed

text \<open>An SSL object that could not be made: the descriptor is closed, and by the destructor again.\<close>

lemma loose_dropped:
  assumes l: "loose L i f s" and c: "conn_heap s i = Some c" "ssl c = None"
  obtains s' where "destroy i (sys_close f s) = Some s'" and "sound L s'"
proof -
  have good: "lb_good (i # L) s" "wired s" and f: "conn_fd c = f" using l c by (simp_all add: loose_def)
  note b = lb_good_buried [OF good(1) c(1)]
  let ?s = "(buried i c s)\<lparr>bad_closes := bad_closes s @ [f]\<rparr>"
  have "destroy i (sys_close f s) = Some ?s"
    using b(2) c(2) f by (auto simp: destroy_def conn_close_def destructible_def ssl_free_def sys_close_def
       put_conn_def shut_def buried_def release_bytes_def split: prod.splits)
  moreover have "lb_good L ?s" by (rule lb_good_core [OF b(1)]) simp_all
  moreover have "wired ?s" by (rule wired_loose [OF good(2) loose_tab [OF l]]) (simp_all add: buried_def)
  moreover have "static ?s = static s" by (simp add: buried_def)
  moreover have "steady s ?s" using steady_trans [OF steady_sys_close steady_destroy] calculation(1) by blast
  then have "cb_ok ?s" using l steady_cb_ok by (simp add: loose_def)
  ultimately show ?thesis using that l copy_mode_static [of ?s s]
    by (simp add: sound_def loose_def fds_ok_def buried_def) blast
qed

lemma start_tls_sound:
  assumes l: "loose L i f s" and c: "conn_heap s i = Some c" "ssl c = None" and fresh: "kernel_fresh k"
    and run: "start_tls k i f s = Some s'"
  shows "sound L s'"
proof -
  let ?s1 = "s\<lparr>steps := Suc (steps s)\<rparr>"
  have l1: "loose L i f ?s1" and c1: "conn_heap ?s1 i = Some c" using loose_frame [OF l, of ?s1] c by simp_all
  show ?thesis
  proof (cases "k_new_ssl k (steps s) (live_ssl s)")
    case None
    then have "destroy i (sys_close f ?s1) = Some s'" using run by (simp add: start_tls_def ask_def)
    then show ?thesis using loose_dropped [OF l1 c1 c(2)] by (metis option.inject)
  next
    case (Some x)
    let ?c = "c\<lparr>conn_state := HANDSHAKE, ssl := Some x\<rparr>"
    let ?s2 = "(put_conn i ?c ?s1)\<lparr>live_ssl := insert x (live_ssl ?s1)\<rparr>"
    have "x \<notin> live_ssl ?s1" using Some fresh by (auto simp: kernel_fresh_def)
    then have "loose L i f ?s2" by (rule loose_give_ssl [OF l1 c1])
    then obtain s3 where s3: "table_put f i ?s2 = Some s3" "entered L f s3" by (rule loose_enter [where c = ?c]) simp_all
    have "put_conn i ((set_conn_state HANDSHAKE c)\<lparr>ssl := Some x\<rparr>) (?s1\<lparr>live_ssl := insert x (live_ssl s)\<rparr>) = ?s2"
      by (rule lb_state.equality) (simp_all add: put_conn_def set_conn_state_def)
    then obtain t where "s' = snd (add_fd f EPOLLINOUT ClientHandler (s3\<lparr>steps := t, connection_times := (connection_times s3)(f \<mapsto> k_now k (steps s3)),
        handshake_start_times := (handshake_start_times s3)(f \<mapsto> k_now k (Suc (steps s3)))\<rparr>))"
      using run Some c(1) s3(1) by (auto simp: start_tls_def ask_def with_conn_def)
    then show ?thesis using entered_add_fd [OF entered_frame [OF s3(2)]] by simp
  qed
qed

lemma start_client_sound:
  assumes o: "opened L f t" and fresh: "kernel_fresh k" and run: "start_client k cfg f ip t = Some s'"
  shows "sound L s'"
proof -
  let ?t = "upd_metrics increment_connections_total t"
  have "opened L f ?t" by (rule opened_frame [OF o]) simp_all
  then obtain i s1 where s1: "make_connection f ?t = (i, s1)" "conn_heap s1 i = Some (new_connection f)" "loose L i f s1"
    by (rule opened_make)
  let ?c = "set_memory_accounting (new_connection f)"
  let ?s2 = "put_conn i ?c s1"
  have l2: "loose L i f ?s2" by (rule loose_put [OF s1(3,2)]) (simp_all add: set_memory_accounting_def)
  have at: "attach_memory_accounting i s1 = Some ?s2" using s1(2) by (simp add: attach_memory_accounting_def with_conn_def)
  show ?thesis
  proof (cases "tls_ready ?s2")
    case True
    then have "start_tls k i f ?s2 = Some s'" using run s1(1) at by (simp add: start_client_def)
    then show ?thesis using start_tls_sound [OF l2 _ _ fresh, of ?c] by (simp add: set_memory_accounting_def new_connection_def)
  next
    case False
    let ?d = "set_conn_state ESTABLISHED ?c" and ?s3 = "put_conn i (set_conn_state ESTABLISHED ?c) ?s2"
    have l3: "loose L i f ?s3" by (rule loose_put [OF l2, of ?c]) (simp_all add: set_conn_state_def)
    obtain key u where u: "connect k i 0 key u = Some s'" "conn_heap u = conn_heap ?s3" "loose L i f u"
    proof -
      let ?u = "\<lambda>n ct ck. ?s3\<lparr>steps := n, connection_times := ct, client_session_keys := ck\<rparr>"
      have "loose L i f (?u n ct ck)" for n ct ck by (rule loose_frame [OF l3]) simp_all
      then show ?thesis using that run s1(1) at False by (auto simp: start_client_def with_conn_def ask_def Let_def)
    qed
    have "conn_heap u i = Some ?d" using u(2) by simp
    note tr = loose_trying [OF u(3) this]
    show ?thesis using tr sound_after_connect [OF _ fresh _ _ _ u(1)] by (simp add: set_conn_state_def)
  qed
qed

lemma send_loop_steps: "send_loop k rest s = Some r \<Longrightarrow> \<exists>n. snd r = s\<lparr>steps := n\<rparr>"
proof (rule send_loop.raw_induct [where P = "\<lambda>k rest s r. \<exists>n. snd r = s\<lparr>steps := n\<rparr>"])
  fix g k rest s r
  assume 1: "\<And>k rest s r. g k rest s = Some r \<Longrightarrow> \<exists>n. snd r = s\<lparr>steps := n\<rparr>"
    "(if rest = [] then Some (Some [], s)
      else let (io, s1) = ask (k_send k) s
           in case io of Accepted n \<Rightarrow> g k (drop n rest) s1 | WriteWouldBlock \<Rightarrow> Some (Some rest, s1)
              | WriteFailed \<Rightarrow> Some (None, s1)) = Some r"
  have keep: "\<exists>n. s = s\<lparr>steps := n\<rparr>" by (rule exI [of _ "steps s"]) simp
  show "\<exists>n. snd r = s\<lparr>steps := n\<rparr>"
  proof (cases "rest = []")
    case False
    show ?thesis
    proof (cases "k_send k (steps s)")
      case (Accepted n)
      then have "g k (drop n rest) (s\<lparr>steps := steps s + 1\<rparr>) = Some r" using 1(2) False by (simp add: ask_def)
      from 1(1) [OF this] show ?thesis by auto
    qed (use 1(2) False in \<open>auto simp: ask_def\<close>)
  qed (use 1(2) keep in auto)
qed simp

lemma send_http_error_and_close_sound:
  assumes o: "opened L f t" and run: "send_http_error_and_close k f page t = Some s'"
  shows "sound L s'"
proof -
  obtain u s1 where s1: "send_loop k (to_bytes page) t = Some (u, s1)"
    and r: "(case u of
        None \<Rightarrow> Some (sys_close f s1)
      | Some rest \<Rightarrow>
          if rest = [] then Some (sys_close f s1)
          else do {
            let (i, s2) = make_connection f s1;
            s3 \<leftarrow> with_conn i (\<lambda>c. (set_conn_state ESTABLISHED c)\<lparr>write_buf := rest\<rparr>) s2;
            s4 \<leftarrow> table_put f i s3;
            let (now, s5) = ask (k_now k) s4;
            let s6 = s5\<lparr>connection_times := (connection_times s5)(f \<mapsto> now)\<rparr>;
            Some (snd (add_fd f EPOLLOUT ErrorPageHandler s6))
          }) = Some s'"
    using run by (auto simp: send_http_error_and_close_def bind_eq_Some_conv)
  obtain n where "s1 = t\<lparr>steps := n\<rparr>" using send_loop_steps [OF s1] by auto
  then have o1: "opened L f s1" using opened_frame [OF o, of s1] by simp
  show ?thesis
  proof (cases "u = None \<or> u = Some []")
    case True
    then show ?thesis using r opened_close [OF o1] by auto
  next
    case False
    then obtain rest where rest: "u = Some rest" "rest \<noteq> []" by auto
    obtain i s2 where s2: "make_connection f s1 = (i, s2)" "conn_heap s2 i = Some (new_connection f)" "loose L i f s2"
      using o1 by (rule opened_make)
    let ?c = "(set_conn_state ESTABLISHED (new_connection f))\<lparr>write_buf := rest\<rparr>"
    have "loose L i f (put_conn i ?c s2)" by (rule loose_put [OF s2(3,2)]) (simp_all add: set_conn_state_def)
    then obtain s4 where s4: "table_put f i (put_conn i ?c s2) = Some s4" "entered L f s4"
      by (rule loose_enter [where c = ?c]) (simp_all add: set_conn_state_def)
    then obtain m ct where "s' = snd (add_fd f EPOLLOUT ErrorPageHandler (s4\<lparr>steps := m, connection_times := ct\<rparr>))"
      using r rest s2(1,2) by (auto simp: with_conn_def ask_def)
    then show ?thesis using entered_add_fd [OF entered_frame [OF s4(2)]] by simp
  qed
qed

lemma turn_away_sound: "opened L f t \<Longrightarrow> turn_away k cfg f page t = Some s' \<Longrightarrow> sound L s'"
  using send_http_error_and_close_sound opened_close by (auto simp: turn_away_def split: if_splits)

lemma opened_static: "opened L f t \<Longrightarrow> copy_mode t"
  using copy_mode_static [of t "t\<lparr>open_fds := open_fds t - {f}\<rparr>"] by (auto simp: opened_def sound_def)

lemma no_queueing: "copy_mode t \<Longrightarrow> \<not> can_queue (get_config t) s"
  by (auto simp: copy_mode_def can_queue_def get_config_def split: option.splits)

lemma admit_client_sound:
  assumes o: "opened L f t" and fresh: "kernel_fresh k" and run: "admit_client k f t = Some s'"
  shows "sound L s'"
proof -
  let ?t1 = "t\<lparr>steps := Suc (steps t)\<rparr>"
  let ?ip = "if k_client_ip k (steps t) = [] then ''unknown'' else k_client_ip k (steps t)"
  let ?cfg = "get_config t"
  let ?adm = "check_rate_limit (k_now k (Suc (steps t))) ?ip ?cfg (rate_limit_tracker t)"
  let ?t3 = "t\<lparr>steps := Suc (Suc (steps t)), rate_limit_tracker := snd ?adm\<rparr>"
  have fr: "opened L f (t\<lparr>steps := n\<rparr>)" "opened L f (t\<lparr>steps := n, rate_limit_tracker := r\<rparr>)" for n r
    by (rule opened_frame [OF o]; simp add: static_def)+
  have met: "opened L f (upd_metrics g u)" if "opened L f u" for g u by (rule opened_frame [OF that]) simp_all
  have o1: "opened L f ?t1" and o3: "opened L f ?t3" using fr by simp_all
  note away = turn_away_sound [OF met]
  have q: "\<not> can_queue ?cfg u" for u by (rule no_queueing [OF opened_static [OF o]])
  have cfg: "get_config ?t1 = ?cfg" by (simp add: get_config_def)
  have r: "(if \<not> is_ip_allowed ?ip (?cfg)
      then turn_away k (?cfg) f (forbidden ''IP address not allowed'') (upd_metrics increment_overload_drops ?t1)
      else if \<not> fst ?adm
      then turn_away k (?cfg) f (too_many_requests ''Rate limit exceeded'') (upd_metrics increment_rate_limit_drops ?t3)
      else if is_exceeded (mem ?t3) then turn_away k (?cfg) f (service_unavailable ''Service temporarily unavailable'')
             (upd_metrics increment_memory_budget_drops ?t3)
      else if count_active_client_connections ?t3 \<ge> unat (lb_max_global_connections (settings_of ?t3))
      then turn_away k (?cfg) f (service_unavailable ''Service temporarily unavailable'')
             (upd_metrics increment_overload_drops ?t3)
      else start_client k (?cfg) f ?ip ?t3) = Some s'"
    using run by (simp add: admit_client_def ask_def Let_def case_prod_unfold q cfg del: if_split cong: if_cong)
  show ?thesis using r away [OF o1] away [OF o3] start_client_sound [OF o3 fresh] by (auto split: if_splits)
qed

lemma handle_accept_sound:
  assumes fresh: "kernel_fresh k" and "handle_accept k s = Some s'" and "sound L s"
  shows "sound L s'"
proof -
  have "sound L s \<longrightarrow> kernel_fresh k \<longrightarrow> sound L s'"
  proof (rule handle_accept.raw_induct [where P = "\<lambda>k s s'. sound L s \<longrightarrow> kernel_fresh k \<longrightarrow> sound L s'", OF _ assms(2)])
    fix h k s r
    assume IH: "\<And>k s r. h k s = Some r \<Longrightarrow> sound L s \<longrightarrow> kernel_fresh k \<longrightarrow> sound L r"
      and run: "listener s \<bind> (\<lambda>l. case accept_fd k l s of
         (f, s1) \<Rightarrow> if f < 0 then Some s1 else admit_client k f (sys_open f s1) \<bind> h k) = Some r"
    show "sound L s \<longrightarrow> kernel_fresh k \<longrightarrow> sound L r"
    proof (intro impI)
      assume sound: "sound L s" and fresh: "kernel_fresh k"
      obtain l where l0: "listener s = Some l" using run by (cases "listener s") simp_all
      obtain f s1 where l: "accept_fd k l s = (f, s1)" by fastforce
      have r: "(if f < 0 then Some s1 else admit_client k f (sys_open f s1) \<bind> h k) = Some r"
        using run l0 l by simp
      have s1: "sound L s1" "open_fds s1 = open_fds s" and f: "f \<ge> 0 \<longrightarrow> f \<notin> open_fds s \<and> f < MAX_FD"
        using l sound fresh by (auto simp: accept_fd_def ask_def kernel_fresh_def intro: sound_timers split: if_splits)
      show "sound L r"
      proof (cases "f < 0")
        case False
        then obtain s2 where s2: "admit_client k f (sys_open f s1) = Some s2" "h k s2 = Some r"
          using r by (auto simp: bind_eq_Some_conv)
        have "opened L f (sys_open f s1)" using sound_opened [OF s1(1)] f False s1(2) by simp
        then have "sound L s2" using s2(1) by (rule admit_client_sound [OF _ fresh])
        then show ?thesis using IH [OF s2(2)] fresh by simp
      qed (use r s1 in simp)
    qed
  qed
  with assms show ?thesis by simp
qed

lemma handle_error_page_event_sound:
  assumes sound: "sound L s" and run: "handle_error_page_event k f type s = Some s'"
  shows "sound L s'"
proof (cases "get_connection f s")
  case (Some i)
  have close: "sound L t'" if "close_connection k f t = Some t'" "sound L t" for t t' by (rule sound_close [OF that(2,1)])
  have io: "sound L t" if "conn_write k i s = Some (r, t)" for r t by (rule sound_calm [OF sound io_calm(2) [OF that]])
  show ?thesis
    using run Some close io sound
    by (cases type) (auto simp: handle_error_page_event_def bind_eq_Some_conv split: if_splits)
qed (use run sound in \<open>simp add: handle_error_page_event_def\<close>)

text \<open>Backends that leave the pool, and changes of their health.\<close>

lemma sound_backends:
  assumes sound: "sound L s" and same: "conn_heap s' = conn_heap s" "connections s' = connections s" "pool_manager s' = pool_manager s"
    "open_fds s' = open_fds s" "live_ssl s' = live_ssl s" "backend_connections s' = backend_connections s" "next_conn s' = next_conn s"
    "backend_to_client_map s' = backend_to_client_map s" "static s' = static s" "registrations s' = registrations s"
    "set (backends (backend_pool s')) \<subseteq> set (backends (backend_pool s))"
    and act: "\<And>n. active_connections (nodes s' n) = active_connections (nodes s n)"
    and alive: "\<And>n. node_alive s' n \<Longrightarrow> node_alive s n"
  shows "sound L s'"
proof -
  have good: "lb_inv L s" "table_states_ok s" "counters_exact s" "wired s" using sound by (simp_all add: sound_def lb_good_def)
  have at: "conn_at s' f = conn_at s f" for f by (rule conn_at_core) (simp_all add: same)
  have "lb_inv L s'" by (rule lb_inv_core [OF _ _ _ _ _ _ _ good(1)]) (simp_all add: same)
  moreover have "table_states_ok s'" using good(2) by (simp add: table_states_ok_def same)
  moreover have "counters_exact s'" using good(3) alive by (simp add: counters_exact_def act est_fds_def at same)
  moreover have "wired s'" by (rule wired_same [OF good(4) at]) (simp_all add: same)
  moreover have "steady s s'" by (rule steady_same) (simp_all add: same)
  then have "cb_ok s'" using sound steady_cb_ok by (simp add: sound_def)
  ultimately show ?thesis using sound copy_mode_static [OF same(9)] by (simp add: sound_def lb_good_def fds_ok_def same)
qed

lemma cleanup_drained_backend_sound:
  assumes "sound L s" shows "sound L (cleanup_drained_backend n s)"
  by (rule sound_backends [OF assms])
     (auto simp: cleanup_drained_backend_def node_alive_def pool_remove_backend_def hc_remove_backend_def static_def registrations_def split: if_splits)

lemma cleanup_drained_backends_sound: "sound L s \<Longrightarrow> sound L (cleanup_drained_backends s)"
  unfolding cleanup_drained_backends_def
proof -
  have "sound L s \<Longrightarrow> sound L (fold cleanup_drained_backend ns s)" for ns
    by (induction ns arbitrary: s) (simp_all add: cleanup_drained_backend_sound)
  then show "sound L s \<Longrightarrow> sound L (fold cleanup_drained_backend (backends (backend_pool s)) s)" .
qed

lemma health_update_sound:
  assumes sound: "sound L s" and u: "update_with st n healthy (health_checker s) (nodes s) = (hc, h)"
  shows "sound L (s\<lparr>health_checker := hc, nodes := h\<rparr>)"
proof (rule sound_backends [OF sound])
  show "active_connections (nodes (s\<lparr>health_checker := hc, nodes := h\<rparr>) m) = active_connections (nodes s m)" for m
    using u by (cases "m = n") (auto simp: update_with_def Let_def set_state_def split: if_splits)
  show "node_alive s m" if "node_alive (s\<lparr>health_checker := hc, nodes := h\<rparr>) m" for m
    using that u by (auto simp: node_alive_def update_with_def Let_def split: if_splits)
qed (simp_all add: static_def registrations_def)

end
