(* ===== verification/Periodic_Safety.thy ===== *)
theory Periodic_Safety
  imports Accept_Safety Reactor Config_Manager
begin

text \<open>
  The periodic callback keeps the invariant \<open>sound\<close>: a new configuration drains, restores and adds
  backends without disturbing a connection, and the rest of the callback is the timeout sweeps
  and bookkeeping. The configuration may change anything but turn the queue of clients on.
\<close>

section \<open>Applying a configuration\<close>

lemma sound_reconfigured:
  assumes sound: "sound L s" and same: "conn_heap s' = conn_heap s" "connections s' = connections s" "pool_manager s' = pool_manager s"
    "open_fds s' = open_fds s" "live_ssl s' = live_ssl s" "backend_connections s' = backend_connections s" "next_conn s' = next_conn s"
    "backend_to_client_map s' = backend_to_client_map s" "nodes s' = nodes s" "registrations s' = registrations s"
    "backends (backend_pool s') = backends (backend_pool s)" "hc_backends (health_checker s') = hc_backends (health_checker s)"
    and mode: "copy_mode s'"
  shows "sound L s'"
proof -
  have "lb_good L s" "wired s" using sound by (simp_all add: sound_def)
  then have "lb_good L s'" "wired s'" using same by (auto elim!: lb_good_core wired_frame)
  moreover have "steady s s'" by (rule steady_same) (simp_all add: same)
  then have "cb_ok s'" using sound steady_cb_ok by (simp add: sound_def)
  ultimately show ?thesis using sound mode by (simp add: sound_def fds_ok_def same)
qed

text \<open>A new backend has a number no connection refers to.\<close>

lemma add_backend_sound:
  assumes sound: "sound L s"
  shows "sound L (add_backend h p w s)"
proof (cases "find_backend (nodes s) h p (backend_pool s)")
  case None
  let ?n = "next_node s"
  let ?s = "s\<lparr>nodes := (nodes s)(?n := new_backend_node h p w), next_node := ?n + 1,
     backend_pool := pool_add_backend ?n (backend_pool s), health_checker := hc_add_backend ?n (health_checker s)\<rparr>"
  have good: "lb_inv L s" "table_states_ok s" "counters_exact s" "wired s" "cb_ok s" using sound by (simp_all add: sound_def lb_good_def)
  have at: "conn_at ?s f = conn_at s f" for f by (rule conn_at_core) simp_all
  have "lb_inv L ?s" by (rule lb_inv_core [OF _ _ _ _ _ _ _ good(1)]) simp_all
  moreover have "table_states_ok ?s" using good(2) by (simp add: table_states_ok_def)
  moreover have "counters_exact ?s"
    unfolding counters_exact_def
  proof (intro allI impI)
    fix m assume alive: "node_alive ?s m"
    have est: "est_fds ?s m = est_fds s m" by (simp only: est_fds_def at) simp
    show "unat (active_connections (nodes ?s m)) = card (est_fds ?s m)"
    proof (cases "m = ?n")
      case True
      have "backend_connections s f \<noteq> Some ?n" for f using good(5) by (force simp: cb_ok_def ran_def)
      then have "est_fds s m = {}" using True by (simp add: est_fds_def)
      then show ?thesis using True est by (simp add: new_backend_node_def)
    next
      case False
      then have "node_alive s m" using alive by (auto simp: node_alive_def pool_add_backend_def hc_add_backend_def)
      then show ?thesis using good(3) False est by (simp add: counters_exact_def)
    qed
  qed
  moreover have "wired ?s" by (rule wired_same [OF good(4) at]) simp_all
  moreover have "cb_ok ?s" using good(5) by (auto simp: cb_ok_def is_backend_def get_connection_def pool_add_backend_def)
  moreover have "copy_mode ?s" using sound by (simp add: sound_def copy_mode_def)
  ultimately show ?thesis using sound None by (simp add: add_backend_def Let_def sound_def lb_good_def fds_ok_def)
qed (use sound in \<open>simp add: add_backend_def\<close>)

lemma set_state_sound: "sound L s \<Longrightarrow> sound L (upd_nodes n (set_state st) s)"
  by (erule sound_backends) (auto simp: upd_nodes_def upd_node_def set_state_def node_alive_def)

lemma restore_or_add_sound: "sound L s \<Longrightarrow> sound L (restore_or_add bc s)"
  by (auto simp: restore_or_add_def add_backend_sound set_state_sound split: option.splits)

lemma drain_if_unlisted_sound: "sound L s \<Longrightarrow> sound L (drain_if_unlisted bcs n s)"
  by (auto simp: drain_if_unlisted_def drain_backend_def set_state_sound)

lemma fold_sound: "(\<And>x s. sound L s \<Longrightarrow> sound L (g x s)) \<Longrightarrow> sound L s \<Longrightarrow> sound L (fold g xs s)"
  by (induction xs arbitrary: s) simp_all

lemma apply_config_sound:
  assumes sound: "sound L s"
  shows "sound L (apply_config cfg s)"
proof -
  have cm: "copy_mode s" using sound by (simp add: sound_def)
  define s1 where "s1 = (case last_applied_config s of
      None \<Rightarrow> s | Some prev \<Rightarrow> if health_settings_changed cfg prev then configure_health cfg s else s)"
  define s2 where "s2 = s1\<lparr>settings_of := apply_settings cfg (settings_of s1), mem := budget_limit cfg (mem s1)\<rparr>"
  define s3 where "s3 = (if algorithm (backend_pool s2) \<noteq> configured_algorithm cfg
      then s2\<lparr>backend_pool := set_algorithm (configured_algorithm cfg) (backend_pool s2)\<rparr> else s2)"
  define s4 where "s4 = (if lb_mode (settings_of s3) = ''http''
      then s3\<lparr>http_forwarder := map_option (configure_forwarder cfg) (http_forwarder s3)\<rparr> else s3)"
  have 1: "sound L s1"
    by (rule sound_reconfigured [OF sound])
       (use cm in \<open>auto simp: s1_def configure_health_def hc_configure_def registrations_def copy_mode_def split: option.splits\<close>)
  have 2: "sound L s2"
    by (rule sound_reconfigured [OF 1])
       (use 1 in \<open>simp_all add: s2_def registrations_def copy_mode_def sound_def apply_settings_def\<close>)
  have 3: "sound L s3"
    by (rule sound_reconfigured [OF 2])
       (use 2 in \<open>simp_all add: s3_def set_algorithm_def registrations_def copy_mode_def sound_def\<close>)
  have 4: "sound L s4"
    by (rule sound_reconfigured [OF 3]) (use 3 in \<open>simp_all add: s4_def registrations_def copy_mode_def sound_def\<close>)
  let ?s6 = "fold restore_or_add (cfg_backends cfg) (fold (drain_if_unlisted (cfg_backends cfg)) (backends (backend_pool s4)) s4)"
  have "sound L (cleanup_drained_backends ?s6)"
    by (intro cleanup_drained_backends_sound fold_sound restore_or_add_sound drain_if_unlisted_sound 4)
  then have "sound L ((cleanup_drained_backends ?s6)\<lparr>last_applied_config := Some cfg\<rparr>)"
    by (rule sound_frame) (simp_all add: static_def registrations_def)
  then show ?thesis unfolding apply_config_def Let_def s1_def [symmetric] s2_def [symmetric] s3_def [symmetric] s4_def [symmetric] .
qed

section \<open>The periodic callback\<close>

text \<open>The configuration file does not turn the queue on.\<close>

definition queue_stays_off :: "'y yaml_api \<Rightarrow> 'y file_view \<Rightarrow> bool" where
  "queue_stays_off Y fv \<longleftrightarrow>
     (\<forall>m. \<not> queue_enabled (config m) \<longrightarrow> \<not> queue_enabled (config (snd (check_and_reload Y fv m))))"

lemma queue_section_missing:
  assumes doc: "fv_doc fv = Some root" and none: "y_get Y root ''queue'' = Some None"
  shows "queue_stays_off Y fv"
proof -
  have keep: "independent sec queue_enabled \<Longrightarrow> sec c = Some c' \<Longrightarrow> queue_enabled c' = queue_enabled c" for sec c c'
    by (simp add: independent_def)
  have q: "load_queue Y root = Some" using none by (auto simp: load_queue_def in_section_def)
  have "queue_enabled c' = queue_enabled c" if "load_sections Y junk path root c = Some c'" for junk path c c'
    using that unfolding load_sections_def q
    by (rule keep [rotated])
       (rule independent_bind independent_sections | (simp add: independent_def; fail) | (auto simp: independent_def load_listener_def in_section_Some bind_eq_Some_conv; fail))+
  with doc show ?thesis
    by (auto simp: queue_stays_off_def check_and_reload_def load_from_file_def Let_def split: option.splits if_splits)
qed

lemma sound_manager:
  assumes sound: "sound L s" and off: "queue_stays_off Y fv" and m: "config_manager s = Some m"
    and r: "check_and_reload Y fv m = (b, m')"
  shows "sound L (s\<lparr>config_manager := Some m'\<rparr>)"
proof (rule sound_reconfigured [OF sound])
  have "\<not> queue_enabled (config m)" using sound m by (simp add: sound_def copy_mode_def)
  then have "\<not> queue_enabled (config m')" using off r unfolding queue_stays_off_def by (metis snd_conv)
  then show "copy_mode (s\<lparr>config_manager := Some m'\<rparr>)" using sound by (simp add: sound_def copy_mode_def)
qed (simp_all add: registrations_def)

lemma apply_pending_config_sound: "sound L s \<Longrightarrow> sound L (apply_pending_config s)"
proof -
  assume sound: "sound L s"
  have "sound L ((apply_config cfg s)\<lparr>pending_config := None\<rparr>)" for cfg
    by (rule sound_frame [OF apply_config_sound [OF sound]]) (simp_all add: static_def registrations_def)
  with sound show ?thesis by (simp add: apply_pending_config_def split: option.splits)
qed

lemma sound_flags:
  "sound L s \<Longrightarrow> sound L (s\<lparr>config_check_in_progress := b\<rparr>)" "sound L s \<Longrightarrow> sound L (s\<lparr>pending_config := c\<rparr>)"
  by (rule sound_frame; simp add: static_def registrations_def)+

lemma background_reload_sound:
  assumes sound: "sound L s" and off: "queue_stays_off Y fv"
  shows "sound L (background_reload Y fv s)"
proof (cases "config_manager s")
  case (Some m)
  obtain b m' where r: "check_and_reload Y fv m = (b, m')" by fastforce
  note t = sound_manager [OF sound off Some r]
  show ?thesis
    by (simp add: background_reload_def Some r Let_def sound_flags t)
qed (use sound in \<open>simp add: background_reload_def\<close>)

lemma check_config_sound:
  assumes sound: "sound L s" and off: "queue_stays_off Y fv"
  shows "sound L (check_config Y fv s)"
proof (cases "config_manager s")
  case (Some m)
  obtain b m' where r: "check_and_reload Y fv m = (b, m')" by fastforce
  note t = sound_manager [OF sound off Some r]
  show ?thesis using t apply_config_sound [OF t] sound_flags(1) [OF sound, of True] sound by (simp add: check_config_def Some r Let_def)
qed (use sound in \<open>simp add: check_config_def\<close>)

text \<open>The end of a graceful shutdown closes what is left.\<close>

lemma close_each_sound:
  "sound L s \<Longrightarrow> \<exists>s'. close_each (close_connection k) fs s = Some s' \<and> sound L s'"
proof (induction fs arbitrary: s)
  case (Cons f fs)
  obtain s1 where s1: "close_connection k f s = Some s1"
    using close_connection_contracts [OF sound_good [OF Cons.prems], of k f] by blast
  from Cons.IH [OF sound_close [OF Cons.prems s1]] s1 show ?case by simp
qed simp

lemma finish_shutdown_sound:
  assumes "sound L s"
  shows "\<exists>s'. finish_shutdown k s = Some s' \<and> sound L s'"
proof -
  obtain s1 where s1: "force_close_all_connections k s = Some s1" "sound L s1"
    using close_each_sound [OF assms] by (auto simp: force_close_all_connections_def)
  have "sound L (s1\<lparr>health_checker := hc_stop (health_checker s1), reactor_running := False, draining := False\<rparr>)"
    by (rule sound_backends [OF s1(2)]) (simp_all add: hc_stop_def static_def registrations_def node_alive_def)
  with s1(1) show ?thesis by (simp add: finish_shutdown_def)
qed

lemma check_graceful_shutdown_sound:
  assumes "sound L s"
  shows "\<exists>s'. check_graceful_shutdown k s = Some s' \<and> sound L s'"
proof -
  have s1: "sound L (s\<lparr>steps := Suc (steps s)\<rparr>)" using assms by (rule sound_timers)
  then show ?thesis using assms finish_shutdown_sound [OF s1, of k] by (simp add: check_graceful_shutdown_def ask_def Let_def)
qed

text \<open>The callback always returns in a sound state.\<close>

lemma periodic_sound:
  assumes sound: "sound L s" and off: "queue_stays_off Y fv"
  shows "\<exists>s'. periodic k Y fv ord ord' s = Some s' \<and> sound L s'"
proof (cases "draining s")
  case False
  define s1 where "s1 = cleanup_drained_backends (check_config Y fv (apply_pending_config s))"
  have 1: "sound L s1" unfolding s1_def by (intro cleanup_drained_backends_sound check_config_sound apply_pending_config_sound sound off)
  obtain s3 where 3: "check_request_timeouts k s1 = Some s3" "sound L s3" using timeouts_sound(1) [OF 1] by blast
  obtain s4 where 4: "check_handshake_timeouts k ord s3 = Some s4" "sound L s4" using timeouts_sound(2) [OF 3(2)] by blast
  obtain s5 where 5: "check_backpressure_timeouts k ord' s4 = Some s5" "sound L s5" using timeouts_sound(3) [OF 4(2)] by blast
  define s7 where "s7 = s5\<lparr>steps := steps s5 + 1,
    rate_limit_tracker := cleanup_rate_limit_entries (k_now k (steps s5)) (get_config (s5\<lparr>steps := steps s5 + 1\<rparr>)) (rate_limit_tracker s5)\<rparr>"
  have 7: "sound L s7" unfolding s7_def using 5(2) by (intro sound_timers)
  have deq: "try_dequeue_clients k s7 = Some s7"
    using 7 by (auto simp: try_dequeue_clients_def get_config_def sound_def copy_mode_def split: option.splits)
  let ?s9 = "s7\<lparr>steps := steps s7 + 1, session_table := cleanup_expired_sessions (k_now k (steps s7)) (session_table s7)\<rparr>"
  have "sound L (upd_metrics (set_memory_budget_limit (limit_bytes (mem ?s9))) (upd_metrics (set_memory_budget_used (used_bytes (mem ?s9))) ?s9))"
    by (intro sound_upd_metrics sound_timers 7)
  moreover have "periodic k Y fv ord ord' s =
      Some (upd_metrics (set_memory_budget_limit (limit_bytes (mem ?s9))) (upd_metrics (set_memory_budget_used (used_bytes (mem ?s9))) ?s9))"
    using False 3(1) 4(1) 5(1) evict_idle_sound [OF 1] deq
    by (simp add: periodic_def s1_def [symmetric] ask_def s7_def Let_def)
  ultimately show ?thesis by blast
qed (use check_graceful_shutdown_sound [OF sound] in \<open>simp add: periodic_def\<close>)

end
