(* ===== verification/Event_Loop.thy ===== *)
theory Event_Loop
  imports Periodic_Safety
begin

text \<open>
  The load balancer as a transition system: its start by \<open>initialize_from_config\<close>, the steps of its
  event loop and of the health checker's thread, and the consistency of every reachable state.
\<close>

section \<open>Steps\<close>

text \<open>
  The steps of the running load balancer: the events the reactor dispatches, to whatever callback it
  has for the descriptor, the periodic callback, on whatever the configuration file holds as long as it
  leaves the client queue off, the reload a worker thread does for it, the verdicts of the health
  checker's thread, the start of the loop and a request to stop it, and the passing of time. They come in any order.
\<close>

inductive lb_step :: "kernel \<Rightarrow> 'y yaml_api \<Rightarrow> lb_state \<Rightarrow> lb_state \<Rightarrow> bool" for k Y where
  step_event: "dispatch k e s = Some s' \<Longrightarrow> lb_step k Y s s'"
| step_periodic: "queue_stays_off Y fv \<Longrightarrow> periodic k Y fv ord ord' s = Some s' \<Longrightarrow> lb_step k Y s s'"
| step_reload: "queue_stays_off Y fv \<Longrightarrow> lb_step k Y s (background_reload Y fv s)"
| step_health: "update_with current n healthy (health_checker s) (nodes s) = (hc, h) \<Longrightarrow>
    lb_step k Y s (s\<lparr>health_checker := hc, nodes := h\<rparr>)"
| step_run: "lb_step k Y s (s\<lparr>reactor_running := b\<rparr>)"
| step_clock: "lb_step k Y s (s\<lparr>steps := n\<rparr>)"

text \<open>The callback the reactor finds is the handler of the connection that has the descriptor now.\<close>

lemma notify_sound:
  assumes fresh: "kernel_fresh k" and sound: "sound L s" and run: "notify k wanted f type s = Some s'"
  shows "sound L s'"
proof (cases "callbacks s f")
  case (Some cb)
  show ?thesis
  proof (cases "cb = BackendHandler")
    case True
    then have "is_backend f s" using sound Some by (simp add: sound_def cb_ok_def)
    then show ?thesis using True Some sound run handle_backend_event_sound [OF _ fresh]
      by (auto simp: notify_def run_callback_def split: if_splits)
  next
    case False
    have "s' = s \<or> run_callback k cb f type s = Some s'" using run Some by (auto simp: notify_def split: if_splits)
    moreover have "sound L s'" if "run_callback k cb f type s = Some s'"
      using that False handle_accept_sound [OF fresh _ sound] handle_client_event_sound [OF sound fresh]
        handle_error_page_event_sound [OF sound]
      by (cases cb) (simp_all add: run_callback_def)
    ultimately show ?thesis using sound by blast
  qed
qed (use sound run in \<open>simp add: notify_def\<close>)

lemma dispatch_sound: "kernel_fresh k \<Longrightarrow> sound L s \<Longrightarrow> dispatch k e s = Some s' \<Longrightarrow> sound L s'"
  unfolding dispatch_def bind_eq_Some_conv using notify_sound by blast

lemma dispatch_all_sound: "kernel_fresh k \<Longrightarrow> sound L s \<Longrightarrow> dispatch_all k es s = Some s' \<Longrightarrow> sound L s'"
proof (induction es arbitrary: s)
  case (Cons e es)
  then obtain s1 where "dispatch k e s = Some s1" "dispatch_all k es s1 = Some s'" by (auto simp: bind_eq_Some_conv)
  with Cons dispatch_sound show ?case by blast
qed simp

lemma lb_step_sound:
  assumes "lb_step k Y s s'" and fresh: "kernel_fresh k" and "sound L s"
  shows "sound L s'"
  using assms(1,3)
proof (induction rule: lb_step.induct)
  case (step_event e s s')
  then show ?case using dispatch_sound [OF fresh] by blast
next
  case (step_periodic fv ord ord' s s')
  then show ?case using periodic_sound by (metis option.inject)
next
  case (step_reload fv s)
  then show ?case by (intro background_reload_sound)
next
  case (step_health current n healthy s hc h)
  then show ?case using health_update_sound by blast
next
  case (step_run s b)
  then show ?case by (rule sound_frame) (simp_all add: static_def registrations_def)
next
  case (step_clock s n)
  then show ?case by (rule sound_timers)
qed

lemma lb_steps_sound: "(lb_step k Y)\<^sup>*\<^sup>* s s' \<Longrightarrow> kernel_fresh k \<Longrightarrow> sound L s \<Longrightarrow> sound L s'"
proof -
  assume steps: "(lb_step k Y)\<^sup>*\<^sup>* s s'" and "kernel_fresh k" and "sound L s"
  then have "step_invariant (sound L) (lb_step k Y) (sound L)" by unfold_locales (auto intro: lb_step_sound)
  then show "sound L s'" by (rule step_invariant.from_any) (fact steps, fact \<open>sound L s\<close>)
qed

text \<open>The loop of the reactor takes such steps.\<close>

lemma dispatch_all_steps: "dispatch_all k es s = Some s' \<Longrightarrow> (lb_step k Y)\<^sup>*\<^sup>* s s'"
proof (induction es arbitrary: s)
  case (Cons e es)
  then obtain s1 where "dispatch k e s = Some s1" "dispatch_all k es s1 = Some s'" by (auto simp: bind_eq_Some_conv)
  with Cons.IH step_event show ?case by (metis converse_rtranclp_into_rtranclp)
qed simp

lemma run_periodic_steps:
  assumes "run_periodic k Y t (r, s) = Some (r', s')" and "queue_stays_off Y (rt_view t)"
  shows "(lb_step k Y)\<^sup>*\<^sup>* s s'"
proof -
  let ?s = "s\<lparr>steps := Suc (steps s)\<rparr>"
  have "s' = s \<or> s' = ?s \<or> periodic k Y (rt_view t) (rt_handshakes t) (rt_backpressure t) ?s = Some s'"
    using assms(1) by (auto simp: run_periodic_def ask_def Let_def split: if_splits)
  then show ?thesis using step_clock [of k Y s "Suc (steps s)"] step_periodic [OF assms(2)]
    by (meson converse_rtranclp_into_rtranclp rtranclp.rtrancl_refl)
qed

lemma reactor_turn_steps:
  assumes "reactor_turn_step k Y t (r, s) = Some (b, r', s')" and "queue_stays_off Y (rt_view t)"
  shows "(lb_step k Y)\<^sup>*\<^sup>* s s'"
proof -
  obtain r1 s1 where s1: "run_periodic k Y t (r, s) = Some (r1, s1)" "s' = s1 \<or> (\<exists>es. dispatch_all k es s1 = Some s')"
    using assms(1) by (cases "rt_wait t") (auto simp: reactor_turn_step_def bind_eq_Some_conv)
  from run_periodic_steps [OF s1(1) assms(2)] s1(2) dispatch_all_steps show ?thesis by (metis rtranclp_trans)
qed

lemma reactor_loop_steps:
  assumes "reactor_loop k Y ts (r, s) = Some (r', s')" and "\<forall>t \<in> set ts. queue_stays_off Y (rt_view t)"
  shows "(lb_step k Y)\<^sup>*\<^sup>* s s'"
  using assms
proof (induction ts arbitrary: r s)
  case (Cons t ts)
  show ?case
  proof (cases "reactor_running s")
    case True
    then obtain b r1 s1 where turn: "reactor_turn_step k Y t (r, s) = Some (b, r1, s1)"
      and rest: "(r1, s1) = (r', s') \<or> reactor_loop k Y ts (r1, s1) = Some (r', s')"
      using Cons.prems(1) by (auto split: option.splits if_splits)
    have "(lb_step k Y)\<^sup>*\<^sup>* s s1" using turn Cons.prems(2) by (auto intro: reactor_turn_steps)
    moreover have "(lb_step k Y)\<^sup>*\<^sup>* s1 s'" using rest Cons.IH [of r1 s1] Cons.prems(2) by auto
    ultimately show ?thesis by simp
  qed (use Cons.prems in simp)
qed (simp split: if_splits)

lemma reactor_run_steps:
  assumes "reactor_run k Y ts (r, s) = Some (r', s')" and "\<forall>t \<in> set ts. queue_stays_off Y (rt_view t)"
  shows "(lb_step k Y)\<^sup>*\<^sup>* s s'"
proof -
  have "(lb_step k Y)\<^sup>*\<^sup>* (s\<lparr>reactor_running := True\<rparr>) s'"
    using assms reactor_loop_steps by (simp add: reactor_run_def)
  with step_run show ?thesis by (rule converse_rtranclp_into_rtranclp)
qed

section \<open>The start\<close>

definition plain_config :: "Config \<Rightarrow> bool" where
  "plain_config cfg \<longleftrightarrow> (cfg_use_splice cfg \<longrightarrow> cfg_mode cfg = ''http'') \<and> \<not> connection_pool_enabled cfg"

text \<open>\<open>idle s\<close>: there is no connection yet, and the pool has only nodes that were made.\<close>

definition idle :: "lb_state \<Rightarrow> bool" where
  "idle s \<longleftrightarrow>
     conn_heap s = Map.empty \<and> connections s = [] \<and> backend_connections s = Map.empty \<and> backend_to_client_map s = Map.empty \<and>
     pool_manager s = None \<and> fds_ok s \<and> (\<forall>f. f \<notin> open_fds s \<longrightarrow> epoll_set s f = None) \<and> (\<forall>n. active_connections (nodes s n) = 0) \<and>
     set (backends (backend_pool s)) \<subseteq> {..<next_node s}"

lemma idle_sound: "idle s \<Longrightarrow> copy_mode s \<Longrightarrow> sound [] s"
  by (auto simp: idle_def sound_def lb_good_def lb_inv_def heap_inv_def table_inv_def owned_def pooled_ids_def
      table_states_ok_def counters_exact_def est_fds_def wired_def conn_at_def get_connection_def cb_ok_def is_backend_def)

lemma idle_frame:
  assumes "idle s" and "conn_heap s' = conn_heap s" "connections s' = connections s" "backend_connections s' = backend_connections s"
    "backend_to_client_map s' = backend_to_client_map s" "pool_manager s' = pool_manager s" "open_fds s' \<subseteq> {0..<MAX_FD}"
    "(\<forall>f. f \<notin> open_fds s' \<longrightarrow> epoll_set s' f = None)" "\<And>n. active_connections (nodes s' n) = active_connections (nodes s n)" "next_node s' = next_node s" "backend_pool s' = backend_pool s"
  shows "idle s'"
  using assms by (simp add: idle_def fds_ok_def)

lemma tcp_bind_idle:
  assumes i: "idle s" and fresh: "kernel_fresh k" and run: "tcp_bind k h p s = (r, s')"
  shows "idle s'" and "static s' = static s"
proof -
  let ?f = "k_socket k (steps s) (open_fds s)"
  have o: "open_fds s \<subseteq> {0..<MAX_FD}" using i by (simp add: idle_def fds_ok_def)
  have f: "0 \<le> ?f \<Longrightarrow> ?f < MAX_FD" using fresh by (simp add: kernel_fresh_def)
  have *: "conn_heap s' = conn_heap s \<and> connections s' = connections s \<and> backend_connections s' = backend_connections s \<and>
    backend_to_client_map s' = backend_to_client_map s \<and> pool_manager s' = pool_manager s \<and> nodes s' = nodes s \<and>
    next_node s' = next_node s \<and> backend_pool s' = backend_pool s \<and> static s' = static s \<and> open_fds s' \<subseteq> open_fds s \<union> ({?f} \<inter> {0..}) \<and> (\<forall>f. f \<notin> open_fds s' \<longrightarrow> epoll_set s' f = None)"
    using run i unfolding idle_def by (auto simp: tcp_bind_def ask_def sys_open_def sys_close_def static_def Let_def split: if_splits)
  moreover have "open_fds s \<union> ({?f} \<inter> {0..}) \<subseteq> {0..<MAX_FD}" using o f by auto
  ultimately show "idle s'" by (intro idle_frame [OF i]) auto
  from * show "static s' = static s" by simp
qed

lemma initialize_idle:
  assumes i: "idle s" and fresh: "kernel_fresh k" and run: "initialize k h p s = (r, s')"
  shows "idle s'" and "static s' = static s"
proof -
  obtain b s1 where b: "tcp_bind k h p s = (b, s1)" by fastforce
  note s1 = tcp_bind_idle [OF i fresh b]
  have o: "open_fds s1 \<subseteq> {0..<MAX_FD}" using s1(1) by (simp add: idle_def fds_ok_def)
  have *: "conn_heap s' = conn_heap s1 \<and> connections s' = connections s1 \<and> backend_connections s' = backend_connections s1 \<and>
    backend_to_client_map s' = backend_to_client_map s1 \<and> pool_manager s' = pool_manager s1 \<and> nodes s' = nodes s1 \<and>
    next_node s' = next_node s1 \<and> backend_pool s' = backend_pool s1 \<and> static s' = static s1 \<and> open_fds s' \<subseteq> {0..<MAX_FD} \<and> (\<forall>f. f \<notin> open_fds s' \<longrightarrow> epoll_set s' f = None)"
    using run b o s1(1) unfolding idle_def
    by (cases b) (auto simp: initialize_def ask_def add_fd_def static_def Let_def split: if_splits)
  then show "idle s'" by (intro idle_frame [OF s1(1)]) simp_all
  from * s1(2) show "static s' = static s" by simp
qed

lemma add_backends_idle:
  "idle s \<Longrightarrow> idle (fold (\<lambda>bc. add_backend (bc_host bc) (bc_port bc) (bc_weight bc)) bcs s) \<and>
     static (fold (\<lambda>bc. add_backend (bc_host bc) (bc_port bc) (bc_weight bc)) bcs s) = static s"
proof (induction bcs arbitrary: s)
  case (Cons bc bcs)
  have "idle (add_backend h p w s)" "static (add_backend h p w s) = static s" for h p w
    using Cons.prems by (auto simp: add_backend_def Let_def idle_def fds_ok_def static_def new_backend_node_def pool_add_backend_def)
  with Cons.IH show ?case by simp
qed simp

lemma initialize_from_config_sound:
  assumes fresh: "kernel_fresh k" and cfg: "plain_config cfg" and cm: "\<forall>m. cm = Some m \<longrightarrow> \<not> queue_enabled (config m)"
    and run: "initialize_from_config k cfg (new_load_balancer\<lparr>config_manager := cm\<rparr>) = (True, s')"
  shows "sound [] s'"
proof -
  let ?s0 = "configure_health cfg (new_load_balancer\<lparr>config_manager := cm\<rparr>)"
  have i0: "idle ?s0"
    by (simp add: idle_def configure_health_def new_load_balancer_def fds_ok_def new_backend_node_def new_pool_def)
  have st0: "static ?s0 = (new_settings, None, [], cm)" by (simp add: static_def configure_health_def new_load_balancer_def)
  obtain s1 where s1: "initialize k (listen_host cfg) (listen_port cfg) ?s0 = (True, s1)"
    using run by (auto simp: initialize_from_config_def split: prod.splits bool.splits)
  note i1 = initialize_idle [OF i0 fresh s1]
  let ?s2 = "s1\<lparr>has_thread_pool := (thread_pool_worker_count cfg > 0),
                settings_of := initial_settings cfg (settings_of s1), mem := budget_limit cfg (mem s1)\<rparr>"
  define s3 where "s3 = (if lb_mode (settings_of ?s2) = ''http''
    then ?s2\<lparr>http_forwarder := Some (configure_forwarder cfg
           \<lparr>fw_is_https = tls_ready ?s2, fw_request_headers = None, fw_response_headers = None,
            fw_session_cookie = None, fw_cookie_injection = None\<rparr>)\<rparr> else ?s2)"
  let ?s4 = "s3\<lparr>settings_of := (settings_of s3)\<lparr>lb_use_splice := False\<rparr>\<rparr>"
  have splice: "initialize_splice k cfg s3 = ?s4"
    using cfg by (auto simp: initialize_splice_def s3_def initial_settings_def plain_config_def)
  have i3: "idle ?s4" by (rule idle_frame [OF i1(1)]) (use i1(1) in \<open>simp_all add: s3_def idle_def fds_ok_def\<close>)
  have c3: "copy_mode ?s4"
    using i1(2) cm unfolding st0 by (simp add: copy_mode_def static_def s3_def initial_settings_def apply_settings_def new_settings_def)
  obtain b s4 where tls: "initialize_tls k cfg ?s4 = (b, s4)" by fastforce
  let ?s5 = "fold (\<lambda>bc. add_backend (bc_host bc) (bc_port bc) (bc_weight bc)) (cfg_backends cfg) s4"
  have "initialize_from_config k cfg (new_load_balancer\<lparr>config_manager := cm\<rparr>) =
      (if \<not> b then (False, s4) else (True, ?s5\<lparr>mem := budget_limit cfg (mem ?s5), last_applied_config := Some cfg\<rparr>))"
    using cfg unfolding initialize_from_config_def s1 prod.case bool.case Let_def s3_def [symmetric] splice tls
    by (simp add: plain_config_def)
  with run tls have s4: "initialize_tls k cfg ?s4 = (True, s4)"
    and s': "s' = ?s5\<lparr>mem := budget_limit cfg (mem ?s5), last_applied_config := Some cfg\<rparr>" by (auto split: if_splits)
  have i4: "idle s4" and c4: "copy_mode s4"
    using s4 i3 c3 by (auto simp: initialize_tls_def ask_def copy_mode_def idle_def fds_ok_def Let_def split: if_splits)
  have "idle ?s5" "copy_mode ?s5" using add_backends_idle [OF i4, of "cfg_backends cfg"] copy_mode_static [of ?s5 s4] c4 by simp_all
  then have "idle (?s5\<lparr>mem := m, last_applied_config := lc\<rparr>)" "copy_mode (?s5\<lparr>mem := m, last_applied_config := lc\<rparr>)" for m lc
    by (simp_all add: idle_def fds_ok_def copy_mode_def)
  with s' idle_sound show ?thesis by blast
qed

section \<open>Properties\<close>

text \<open>C1: every state the load balancer can reach is consistent. It is started with
  \<open>initialize_from_config\<close> in TCP or HTTP mode, without splicing, connection pool and client queue, on a
  kernel that hands out fresh descriptors, and then dispatches any events to the callbacks the reactor has
  for their descriptors, runs its periodic callback, reloads its configuration in place or on a worker
  thread, draining, restoring and adding backends and changing any setting but the queue, and is told of
  health verdicts, in any order and any number of times; every pass of the reactor's loop is made
  of such steps (\<open>reactor_run_steps\<close>). Then no connection object is leaked or dangling (the
  objects alive are exactly those of the table), every connection in the table is open under its own
  descriptor, peers refer to each other and are both in the table, a backend descriptor is mapped to the
  client it is paired with, and the load \<open>active_connections\<close> that routing reads is, for
  every backend, the number of its established connections.\<close>

theorem reachable_states_consistent:
  assumes "kernel_fresh k" and "plain_config cfg" and "\<forall>m. cm = Some m \<longrightarrow> \<not> queue_enabled (config m)"
    and "initialize_from_config k cfg (new_load_balancer\<lparr>config_manager := cm\<rparr>) = (True, s0)"
    and "(lb_step k Y)\<^sup>*\<^sup>* s0 s"
  shows "dom (conn_heap s) = snd ` set (connections s) \<and>
    (\<forall>f i. get_connection f s = Some i \<longrightarrow>
       (\<exists>c. conn_heap s i = Some c \<and> conn_fd c = f \<and> f \<in> open_fds s \<and> conn_state c \<noteq> CLOSED)) \<and>
    (\<forall>i c j. conn_heap s i = Some c \<and> peer c = Some j \<longrightarrow>
       (\<exists>d. conn_heap s j = Some d \<and> peer d = Some i \<and> get_connection (conn_fd d) s = Some j)) \<and>
    (\<forall>f g. backend_to_client_map s f = Some g \<longrightarrow> peer_fd s f = Some g) \<and>
    (\<forall>n. node_alive s n \<longrightarrow> unat (active_connections (nodes s n)) =
       card {f. backend_connections s f = Some n \<and> map_option conn_state (conn_at s f) = Some ESTABLISHED})"
proof -
  have "sound [] s"
    using lb_steps_sound [OF assms(5,1) initialize_from_config_sound [OF assms(1-4)]] .
  then have inv: "lb_inv [] s" "table_states_ok s" "counters_exact s" "wired s" "pool_manager s = None"
    by (simp_all add: sound_def lb_good_def)
  have "dom (conn_heap s) = snd ` set (connections s)"
    using lb_inv_heap [OF inv(1)] inv(5) by (simp add: heap_inv_def owned_def pooled_ids_def)
  moreover have "\<exists>c. conn_heap s i = Some c \<and> conn_fd c = f \<and> f \<in> open_fds s \<and> conn_state c \<noteq> CLOSED"
    if g: "get_connection f s = Some i" for f i
  proof -
    obtain c where c: "conn_heap s i = Some c" "conn_fd c = f" using get_connection_live [OF inv(1) g] .
    then show ?thesis
      using heap_inv_live(2) [OF lb_inv_heap [OF inv(1)] c(1)] inv(2) get_connection_in [OF g] by (auto simp: table_states_ok_def)
  qed
  moreover have "\<exists>d. conn_heap s j = Some d \<and> peer d = Some i \<and> get_connection (conn_fd d) s = Some j"
    if "conn_heap s i = Some c \<and> peer c = Some j" for i c j
    using peer_entry [OF inv(1)] that by metis
  moreover have "peer_fd s f = Some g" if "backend_to_client_map s f = Some g" for f g
    using wiredE [OF inv(4) that] peer_fd_of(1) [OF inv(1)] by metis
  ultimately show ?thesis using inv(3) unfolding counters_exact_def est_fds_def by blast
qed

subsection \<open>An example\<close>

text \<open>A kernel with five descriptors on which one client arrives, and a configuration with one backend.\<close>

definition small_fd :: "fd set \<Rightarrow> fd" where
  "small_fd F = (case find (\<lambda>f. f \<notin> F) [3, 4, 5, 6, 7] of None \<Rightarrow> - 1 | Some f \<Rightarrow> f)"

definition one_client_kernel :: kernel where
  "one_client_kernel =
     example_kernel\<lparr>k_socket := (\<lambda>_ F. small_fd F), k_accept := (\<lambda>n F. if n < 6 then small_fd F else - 1)\<rparr>"

definition example_config :: Config where
  "example_config = default_config\<lparr>connection_pool_enabled := False,
     cfg_backends := [\<lparr>bc_host = ''10.0.0.1'', bc_port = 8080, bc_weight = 1\<rparr>]\<rparr>"

definition example_start :: lb_state where
  "example_start = snd (initialize_from_config one_client_kernel example_config (new_load_balancer\<lparr>config_manager := None\<rparr>))"

lemma small_fd_new: "0 \<le> small_fd F \<Longrightarrow> small_fd F \<notin> F \<and> small_fd F < MAX_FD"
  by (auto simp: small_fd_def MAX_FD_def find_Some_iff split: option.splits if_splits)

lemma one_client_kernel_fresh: "kernel_fresh one_client_kernel"
  using example_kernel_fresh small_fd_new by (auto simp: kernel_fresh_def one_client_kernel_def split: if_splits)

lemma one_client_kernel_sel:
  "k_now one_client_kernel n = int n * 1000000" "k_socket one_client_kernel n F = small_fd F"
  "k_accept one_client_kernel n F = (if n < 6 then small_fd F else - 1)" "k_resolves one_client_kernel n"
  "k_connect one_client_kernel n = ConnectDone" "k_client_ip one_client_kernel n = ''192.0.2.7''"
  "k_reuseaddr one_client_kernel n" "k_address one_client_kernel n h" "k_bind one_client_kernel n" "k_listen one_client_kernel n"
  by (simp_all add: one_client_kernel_def example_kernel_def)

lemmas start_defs = example_start_def initialize_from_config_def initialize_def tcp_bind_def ask_def one_client_kernel_sel
  new_load_balancer_def configure_health_def hc_configure_def example_config_def default_config_def small_fd_def
  sys_open_def sys_close_def add_fd_def hc_start_def new_settings_def initial_settings_def apply_settings_def budget_limit_def
  initialize_splice_def initialize_tls_def add_backend_def find_backend_def new_pool_def new_health_checker_def
  pool_add_backend_def hc_add_backend_def

lemmas accept_defs = accept_fd_def admit_client_def get_config_def is_ip_allowed_def check_rate_limit_def is_exceeded_def
  set_limit_mb_def set_limit_bytes_def new_budget_def count_active_client_connections_def start_client_def
  make_connection_def attach_memory_accounting_def with_conn_def put_conn_def upd_metrics_def set_memory_accounting_def
  new_connection_def set_conn_state_def get_session_key_def

lemmas connect_defs = connect_once_def sticky_hint_def uses_sessions_def select_backend_def sticky_choice_def eligible_def
  new_backend_node_def select_weighted_round_robin_def below_cap_def Let_def remember_session_def borrow_backend_def
  connect_new_def count_failure_def link_peers_def count_routed_def register_pair_def table_put_def get_connection_def
  backend_selected_def upd_nodes_def upd_node_def set_peer_def

lemma example_started:
  "initialize_from_config one_client_kernel example_config (new_load_balancer\<lparr>config_manager := None\<rparr>) = (True, example_start)"
  by (simp add: start_defs)

lemma example_accepted:
  "\<exists>s. handle_accept one_client_kernel example_start = Some s \<and> map fst (connections s) = [4, 5] \<and>
    active_connections (nodes s 0) = 1 \<and> node_alive s 0"
  apply (subst handle_accept.simps)
  apply (simp add: start_defs accept_defs)
  apply (subst connect.simps)
  apply (simp add: start_defs accept_defs connect_defs)
  apply (subst handle_accept.simps)
  apply (simp add: start_defs accept_defs increment_connections_def node_alive_def)
  done

lemma notify_unwanted: "notify k False f type s = Some s"
  by (simp add: notify_def split: option.splits)

lemma dispatch_accept:
  "callbacks s l = Some AcceptHandler \<Longrightarrow> dispatch k \<lparr>re_fd = l, re_error = False, re_in = True, re_out = False\<rparr> s = handle_accept k s"
  by (simp add: dispatch_def notify_unwanted notify_def [of k True] run_callback_def)

lemma example_listens: "callbacks example_start 3 = Some AcceptHandler"
  by (simp add: start_defs)

theorem reachable_states_consistent_witness:
  "\<exists>s. (lb_step one_client_kernel ynode_api)\<^sup>*\<^sup>* example_start s \<and> map fst (connections s) = [4, 5] \<and>
     card {f. backend_connections s f = Some 0 \<and> map_option conn_state (conn_at s f) = Some ESTABLISHED} = 1"
proof -
  obtain s where s: "handle_accept one_client_kernel example_start = Some s" "map fst (connections s) = [4, 5]"
    "active_connections (nodes s 0) = 1" "node_alive s 0" using example_accepted by (elim exE conjE)
  then have step: "(lb_step one_client_kernel ynode_api)\<^sup>*\<^sup>* example_start s" using step_event dispatch_accept [OF example_listens] by (metis r_into_rtranclp)
  have "plain_config example_config" by (simp add: plain_config_def example_config_def default_config_def)
  moreover have "\<forall>m. None = Some m \<longrightarrow> \<not> queue_enabled (config m)" by simp
  ultimately have "node_alive s 0 \<longrightarrow> unat (active_connections (nodes s 0)) =
      card {f. backend_connections s f = Some 0 \<and> map_option conn_state (conn_at s f) = Some ESTABLISHED}"
    using reachable_states_consistent [OF one_client_kernel_fresh _ _ example_started step] by blast
  with s(3,4) have "card {f. backend_connections s f = Some 0 \<and> map_option conn_state (conn_at s f) = Some ESTABLISHED} = 1"
    by (simp only: simp_thms unat_1)
  with step s(2) show ?thesis by (intro exI conjI)
qed

end
