(* ===== verification/Http_Forwarding.thy ===== *)
theory Http_Forwarding
  imports Http_Data_Forwarder
begin

text \<open>
  Properties of \<^verbatim>\<open>core/http_data_forwarder.cpp\<close>: what a complete request becomes in the read buffer,
  and which requests are answered with an error page.
\<close>

section \<open>Printed requests are recognised\<close>

lemma is_http_request_printed:
  assumes "http_method r \<noteq> UNKNOWN_METHOD"
  shows "is_http_request (serialize_http_request r @ rest)"
  using assms by (cases "http_method r") (simp_all add: is_http_request_def serialize_http_request_def)

definition client_name :: "kernel \<Rightarrow> fd \<Rightarrow> lb_state \<Rightarrow> string" where
  "client_name k f s = (if fst (peer_address k f s) = [] then ''unknown'' else fst (peer_address k f s))"

definition rewritten :: "HttpForwarder \<Rightarrow> string \<Rightarrow> HttpRequest \<Rightarrow> HttpRequest" where
  "rewritten w ip r =
     (case fw_request_headers w of
        None \<Rightarrow> modify_request_headers ip (fw_is_https w) r
      | Some (adds, removes) \<Rightarrow> apply_custom_request_headers adds removes (modify_request_headers ip (fw_is_https w) r))"

lemma http_states_frame [simp]:
  "http_states (put_conn i c s) = http_states s" "http_states (mod_fd f ev s) = http_states s"
  "http_states (start_backpressure k f s) = http_states s"
  by (simp_all add: put_conn_def mod_fd_def start_backpressure_def ask_def upd_metrics_def Let_def split: prod.splits)

lemma replace_read_buffer_result:
  assumes "conn_heap s i = Some c"
  shows "\<exists>ok s' c'. replace_read_buffer k i modified s = Some (ok, s') \<and> conn_heap s' i = Some c' \<and> http_states s' = http_states s \<and>
    (if ok then read_buf c' = modified else read_buf c' = read_buf c \<and> accounted c \<and> memory_blocked c') \<and>
    write_buf c' = write_buf c"
proof (cases "length modified > length (read_buf c)")
  case True
  obtain ok c1 m where r: "try_reserve_additional_bytes reserve_bytes (length modified - length (read_buf c)) c (mem s) = (ok, c1, m)"
    by (metis prod.exhaust)
  have c1: "read_buf c1 = read_buf c" "write_buf c1 = write_buf c" "\<not> ok \<longrightarrow> accounted c \<and> memory_blocked c1"
    using r by (auto simp: try_reserve_additional_bytes_def split: if_splits prod.splits bool.splits)
  show ?thesis using assms True r c1 by (cases ok) (auto simp: replace_read_buffer_def Let_def)
next
  case False
  obtain c1 m where r: "release_accounted_bytes release_bytes (length (read_buf c) - length modified) c (mem s) = (c1, m)" by fastforce
  have "write_buf c1 = write_buf c" using r by (auto simp: release_accounted_bytes_def split: if_splits)
  then show ?thesis using assms False r by (auto simp: replace_read_buffer_def Let_def)
qed

lemma peer_address_frame [simp]:
  "conn_heap (snd (peer_address k f s)) = conn_heap s" "http_states (snd (peer_address k f s)) = http_states s"
  by (simp_all add: peer_address_def ask_def)

lemma update_session_key_frame [simp]:
  "conn_heap (update_session_key w f r s) = conn_heap s" "http_states (update_session_key w f r s) = http_states s"
  by (auto simp: update_session_key_def Let_def split: option.splits)

text \<open>A request whose parser has finished is rewritten, whatever was parsed.\<close>

lemma parse_and_modify_parsed:
  assumes c: "conn_heap s i = Some c" and http: "is_http_request (read_buf c)"
    and parsed: "parse_request (read_buf c) (req_parser (http_state_of f s)) = (True, consumed, p)"
  shows "\<exists>ok s' c' h. parse_and_modify_http_request k w i f s = Some (ok, s') \<and> conn_heap s' i = Some c' \<and>
    http_states s' = (http_states s)(f \<mapsto> h) \<and> request_parsed h = request_parsed (http_state_of f s) \<and>
    req_parser h = p\<lparr>message := rewritten w (client_name k f s) (message p)\<rparr> \<and>
    (if ok then read_buf c' = serialize_http_request (rewritten w (client_name k f s) (message p))
     else read_buf c' = read_buf c \<and> accounted c \<and> memory_blocked c') \<and>
    write_buf c' = write_buf c"
proof -
  define ip s1 where "ip = fst (peer_address k f s)" and "s1 = snd (peer_address k f s)"
  define s2 where "s2 = s1\<lparr>steps := steps s1 + 1\<rparr>"
  let ?h = "http_state_of f s" and ?r2 = "rewritten w (client_name k f s) (message p)"
  define ri where "ri = (request_info ?h)\<lparr>ri_method := method_to_string (http_method (message p)),
    ri_path := path (message p) @ (if query_string (message p) \<noteq> [] then ''?'' @ query_string (message p) else []),
    ri_client_ip := client_name k f s, ri_start_time := k_system_now k (steps s1)\<rparr>"
  define s4 where "s4 = put_http_state f (?h\<lparr>req_parser := p\<lparr>message := ?r2\<rparr>, request_info := ri\<rparr>) (update_session_key w f ?r2 s2)"
  have s4: "conn_heap s4 i = Some c" "http_states s4 = (http_states s)(f \<mapsto> ?h\<lparr>req_parser := p\<lparr>message := ?r2\<rparr>, request_info := ri\<rparr>)"
    using c by (simp_all add: s4_def s2_def s1_def put_http_state_def)
  have run: "parse_and_modify_http_request k w i f s = replace_read_buffer k i (serialize_http_request ?r2) s4"
    using c http parsed
    by (simp add: parse_and_modify_http_request_def split_beta Let_def ask_def s4_def s2_def s1_def ri_def rewritten_def client_name_def
      cong: option.case_cong)
  obtain ok s' c' where "replace_read_buffer k i (serialize_http_request ?r2) s4 = Some (ok, s')" "conn_heap s' i = Some c'"
    "http_states s' = http_states s4" "if ok then read_buf c' = serialize_http_request ?r2 else read_buf c' = read_buf c \<and> accounted c \<and> memory_blocked c'"
    "write_buf c' = write_buf c"
    using replace_read_buffer_result [OF s4(1)] by blast
  with run s4(2) show ?thesis by fastforce
qed

section \<open>Parsers that have finished have not failed\<close>

lemma parse_request_line_error: "parse_request_line line p = (True, p') \<Longrightarrow> has_error p' = has_error p"
  by (auto simp: parse_request_line_def Let_def split: option.splits)

lemma parse_header_error: "parse_header put line p = (True, p') \<Longrightarrow> has_error p' = has_error p"
  by (auto simp: parse_header_def Let_def split: option.splits if_splits)

lemma http_loop_error:
  "http_loop parse_request_line put rest pos p = Inr (p', n) \<Longrightarrow> has_error p' = has_error p"
proof (induction "length rest" arbitrary: rest pos p rule: less_induct)
  case less
  show ?case
  proof (cases "pstate p = FIRST_LINE \<or> pstate p = HEADERS")
    case False
    then show ?thesis using less.prems http_loop_stop [of p parse_request_line put rest pos] by simp
  next
    case lines: True
    show ?thesis
    proof (cases "next_line rest")
      case None
      then show ?thesis using less.prems http_loop_more [OF lines None, of parse_request_line put pos] by simp
    next
      case (Some lr)
      then obtain line rest' where nl: "next_line rest = Some (line, rest')" by (cases lr) simp
      note IH = less.hyps [OF next_line_shorter [OF nl]]
      obtain ok q where first: "parse_request_line line p = (ok, q)" by fastforce
      obtain ok' q' where header: "parse_header put line p = (ok', q')" by fastforce
      consider "pstate p = FIRST_LINE" | "pstate p = HEADERS" "line = []" | "pstate p = HEADERS" "line \<noteq> []" using lines by blast
      then show ?thesis
      proof cases
        case 1
        then show ?thesis
          using less.prems http_loop_first [where first = parse_request_line, OF 1 nl first, of put pos] IH parse_request_line_error first
          by (fastforce split: if_splits)
      next
        case 2
        then show ?thesis using less.prems http_loop_blank [of p rest rest' parse_request_line put pos] nl by auto
      next
        case 3
        then show ?thesis
          using less.prems http_loop_header [OF 3(1) nl 3(2) header, where first = parse_request_line and pos = pos] IH parse_header_error header
          by (fastforce split: if_splits)
      qed
    qed
  qed
qed

lemma parse_request_no_error: "parse_request b p = (True, n, p') \<Longrightarrow> \<not> has_error p'"
  using http_loop_error [of put_req_header b 0 p]
  by (auto simp: parse_request_def parse_request_body_def Let_def split: if_splits sum.splits prod.splits)

text \<open>Every stored parser that counts as finished is without an error.\<close>

definition parsers_ok :: "lb_state \<Rightarrow> bool" where
  "parsers_ok s \<longleftrightarrow> (\<forall>f h. http_states s f = Some h \<and> request_parsed h \<longrightarrow> \<not> has_error (req_parser h))"

lemma parsers_ok_put: "parsers_ok s \<Longrightarrow> (request_parsed h \<longrightarrow> \<not> has_error (req_parser h)) \<Longrightarrow> parsers_ok (put_http_state f h s)"
  by (auto simp: parsers_ok_def put_http_state_def)

lemma parsers_ok_frame: "http_states s' = http_states s \<Longrightarrow> parsers_ok s' = parsers_ok s"
  by (simp add: parsers_ok_def)

lemma http_state_of_ok: "parsers_ok s \<Longrightarrow> request_parsed (http_state_of f s) \<Longrightarrow> \<not> has_error (req_parser (http_state_of f s))"
  by (auto simp: parsers_ok_def http_state_of_def new_http_state_def split: option.splits)

lemma prepare_request_ok:
  assumes ok: "parsers_ok s" and run: "prepare_request k w i f s = Some (ready, s1)"
  shows "parsers_ok s1" and "ready \<Longrightarrow> \<not> has_error (req_parser (http_state_of f s1))"
proof -
  define t where "t = put_http_state f (http_state_of f s) s"
  have t: "parsers_ok t" "http_state_of f t = http_state_of f s"
    using parsers_ok_put [OF ok] http_state_of_ok [OF ok] by (auto simp: t_def http_state_of_def put_http_state_def)
  have "parsers_ok s1 \<and> (ready \<longrightarrow> \<not> has_error (req_parser (http_state_of f s1)))"
  proof (cases "request_parsed (http_state_of f t)")
    case True
    then have "s1 = t" using run by (simp add: prepare_request_def t_def [symmetric])
    then show ?thesis using t(1) http_state_of_ok [OF t(1) True] by simp
  next
    case new: False
    obtain okay s2 where p: "parse_and_modify_http_request k w i f t = Some (okay, s2)"
      and s1: "ready = okay" "s1 = (if okay then put_http_state f ((http_state_of f s2)\<lparr>request_parsed := True\<rparr>) s2 else s2)"
      using run new by (auto simp: prepare_request_def t_def [symmetric] bind_eq_Some_conv)
    obtain c where c: "conn_heap t i = Some c" using p by (auto simp: parse_and_modify_http_request_def bind_eq_Some_conv)
    obtain r n q where parse: "parse_request (read_buf c) (req_parser (http_state_of f t)) = (r, n, q)" by (metis prod.exhaust)
    show ?thesis
    proof (cases "is_http_request (read_buf c) \<and> r")
      case True
      then obtain h where h: "http_states s2 = (http_states t)(f \<mapsto> h)" "request_parsed h = request_parsed (http_state_of f t)"
        "has_error (req_parser h) = has_error q"
        using parse_and_modify_parsed [OF c, where f = f and k = k and w = w and consumed = n and p = q] parse p
        by (fastforce simp: rewritten_def)
      have q: "\<not> has_error q" using parse True parse_request_no_error by auto
      have "parsers_ok s2" using t(1) h q by (auto simp: parsers_ok_def)
      then have "parsers_ok (put_http_state f (h\<lparr>request_parsed := True\<rparr>) s2)" using parsers_ok_put q h(3) by simp
      moreover have "http_state_of f s2 = h" using h(1) by (simp add: http_state_of_def)
      moreover have "http_state_of f (put_http_state f (h\<lparr>request_parsed := True\<rparr>) s2) = h\<lparr>request_parsed := True\<rparr>"
        by (simp add: http_state_of_def put_http_state_def)
      ultimately show ?thesis using s1 q h(3) \<open>parsers_ok s2\<close> by simp
    next
      case False
      then have "\<not> okay" "s2 = t \<or> s2 = put_http_state f ((http_state_of f t)\<lparr>req_parser := q\<rparr>) t"
        using p c parse by (auto simp: parse_and_modify_http_request_def Let_def split: if_splits bool.splits)
      then show ?thesis using s1 t(1) new parsers_ok_put [OF t(1)] by auto
    qed
  qed
  then show "parsers_ok s1" "ready \<Longrightarrow> \<not> has_error (req_parser (http_state_of f s1))" by blast+
qed

section \<open>Properties\<close>

text \<open>C20: a complete request is replaced by its rewritten form. When the read buffer of a client that has
  no request in progress starts with a well-formed request, then, unless the memory budget refuses
  the extra bytes (the buffer is then untouched and the connection marked as blocked), the buffer
  holds exactly the printed request with the forwarding headers for the client's address and the
  configured header rules applied; if that request is well-formed, a parser that reads it
  from this buffer gets it back. Bytes after the request are no longer there.\<close>

theorem http_request_rewritten:
  assumes "conn_heap s i = Some c" and "read_buf c = serialize_http_request r @ rest" and "request_ok r" and "http_states s f = None"
  shows "\<exists>ok s' c'. parse_and_modify_http_request k w i f s = Some (ok, s') \<and> conn_heap s' i = Some c' \<and>
    (if ok then read_buf c' = serialize_http_request (rewritten w (client_name k f s) r)
     else read_buf c' = read_buf c \<and> accounted c \<and> memory_blocked c') \<and>
    (ok \<and> request_ok (rewritten w (client_name k f s) r) \<longrightarrow>
      (\<exists>p. parse_request (read_buf c') new_request_parser = (True, length (read_buf c'), p) \<and>
        message p = rewritten w (client_name k f s) r))"
proof -
  let ?r2 = "rewritten w (client_name k f s) r"
  have http: "is_http_request (read_buf c)" using assms(2,3) is_http_request_printed by (simp add: request_ok_def)
  have "req_parser (http_state_of f s) = new_request_parser" using assms(4) by (simp add: http_state_of_def new_http_state_def)
  then obtain p where p: "parse_request (read_buf c) (req_parser (http_state_of f s)) = (True, length (serialize_http_request r), p)"
    and msg: "message p = r"
    using parse_printed_complete [OF assms(3), of rest] assms(2) by auto
  obtain ok s' c' where run: "parse_and_modify_http_request k w i f s = Some (ok, s')" "conn_heap s' i = Some c'"
    and res: "if ok then read_buf c' = serialize_http_request ?r2 else read_buf c' = read_buf c \<and> accounted c \<and> memory_blocked c'"
    using parse_and_modify_parsed [OF assms(1) http p, of k w] msg by blast
  have "\<exists>p. parse_request (read_buf c') new_request_parser = (True, length (read_buf c'), p) \<and> message p = ?r2"
    if "ok \<and> request_ok ?r2"
    using parse_printed_complete [of ?r2 "[]"] that res by auto
  with run res show ?thesis by blast
qed

text \<open>C40: malformed requests are never answered. As long as every parser that counts as finished is
  without an error, which holds when no request is in progress, \<open>forward\<close> never takes its branch that
  sends a 400 page: whenever it goes on to that test after looking at a request, the parser has no
  error, and the condition on the stored parsers holds again. (A request the parser rejects makes
  it return before the test, now and for every later byte of this client.)\<close>

theorem bad_request_page_unreachable:
  assumes "parsers_ok s" and "prepare_request k w i f s = Some (ready, s1)"
  shows "parsers_ok s1 \<and> (ready \<longrightarrow> \<not> has_error (req_parser (http_state_of f s1))) \<and>
    (has_error (req_parser (http_state_of f s)) \<and> \<not> request_parsed (http_state_of f s) \<longrightarrow> \<not> ready)"
proof -
  have "\<not> ready" if err: "has_error (req_parser (http_state_of f s))" and np: "\<not> request_parsed (http_state_of f s)"
  proof -
    let ?t = "put_http_state f (http_state_of f s) s"
    have t: "http_state_of f ?t = http_state_of f s" by (simp add: http_state_of_def put_http_state_def)
    obtain s2 where p: "parse_and_modify_http_request k w i f ?t = Some (ready, s2)"
      using assms(2) np t by (auto simp: prepare_request_def bind_eq_Some_conv)
    then show ?thesis using err t by (auto simp: parse_and_modify_http_request_def bind_eq_Some_conv parse_request_def Let_def split: if_splits)
  qed
  then show ?thesis using prepare_request_ok [OF assms] by blast
qed

definition example_http :: lb_state where
  "example_http = put_conn 0 ((new_connection 10)\<lparr>read_buf := serialize_http_request example_request @ ''GET ''\<rparr>) new_load_balancer"

definition example_forwarder :: HttpForwarder where
  "example_forwarder = \<lparr>fw_is_https = False, fw_request_headers = None, fw_response_headers = None,
     fw_session_cookie = None, fw_cookie_injection = None\<rparr>"

theorem http_request_rewritten_witness:
  "\<exists>s' c'. parse_and_modify_http_request example_kernel example_forwarder 0 10 example_http = Some (True, s') \<and>
     conn_heap s' 0 = Some c' \<and>
     read_buf c' = serialize_http_request (modify_request_headers ''unknown'' False example_request)"
proof -
  let ?c = "(new_connection 10)\<lparr>read_buf := serialize_http_request example_request @ ''GET ''\<rparr>"
  have c: "conn_heap example_http 0 = Some ?c" and h: "http_states example_http 10 = None"
    by (simp_all add: example_http_def new_load_balancer_def)
  have name: "rewritten example_forwarder (client_name example_kernel 10 example_http) example_request =
      modify_request_headers ''unknown'' False example_request"
    by (simp add: rewritten_def example_forwarder_def client_name_def peer_address_def example_http_def get_connection_def
      new_load_balancer_def put_conn_def)
  have full: "read_buf ?c = serialize_http_request example_request @ ''GET ''" by simp
  obtain ok s' c' where "parse_and_modify_http_request example_kernel example_forwarder 0 10 example_http = Some (ok, s')"
    "conn_heap s' 0 = Some c'"
    "if ok then read_buf c' = serialize_http_request (modify_request_headers ''unknown'' False example_request)
     else read_buf c' = read_buf ?c \<and> accounted ?c \<and> memory_blocked c'"
    using http_request_rewritten [OF c full example_request_ok h, of example_kernel example_forwarder, unfolded name] by blast
  moreover have "\<not> accounted ?c" by (simp add: new_connection_def)
  ultimately show ?thesis by (cases ok) auto
qed

theorem bad_request_page_unreachable_witness:
  "\<exists>ready s1. prepare_request example_kernel example_forwarder 0 10 example_http = Some (ready, s1) \<and>
     \<not> (ready \<and> has_error (req_parser (http_state_of 10 s1)))"
proof -
  have ok: "parsers_ok example_http" by (simp add: parsers_ok_def example_http_def new_load_balancer_def)
  have "conn_heap example_http 0 \<noteq> None" by (simp add: example_http_def)
  then obtain c where c: "conn_heap (put_http_state 10 (http_state_of 10 example_http) example_http) 0 = Some c"
    by (auto simp: put_http_state_def)
  obtain ready s1 where "prepare_request example_kernel example_forwarder 0 10 example_http = Some (ready, s1)"
  proof -
    let ?t = "put_http_state 10 (http_state_of 10 example_http) example_http"
    obtain r n q where parse: "parse_request (read_buf c) (req_parser (http_state_of 10 ?t)) = (r, n, q)" by (metis prod.exhaust)
    have "\<exists>okay s2. parse_and_modify_http_request example_kernel example_forwarder 0 10 ?t = Some (okay, s2)"
    proof (cases "is_http_request (read_buf c) \<and> r")
      case True
      then have r: "is_http_request (read_buf c)" "parse_request (read_buf c) (req_parser (http_state_of 10 ?t)) = (True, n, q)"
        using parse by simp_all
      show ?thesis using parse_and_modify_parsed [OF c r] by blast
    next
      case False
      then show ?thesis using c parse by (auto simp: parse_and_modify_http_request_def Let_def split: bool.splits)
    qed
    then obtain okay s2 where "parse_and_modify_http_request example_kernel example_forwarder 0 10 ?t = Some (okay, s2)" by blast
    then show ?thesis using that unfolding prepare_request_def Let_def by (cases "request_parsed (http_state_of 10 ?t)") simp_all
  qed
  with bad_request_page_unreachable [OF ok this] show ?thesis by blast
qed

end
