(* ===== verification/Splice_Safety.thy ===== *)
theory Splice_Safety
  imports Splice_Forwarder Connection_Wiring
begin

text \<open>
  Properties of \<^verbatim>\<open>core/splice_forwarder.cpp\<close>: the keys of the table of pipes, the bound on the bytes
  pending in a pipe through every branch of \<open>forward\<close>, and what closing a connection through the
  connection manager leaves behind in the table.
\<close>

section \<open>Pipes and closing\<close>

lemma close_connection_static:
  assumes run: "close_connection k f s = Some s'"
  shows "static s' = static s"
proof (cases "get_connection f s")
  case None
  then show ?thesis using run by (simp add: close_connection_def)
next
  case (Some i)
  then obtain c where c: "conn_heap s i = Some c" using run by (auto simp: close_connection_def bind_eq_Some_conv)
  have step: "tame a b \<Longrightarrow> static b = static a" for a b by (simp add: tame_def)
  show ?thesis
  proof (cases "conn_state c = CLOSED")
    case True
    then have "table_erase f (forget_fd f (s\<lparr>backend_connections := erase_key (backend_connections s) f\<rparr>)) = Some s'"
      using run Some c by (simp add: close_connection_def)
    then show ?thesis using step [OF table_erase_tame] step [OF forget_fd_tame] by fastforce
  next
    case False
    define b where "b = (backend_connections s f = None)"
    define s3 where "s3 = upd_metrics (add_bytes_out (of_nat (bytes_written c)))
        (upd_metrics (add_bytes_in (of_nat (bytes_read c)))
          (put_conn i (set_conn_state CLOSED c) (drop_backend_slot f (conn_state c = ESTABLISHED) s)))"
    define s5 where "s5 = forget_fd f (if b then upd_metrics decrement_connections_active (log_unfinished_request k f c s3) else s3)"
    define s6 where "s6 = s5\<lparr>backend_to_client_map := erase_where (\<lambda>g. g = f) (backend_to_client_map s5)\<rparr>"
    have "(do { s7 \<leftarrow> (case peer c of None \<Rightarrow> Some s6 | Some j \<Rightarrow> close_peer k b i j s6);
        s8 \<leftarrow> conn_close i (del_fd f s7); table_erase f s8 }) = Some s'"
      using run Some c False unfolding close_connection_def Let_def b_def s3_def s5_def s6_def by simp
    then obtain s7 s8 where s7: "(case peer c of None \<Rightarrow> Some s6 | Some j \<Rightarrow> close_peer k b i j s6) = Some s7"
      and s8: "conn_close i (del_fd f s7) = Some s8" "table_erase f s8 = Some s'"
      unfolding bind_eq_Some_conv by blast
    have "static s6 = static s"
      using step [OF drop_slot_tame] step [OF forget_fd_tame] step [OF log_unfinished_tame] by (simp add: s6_def s5_def s3_def)
    moreover have "static s7 = static s6" using s7 step [OF close_peer_tame] by (auto split: option.splits)
    moreover have "static s' = static s7"
      using step [OF table_erase_tame [OF s8(2)]] step [OF conn_close_tame [OF s8(1)]] by simp
    ultimately show ?thesis by simp
  qed
qed

lemma close_connection_pipes: "close_connection k f s = Some s' \<Longrightarrow> splice_pipes s' = splice_pipes s"
  using close_connection_static by (auto simp: static_def)

section \<open>The contents of the pipes\<close>

text \<open>Every entry has the two ends of a pipe and never more pending bytes than fit into one.\<close>

definition pipe_ok :: "PipePair \<Rightarrow> bool" where
  "pipe_ok p \<longleftrightarrow> pipe_pending p \<le> MAX_PIPE_SIZE"

definition pipes_ok :: "lb_state \<Rightarrow> bool" where
  "pipes_ok s \<longleftrightarrow> (\<forall>p \<in> snd ` set (pipes_of s). pipe_ok p)"

lemma pipes_ok_frame: "splice_pipes s' = splice_pipes s \<Longrightarrow> pipes_ok s \<Longrightarrow> pipes_ok s'"
  by (simp add: pipes_ok_def pipes_of_def)

lemma set_alist_update: "snd ` set (AList.update key v al) \<subseteq> insert v (snd ` set al)"
  by (induction al) auto

lemma pipes_ok_put: "pipes_ok s \<Longrightarrow> pipe_ok p \<Longrightarrow> pipes_ok (put_pipe key p s)"
proof (cases "splice_pipes s")
  case (Some al)
  then have "pipes_of (put_pipe key p s) = AList.update key p al" "pipes_of s = al" by (simp_all add: pipes_of_def put_pipe_def)
  then show "pipes_ok s \<Longrightarrow> pipe_ok p \<Longrightarrow> ?thesis" using set_alist_update [of key p al] unfolding pipes_ok_def by (metis insert_iff subsetD)
qed (simp add: pipes_ok_def pipes_of_def put_pipe_def)

lemma get_or_create_pipe_ok:
  assumes "pipes_ok s" and "get_or_create_pipe k a b s = (r, s')"
  shows "pipes_ok s'" and "\<forall>p. r = Some p \<longrightarrow> pipe_ok p"
proof -
  have *: "pipes_ok s' \<and> (\<forall>p. r = Some p \<longrightarrow> pipe_ok p)"
  proof (cases "map_of (pipes_of s) (a, b)")
    case (Some p)
    then have "p \<in> snd ` set (pipes_of s)" by (force dest: map_of_SomeD)
    then show ?thesis using assms Some by (auto simp: get_or_create_pipe_def pipes_ok_def)
  next
    case None
    have "pipes_ok (sys_open x (sys_open y (s\<lparr>steps := n\<rparr>)))" "pipes_ok (s\<lparr>steps := n\<rparr>)" for x y n
      by (rule pipes_ok_frame [OF _ assms(1)]; simp add: sys_open_def)+
    then show ?thesis using assms(2) None
      by (cases "k_pipe k (steps s) (open_fds s)")
         (auto simp: get_or_create_pipe_def ask_def pipe_ok_def Let_def intro!: pipes_ok_put)
  qed
  then show "pipes_ok s'" "\<forall>p. r = Some p \<longrightarrow> pipe_ok p" by blast+
qed

lemma splice_io:
  "snd (splice_in k p s) = s \<or> snd (splice_in k p s) = s\<lparr>steps := steps s + 1\<rparr>"
  "snd (splice_out k p s) = s \<or> snd (splice_out k p s) = s\<lparr>steps := steps s + 1\<rparr>"
  by (auto simp: splice_in_def splice_out_def ask_def Let_def split: io_write.splits)

text \<open>The pipe gives out at most what is in it and takes in at most what fits, so neither update wraps.\<close>

lemma splice_out_le: "fst (splice_out k p s) \<le> uint (pipe_pending p)"
proof -
  have "unat (min (pipe_pending p) SPLICE_CHUNK_SIZE) \<le> unat (pipe_pending p)" by (simp add: word_le_nat_alt [symmetric])
  then have "int (min n (unat (min (pipe_pending p) SPLICE_CHUNK_SIZE))) \<le> uint (pipe_pending p)" for n
    using uint_nat [of "pipe_pending p"] by linarith
  then show ?thesis by (auto simp: splice_out_def ask_def Let_def intro: order_trans [of _ 0] split: io_write.splits)
qed

lemma splice_in_le: "pipe_ok p \<Longrightarrow> uint (pipe_pending p) + fst (splice_in k p s) \<le> uint MAX_PIPE_SIZE"
proof (cases "pipe_pending p \<ge> MAX_PIPE_SIZE")
  case False
  define room where "room = min SPLICE_CHUNK_SIZE (MAX_PIPE_SIZE - pipe_pending p)"
  have "unat room \<le> unat (MAX_PIPE_SIZE - pipe_pending p)" by (simp add: room_def word_le_nat_alt [symmetric])
  also have "\<dots> = unat MAX_PIPE_SIZE - unat (pipe_pending p)" using False by (simp add: unat_sub)
  finally have fits: "uint (pipe_pending p) + int (min n (unat room)) \<le> uint MAX_PIPE_SIZE" for n
    using False uint_nat [of "pipe_pending p"] uint_nat [of MAX_PIPE_SIZE] unfolding word_le_nat_alt by linarith
  from fits [of 0] have "uint (pipe_pending p) - 1 \<le> uint MAX_PIPE_SIZE" "uint (pipe_pending p) - 2 \<le> uint MAX_PIPE_SIZE" by simp_all
  then show ?thesis using False fits
    by (auto simp: splice_in_def ask_def Let_def room_def [symmetric] split: io_write.splits)
qed (simp add: splice_in_def pipe_ok_def word_le_def)

lemma pending_added:
  assumes "0 \<le> n" and "uint (pipe_pending p) + n \<le> uint MAX_PIPE_SIZE"
  shows "uint (pipe_pending p + of_int n) = uint (pipe_pending p) + n" and "pipe_ok (p\<lparr>pipe_pending := pipe_pending p + of_int n\<rparr>)"
proof -
  have "uint (pipe_pending p) + n < 2 ^ 64" using assms(2) by (simp add: MAX_PIPE_SIZE_def)
  with assms(1) show eq: "uint (pipe_pending p + of_int n) = uint (pipe_pending p) + n" by (rule uint_plus_no_wrap)
  show "pipe_ok (p\<lparr>pipe_pending := pipe_pending p + of_int n\<rparr>)" using eq assms(2) by (simp add: pipe_ok_def word_le_def)
qed

lemma pending_removed:
  assumes "0 \<le> n" and "n \<le> uint (pipe_pending p)" and "pipe_ok p"
  shows "uint (pipe_pending p - of_int n) = uint (pipe_pending p) - n" and "pipe_ok (p\<lparr>pipe_pending := pipe_pending p - of_int n\<rparr>)"
proof -
  from assms(1,2) show eq: "uint (pipe_pending p - of_int n) = uint (pipe_pending p) - n" by (rule uint_minus_no_wrap)
  show "pipe_ok (p\<lparr>pipe_pending := pipe_pending p - of_int n\<rparr>)" using eq assms by (simp add: pipe_ok_def word_le_def)
qed

lemma close_pipes_ok: "close_connection k f s = Some s' \<Longrightarrow> pipes_ok s \<Longrightarrow> pipes_ok s'"
  using close_connection_pipes pipes_ok_frame by blast

lemma flow_pipes [simp]:
  "splice_pipes (mod_fd f ev s) = splice_pipes s" "splice_pipes (start_backpressure k f s) = splice_pipes s"
  "splice_pipes (clear_backpressure f s) = splice_pipes s" "splice_pipes (s\<lparr>steps := n\<rparr>) = splice_pipes s"
  by (simp_all add: mod_fd_def start_backpressure_def clear_backpressure_def ask_def upd_metrics_def Let_def split: prod.splits)

lemma splice_refill_ok:
  assumes ok: "pipes_ok s" "pipe_ok p" and run: "splice_refill k a b p s = Some s'"
  shows "pipes_ok s'"
proof -
  obtain got s1 where i: "splice_in k p s = (got, s1)" by fastforce
  have s1: "pipes_ok s1" using splice_io(1) [of k p s] i ok(1) by (auto intro: pipes_ok_frame)
  have got: "got = - 1 \<or> got = - 2 \<or> 0 \<le> got" "uint (pipe_pending p) + got \<le> uint MAX_PIPE_SIZE"
    using splice_in_le [OF ok(2), of k s] i by (auto simp: splice_in_def ask_def Let_def split: if_splits io_write.splits)
  show ?thesis
  proof (cases "got = - 1 \<or> got = - 2 \<or> got = 0")
    case True
    then show ?thesis using run i s1 close_pipes_ok [of k a s1 s'] by (auto simp: splice_refill_def)
  next
    case False
    let ?p1 = "p\<lparr>pipe_pending := pipe_pending p + of_int got\<rparr>"
    let ?s2 = "put_pipe (a, b) ?p1 s1"
    have p1: "pipe_ok ?p1" using False got by (intro pending_added(2)) auto
    obtain out s3 where o: "splice_out k ?p1 ?s2 = (out, s3)" by fastforce
    have "s3 = ?s2 \<or> s3 = ?s2\<lparr>steps := steps ?s2 + 1\<rparr>" using splice_io(2) [of k ?p1 ?s2] o by simp
    moreover have "pipes_ok (?s2\<lparr>steps := steps ?s2 + 1\<rparr>)"
      by (rule pipes_ok_frame [of _ ?s2]) (simp, rule pipes_ok_put [OF s1 p1])
    moreover have "pipes_ok ?s2" by (rule pipes_ok_put [OF s1 p1])
    ultimately have s3: "pipes_ok s3" by metis
    let ?p2 = "?p1\<lparr>pipe_pending := pipe_pending ?p1 - of_int out\<rparr>"
    show ?thesis
    proof (cases "out < 0")
      case True
      then have "close_connection k b s3 = Some s'" using run i o False by (simp add: splice_refill_def Let_def)
      then show ?thesis using close_pipes_ok s3 by blast
    next
      case no_err: False
      have p2: "pipe_ok ?p2" using no_err splice_out_le [of k ?p1 ?s2] o p1 by (intro pending_removed(2)) auto
      let ?s4 = "put_pipe (a, b) ?p2 s3"
      have "s' = (if pipe_pending ?p2 > 0 then mod_fd b EPOLLINOUT (start_backpressure k a ?s4) else clear_backpressure a ?s4)"
        using run i o False no_err by (simp add: splice_refill_def Let_def split: if_splits)
      then have "splice_pipes s' = splice_pipes ?s4" by simp
      then show ?thesis using pipes_ok_frame pipes_ok_put [OF s3 p2] by blast
    qed
  qed
qed

lemma forward_with_buffers_pipes:
  assumes run: "forward_with_buffers k i j s = Some s'"
  shows "splice_pipes s' = splice_pipes s"
proof -
  obtain c d where c: "conn_heap s i = Some c" "conn_heap s j = Some d"
    using run by (auto simp: forward_with_buffers_def bind_eq_Some_conv)
  show ?thesis
  proof (cases "read_buf c = [] \<or> min (length (read_buf c)) (write_available d) = 0")
    case True
    then show ?thesis using run c by (auto simp: forward_with_buffers_def Let_def split: if_splits)
  next
    case False
    define n where "n = min (length (read_buf c)) (write_available d)"
    have rb: "read_buf c \<noteq> []" and n: "n \<noteq> 0" using False by (auto simp: n_def)
    obtain c1 d1 where tr: "transfer n c d = (c1, d1)" by fastforce
    define s1 where "s1 = put_conn j d1 (put_conn i c1 s)"
    define s3 where "s3 = mod_fd (conn_fd c1) EPOLLINOUT (mod_fd (conn_fd d1) EPOLLINOUT
      (if write_buf d1 \<noteq> [] then start_backpressure k (conn_fd c1) s1 else clear_backpressure (conn_fd c1) s1))"
    have s3: "splice_pipes s3 = splice_pipes s" by (simp_all add: s3_def s1_def put_conn_def)
    obtain w s4 where w: "conn_write k j s3 = Some (w, s4)"
      and r: "(if \<not> w then close_connection k (conn_fd d1) s4
         else do {
           d2 \<leftarrow> conn_heap s4 j;
           Some (if write_buf d2 \<noteq> [] then start_backpressure k (conn_fd c1) s4 else clear_backpressure (conn_fd c1) s4)
         }) = Some s'"
      using run c rb n tr unfolding forward_with_buffers_def Let_def s3_def s1_def
      by (auto simp: bind_eq_Some_conv n_def [symmetric])
    obtain e where "conn_heap s3 j = Some e" using w by (auto simp: conn_write_def bind_eq_Some_conv)
    then have "calm s3 s4" using conn_write_ok [of s3 j e k] w by (metis option.inject prod.inject)
    then have "splice_pipes s4 = splice_pipes s3" by (simp add: calm_def static_def)
    then show ?thesis using r s3 close_connection_pipes [of k "conn_fd d1" s4 s']
      by (auto simp: bind_eq_Some_conv split: if_splits)
  qed
qed

lemma splice_forward_ok:
  assumes ok: "pipes_ok s" and run: "splice_forward k i j s = Some s'"
  shows "pipes_ok s'"
proof -
  obtain c d where c: "conn_heap s i = Some c" "conn_heap s j = Some d"
    using run by (auto simp: splice_forward_def bind_eq_Some_conv)
  obtain r s1 where g: "get_or_create_pipe k (conn_fd c) (conn_fd d) s = (r, s1)" by fastforce
  note s1 = get_or_create_pipe_ok [OF ok g]
  show ?thesis
  proof (cases "conn_state c \<noteq> ESTABLISHED \<or> conn_state d \<noteq> ESTABLISHED")
    case True
    then show ?thesis using run c ok by (simp add: splice_forward_def)
  next
    case est: False
    show ?thesis
    proof (cases r)
      case None
      then have "forward_with_buffers k i j s1 = Some s'" using run c g est by (simp add: splice_forward_def)
      then show ?thesis using forward_with_buffers_pipes pipes_ok_frame s1(1) by blast
    next
      case (Some p)
      have p: "pipe_ok p" using s1(2) Some by simp
      obtain out s2 where o: "splice_out k p s1 = (out, s2)" by fastforce
      have s2: "pipes_ok s2" using splice_io(2) [of k p s1] o s1(1) by (auto intro: pipes_ok_frame)
      let ?p1 = "p\<lparr>pipe_pending := pipe_pending p - of_int out\<rparr>"
      let ?s3 = "put_pipe (conn_fd c, conn_fd d) ?p1 s2"
      have "(if pipe_pending p > 0 then
           (if out < 0 then close_connection k (conn_fd d) s2
            else if out = 0 then Some (mod_fd (conn_fd d) EPOLLINOUT (start_backpressure k (conn_fd c) s2))
            else splice_refill k (conn_fd c) (conn_fd d) ?p1 ?s3)
         else splice_refill k (conn_fd c) (conn_fd d) p s1) = Some s'"
        using run c g est Some o unfolding splice_forward_def Let_def by (simp cong: if_cong)
      then consider (fresh) "splice_refill k (conn_fd c) (conn_fd d) p s1 = Some s'"
        | (err) "close_connection k (conn_fd d) s2 = Some s'"
        | (blocked) "s' = mod_fd (conn_fd d) EPOLLINOUT (start_backpressure k (conn_fd c) s2)"
        | (more) "0 < out" "splice_refill k (conn_fd c) (conn_fd d) ?p1 ?s3 = Some s'"
        by (metis option.inject linorder_neqE_linordered_idom)
      then show ?thesis
      proof cases
        case fresh then show ?thesis by (rule splice_refill_ok [OF s1(1) p])
      next
        case err then show ?thesis using close_pipes_ok s2 by blast
      next
        case blocked then show ?thesis using pipes_ok_frame [OF _ s2] by simp
      next
        case more
        have p1: "pipe_ok ?p1" using more(1) splice_out_le [of k p s1] o p by (intro pending_removed(2)) auto
        show ?thesis using more(2) by (rule splice_refill_ok [OF pipes_ok_put [OF s2 p1] p1])
      qed
    qed
  qed
qed

section \<open>The keys of the table\<close>

unbundle bit_operations_syntax

definition pipe_key :: "32 word \<Rightarrow> 32 word \<Rightarrow> 64 word" where
  "pipe_key src_fd dst_fd = push_bit 32 (scast src_fd) OR scast dst_fd"

definition pipe_key_fds :: "64 word \<Rightarrow> 32 word \<times> 32 word" where
  "pipe_key_fds key = (ucast (drop_bit 32 key), ucast (key AND 0xFFFFFFFF))"

lemma scast_nonneg: "0 \<le> sint w \<Longrightarrow> (scast w :: 64 word) = ucast w" for w :: "32 word"
proof -
  assume "0 \<le> sint w"
  then have "\<not> bit w 31" using bit_last_iff [of w] by simp
  then have "n < 31" if "bit w n" for n using that bit_imp_le_length [OF that] by (cases "n = 31") auto
  with \<open>\<not> bit w 31\<close> have "bit (scast w :: 64 word) n = bit (ucast w :: 64 word) n" if "n < 64" for n
    using that by (auto simp: bit_signed_iff bit_unsigned_iff min_def not_less [symmetric])
  then show ?thesis by (intro bit_word_eqI) simp
qed

lemma low_mask: "(0xFFFFFFFF :: 64 word) = mask 32"
  by (simp add: mask_eq_exp_minus_1)

text \<open>The 64-bit key of the pipe table determines its two descriptors: unpacking the key that
  \<open>get_or_create_pipe\<close> builds, the way \<open>cleanup\<close> unpacks it, gives back the source and the
  destination, for all descriptors the kernel hands out. Two pairs of descriptors thus never
  share a pipe, and cleaning up after one descriptor removes the pipes of this descriptor only.\<close>

theorem pipe_key_round_trip:
  assumes "0 \<le> sint src_fd" and "0 \<le> sint dst_fd"
  shows "pipe_key_fds (pipe_key src_fd dst_fd) = (src_fd, dst_fd)"
proof -
  have key: "pipe_key src_fd dst_fd = push_bit 32 (ucast src_fd) OR ucast dst_fd"
    unfolding pipe_key_def by (simp only: scast_nonneg [OF assms(1)] scast_nonneg [OF assms(2)])
  have "ucast (drop_bit 32 (pipe_key src_fd dst_fd)) = src_fd"
    unfolding key by (rule bit_word_eqI) (auto simp: bit_simps dest: bit_imp_le_length)
  moreover have "ucast (pipe_key src_fd dst_fd AND 0xFFFFFFFF) = dst_fd"
    unfolding key low_mask by (rule bit_word_eqI) (auto simp: bit_simps dest: bit_imp_le_length)
  ultimately show ?thesis by (simp add: pipe_key_fds_def)
qed

theorem pipe_key_round_trip_witness: "pipe_key_fds (pipe_key 10 11) = (10, 11)"
  by (rule pipe_key_round_trip) simp_all

section \<open>Properties\<close>

lemma fold_close_pipes: "splice_pipes (fold (close_pipe \<circ> snd) ps s) = splice_pipes s"
  by (induction ps arbitrary: s) (simp_all add: close_pipe_def sys_close_def Let_def)

lemma cleanup_pipes_eq:
  "splice_pipes (cleanup_pipes f s) = map_option (filter (\<lambda>((a, b), p). \<not> (a = f \<or> b = f))) (splice_pipes s)"
  by (simp add: cleanup_pipes_def Let_def fold_close_pipes)

lemma cleanup_pipes_ok: "pipes_ok s \<Longrightarrow> pipes_ok (cleanup_pipes f s)"
  by (auto simp: pipes_ok_def pipes_of_def cleanup_pipes_eq split: option.splits)

text \<open>C27: no pipe is ever recorded as holding more than \<open>MAX_PIPE_SIZE\<close> bytes, and the 64-bit
  counter \<open>pending\<close> never wraps. In a pipe within the bound, \<open>splice_out\<close> reports at most the
  pending bytes, so \<open>pending -= out\<close> does not wrap below zero, and \<open>splice_in\<close> at most what is
  left up to \<open>MAX_PIPE_SIZE\<close>, so \<open>pending += in\<close> stays within it; and forwarding in either
  direction, closing connections (into the connection pool or not) and cleaning up after a
  descriptor all keep every pipe of the table within the bound.\<close>

theorem splice_pending_bounded:
  assumes "pipes_ok s"
  shows "(\<forall>p. pipe_ok p \<longrightarrow>
      fst (splice_out k p s) \<le> uint (pipe_pending p) \<and>
      uint (pipe_pending p) + fst (splice_in k p s) \<le> uint MAX_PIPE_SIZE) \<and>
    pipes_ok (cleanup_pipes f s) \<and>
    (\<forall>s'. splice_forward k i j s = Some s' \<or> close_connection k f s = Some s' \<longrightarrow> pipes_ok s')"
  using splice_out_le splice_in_le cleanup_pipes_ok [OF assms] splice_forward_ok [OF assms] close_pipes_ok [OF _ assms] by blast

definition example_spliced :: lb_state where
  "example_spliced = example_pair\<lparr>splice_pipes := Some [((10, 11), \<lparr>pipe_read = 20, pipe_write = 21, pipe_pending = 100\<rparr>)]\<rparr>"

text \<open>The kernel takes 60 bytes out of the pipe, then puts 60 in and takes 60 out again.\<close>

theorem splice_pending_bounded_witness:
  "\<exists>s'. splice_forward (example_kernel\<lparr>k_splice := \<lambda>_. Accepted 60\<rparr>) 0 1 example_spliced = Some s' \<and> pipes_ok s' \<and>
     map_of (pipes_of s') (10, 11) = Some \<lparr>pipe_read = 20, pipe_write = 21, pipe_pending = 40\<rparr>"
proof -
  let ?k = "example_kernel\<lparr>k_splice := \<lambda>_. Accepted 60\<rparr>"
  have "pipes_ok example_spliced"
    by (simp add: example_spliced_def pipes_ok_def pipes_of_def pipe_ok_def MAX_PIPE_SIZE_def)
  moreover have "\<exists>s'. splice_forward ?k 0 1 example_spliced = Some s' \<and>
     map_of (pipes_of s') (10, 11) = Some \<lparr>pipe_read = 20, pipe_write = 21, pipe_pending = 40\<rparr>"
    by (simp add: splice_forward_def splice_refill_def splice_in_def splice_out_def get_or_create_pipe_def example_spliced_def
      example_pair_def new_connection_def pipes_of_def put_pipe_def ask_def MAX_PIPE_SIZE_def SPLICE_CHUNK_SIZE_def Let_def)
  ultimately show ?thesis using splice_pending_bounded [of example_spliced ?k] by blast
qed

text \<open>C37: \<open>ConnectionManager::close_connection\<close> does not know of the pipes. After it has closed a
  connection, a pipe with pending bytes is still in the table under the old pair of
  descriptors, and \<open>get_or_create_pipe\<close> hands this pipe, bytes included, to the next pair of
  connections that is given the same two numbers; after \<open>cleanup\<close> it does not.\<close>

theorem pipe_outlives_its_connections:
  assumes "close_connection k f s = Some s'" and "map_of (pipes_of s) (a, b) = Some p" and "0 < pipe_pending p"
  shows "get_or_create_pipe k a b s' = (Some p, s') \<and> get_or_create_pipe k a b (cleanup_pipes a s') \<noteq> (Some p, cleanup_pipes a s')"
proof -
  have pipes: "splice_pipes s' = splice_pipes s" using close_connection_pipes [OF assms(1)] .
  then have "get_or_create_pipe k a b s' = (Some p, s')" using assms(2) by (simp add: get_or_create_pipe_def pipes_of_def)
  moreover have "map_of (pipes_of (cleanup_pipes a s')) (a, b) = None"
    by (auto simp: pipes_of_def cleanup_pipes_eq map_of_eq_None_iff split: option.splits)
  then have "\<forall>q. fst (get_or_create_pipe k a b (cleanup_pipes a s')) = Some q \<longrightarrow> pipe_pending q = 0"
    by (auto simp: get_or_create_pipe_def Let_def split: prod.splits option.splits)
  then have "get_or_create_pipe k a b (cleanup_pipes a s') \<noteq> (Some p, cleanup_pipes a s')" using assms(3) by fastforce
  ultimately show ?thesis by blast
qed

theorem pipe_outlives_its_connections_witness:
  "\<exists>s'. close_connection example_kernel 10 example_spliced = Some s' \<and>
     get_or_create_pipe example_kernel 10 11 s' = (Some \<lparr>pipe_read = 20, pipe_write = 21, pipe_pending = 100\<rparr>, s')"
proof -
  have "lb_good [] example_spliced" using lb_good_shape [OF example_pair_good, of example_spliced]
    by (simp add: example_spliced_def same_shape_def)
  then obtain s' where "close_connection example_kernel 10 example_spliced = Some s'"
    using cc.close_total [of "[]" example_spliced example_kernel 10] by blast
  then show ?thesis
    using pipe_outlives_its_connections [of example_kernel 10 example_spliced s' 10 11] by (auto simp: example_spliced_def pipes_of_def)
qed

end
