(* ===== verification/Buffer_Sizes.thy ===== *)
theory Buffer_Sizes
  imports Splice_Forwarder Http_Safety Http_Forwarding
begin

text \<open>
  Properties of single connections that the operations on the tables keep: what every
  connection object satisfies is kept by reading, writing, copying and closing, whatever the
  tables look like, as long as the operations of one connection keep it. The bound on the
  buffers is such a property.
\<close>

definition all_conns :: "(Connection \<Rightarrow> bool) \<Rightarrow> lb_state \<Rightarrow> bool" where
  "all_conns P s \<longleftrightarrow> (\<forall>i c. conn_heap s i = Some c \<longrightarrow> P c)"

lemma all_conns_frame: "conn_heap s' = conn_heap s \<Longrightarrow> all_conns P s' = all_conns P s"
  by (simp add: all_conns_def)

lemma all_conns_put [intro]: "all_conns P s \<Longrightarrow> P c \<Longrightarrow> all_conns P (put_conn i c s)"
  by (simp add: all_conns_def)

lemma all_connsD: "all_conns P s \<Longrightarrow> conn_heap s i = Some c \<Longrightarrow> P c"
  by (simp add: all_conns_def)

locale connection_property =
  fixes P :: "Connection \<Rightarrow> bool"
  assumes peer_kept: "P c \<Longrightarrow> P (set_peer p c)"
    and state_kept: "P c \<Longrightarrow> P (set_conn_state st c)"
    and full_kept: "P c \<Longrightarrow> P (set_buffer_full b c)"
    and shut_kept: "P c \<Longrightarrow> P (fst (shut release_bytes c m))"
    and clear_kept: "P c \<Longrightarrow> P (fst (clear_buffers release_bytes c m))"
    and read_kept: "P c \<Longrightarrow> P (fst (snd (read_from_fd reserve_bytes release_bytes rio c m)))"
    and write_kept: "P c \<Longrightarrow> P (fst (snd (write_to_fd release_bytes wio c m)))"
    and copy_kept: "P c \<Longrightarrow> P d \<Longrightarrow> n \<le> write_available d \<Longrightarrow> P (fst (transfer n c d)) \<and> P (snd (transfer n c d))"
begin

lemma with_conn_all:
  "all_conns P s \<Longrightarrow> with_conn i g s = Some s' \<Longrightarrow> (\<And>c. P c \<Longrightarrow> P (g c)) \<Longrightarrow> all_conns P s'"
  by (auto simp: with_conn_def bind_eq_Some_conv all_conns_def split: if_splits)

lemma conn_close_all:
  assumes "all_conns P s" and "conn_close i s = Some s'"
  shows "all_conns P s'"
proof -
  obtain c where c: "conn_heap s i = Some c" using assms(2) by (auto simp: conn_close_def bind_eq_Some_conv)
  obtain c' m where sh: "shut release_bytes c (mem s) = (c', m)" by fastforce
  obtain s1 where s1: "ssl_free (ssl c) ((put_conn i c' s)\<lparr>mem := m\<rparr>) = Some s1"
    and run: "(case peer c of None \<Rightarrow> Some (if conn_fd c \<ge> 0 then sys_close (conn_fd c) s1 else s1)
       | Some j \<Rightarrow> with_conn j (set_peer None) (if conn_fd c \<ge> 0 then sys_close (conn_fd c) s1 else s1)) = Some s'"
    using assms(2) c sh by (auto simp: conn_close_def bind_eq_Some_conv Let_def)
  have "P c'" using shut_kept [OF all_connsD [OF assms(1) c], of "mem s"] sh by simp
  then have "all_conns P (put_conn i c' s)" using assms(1) by blast
  moreover have "conn_heap s1 = conn_heap (put_conn i c' s)" using s1 by (auto simp: ssl_free_def split: option.splits if_splits)
  ultimately have "all_conns P (if conn_fd c \<ge> 0 then sys_close (conn_fd c) s1 else s1)"
    by (simp add: all_conns_def sys_close_def)
  then show ?thesis using run with_conn_all [OF _ _ peer_kept] by (auto split: option.splits)
qed

lemma destroy_all_conns: "all_conns P s \<Longrightarrow> destroy i s = Some s' \<Longrightarrow> all_conns P s'"
  using conn_close_all by (fastforce simp: destroy_def bind_eq_Some_conv all_conns_def split: if_splits)

lemma destroy_each_conns: "all_conns P s \<Longrightarrow> destroy_all js s = Some s' \<Longrightarrow> all_conns P s'"
  by (induction js arbitrary: s) (auto simp: bind_eq_Some_conv dest: destroy_all_conns)

lemma table_erase_conns: "all_conns P s \<Longrightarrow> table_erase f s = Some s' \<Longrightarrow> all_conns P s'"
  using destroy_all_conns [of "table_remove f s"]
  by (auto simp: table_erase_def all_conns_frame [of "table_remove f s" s] split: option.splits)

lemma release_conns:
  assumes "all_conns P s" and "release_to_pool k f i s = Some (b, s')"
  shows "all_conns P s'"
proof (cases "\<exists>pm info. pool_manager s = Some pm \<and> pooled_connections s f = Some info \<and> bi_host info \<noteq> []")
  case True
  then obtain pm info where pm: "pool_manager s = Some pm" "pooled_connections s f = Some info" "bi_host info \<noteq> []" by blast
  obtain c where c: "conn_heap s i = Some c" using assms(2) pm by (auto simp: release_to_pool_def bind_eq_Some_conv)
  obtain c1 m where c1: "clear_buffers release_bytes c (mem s) = (c1, m)" by fastforce
  obtain closed s3 where s3: "conn_heap s3 = conn_heap (put_conn i (set_conn_state ESTABLISHED c1) s)" "destroy_all closed s3 = Some s'"
  proof -
    have "\<exists>closed n pm'. destroy_all closed ((put_conn i (set_conn_state ESTABLISHED c1) s)\<lparr>mem := m, steps := n, pool_manager := pm'\<rparr>) = Some s'"
      using assms(2) pm c c1 by (auto simp: release_to_pool_def bind_eq_Some_conv ask_def Let_def split: prod.splits)
    then obtain closed n pm' where
      "destroy_all closed ((put_conn i (set_conn_state ESTABLISHED c1) s)\<lparr>mem := m, steps := n, pool_manager := pm'\<rparr>) = Some s'" by blast
    from that [OF _ this] show ?thesis by simp
  qed
  have "P c1" using clear_kept [OF all_connsD [OF assms(1) c], of "mem s"] c1 by simp
  then have "all_conns P (put_conn i (set_conn_state ESTABLISHED c1) s)" using assms(1) state_kept by blast
  then show ?thesis using s3 destroy_each_conns all_conns_frame by metis
next
  case False
  then have "destroy i s = Some s'" using assms(2) by (auto simp: release_to_pool_def bind_eq_Some_conv split: option.splits if_splits)
  then show ?thesis using destroy_all_conns assms(1) by blast
qed

lemma forget_heap [simp]:
  "conn_heap (forget_fd f s) = conn_heap s" "conn_heap (drop_backend_slot f b s) = conn_heap s" "conn_heap (del_fd f s) = conn_heap s"
  "conn_heap (log_unfinished_request k f c s) = conn_heap s" "conn_heap (table_remove f s) = conn_heap s"
  by simp_all

lemma close_peer_conns:
  assumes all: "all_conns P s" and run: "close_peer k b i j s = Some s'"
  shows "all_conns P s'"
proof -
  obtain d s1 where d: "conn_heap s j = Some d" "with_conn i (set_peer None) s = Some s1"
    using run by (auto simp: close_peer_def bind_eq_Some_conv Let_def)
  have s1: "all_conns P s1" using with_conn_all [OF all d(2) peer_kept] .
  show ?thesis
  proof (cases "get_connection (conn_fd d) s1")
    case None
    then show ?thesis using run d s1 by (simp add: close_peer_def)
  next
    case (Some q)
    obtain e where e: "conn_heap s1 q = Some e" using run d Some by (auto simp: close_peer_def bind_eq_Some_conv Let_def)
    show ?thesis
    proof (cases "conn_state e = CLOSED")
      case True
      then show ?thesis using run d Some e table_erase_conns [OF s1] by (simp add: close_peer_def)
    next
      case False
      obtain s2 where s2: "with_conn q (set_peer None) s1 = Some s2" using e by (simp add: with_conn_def)
      let ?s4 = "del_fd (conn_fd d) (forget_fd (conn_fd d) (drop_backend_slot (conn_fd d) (conn_state e = ESTABLISHED) s2))"
      have s4: "all_conns P ?s4" "all_conns P (table_remove (conn_fd d) ?s4)"
        using with_conn_all [OF s1 s2 peer_kept] by (simp_all add: all_conns_def)
      consider (pool) r where "release_to_pool k (conn_fd d) q (table_remove (conn_fd d) ?s4) = Some (r, s')"
        | (close) s5 where "conn_close q ?s4 = Some s5" "table_erase (conn_fd d) s5 = Some s'"
        using run d Some e s2 False by (auto simp: close_peer_def bind_eq_Some_conv Let_def split: if_splits)
      then show ?thesis
      proof cases
        case pool
        then show ?thesis using release_conns [OF s4(2)] by blast
      next
        case close
        then show ?thesis using conn_close_all [OF s4(1)] table_erase_conns by blast
      qed
    qed
  qed
qed

lemma close_conns:
  assumes all: "all_conns P s" and run: "close_connection k f s = Some s'"
  shows "all_conns P s'"
proof (cases "get_connection f s")
  case None
  then show ?thesis using run all by (simp add: close_connection_def)
next
  case (Some i)
  then obtain c where c: "conn_heap s i = Some c" using run by (auto simp: close_connection_def bind_eq_Some_conv)
  show ?thesis
  proof (cases "conn_state c = CLOSED")
    case True
    have "all_conns P (forget_fd f (s\<lparr>backend_connections := erase_key (backend_connections s) f\<rparr>))" using all by (simp add: all_conns_def)
    then show ?thesis using run Some c True table_erase_conns by (simp add: close_connection_def)
  next
    case False
    define b where "b = (backend_connections s f = None)"
    define s3 where "s3 = upd_metrics (add_bytes_out (of_nat (bytes_written c)))
        (upd_metrics (add_bytes_in (of_nat (bytes_read c)))
          (put_conn i (set_conn_state CLOSED c) (drop_backend_slot f (conn_state c = ESTABLISHED) s)))"
    define s5 where "s5 = forget_fd f (if b then upd_metrics decrement_connections_active (log_unfinished_request k f c s3) else s3)"
    define s6 where "s6 = s5\<lparr>backend_to_client_map := erase_where (\<lambda>g. g = f) (backend_to_client_map s5)\<rparr>"
    have "(do { s7 \<leftarrow> (case peer c of None \<Rightarrow> Some s6 | Some j \<Rightarrow> close_peer k b i j s6);
        s8 \<leftarrow> conn_close i (del_fd f s7); table_erase f s8 }) = Some s'"
      using run Some c False unfolding close_connection_def Let_def b_def s3_def s5_def s6_def by simp
    then obtain s7 s8 where s7: "(case peer c of None \<Rightarrow> Some s6 | Some j \<Rightarrow> close_peer k b i j s6) = Some s7"
      and s8: "conn_close i (del_fd f s7) = Some s8" "table_erase f s8 = Some s'"
      unfolding bind_eq_Some_conv by blast
    have "conn_heap s6 = (conn_heap s)(i \<mapsto> set_conn_state CLOSED c)" by (simp add: s6_def s5_def s3_def)
    then have "all_conns P s6" using all state_kept [OF all_connsD [OF all c], of CLOSED] by (simp add: all_conns_def)
    then have "all_conns P s7" using s7 close_peer_conns by (auto split: option.splits)
    then have "all_conns P (del_fd f s7)" by (simp add: all_conns_def)
    then show ?thesis using conn_close_all [OF _ s8(1)] table_erase_conns [OF _ s8(2)] by blast
  qed
qed

lemma read_conns: "all_conns P s \<Longrightarrow> conn_read k i s = Some (r, s') \<Longrightarrow> all_conns P s'"
proof -
  assume all: "all_conns P s" and run: "conn_read k i s = Some (r, s')"
  then obtain c where c: "conn_heap s i = Some c" by (auto simp: conn_read_def bind_eq_Some_conv)
  obtain r1 c' m where rd: "read_from_fd reserve_bytes release_bytes (k_read k (steps s)) c (mem s) = (r1, c', m)" by (metis prod.exhaust)
  then have "P c'" using read_kept [OF all_connsD [OF all c], of "k_read k (steps s)" "mem s"] by simp
  then show "all_conns P s'" using all run c rd by (auto simp: conn_read_def ask_def all_conns_def split: if_splits)
qed

lemma write_conns: "all_conns P s \<Longrightarrow> conn_write k i s = Some (r, s') \<Longrightarrow> all_conns P s'"
proof -
  assume all: "all_conns P s" and run: "conn_write k i s = Some (r, s')"
  then obtain c where c: "conn_heap s i = Some c" by (auto simp: conn_write_def bind_eq_Some_conv)
  obtain r1 c' m where wr: "write_to_fd release_bytes (k_write k (steps s)) c (mem s) = (r1, c', m)" by (metis prod.exhaust)
  then have "P c'" using write_kept [OF all_connsD [OF all c], of "k_write k (steps s)" "mem s"] by simp
  then show "all_conns P s'" using all run c wr by (auto simp: conn_write_def ask_def all_conns_def split: if_splits)
qed

lemma copied_conns:
  assumes "all_conns P s" and "conn_heap s i = Some c" and "conn_heap s j = Some d" and "n \<le> write_available d"
  shows "all_conns P (put_conn j (snd (transfer n c d)) (put_conn i (fst (transfer n c d)) s))"
    and "all_conns P (put_conn j (snd (transfer n c d)) (put_conn i (set_buffer_full b (fst (transfer n c d))) s))"
  using copy_kept [OF all_connsD [OF assms(1,2)] all_connsD [OF assms(1,3)] assms(4)] full_kept assms(1) by blast+

lemma forward_conns:
  assumes all: "all_conns P s" and run: "forward k i j s = Some s'"
  shows "all_conns P s'"
proof -
  obtain c d where c: "conn_heap s i = Some c" "conn_heap s j = Some d" using run by (auto simp: forward_def bind_eq_Some_conv)
  define n where "n = min (length (read_buf c)) (write_available d)"
  show ?thesis
  proof (cases "conn_state c \<noteq> ESTABLISHED \<or> conn_state d \<noteq> ESTABLISHED \<or> read_buf c = [] \<or> n = 0")
    case True
    then have "conn_heap s' = conn_heap s" using run c by (auto simp: forward_def n_def Let_def split: if_splits)
    then show ?thesis using all by (simp add: all_conns_def)
  next
    case False
    define c2 where "c2 = (if buffer_full c \<and> has_read_space (fst (transfer n c d))
      then set_buffer_full False (fst (transfer n c d)) else fst (transfer n c d))"
    let ?d1 = "snd (transfer n c d)"
    define s2 where "s2 = mod_fd (conn_fd c2) (forward_events c2) (mod_fd (conn_fd ?d1) EPOLLINOUT (put_conn j ?d1 (put_conn i c2 s)))"
    have n: "n \<le> write_available d" by (simp add: n_def)
    have "all_conns P (put_conn j ?d1 (put_conn i c2 s))" using copied_conns [OF all c n] by (simp add: c2_def)
    then have s2: "all_conns P s2" by (simp add: s2_def all_conns_def)
    have "(do { (written, s3) \<leftarrow> conn_write k j s2;
        if \<not> written then close_connection k (conn_fd ?d1) s3
        else do { (pending, s4) \<leftarrow> has_pending_send k j s3;
                  Some (if pending then start_backpressure k (conn_fd c2) s4 else clear_backpressure (conn_fd c2) s4) } }) = Some s'"
      using run c False unfolding forward_def Let_def s2_def c2_def by (simp add: n_def [symmetric] split_beta cong: if_cong)
    then obtain w s3 where s3: "conn_write k j s2 = Some (w, s3)"
      and rest: "close_connection k (conn_fd ?d1) s3 = Some s' \<or>
        (\<exists>pending s4. has_pending_send k j s3 = Some (pending, s4) \<and> conn_heap s' = conn_heap s4)"
      by (fastforce simp: bind_eq_Some_conv split: if_splits)
    have "all_conns P s3" using write_conns [OF s2 s3] .
    with rest show ?thesis using close_conns
      by (auto simp: has_pending_send_def bind_eq_Some_conv ask_def all_conns_def Let_def)
  qed
qed

lemma forward_with_buffers_conns:
  assumes all: "all_conns P s" and run: "forward_with_buffers k i j s = Some s'"
  shows "all_conns P s'"
proof -
  obtain c d where c: "conn_heap s i = Some c" "conn_heap s j = Some d" using run by (auto simp: forward_with_buffers_def bind_eq_Some_conv)
  define n where "n = min (length (read_buf c)) (write_available d)"
  show ?thesis
  proof (cases "read_buf c = [] \<or> n = 0")
    case True
    then have "conn_heap s' = conn_heap s" using run c by (auto simp: forward_with_buffers_def n_def Let_def split: if_splits)
    then show ?thesis using all by (simp add: all_conns_def)
  next
    case False
    let ?c1 = "fst (transfer n c d)" and ?d1 = "snd (transfer n c d)"
    define s1 where "s1 = put_conn j ?d1 (put_conn i ?c1 s)"
    define s3 where "s3 = mod_fd (conn_fd ?c1) EPOLLINOUT (mod_fd (conn_fd ?d1) EPOLLINOUT
      (if write_buf ?d1 \<noteq> [] then start_backpressure k (conn_fd ?c1) s1 else clear_backpressure (conn_fd ?c1) s1))"
    have "n \<le> write_available d" by (simp add: n_def)
    then have "all_conns P s1" using copied_conns(1) [OF all c] by (simp add: s1_def)
    then have s3: "all_conns P s3" by (simp add: s3_def all_conns_def)
    obtain w s4 where w: "conn_write k j s3 = Some (w, s4)"
      and rest: "close_connection k (conn_fd ?d1) s4 = Some s' \<or> conn_heap s' = conn_heap s4"
    proof -
      have "(do { (written, s4) \<leftarrow> conn_write k j s3;
          if \<not> written then close_connection k (conn_fd ?d1) s4
          else do { d2 \<leftarrow> conn_heap s4 j;
                    Some (if write_buf d2 \<noteq> [] then start_backpressure k (conn_fd ?c1) s4 else clear_backpressure (conn_fd ?c1) s4) } }) = Some s'"
        using run c False unfolding forward_with_buffers_def Let_def s3_def s1_def
        by (simp add: n_def [symmetric] split_beta cong: if_cong)
      then show ?thesis using that by (fastforce simp: bind_eq_Some_conv split: if_splits)
    qed
    then show ?thesis using close_conns write_conns [OF s3 w] by (auto simp: all_conns_def)
  qed
qed

lemma splice_io_heap:
  "splice_in k p s = (n, s1) \<Longrightarrow> conn_heap s1 = conn_heap s" "splice_out k p s = (n, s1) \<Longrightarrow> conn_heap s1 = conn_heap s"
  "get_or_create_pipe k a b s = (r, s1) \<Longrightarrow> conn_heap s1 = conn_heap s" "conn_heap (put_pipe key p s) = conn_heap s"
  by (auto simp: splice_in_def splice_out_def get_or_create_pipe_def put_pipe_def sys_open_def ask_def Let_def
      split: if_splits io_write.splits option.splits)

lemma splice_refill_conns:
  assumes all: "all_conns P s" and run: "splice_refill k a b p s = Some s'"
  shows "all_conns P s'"
proof -
  obtain got s1 where i: "splice_in k p s = (got, s1)" by fastforce
  let ?p1 = "p\<lparr>pipe_pending := pipe_pending p + of_int got\<rparr>"
  obtain out s3 where o: "splice_out k ?p1 (put_pipe (a, b) ?p1 s1) = (out, s3)" by fastforce
  have heap: "conn_heap s1 = conn_heap s" "conn_heap s3 = conn_heap s"
    using splice_io_heap(1) [OF i] splice_io_heap(2) [OF o] by (simp_all add: splice_io_heap(4))
  have "(\<exists>f t. conn_heap t = conn_heap s \<and> close_connection k f t = Some s') \<or> conn_heap s' = conn_heap s"
    using run i o heap by (auto simp: splice_refill_def Let_def splice_io_heap(4) split: if_splits)
  then show ?thesis using close_conns all all_conns_frame by metis
qed

lemma splice_forward_conns:
  assumes all: "all_conns P s" and run: "splice_forward k i j s = Some s'"
  shows "all_conns P s'"
proof -
  obtain c d where c: "conn_heap s i = Some c" "conn_heap s j = Some d" using run by (auto simp: splice_forward_def bind_eq_Some_conv)
  obtain r s1 where g: "get_or_create_pipe k (conn_fd c) (conn_fd d) s = (r, s1)" by fastforce
  have s1: "all_conns P s1" using all splice_io_heap(3) [OF g] by (simp add: all_conns_def)
  show ?thesis
  proof (cases "conn_state c \<noteq> ESTABLISHED \<or> conn_state d \<noteq> ESTABLISHED \<or> r = None")
    case True
    then have "s' = s \<or> forward_with_buffers k i j s1 = Some s'" using run c g by (auto simp: splice_forward_def split: if_splits)
    then show ?thesis using all forward_with_buffers_conns [OF s1] by blast
  next
    case False
    then obtain p where p: "r = Some p" by blast
    obtain out s2 where o: "splice_out k p s1 = (out, s2)" by fastforce
    have heap: "conn_heap s2 = conn_heap s1" using splice_io_heap(2) [OF o] .
    have "(\<exists>q t. conn_heap t = conn_heap s1 \<and> splice_refill k (conn_fd c) (conn_fd d) q t = Some s') \<or>
        (\<exists>f t. conn_heap t = conn_heap s1 \<and> close_connection k f t = Some s') \<or> conn_heap s' = conn_heap s1"
      using run c g False p o heap by (auto simp: splice_forward_def Let_def splice_io_heap(4) split: if_splits)
    then show ?thesis using s1 splice_refill_conns close_conns all_conns_frame by metis
  qed
qed

end

text \<open>
  What forwarding in HTTP mode needs of such a property on top: it puts a rewritten message of any
  length into the read buffer, and the 400 page into the write buffer.
\<close>

lemma http_heap [simp]:
  "conn_heap (put_http_state f h s) = conn_heap s" "conn_heap (upd_request_info f g s) = conn_heap s"
  "conn_heap (snd (ask q s)) = conn_heap s" "conn_heap (snd (peer_address k f s)) = conn_heap s"
  "conn_heap (update_session_key w f r s) = conn_heap s" "conn_heap (snd (cookie_for_client k cookie f s)) = conn_heap s"
  "conn_heap (parse_response_status f b s) = conn_heap s" "conn_heap (count_copied rq f n s) = conn_heap s"
  by (auto simp: put_http_state_def upd_request_info_def ask_def peer_address_def update_session_key_def cookie_for_client_def
      parse_response_status_def count_copied_def Let_def split: option.splits)

locale rewritten_property = connection_property +
  assumes blocked_kept: "P c \<Longrightarrow> P (c\<lparr>memory_blocked := b\<rparr>)"
    and rewrite_kept: "P c \<Longrightarrow> P (c\<lparr>read_buf := m\<rparr>)"
    and page_kept: "P c \<Longrightarrow> P (c\<lparr>write_buf := to_bytes (bad_request ''Invalid HTTP request''), read_buf := []\<rparr>)"
begin

lemma budget_kept:
  "P c \<Longrightarrow> try_reserve_additional_bytes r n c b = (ok, c', b') \<Longrightarrow> P c'"
  "P c \<Longrightarrow> release_accounted_bytes g n c b = (c', b') \<Longrightarrow> P c'"
  using blocked_kept by (auto simp: try_reserve_additional_bytes_def release_accounted_bytes_def split: if_splits prod.splits bool.splits)

lemma replace_conns:
  assumes all: "all_conns P s" and run: "replace_read_buffer k i modified s = Some (ok, s')"
  shows "all_conns P s'"
proof -
  obtain c where c: "conn_heap s i = Some c" using run by (auto simp: replace_read_buffer_def bind_eq_Some_conv)
  have "\<exists>c'. conn_heap s' = (conn_heap s)(i \<mapsto> c') \<and> P c'"
  proof (cases "length modified > length (read_buf c)")
    case True
    obtain b c1 m where r: "try_reserve_additional_bytes reserve_bytes (length modified - length (read_buf c)) c (mem s) = (b, c1, m)"
      by (metis prod.exhaust)
    have "P c1" using budget_kept(1) [OF all_connsD [OF all c] r] .
    then show ?thesis using run c True r rewrite_kept by (cases b) (auto simp: replace_read_buffer_def put_conn_def Let_def)
  next
    case False
    obtain c1 m where r: "release_accounted_bytes release_bytes (length (read_buf c) - length modified) c (mem s) = (c1, m)" by fastforce
    have "P c1" using budget_kept(2) [OF all_connsD [OF all c] r] .
    then show ?thesis using run c False r rewrite_kept by (auto simp: replace_read_buffer_def put_conn_def Let_def)
  qed
  then show ?thesis using all by (auto simp: all_conns_def split: if_splits)
qed

lemma request_conns:
  assumes all: "all_conns P s" and run: "parse_and_modify_http_request k w i f s = Some (ok, s')"
  shows "all_conns P s'"
proof -
  obtain c where c: "conn_heap s i = Some c" using run by (auto simp: parse_and_modify_http_request_def bind_eq_Some_conv)
  obtain b n p where p: "parse_request (read_buf c) (req_parser (http_state_of f s)) = (b, n, p)" by (metis prod.exhaust)
  have "(\<exists>m t. conn_heap t = conn_heap s \<and> replace_read_buffer k i m t = Some (ok, s')) \<or> conn_heap s' = conn_heap s"
    using run c p by (fastforce simp: parse_and_modify_http_request_def Let_def case_prod_unfold split: if_splits bool.splits)
  then show ?thesis using all replace_conns all_conns_frame by metis
qed

lemma response_conns:
  assumes all: "all_conns P s" and run: "parse_and_modify_http_response k w i f s = Some (ok, s')"
  shows "all_conns P s'"
proof -
  obtain c where c: "conn_heap s i = Some c" using run by (auto simp: parse_and_modify_http_response_def bind_eq_Some_conv)
  obtain b n p where p: "parse_response (read_buf c) (resp_parser (http_state_of f s)) = (b, n, p)" by (metis prod.exhaust)
  have "(\<exists>m t. conn_heap t = conn_heap s \<and> replace_read_buffer k i m t = Some (ok, s')) \<or> conn_heap s' = conn_heap s"
    using run c p
    by (fastforce simp: parse_and_modify_http_response_def Let_def case_prod_unfold split: if_splits bool.splits option.splits)
  then show ?thesis using all replace_conns all_conns_frame by metis
qed

lemma prepare_conns:
  assumes all: "all_conns P s"
  shows "prepare_request k w i f s = Some (ok, s') \<Longrightarrow> all_conns P s'"
    and "prepare_response k w i f s = Some (ok, s') \<Longrightarrow> all_conns P s'"
proof -
  have put: "all_conns P (put_http_state g h t) = all_conns P t" for g h t by (rule all_conns_frame) simp
  show "all_conns P s'" if "prepare_request k w i f s = Some (ok, s')"
    using that all put request_conns [of "put_http_state f (http_state_of f s) s"]
    by (auto simp: prepare_request_def Let_def bind_eq_Some_conv split: if_splits)
  show "all_conns P s'" if run: "prepare_response k w i f s = Some (ok, s')"
  proof (cases "get_client_fd f s \<le> 0")
    case False
    let ?c = "get_client_fd f s"
    let ?s1 = "put_http_state ?c (http_state_of ?c s) s"
    obtain s2 where s2: "s2 = ?s1 \<or> (\<exists>t ok. parse_and_modify_http_response k w i ?c ?s1 = Some (ok, t) \<and> (s2 = t \<or> (\<exists>h. s2 = put_http_state ?c h t)))"
      and s': "s' = s2 \<or> (\<exists>b. s' = parse_response_status ?c b s2)"
      using run False by (auto simp: prepare_response_def Let_def bind_eq_Some_conv split: if_splits)
    from s2 have "all_conns P s2" using all put response_conns by metis
    with s' show ?thesis using all_conns_frame http_heap(7) by metis
  qed (use that all in \<open>simp add: prepare_response_def\<close>)
qed

lemma reject_conns:
  assumes all: "all_conns P s" and run: "reject_bad_request k i j s = Some s'"
  shows "all_conns P s'"
proof -
  obtain f ri where page: "send_bad_request_page k i j
      (log_finished_request k ri (snd (ask (k_system_now k) (snd (peer_address k f (upd_metrics increment_bad_requests s)))))) = Some s'"
    using run by (auto simp: reject_bad_request_def Let_def bind_eq_Some_conv case_prod_unfold)
  define t where "t = log_finished_request k ri (snd (ask (k_system_now k) (snd (peer_address k f (upd_metrics increment_bad_requests s)))))"
  note page = page [folded t_def]
  have t: "conn_heap t = conn_heap s" by (simp add: t_def upd_metrics_def)
  have all_t: "all_conns P t" using all t by (simp add: all_conns_def)
  obtain c d where c: "conn_heap t i = Some c" and d: "conn_heap t j = Some d"
    using page by (auto simp: send_bad_request_page_def bind_eq_Some_conv)
  let ?page = "to_bytes (bad_request ''Invalid HTTP request'')"
  obtain granted c1 m where x: "(if length ?page > length (write_buf c)
      then try_reserve_additional_bytes reserve_bytes (length ?page - length (write_buf c)) c (mem t)
      else (True, release_accounted_bytes release_bytes (length (write_buf c) - length ?page) c (mem t))) = (granted, c1, m)"
    by (metis prod.exhaust)
  have c1: "P c1" using budget_kept [OF all_connsD [OF all_t c]] x by (auto split: if_splits)
  have "\<exists>t1. all_conns P t1 \<and> (\<exists>f. close_connection k f t1 = Some s' \<or>
      (\<exists>t2 g. close_connection k f t1 = Some t2 \<and> close_connection k g t2 = Some s'))"
  proof (cases granted)
    case True
    let ?s1 = "(put_conn i (c1\<lparr>write_buf := ?page, read_buf := []\<rparr>) t)\<lparr>mem := m\<rparr>"
    have "all_conns P (put_http_state g h (mod_fd f EPOLLINOUT ?s1))" for g h f
      using all_t page_kept [OF c1] by (simp add: all_conns_def)
    then show ?thesis using page c d x True unfolding send_bad_request_page_def Let_def by auto
  next
    case False
    have "all_conns P ((put_conn i c1 t)\<lparr>mem := m\<rparr>)" using all_t c1 by (simp add: all_conns_def)
    then show ?thesis using page c d x False unfolding send_bad_request_page_def Let_def by (fastforce simp: bind_eq_Some_conv)
  qed
  then show ?thesis using close_conns by blast
qed

lemma copy_prepared_conns:
  assumes all: "all_conns P s" and run: "copy_prepared k req i j s = Some s'"
  shows "all_conns P s'"
proof -
  obtain c d where c: "conn_heap s i = Some c" "conn_heap s j = Some d" using run by (auto simp: copy_prepared_def bind_eq_Some_conv)
  define n where "n = min (length (read_buf c)) (write_available d)"
  show ?thesis
  proof (cases "n = 0")
    case True
    then have "conn_heap s' = conn_heap s" using run c by (auto simp: copy_prepared_def n_def Let_def split: if_splits)
    then show ?thesis using all by (simp add: all_conns_def)
  next
    case False
    let ?c1 = "fst (transfer n c d)" and ?d1 = "snd (transfer n c d)"
    define c2 where "c2 = (if buffer_full c \<and> has_read_space ?c1 then set_buffer_full False ?c1 else ?c1)"
    define s3 where "s3 = mod_fd (conn_fd c) (forward_events c2)
      (mod_fd (conn_fd ?d1) EPOLLINOUT (count_copied req (conn_fd c) n (put_conn j ?d1 (put_conn i c2 s))))"
    have "n \<le> write_available d" by (simp add: n_def)
    then have "all_conns P (put_conn j ?d1 (put_conn i c2 s))" using copied_conns [OF all c] by (simp add: c2_def)
    then have s3: "all_conns P s3" by (simp add: s3_def all_conns_def)
    have fin: "conn_heap s' = conn_heap t" if "finish_response k i f t = Some s'" for f t
      using that by (auto simp: finish_response_def Let_def bind_eq_Some_conv case_prod_unfold split: if_splits option.splits)
    have "\<exists>w s4. conn_write k j s3 = Some (w, s4) \<and> (close_connection k (conn_fd ?d1) s4 = Some s' \<or>
        (\<exists>p s5 s6. has_pending_send k j s4 = Some (p, s5) \<and>
           (s6 = start_backpressure k (conn_fd c) s5 \<or> s6 = clear_backpressure (conn_fd c) s5) \<and>
           (s' = s6 \<or> finish_response k i (conn_fd c) s6 = Some s')))"
      using run c False unfolding copy_prepared_def s3_def c2_def n_def
      by (auto simp: Let_def case_prod_unfold bind_eq_Some_conv split: if_splits)
    then obtain w s4 where w: "conn_write k j s3 = Some (w, s4)" and rest: "close_connection k (conn_fd ?d1) s4 = Some s' \<or>
        (\<exists>p s5. has_pending_send k j s4 = Some (p, s5) \<and> conn_heap s' = conn_heap s5)"
      using fin by (metis start_backpressure_heap clear_backpressure_heap)
    show ?thesis using rest close_conns write_conns [OF s3 w]
      by (auto simp: has_pending_send_def bind_eq_Some_conv ask_def all_conns_def Let_def)
  qed
qed

lemma http_forward_conns:
  assumes all: "all_conns P s" and run: "http_forward k w i j s = Some s'"
  shows "all_conns P s'"
proof -
  obtain c d where c: "conn_heap s i = Some c" "conn_heap s j = Some d" using run by (auto simp: http_forward_def bind_eq_Some_conv)
  show ?thesis
  proof (cases "conn_state c \<noteq> ESTABLISHED \<or> conn_state d \<noteq> ESTABLISHED \<or> read_buf c = []")
    case True
    then have "s' = s" using run c by (auto simp: http_forward_def split: if_splits)
    then show ?thesis using all by simp
  next
    case False
    define req where "req = is_http_request (read_buf c)"
    obtain ready s1 where s1: "(if req then prepare_request k w i (conn_fd c) s else prepare_response k w i (conn_fd c) s) = Some (ready, s1)"
      and rest: "s' = s1 \<or> reject_bad_request k i j s1 = Some s' \<or> copy_prepared k req i j s1 = Some s'"
      using run c False by (auto simp: http_forward_def req_def Let_def bind_eq_Some_conv split: if_splits)
    have "all_conns P s1" using s1 prepare_conns [OF all] by (auto split: if_splits)
    with rest show ?thesis using reject_conns copy_prepared_conns by metis
  qed
qed

end

lemma shut_bounded: "length (read_buf (fst (shut rel c m))) \<le> length (read_buf c)" "length (write_buf (fst (shut rel c m))) \<le> length (write_buf c)"
  by (simp_all add: shut_def clear_buffers_def Let_def split: prod.splits)

interpretation buffers: connection_property conn_ok
proof
  show "conn_ok (fst (shut release_bytes c m))" if "conn_ok c" for c m
    using that shut_bounded [of release_bytes c m] by (simp add: conn_ok_def)
  show "conn_ok (fst (transfer n c d)) \<and> conn_ok (snd (transfer n c d))" if "conn_ok c" "conn_ok d" "n \<le> write_available d" for c d n
    using conn_ok_transfer [OF that] by blast
qed (auto simp: conn_ok_def set_peer_def set_conn_state_def set_buffer_full_def clear_buffers_def
    dest: conn_ok_read [unfolded conn_ok_def, OF conjI] conn_ok_write [unfolded conn_ok_def, OF conjI])

text \<open>The copying of a prepared message returns, unless the write fails and closing does not.\<close>

lemma finish_response_total: "conn_heap s i = Some c \<Longrightarrow> \<exists>s'. finish_response k i f s = Some s'"
  by (simp add: finish_response_def Let_def case_prod_unfold split: option.splits)

lemma copy_prepared_total:
  assumes "conn_heap s i = Some c" "conn_heap s j = Some d" "i \<noteq> j" "k_write k (steps s) \<noteq> WriteFailed"
  shows "\<exists>s'. copy_prepared k False i j s = Some s'"
proof -
  define n where "n = min (length (read_buf c)) (write_available d)"
  obtain c1 d1 where tr: "transfer n c d = (c1, d1)" by fastforce
  define c2 where "c2 = (if buffer_full c \<and> has_read_space c1 then set_buffer_full False c1 else c1)"
  define s3 where "s3 = mod_fd (conn_fd c) (forward_events c2) (mod_fd (conn_fd d1) EPOLLINOUT
    (count_copied False (conn_fd c) n (put_conn j d1 (put_conn i c2 s))))"
  have "steps s3 = steps s"
    by (auto simp: s3_def mod_fd_def put_conn_def count_copied_def upd_request_info_def put_http_state_def Let_def split: option.splits)
  moreover have "conn_heap s3 j = Some d1" "conn_heap s3 i = Some c2" using assms(3) by (simp_all add: s3_def)
  moreover from this(1) obtain s4 d2 where s4: "conn_write k j s3 = Some (write_buf d1 = [] \<or> k_write k (steps s3) \<noteq> WriteFailed, s4)"
    "conn_heap s4 = (conn_heap s3)(j \<mapsto> d2)" by (rule conn_write_exact)
  moreover from s4 have "conn_heap s4 j = Some d2" by simp
  then obtain b s5 where "has_pending_send k j s4 = Some (b, s5)" "conn_heap s5 = conn_heap s4" by (rule has_pending_send_ok)
  moreover have "\<exists>s'. finish_response k i f (if b then start_backpressure k f s5 else clear_backpressure f s5) = Some s'" for f
    by (rule finish_response_total [of _ _ c2]) (use calculation assms(3) in auto)
  ultimately show ?thesis using assms
    by (auto simp: copy_prepared_def Let_def n_def [symmetric] tr c2_def [symmetric] s3_def [symmetric])
qed
definition write_ok :: "Connection \<Rightarrow> bool" where
  "write_ok c \<longleftrightarrow> length (write_buf c) \<le> MAX_BUFFER_SIZE"

lemma bad_request_page_short: "length (to_bytes (bad_request ''Invalid HTTP request'')) \<le> MAX_BUFFER_SIZE"
  by code_simp

interpretation write_buffers: rewritten_property write_ok
proof
  show "write_ok (fst (shut release_bytes c m))" if "write_ok c" for c m
    using that shut_bounded(2) [of release_bytes c m] by (simp add: write_ok_def)
  show "write_ok (fst (snd (read_from_fd reserve_bytes release_bytes rio c m)))" if "write_ok c" for c rio m
    using that read_from_fd_bytes [of reserve_bytes release_bytes rio c m] by (metis prod.collapse write_ok_def)
  show "write_ok (fst (snd (write_to_fd release_bytes wio c m)))" if "write_ok c" for c wio m
    using that write_to_fd_exact(2) [of release_bytes wio c m] by (metis diff_le_self le_trans length_drop prod.collapse write_ok_def)
  show "write_ok (fst (transfer n c d)) \<and> write_ok (snd (transfer n c d))" if "write_ok c" "write_ok d" "n \<le> write_available d" for c d n
    using that by (simp add: transfer_def write_ok_def write_available_room)
qed (simp_all add: write_ok_def set_peer_def set_conn_state_def set_buffer_full_def clear_buffers_def bad_request_page_short)

text \<open>
  The read buffer has no such bound in HTTP mode: \<open>replace_read_buffer\<close> asks the memory budget for the
  extra bytes but does not look at \<open>MAX_BUFFER_SIZE\<close>. A request that fits into the buffer is longer
  than that once the forwarding headers are in it.
\<close>

definition large_request :: "bytes \<Rightarrow> HttpRequest" where
  "large_request b = example_request\<lparr>req_headers := [(''Host'', ''example.org''), (''Content-Length'', ''65450'')], req_body := b\<rparr>"

lemma large_request_ok: "length b = 65450 \<Longrightarrow> request_ok (large_request b)"
  by (simp add: large_request_def request_ok_def example_request_def word_ok_def isspace_def header_ok_def is_eol_def
      CR_def LF_def TAB_def is_blank_def is_content_length_def declared_length_def stoul_def split_sign_def
      is_digit_def digit_val_def)

lemma large_request_rewritten:
  "req_headers (rewritten example_forwarder ''unknown'' (large_request b)) =
   [(''Host'', ''example.org''), (''Content-Length'', ''65450''), (''X-Forwarded-For'', ''unknown''), (''X-Real-IP'', ''unknown''),
    (''X-Forwarded-Proto'', ''http''), (''X-Forwarded-Host'', ''example.org'')]"
  by code_simp

lemma modify_request_headers_only:
  "modify_request_headers ip https r = r\<lparr>req_headers := req_headers (modify_request_headers ip https r)\<rparr>"
  by (simp add: modify_request_headers_def put_req_header_def Let_def)

lemma large_request_sizes:
  "length (serialize_http_request (large_request b)) = length b + 68"
  "length (serialize_http_request (rewritten example_forwarder ''unknown'' (large_request b))) = length b + 170"
proof -
  have only: "rewritten example_forwarder ''unknown'' r = r\<lparr>req_headers := req_headers (rewritten example_forwarder ''unknown'' r)\<rparr>" for r
    unfolding rewritten_def example_forwarder_def HttpForwarder.simps option.case by (rule modify_request_headers_only)
  show "length (serialize_http_request (rewritten example_forwarder ''unknown'' (large_request b))) = length b + 170"
    by (subst only, subst large_request_rewritten) (simp add: large_request_def example_request_def serialize_http_request_def header_line_def crlf_def)
qed (simp add: large_request_def example_request_def serialize_http_request_def header_line_def crlf_def)

lemma rewriting_exceeds_buffer:
  assumes "length b = 65450"
  defines "s \<equiv> put_conn 0 ((new_connection 10)\<lparr>read_buf := serialize_http_request (large_request b)\<rparr>) new_load_balancer"
  shows "\<exists>s' c'. parse_and_modify_http_request example_kernel example_forwarder 0 10 s = Some (True, s') \<and>
    conn_heap s' 0 = Some c' \<and> all_conns conn_ok s \<and> MAX_BUFFER_SIZE < length (read_buf c')"
proof -
  let ?r = "large_request b"
  let ?c = "(new_connection 10)\<lparr>read_buf := serialize_http_request ?r\<rparr>"
  have c: "conn_heap s 0 = Some ?c" and h: "req_parser (http_state_of 10 s) = new_request_parser"
    by (simp_all add: s_def http_state_of_def new_http_state_def new_load_balancer_def put_conn_def)
  have ok: "request_ok ?r" using assms(1) by (rule large_request_ok)
  have http: "is_http_request (read_buf ?c)" using is_http_request_printed [of ?r "[]"] ok by (simp add: request_ok_def)
  obtain p where p: "parse_request (read_buf ?c) (req_parser (http_state_of 10 s)) = (True, length (serialize_http_request ?r), p)"
    and msg: "message p = ?r" using parse_printed_complete [OF ok, of "[]"] h by auto
  have name: "client_name example_kernel 10 s = ''unknown''"
    by (simp add: client_name_def peer_address_def s_def get_connection_def new_load_balancer_def put_conn_def)
  have "\<not> accounted ?c" by (simp add: new_connection_def)
  then obtain s' c' where "parse_and_modify_http_request example_kernel example_forwarder 0 10 s = Some (True, s')" "conn_heap s' 0 = Some c'"
    "read_buf c' = serialize_http_request (rewritten example_forwarder ''unknown'' ?r)"
    using parse_and_modify_parsed [OF c http p, of example_kernel example_forwarder] msg name by (metis (full_types))
  moreover have "all_conns conn_ok s"
    using assms(1) by (simp add: s_def all_conns_def conn_ok_def new_load_balancer_def new_connection_def large_request_sizes MAX_BUFFER_SIZE_def)
  moreover have "MAX_BUFFER_SIZE < length (serialize_http_request (rewritten example_forwarder ''unknown'' ?r))"
    using assms(1) by (simp add: large_request_sizes MAX_BUFFER_SIZE_def)
  ultimately show ?thesis by metis
qed

section \<open>Properties\<close>

text \<open>C16: the bound of 64 KiB on the buffers. In TCP mode both buffers of every connection object stay
  within \<open>MAX_BUFFER_SIZE\<close>: if they are, they are after a read, a write, forwarding by copying or
  by splicing and closing a connection with its peer (into the pool or not), on any state of the
  tables and whatever the kernel answers, and a new connection starts with empty buffers. In HTTP
  mode, with \<open>http_forward\<close> in addition, the write buffers stay within it; the read buffers need
  not, because a rewritten message replaces the original whatever its length
  (\<open>rewriting_exceeds_buffer\<close>).\<close>

theorem connection_buffers_bounded:
  "(all_conns conn_ok s \<longrightarrow>
      (\<forall>r s'. conn_read k i s = Some (r, s') \<or> conn_write k i s = Some (r, s') \<longrightarrow> all_conns conn_ok s') \<and>
      (\<forall>s'. forward k i j s = Some s' \<or> splice_forward k i j s = Some s' \<or> close_connection k f s = Some s' \<longrightarrow>
         all_conns conn_ok s') \<and>
      all_conns conn_ok (snd (make_connection f s))) \<and>
   (all_conns write_ok s \<longrightarrow>
      (\<forall>r s'. conn_read k i s = Some (r, s') \<or> conn_write k i s = Some (r, s') \<longrightarrow> all_conns write_ok s') \<and>
      (\<forall>s'. forward k i j s = Some s' \<or> splice_forward k i j s = Some s' \<or> http_forward k w i j s = Some s' \<or>
         close_connection k f s = Some s' \<longrightarrow> all_conns write_ok s') \<and>
      all_conns write_ok (snd (make_connection f s))) \<and>
   all_conns conn_ok new_load_balancer"
proof -
  have new: "all_conns P s \<longrightarrow> all_conns P (snd (make_connection f s))" if "P (new_connection f)" for P
    using that by (auto simp: make_connection_def all_conns_def)
  have "conn_ok (new_connection f)" "write_ok (new_connection f)" using conn_ok_new by (simp_all add: conn_ok_def write_ok_def)
  note new = new [of conn_ok, OF this(1)] new [of write_ok, OF this(2)]
  have "all_conns conn_ok new_load_balancer" by (simp add: all_conns_def new_load_balancer_def)
  moreover have "all_conns conn_ok s \<longrightarrow>
      (\<forall>r s'. conn_read k i s = Some (r, s') \<or> conn_write k i s = Some (r, s') \<longrightarrow> all_conns conn_ok s') \<and>
      (\<forall>s'. forward k i j s = Some s' \<or> splice_forward k i j s = Some s' \<or> close_connection k f s = Some s' \<longrightarrow> all_conns conn_ok s')"
    using buffers.read_conns [of s] buffers.write_conns [of s] buffers.forward_conns [of s] buffers.splice_forward_conns [of s]
      buffers.close_conns [of s] by fast
  moreover have "all_conns write_ok s \<longrightarrow>
      (\<forall>r s'. conn_read k i s = Some (r, s') \<or> conn_write k i s = Some (r, s') \<longrightarrow> all_conns write_ok s') \<and>
      (\<forall>s'. forward k i j s = Some s' \<or> splice_forward k i j s = Some s' \<or> http_forward k w i j s = Some s' \<or>
         close_connection k f s = Some s' \<longrightarrow> all_conns write_ok s')"
    using write_buffers.read_conns [of s] write_buffers.write_conns [of s] write_buffers.forward_conns [of s]
      write_buffers.splice_forward_conns [of s] write_buffers.http_forward_conns [of s] write_buffers.close_conns [of s] by fast
  ultimately show ?thesis using new by blast
qed

definition example_two :: lb_state where
  "example_two = put_conn 1 (new_connection 11) (put_conn 0 ((new_connection 10)\<lparr>read_buf := ''data''\<rparr>) new_load_balancer)"

theorem connection_buffers_bounded_witness:
  "(\<exists>s'. forward example_kernel 0 1 example_two = Some s' \<and> all_conns conn_ok s') \<and>
   (\<exists>s'. http_forward example_kernel example_forwarder 0 1 example_two = Some s' \<and> all_conns write_ok s')"
proof -
  have ok: "all_conns conn_ok example_two" "all_conns write_ok example_two"
    by (auto simp: example_two_def all_conns_def new_load_balancer_def conn_ok_def write_ok_def new_connection_def MAX_BUFFER_SIZE_def)
  have room: "write_available (new_connection 11) = 65536"
    by (simp add: write_available_room new_connection_def MAX_BUFFER_SIZE_def)
  note run = new_connection_def conn_write_def has_pending_send_def ask_def transfer_def MAX_BUFFER_SIZE_def example_kernel_def
    write_to_fd_def Let_def
  have "\<exists>s'. forward example_kernel 0 1 example_two = Some s'"
    by (simp add: example_two_def forward_def room) (simp add: run)
  moreover have "\<not> is_http_request ''data''" by code_simp
  moreover have "prepare_response example_kernel example_forwarder 0 10 example_two = Some (True, example_two)"
    by (simp add: prepare_response_def get_client_fd_def example_two_def new_load_balancer_def)
  moreover have "\<exists>s'. copy_prepared example_kernel False 0 1 example_two = Some s'"
    by (rule copy_prepared_total [of _ _ "(new_connection 10)\<lparr>read_buf := ''data''\<rparr>" _ "new_connection 11"])
       (simp_all add: example_two_def example_kernel_def)
  moreover have "conn_heap example_two 0 = Some ((new_connection 10)\<lparr>read_buf := ''data''\<rparr>)" "conn_heap example_two 1 = Some (new_connection 11)"
    by (simp_all add: example_two_def)
  moreover have "conn_fd (new_connection 10) = 10" "conn_state (new_connection f) = ESTABLISHED" for f by (simp_all add: new_connection_def)
  ultimately have "\<exists>s'. forward example_kernel 0 1 example_two = Some s'"
    "\<exists>s'. http_forward example_kernel example_forwarder 0 1 example_two = Some s'"
    by (simp_all add: http_forward_def)
  then show ?thesis using connection_buffers_bounded [of example_two example_kernel 0 1 10 example_forwarder] ok by blast
qed

end
