(* ===== verification/Shutdown.thy ===== *)
theory Shutdown
  imports Accept_Safety Config_Manager
begin

text \<open>
  The end of the program: a graceful shutdown closes every connection and stops by its deadline, and
  what the destructor of the load balancer does to connections that are left.
\<close>

section \<open>Graceful shutdown\<close>

lemma map_of_all_None:
  assumes "\<And>f. map_of xs f = None" shows "xs = []"
proof -
  have "\<forall>f. f \<notin> fst ` set xs" using assms by (simp add: map_of_eq_None_iff)
  then show ?thesis by (cases xs) auto
qed

lemma force_close_empties:
  assumes good: "lb_good [] s"
  obtains s' where "force_close_all_connections k s = Some s'" and "lb_good [] s'" and "connections s' = []"
    and "bad_closes s' = bad_closes s" and "open_fds s' \<subseteq> open_fds s"
proof -
  let ?open = "\<lambda>e. case conn_heap s (snd e) of None \<Rightarrow> False | Some c \<Rightarrow> conn_state c \<noteq> CLOSED"
  let ?fs = "map fst (filter ?open (connections s))"
  obtain s' where s': "close_each (close_connection k) ?fs s = Some s'" "lb_good [] s'" "shrinks s s'"
    "\<forall>f \<in> set ?fs. get_connection f s' = None"
    using cc.close_each_total [OF good, of k ?fs] by blast
  have "get_connection f s' = None" for f
  proof (rule ccontr)
    assume "get_connection f s' \<noteq> None"
    then obtain i where i: "get_connection f s' = Some i" by blast
    then have g: "get_connection f s = Some i" using s'(3) by (simp add: shrinks_def)
    have inv: "lb_inv [] s" "table_states_ok s" using good by (simp_all add: lb_good_def)
    obtain c where "conn_heap s i = Some c" using get_connection_live [OF inv(1) g] .
    with inv(2) get_connection_in [OF g] have "f \<in> set ?fs" by (force simp: table_states_ok_def)
    with s'(4) i show False by (metis option.distinct(1))
  qed
  then have "connections s' = []" by (intro map_of_all_None) (simp add: get_connection_def)
  then show ?thesis using that s' by (simp add: force_close_all_connections_def shrinks_def)
qed

definition shut_down :: "lb_state \<Rightarrow> bool" where
  "shut_down s \<longleftrightarrow> connections s = [] \<and> \<not> draining s \<and> \<not> reactor_running s \<and> \<not> running (health_checker s)"

lemma finish_shutdown_done:
  assumes good: "lb_good [] s"
  obtains s' where "finish_shutdown k s = Some s'" and "shut_down s'" and "lb_good [] s'" and "bad_closes s' = bad_closes s"
proof -
  obtain s1 where s1: "force_close_all_connections k s = Some s1" "lb_good [] s1" "connections s1 = []" "bad_closes s1 = bad_closes s"
    using good by (rule force_close_empties)
  let ?s = "s1\<lparr>health_checker := hc_stop (health_checker s1), reactor_running := False, draining := False\<rparr>"
  have "lb_good [] ?s" by (rule lb_good_core [OF s1(2)]) (simp_all add: hc_stop_def)
  with s1 that [of ?s] show ?thesis by (simp add: finish_shutdown_def shut_down_def hc_stop_def)
qed

lemma drain_tick:
  assumes good: "lb_good [] s" and d: "draining s"
  shows "(\<exists>s'. periodic k Y fv ord ord' s = Some s' \<and> shut_down s' \<and> bad_closes s' = bad_closes s) \<or>
     (k_now k (steps s) < shutdown_deadline s \<and> periodic k Y fv ord ord' s = Some (s\<lparr>steps := Suc (steps s)\<rparr>))"
proof -
  let ?s = "s\<lparr>steps := Suc (steps s)\<rparr>"
  have "lb_good [] ?s" by (rule lb_good_core [OF good]) simp_all
  then obtain s' where s': "finish_shutdown k ?s = Some s'" "shut_down s'" "bad_closes s' = bad_closes ?s" by (rule finish_shutdown_done)
  then show ?thesis
    using d by (auto simp: periodic_def check_graceful_shutdown_def ask_def Let_def)
qed

text \<open>The periodic callback, called again and again while nothing else happens.\<close>

fun ticks :: "kernel \<Rightarrow> 'y yaml_api \<Rightarrow> 'y file_view \<Rightarrow> nat \<Rightarrow> lb_state \<Rightarrow> lb_state option" where
  "ticks k Y fv 0 s = Some s"
| "ticks k Y fv (Suc n) s = do { s1 \<leftarrow> periodic k Y fv [] [] s; ticks k Y fv n s1 }"

lemma ticks_reach_shutdown:
  assumes "lb_good [] s" and "draining s" and "\<And>m. N \<le> m \<Longrightarrow> shutdown_deadline s \<le> k_now k m"
  shows "\<exists>n s'. n \<le> N - steps s + 1 \<and> ticks k Y fv n s = Some s' \<and> shut_down s' \<and> bad_closes s' = bad_closes s"
  using assms
proof (induction "N - steps s" arbitrary: s)
  case 0
  then have "\<not> k_now k (steps s) < shutdown_deadline s" using "0.hyps" "0.prems"(3) [of "steps s"] by linarith
  then obtain s' where "periodic k Y fv [] [] s = Some s'" "shut_down s'" "bad_closes s' = bad_closes s"
    using drain_tick [OF "0.prems"(1,2)] by blast
  then show ?case by (intro exI [of _ 1]) simp
next
  case (Suc d)
  let ?s = "s\<lparr>steps := Suc (steps s)\<rparr>"
  from drain_tick [OF Suc.prems(1,2), of k Y fv "[]" "[]"] show ?case
  proof (elim disjE)
    assume "\<exists>s'. periodic k Y fv [] [] s = Some s' \<and> shut_down s' \<and> bad_closes s' = bad_closes s"
    then show ?case by (intro exI [of _ 1]) auto
  next
    assume p: "k_now k (steps s) < shutdown_deadline s \<and> periodic k Y fv [] [] s = Some ?s"
    have "lb_good [] ?s" by (rule lb_good_core [OF Suc.prems(1)]) simp_all
    moreover have "d = N - steps ?s" using Suc.hyps(2) by simp
    moreover have "shutdown_deadline ?s \<le> k_now k m" if "N \<le> m" for m using Suc.prems(3) [OF that] by simp
    ultimately obtain n s' where "n \<le> N - steps ?s + 1" "ticks k Y fv n ?s = Some s'" "shut_down s'" "bad_closes s' = bad_closes ?s"
      using Suc.hyps(1) [of ?s] Suc.prems(2) by auto
    with p Suc.hyps(2) show ?case by (intro exI [of _ "Suc n"]) auto
  qed
qed

section \<open>Destruction\<close>

lemma free_all_ssl_frees:
  "free_all_ssl is s = Some s' \<Longrightarrow> conn_heap s' = conn_heap s \<and> live_ssl s' \<subseteq> live_ssl s \<and>
     (\<forall>i \<in> set is. \<forall>c x. conn_heap s i = Some c \<longrightarrow> ssl c = Some x \<longrightarrow> x \<notin> live_ssl s')"
proof (induction "is" arbitrary: s)
  case (Cons i "is")
  obtain c s1 where c: "conn_heap s i = Some c" "ssl_free (ssl c) s = Some s1" "free_all_ssl is s1 = Some s'"
    using Cons.prems by (auto simp: bind_eq_Some_conv)
  have "conn_heap s1 = conn_heap s" "live_ssl s1 = live_ssl s - set_option (ssl c)"
    using c(2) by (auto simp: ssl_free_def split: option.splits if_splits)
  with Cons.IH [OF c(3)] c(1) show ?case by auto
qed simp

lemma conn_close_keeps_ssl:
  assumes "conn_close j s = Some s'" and "conn_heap s i = Some c" and "i \<noteq> j"
  shows "\<exists>c'. conn_heap s' i = Some c' \<and> ssl c' = ssl c" and "live_ssl s' \<subseteq> live_ssl s"
proof -
  obtain d where d: "conn_heap s j = Some d" using assms(1) by (auto simp: conn_close_def bind_eq_Some_conv)
  obtain d' m where sh: "shut release_bytes d (mem s) = (d', m)" by fastforce
  define s0 where "s0 = (put_conn j d' s)\<lparr>mem := m\<rparr>"
  obtain s1 where s1: "ssl_free (ssl d) s0 = Some s1"
    and r: "(case peer d of None \<Rightarrow> Some (if conn_fd d \<ge> 0 then sys_close (conn_fd d) s1 else s1)
      | Some x \<Rightarrow> with_conn x (set_peer None) (if conn_fd d \<ge> 0 then sys_close (conn_fd d) s1 else s1)) = Some s'"
    using assms(1) d sh by (auto simp: conn_close_def bind_eq_Some_conv s0_def Let_def)
  have "conn_heap s1 = conn_heap s0" "live_ssl s1 \<subseteq> live_ssl s0"
    using s1 by (auto simp: ssl_free_def split: option.splits if_splits)
  then have h: "conn_heap s1 i = Some c" "live_ssl s1 \<subseteq> live_ssl s" using assms(2,3) by (simp_all add: s0_def put_conn_def)
  let ?s2 = "if conn_fd d \<ge> 0 then sys_close (conn_fd d) s1 else s1"
  have s2: "conn_heap ?s2 = conn_heap s1" "live_ssl ?s2 = live_ssl s1" by (simp_all add: sys_close_def)
  show "\<exists>c'. conn_heap s' i = Some c' \<and> ssl c' = ssl c" and "live_ssl s' \<subseteq> live_ssl s"
    using r h s2 by (auto simp: with_conn_def bind_eq_Some_conv put_conn_def set_peer_def split: option.splits)
qed

lemma close_all_freed:
  "i \<in> set is \<Longrightarrow> conn_heap s i = Some c \<Longrightarrow> ssl c = Some x \<Longrightarrow> x \<notin> live_ssl s \<Longrightarrow> close_all is s = None"
proof (induction "is" arbitrary: s c)
  case (Cons j "is")
  show ?case
  proof (cases "conn_close j s")
    case (Some s1)
    have "j \<noteq> i"
    proof
      assume "j = i"
      with Some Cons.prems show False by (auto simp: conn_close_def ssl_free_def bind_eq_Some_conv split: prod.splits)
    qed
    with conn_close_keeps_ssl [OF Some Cons.prems(2)] Cons.prems show ?thesis
      using Some Cons.IH by (metis close_all.simps(2) bind.bind_lunit set_ConsD subsetD)
  qed simp
qed simp

section \<open>Properties\<close>

text \<open>C10: a graceful shutdown ends. From any consistent state that is draining, on a clock that reaches
  the deadline after some number of questions to the kernel, repeated calls of the periodic
  callback come to a state in which every connection is closed, each descriptor exactly once,
  and the reactor and the health checker are stopped; the number of calls is bounded by the
  time left.\<close>

theorem graceful_shutdown_ends:
  assumes "lb_good [] s" and "draining s" and "\<forall>m \<ge> N. shutdown_deadline s \<le> k_now k m"
  shows "\<exists>n s'. n \<le> N - steps s + 1 \<and> ticks k Y fv n s = Some s' \<and> connections s' = [] \<and> \<not> draining s' \<and>
    \<not> reactor_running s' \<and> \<not> running (health_checker s') \<and> bad_closes s' = bad_closes s"
  using ticks_reach_shutdown [OF assms(1,2), of N k Y fv] assms(3) by (auto simp: shut_down_def)

theorem graceful_shutdown_ends_witness:
  "\<exists>n s'. n \<le> 10 \<and> ticks example_kernel ynode_api example_view n
      (example_pair\<lparr>draining := True, reactor_running := True, shutdown_deadline := 9000000\<rparr>) = Some s' \<and>
    connections s' = [] \<and> \<not> reactor_running s'"
proof -
  let ?s = "example_pair\<lparr>draining := True, reactor_running := True, shutdown_deadline := 9000000\<rparr>"
  have "lb_good [] ?s" by (rule lb_good_core [OF example_pair_good]) simp_all
  moreover have "\<forall>m \<ge> 9. shutdown_deadline ?s \<le> k_now example_kernel m" by (auto simp: example_kernel_def)
  ultimately obtain n s' where "n \<le> 9 - steps ?s + 1" "ticks example_kernel ynode_api example_view n ?s = Some s'"
    "connections s' = []" "\<not> reactor_running s'"
    using graceful_shutdown_ends [of ?s 9 example_kernel ynode_api example_view] by auto
  moreover have "9 - steps ?s + 1 \<le> 10" by simp
  ultimately show ?thesis by (intro exI [of _ n] exI [of _ s'] conjI) linarith+
qed

text \<open>C36: the destructor frees SSL objects twice. With a TLS context, \<open>~LoadBalancer\<close> frees the SSL object
  of every TLS connection without clearing the connection's pointer and then closes the
  connections, which frees it again: as soon as one TLS connection is left, destruction is
  undefined behaviour.\<close>

theorem destructor_frees_ssl_twice:
  assumes "tls_ready s" and "(f, i) \<in> set (connections s)" and "conn_heap s i = Some c" and "ssl c = Some x"
  shows "destroy_load_balancer s = None"
proof -
  let ?s = "s\<lparr>health_checker := hc_stop (health_checker s)\<rparr>"
  have i: "i \<in> set (map snd (connections s))" using assms(2) by force
  have "close_all (map snd (connections s)) s2 = None" if "free_all_ssl (map snd (connections s)) ?s = Some s2" for s2
  proof (rule close_all_freed [OF i _ assms(4)])
    show "conn_heap s2 i = Some c" "x \<notin> live_ssl s2" using free_all_ssl_frees [OF that] i assms by auto
  qed
  then show ?thesis using assms(1) by (cases "free_all_ssl (map snd (connections s)) ?s") (simp_all add: destroy_load_balancer_def)
qed

theorem destructor_frees_ssl_twice_witness:
  "let s = new_load_balancer\<lparr>conn_heap := [0 \<mapsto> (new_connection 10)\<lparr>ssl := Some 7\<rparr>], connections := [(10, 0)], next_conn := 1,
      open_fds := {10}, live_ssl := {7}, tls_ready := True\<rparr>
   in lb_good [] s \<and> destroy_load_balancer s = None"
proof -
  let ?s = "new_load_balancer\<lparr>conn_heap := [0 \<mapsto> (new_connection 10)\<lparr>ssl := Some 7\<rparr>], connections := [(10, 0)], next_conn := 1,
      open_fds := {10}, live_ssl := {7}, tls_ready := True\<rparr>"
  have "lb_good [] ?s"
    by (auto simp: lb_good_def lb_inv_def heap_inv_def table_inv_def owned_def pooled_ids_def table_states_ok_def
      counters_exact_def node_alive_def new_load_balancer_def new_pool_def new_health_checker_def new_connection_def split: if_splits)
  moreover have "destroy_load_balancer ?s = None"
    by (rule destructor_frees_ssl_twice [where f = 10 and i = 0 and c = "(new_connection 10)\<lparr>ssl := Some 7\<rparr>" and x = 7]) simp_all
  ultimately show ?thesis by (simp only: Let_def simp_thms)
qed

end
