(* ===== verification/Reconfiguration.thy ===== *)
theory Reconfiguration
  imports Load_Balancer
begin

text \<open>
  Applying a configuration: the backends that leave are drained, those that stay are restored, new ones are
  added, and drained backends without connections are removed.
\<close>

section \<open>Backends of a pool\<close>

abbreviation members :: "lb_state \<Rightarrow> node_id list" where
  "members s \<equiv> backends (backend_pool s)"

definition address :: "lb_state \<Rightarrow> node_id \<Rightarrow> string \<times> u16" where
  "address s n = (host (nodes s n), port (nodes s n))"

definition listed :: "BackendConfig list \<Rightarrow> (string \<times> u16) set" where
  "listed bcs = (\<lambda>bc. (bc_host bc, bc_port bc)) ` set bcs"

definition drained :: "lb_state \<Rightarrow> node_id \<Rightarrow> bool" where
  "drained s n \<longleftrightarrow> state (nodes s n) = DRAINING \<and> active_connections (nodes s n) = 0"

text \<open>The members of the pool have different addresses, and no identifier is used ahead of time.\<close>

definition pool_wf :: "lb_state \<Rightarrow> bool" where
  "pool_wf s \<longleftrightarrow> inj_on (address s) (set (members s)) \<and> distinct (members s) \<and> (\<forall>n \<in> set (members s). n < next_node s)"

text \<open>\<open>same_nodes s s'\<close>: addresses and loads are as before.\<close>

definition same_nodes :: "node_id set \<Rightarrow> lb_state \<Rightarrow> lb_state \<Rightarrow> bool" where
  "same_nodes A s s' \<longleftrightarrow>
     (\<forall>n \<in> A. address s' n = address s n \<and> active_connections (nodes s' n) = active_connections (nodes s n))"

subsection \<open>Draining\<close>

lemma drain_fold:
  "members (fold (drain_if_unlisted bcs) ns s) = members s \<and> next_node (fold (drain_if_unlisted bcs) ns s) = next_node s \<and>
   (\<forall>n. nodes (fold (drain_if_unlisted bcs) ns s) n =
      (if n \<in> set ns \<and> address s n \<notin> listed bcs then set_state DRAINING (nodes s n) else nodes s n))"
proof (induction ns arbitrary: s)
  case (Cons m ns)
  let ?t = "drain_if_unlisted bcs m s"
  have t: "members ?t = members s" "next_node ?t = next_node s"
    "nodes ?t n = (if n = m \<and> address s m \<notin> listed bcs then set_state DRAINING (nodes s n) else nodes s n)" for n
    by (auto simp: drain_if_unlisted_def drain_backend_def upd_nodes_def upd_node_def set_state_def address_def listed_def)
  have "address ?t n = address s n" for n by (simp add: address_def t set_state_def)
  with t Cons.IH [of ?t] show ?case by (auto simp: set_state_def)
qed simp

subsection \<open>Restoring and adding\<close>

lemma restore_or_add_member:
  assumes wf: "pool_wf s"
  shows "pool_wf (restore_or_add bc s)" and "set (members s) \<subseteq> set (members (restore_or_add bc s))"
    and "same_nodes (set (members s)) s (restore_or_add bc s)"
    and "\<exists>n \<in> set (members (restore_or_add bc s)). address (restore_or_add bc s) n = (bc_host bc, bc_port bc) \<and>
      state (nodes (restore_or_add bc s) n) \<noteq> DRAINING"
    and "\<forall>n \<in> set (members (restore_or_add bc s)). address (restore_or_add bc s) n \<noteq> (bc_host bc, bc_port bc) \<longrightarrow>
      n \<in> set (members s) \<and> nodes (restore_or_add bc s) n = nodes s n"
    and "\<forall>n \<in> set (members s). state (nodes s n) \<noteq> DRAINING \<longrightarrow> state (nodes (restore_or_add bc s) n) \<noteq> DRAINING"
proof -
  let ?s = "restore_or_add bc s"
  have *: "pool_wf ?s \<and> set (members s) \<subseteq> set (members ?s) \<and> same_nodes (set (members s)) s ?s \<and>
    (\<exists>n \<in> set (members ?s). address ?s n = (bc_host bc, bc_port bc) \<and> state (nodes ?s n) \<noteq> DRAINING) \<and>
    (\<forall>n \<in> set (members ?s). address ?s n \<noteq> (bc_host bc, bc_port bc) \<longrightarrow> n \<in> set (members s) \<and> nodes ?s n = nodes s n) \<and>
    (\<forall>n \<in> set (members s). state (nodes s n) \<noteq> DRAINING \<longrightarrow> state (nodes ?s n) \<noteq> DRAINING)"
  proof (cases "find_backend (nodes s) (bc_host bc) (bc_port bc) (backend_pool s)")
    case None
    then have none: "\<And>n. n \<in> set (members s) \<Longrightarrow> address s n \<noteq> (bc_host bc, bc_port bc)"
      by (auto simp: find_backend_def find_None_iff address_def)
    let ?n = "next_node s"
    have t: "members ?s = members s @ [?n]" "next_node ?s = ?n + 1"
      "nodes ?s = (nodes s)(?n := new_backend_node (bc_host bc) (bc_port bc) (bc_weight bc))"
      using None by (simp_all add: restore_or_add_def add_backend_def pool_add_backend_def Let_def)
    have new: "n \<noteq> ?n" if "n \<in> set (members s)" for n using wf that by (auto simp: pool_wf_def)
    have addr: "address ?s n = (if n = ?n then (bc_host bc, bc_port bc) else address s n)" for n
      by (simp add: address_def t new_backend_node_def)
    have "inj_on (address ?s) (set (members ?s))"
    proof (rule inj_onI)
      fix x y assume "x \<in> set (members ?s)" "y \<in> set (members ?s)" "address ?s x = address ?s y"
      then show "x = y" using wf none new by (auto simp: t addr pool_wf_def inj_on_def split: if_splits)
    qed
    then have "pool_wf ?s" using wf new by (auto simp: pool_wf_def t less_Suc_eq)
    then show ?thesis using new by (auto simp: t addr same_nodes_def new_backend_node_def)
  next
    case (Some m)
    then have m: "m \<in> set (members s)" "address s m = (bc_host bc, bc_port bc)"
      by (auto simp: find_backend_def find_Some_iff address_def)
    have t: "members ?s = members s" "next_node ?s = next_node s"
      "nodes ?s n = (if n = m \<and> state (nodes s m) = DRAINING then set_state HEALTHY (nodes s n) else nodes s n)" for n
      using Some by (auto simp: restore_or_add_def upd_nodes_def upd_node_def)
    have addr: "address ?s n = address s n" for n by (simp add: address_def t set_state_def)
    have "pool_wf ?s" using wf by (simp add: pool_wf_def t addr inj_on_def)
    then show ?thesis using m by (auto simp: t addr same_nodes_def set_state_def)
  qed
  then show "pool_wf ?s" "set (members s) \<subseteq> set (members ?s)" "same_nodes (set (members s)) s ?s"
    "\<exists>n \<in> set (members ?s). address ?s n = (bc_host bc, bc_port bc) \<and> state (nodes ?s n) \<noteq> DRAINING"
    "\<forall>n \<in> set (members ?s). address ?s n \<noteq> (bc_host bc, bc_port bc) \<longrightarrow> n \<in> set (members s) \<and> nodes ?s n = nodes s n"
    "\<forall>n \<in> set (members s). state (nodes s n) \<noteq> DRAINING \<longrightarrow> state (nodes ?s n) \<noteq> DRAINING"
    by blast+
qed

lemma restore_fold:
  assumes "pool_wf s"
  shows "pool_wf (fold restore_or_add bcs s) \<and> set (members s) \<subseteq> set (members (fold restore_or_add bcs s)) \<and>
    same_nodes (set (members s)) s (fold restore_or_add bcs s) \<and>
    (\<forall>a \<in> listed bcs. \<exists>n \<in> set (members (fold restore_or_add bcs s)). address (fold restore_or_add bcs s) n = a \<and>
       state (nodes (fold restore_or_add bcs s) n) \<noteq> DRAINING) \<and>
    (\<forall>n \<in> set (members (fold restore_or_add bcs s)). address (fold restore_or_add bcs s) n \<notin> listed bcs \<longrightarrow>
       n \<in> set (members s) \<and> nodes (fold restore_or_add bcs s) n = nodes s n) \<and>
    (\<forall>n \<in> set (members s). state (nodes s n) \<noteq> DRAINING \<longrightarrow> state (nodes (fold restore_or_add bcs s) n) \<noteq> DRAINING)"
  using assms
proof (induction bcs arbitrary: s)
  case (Cons bc bcs)
  let ?t = "restore_or_add bc s"
  let ?u = "fold restore_or_add bcs ?t"
  note t = restore_or_add_member [OF Cons.prems, of bc]
  note u = Cons.IH [OF t(1)]
  have list: "listed (bc # bcs) = insert (bc_host bc, bc_port bc) (listed bcs)" by (simp add: listed_def)
  obtain n0 where n0: "n0 \<in> set (members ?t)" "address ?t n0 = (bc_host bc, bc_port bc)" "state (nodes ?t n0) \<noteq> DRAINING"
    using t(4) by blast
  with u have "n0 \<in> set (members ?u)" "address ?u n0 = (bc_host bc, bc_port bc)" "state (nodes ?u n0) \<noteq> DRAINING"
    by (auto simp: same_nodes_def)
  moreover have "n \<in> set (members s) \<and> nodes ?u n = nodes s n"
    if n: "n \<in> set (members ?u)" "address ?u n \<notin> listed (bc # bcs)" for n
  proof -
    from u n list have 1: "n \<in> set (members ?t)" "nodes ?u n = nodes ?t n" by auto
    then have "address ?t n \<noteq> (bc_host bc, bc_port bc)" using n(2) list by (auto simp: address_def)
    with t(5) 1 show ?thesis by simp
  qed
  moreover have "same_nodes (set (members s)) s ?u" using t(2,3) u by (auto simp: same_nodes_def)
  ultimately show ?case using t(2,6) u list by (simp, blast)
qed (simp add: same_nodes_def listed_def)

subsection \<open>Removing drained backends\<close>

lemma cleanup_fold:
  assumes "inj_on (address s) (set ns \<union> set (members s))"
  shows "nodes (fold cleanup_drained_backend ns s) = nodes s \<and> next_node (fold cleanup_drained_backend ns s) = next_node s \<and>
    members (fold cleanup_drained_backend ns s) = filter (\<lambda>m. \<not> (m \<in> set ns \<and> drained s m)) (members s)"
  using assms
proof (induction ns arbitrary: s)
  case (Cons n ns)
  let ?t = "cleanup_drained_backend n s"
  have t: "nodes ?t = nodes s" "next_node ?t = next_node s" by (simp_all add: cleanup_drained_backend_def)
  have m: "members ?t = filter (\<lambda>m. \<not> (m = n \<and> drained s m)) (members s)"
  proof -
    have "(host (nodes s m) = host (nodes s n) \<and> port (nodes s m) = port (nodes s n)) \<longleftrightarrow> m = n" if "m \<in> set (members s)" for m
      using Cons.prems that unfolding inj_on_def address_def by (metis Un_iff list.set_intros(1) Pair_inject)
    then have "members ?t = (if drained s n then filter (\<lambda>m. m \<noteq> n) (members s) else members s)"
      by (auto simp: cleanup_drained_backend_def drained_def pool_remove_backend_def intro: filter_cong)
    then show ?thesis by (auto intro!: filter_cong [symmetric] simp: filter_id_conv)
  qed
  have same: "address ?t = address s" "drained ?t = drained s" by (simp_all add: fun_eq_iff address_def drained_def t)
  have "inj_on (address ?t) (set ns \<union> set (members ?t))"
    unfolding same by (rule inj_on_subset [OF Cons.prems]) (auto simp: m)
  from Cons.IH [OF this] show ?case unfolding same m by (auto simp: t intro!: filter_cong)
qed simp

lemma cleanup_drained:
  assumes wf: "pool_wf s"
  shows "pool_wf (cleanup_drained_backends s)" and "nodes (cleanup_drained_backends s) = nodes s"
    and "set (members (cleanup_drained_backends s)) = {n \<in> set (members s). \<not> drained s n}"
proof -
  let ?s = "cleanup_drained_backends s"
  have "inj_on (address s) (set (members s) \<union> set (members s))" using wf by (simp add: pool_wf_def)
  note f = cleanup_fold [OF this, folded cleanup_drained_backends_def]
  show n: "nodes ?s = nodes s" and m: "set (members ?s) = {n \<in> set (members s). \<not> drained s n}" using f by auto
  have a: "address ?s = address s" by (simp add: fun_eq_iff address_def n)
  show "pool_wf ?s" using wf f unfolding pool_wf_def a by (auto intro: inj_on_subset)
qed

section \<open>Applying a configuration\<close>

lemma apply_config_frame:
  fixes cfg s
  defines "s4 \<equiv> (let s1 = (case last_applied_config s of
                  None \<Rightarrow> s
                | Some prev \<Rightarrow> if health_settings_changed cfg prev then configure_health cfg s else s);
          s2 = s1\<lparr>settings_of := apply_settings cfg (settings_of s1), mem := budget_limit cfg (mem s1)\<rparr>;
          s3 = (if algorithm (backend_pool s2) \<noteq> configured_algorithm cfg
                then s2\<lparr>backend_pool := set_algorithm (configured_algorithm cfg) (backend_pool s2)\<rparr> else s2)
      in (if lb_mode (settings_of s3) = ''http''
                then s3\<lparr>http_forwarder := map_option (configure_forwarder cfg) (http_forwarder s3)\<rparr> else s3))"
  shows "apply_config cfg s =
      (cleanup_drained_backends (fold restore_or_add (cfg_backends cfg) (fold (drain_if_unlisted (cfg_backends cfg)) (members s) s4)))
        \<lparr>last_applied_config := Some cfg\<rparr>"
    and "nodes s4 = nodes s" and "members s4 = members s" and "next_node s4 = next_node s"
    and "algorithm (backend_pool s4) = configured_algorithm cfg"
proof -
  show "nodes s4 = nodes s" "next_node s4 = next_node s" "algorithm (backend_pool s4) = configured_algorithm cfg"
    by (auto simp: s4_def Let_def configure_health_def set_algorithm_def split: option.splits)
  show m: "members s4 = members s" by (auto simp: s4_def Let_def configure_health_def set_algorithm_def split: option.splits)
  show "apply_config cfg s =
      (cleanup_drained_backends (fold restore_or_add (cfg_backends cfg) (fold (drain_if_unlisted (cfg_backends cfg)) (members s) s4)))
        \<lparr>last_applied_config := Some cfg\<rparr>"
    unfolding m [symmetric] unfolding s4_def apply_config_def by (simp add: Let_def)
qed

lemma algorithm_folds:
  "algorithm (backend_pool (fold (drain_if_unlisted bcs) ns s)) = algorithm (backend_pool s)"
  "algorithm (backend_pool (fold restore_or_add bcs s)) = algorithm (backend_pool s)"
  "algorithm (backend_pool (fold cleanup_drained_backend ns s)) = algorithm (backend_pool s)"
proof -
  show "algorithm (backend_pool (fold (drain_if_unlisted bcs) ns s)) = algorithm (backend_pool s)"
    by (induction ns arbitrary: s) (simp_all add: drain_if_unlisted_def drain_backend_def upd_nodes_def)
  show "algorithm (backend_pool (fold restore_or_add bcs s)) = algorithm (backend_pool s)"
    by (induction bcs arbitrary: s)
       (simp_all add: restore_or_add_def add_backend_def pool_add_backend_def upd_nodes_def Let_def split: option.splits)
  show "algorithm (backend_pool (fold cleanup_drained_backend ns s)) = algorithm (backend_pool s)"
    by (induction ns arbitrary: s) (simp_all add: cleanup_drained_backend_def pool_remove_backend_def)
qed

text \<open>C5: applying a configuration brings the pool to the configured backends without dropping work.
  Afterwards every configured address has a member of the pool that is not draining; a member
  whose address is not configured is draining and still has connections; every backend that
  had connections is still a member with the same address and load; and routing uses the
  configured algorithm.\<close>

theorem apply_config_realises_backends:
  assumes "pool_wf s"
  shows "pool_wf (apply_config cfg s) \<and>
    (\<forall>a \<in> listed (cfg_backends cfg). \<exists>n \<in> set (members (apply_config cfg s)).
       address (apply_config cfg s) n = a \<and> state (nodes (apply_config cfg s) n) \<noteq> DRAINING) \<and>
    (\<forall>n \<in> set (members (apply_config cfg s)). address (apply_config cfg s) n \<notin> listed (cfg_backends cfg) \<longrightarrow>
       n \<in> set (members s) \<and> state (nodes (apply_config cfg s) n) = DRAINING \<and> active_connections (nodes s n) \<noteq> 0) \<and>
    (\<forall>n \<in> set (members s). active_connections (nodes s n) \<noteq> 0 \<longrightarrow>
       n \<in> set (members (apply_config cfg s)) \<and> address (apply_config cfg s) n = address s n \<and>
       active_connections (nodes (apply_config cfg s) n) = active_connections (nodes s n)) \<and>
    algorithm (backend_pool (apply_config cfg s)) = configured_algorithm cfg"
proof -
  let ?bcs = "cfg_backends cfg"
  obtain s4 where s4: "apply_config cfg s = (cleanup_drained_backends (fold restore_or_add ?bcs (fold (drain_if_unlisted ?bcs) (members s) s4)))
        \<lparr>last_applied_config := Some cfg\<rparr>"
    "nodes s4 = nodes s" "members s4 = members s" "next_node s4 = next_node s" "algorithm (backend_pool s4) = configured_algorithm cfg"
    using apply_config_frame [where cfg = cfg and s = s] by metis
  let ?d = "fold (drain_if_unlisted ?bcs) (members s) s4"
  let ?r = "fold restore_or_add ?bcs ?d"
  let ?c = "cleanup_drained_backends ?r"
  have a4: "address s4 n = address s n" for n by (simp add: address_def s4)
  have d: "members ?d = members s" "next_node ?d = next_node s"
    "nodes ?d n = (if n \<in> set (members s) \<and> address s n \<notin> listed ?bcs then set_state DRAINING (nodes s n) else nodes s n)" for n
    using drain_fold [of ?bcs "members s" s4] by (simp_all add: s4 a4)
  have ad: "address ?d n = address s n" "active_connections (nodes ?d n) = active_connections (nodes s n)" for n
    by (simp_all add: address_def d set_state_def)
  have wfd: "pool_wf ?d" using assms by (simp add: pool_wf_def d ad inj_on_def)
  note r = restore_fold [OF wfd, of ?bcs]
  have wfr: "pool_wf ?r" using r by blast
  note c = cleanup_drained [OF wfr]
  have ac: "address ?c n = address ?r n" for n by (simp add: address_def c(2))
  have same: "address ?r n = address s n \<and> active_connections (nodes ?r n) = active_connections (nodes s n) \<and> n \<in> set (members ?r)"
    if "n \<in> set (members s)" for n
    using r that ad by (auto simp: same_nodes_def d(1))
  have "\<exists>n \<in> set (members ?c). address ?c n = a \<and> state (nodes ?c n) \<noteq> DRAINING" if "a \<in> listed ?bcs" for a
    using r that c by (force simp: ac drained_def)
  moreover have "n \<in> set (members s) \<and> state (nodes ?c n) = DRAINING \<and> active_connections (nodes s n) \<noteq> 0"
    if n: "n \<in> set (members ?c)" "address ?c n \<notin> listed ?bcs" for n
  proof -
    have "n \<in> set (members s)" "nodes ?r n = nodes ?d n" using r n c(3) ac by (auto simp: d(1))
    moreover from this have "state (nodes ?d n) = DRAINING" using n(2) same ac by (simp add: d set_state_def)
    ultimately show ?thesis using n(1) c(2,3) ad by (auto simp: drained_def)
  qed
  moreover have "n \<in> set (members ?c) \<and> address ?c n = address s n \<and> active_connections (nodes ?c n) = active_connections (nodes s n)"
    if "n \<in> set (members s)" "active_connections (nodes s n) \<noteq> 0" for n
    using same [OF that(1)] that(2) c by (auto simp: ac drained_def)
  moreover have "algorithm (backend_pool ?c) = configured_algorithm cfg"
    by (simp add: cleanup_drained_backends_def algorithm_folds s4)
  moreover have "nodes (apply_config cfg s) = nodes ?c" "members (apply_config cfg s) = members ?c"
    "algorithm (backend_pool (apply_config cfg s)) = algorithm (backend_pool ?c)"
    "address (apply_config cfg s) = address ?c" "pool_wf (apply_config cfg s) = pool_wf ?c"
    by (simp_all add: s4(1) fun_eq_iff address_def pool_wf_def inj_on_def)
  ultimately show ?thesis using c(1) by (simp only:) blast
qed

text \<open>An example: two backends, the first with a connection, are replaced by a third.\<close>

definition example_two_backends :: lb_state where
  "example_two_backends =
     upd_nodes 0 increment_connections (add_backend ''10.0.0.2'' 80 1 (add_backend ''10.0.0.1'' 80 1 new_load_balancer))"

definition example_replacement :: Config where
  "example_replacement = default_config\<lparr>cfg_backends := [\<lparr>bc_host = ''10.0.0.3'', bc_port = 80, bc_weight = 2\<rparr>]\<rparr>"

theorem apply_config_realises_backends_witness:
  "pool_wf example_two_backends \<and>
   0 \<in> set (members (apply_config example_replacement example_two_backends)) \<and>
   (\<exists>n \<in> set (members (apply_config example_replacement example_two_backends)).
      address (apply_config example_replacement example_two_backends) n = (''10.0.0.3'', 80))"
proof -
  have two: "members example_two_backends = [0, 1]" "next_node example_two_backends = 2"
    "address example_two_backends 0 = (''10.0.0.1'', 80)" "address example_two_backends 1 = (''10.0.0.2'', 80)"
    "active_connections (nodes example_two_backends 0) \<noteq> 0"
    by (simp_all add: example_two_backends_def add_backend_def find_backend_def pool_add_backend_def new_load_balancer_def
      new_pool_def new_backend_node_def upd_nodes_def upd_node_def increment_connections_def address_def)
  then have "pool_wf example_two_backends" by (simp add: pool_wf_def)
  moreover have "(''10.0.0.3'', 80) \<in> listed (cfg_backends example_replacement)"
    by (simp add: listed_def example_replacement_def)
  ultimately show ?thesis
    using apply_config_realises_backends [of example_two_backends example_replacement] two by (metis list.set_intros(1))
qed

end
