(* ===== verification/Thread_Pool.thy ===== *)
theory Thread_Pool
  imports LB_Prelude
begin

text \<open>
  \<^verbatim>\<open>core/thread_pool.cpp\<close>: the worker threads behind the loggers and the metrics server. The
  threads interleave: one step of the model is one access to shared data (the queue under the
  mutex, the flag \<open>stopping_\<close>, the wait set of the condition variable), and a worker that holds
  the mutex across several such accesses is recorded as its holder. Atomic flags are
  sequentially consistent, which the acquire and release orders used by the code give for a
  single flag.
\<close>

section \<open>State\<close>

text \<open>Where a worker is in \<open>worker_loop\<close>. \<open>Checking\<close>, \<open>Blocking\<close> and \<open>Deciding\<close> hold the mutex:
  before the predicate of \<open>wait\<close> is evaluated, after it was false and before the thread is in
  the wait set, and after \<open>wait\<close> returned.\<close>

datatype 'a worker_pc =
  AtLoop | Locking | Checking | Blocking | Waiting | Deciding | Running 'a | Exited

datatype destructor_pc = Alive | Notifying | Joining | Destroyed

record 'a ThreadPool =
  worker_count :: nat
  pool_workers :: "nat \<Rightarrow> 'a worker_pc"
  pool_tasks :: "'a list"
  pool_stopping :: bool
  mutex_holder :: "nat option"
  notifications :: nat
  destructor :: destructor_pc
  posted :: "'a list"
  started :: "'a list"
  started_late :: nat

text \<open>\<open>notifications\<close> counts the calls of \<open>post\<close> that have pushed and not yet notified; \<open>posted\<close>,
  \<open>started\<close> and \<open>started_late\<close> (tasks started after \<open>stopping_\<close> was set) only record what
  happened. The constructor starts one worker when it is asked for none.\<close>

definition new_thread_pool :: "nat \<Rightarrow> 'a ThreadPool" where
  "new_thread_pool workers =
     \<lparr>worker_count = (if workers = 0 then 1 else workers), pool_workers = (\<lambda>_. AtLoop), pool_tasks = [],
      pool_stopping = False, mutex_holder = None, notifications = 0, destructor = Alive,
      posted = [], started = [], started_late = 0\<rparr>"

section \<open>Steps\<close>

definition go :: "nat \<Rightarrow> 'a worker_pc \<Rightarrow> 'a ThreadPool \<Rightarrow> 'a ThreadPool" where
  "go w pc s = s\<lparr>pool_workers := (pool_workers s)(w := pc)\<rparr>"

lemma go_sel [simp]:
  "pool_workers (go w pc s) = (pool_workers s)(w := pc)" "worker_count (go w pc s) = worker_count s"
  "pool_tasks (go w pc s) = pool_tasks s" "pool_stopping (go w pc s) = pool_stopping s"
  "mutex_holder (go w pc s) = mutex_holder s" "notifications (go w pc s) = notifications s"
  "destructor (go w pc s) = destructor s" "posted (go w pc s) = posted s" "started (go w pc s) = started s"
  "started_late (go w pc s) = started_late s"
  by (simp_all add: go_def)

definition post_push :: "'a \<Rightarrow> 'a ThreadPool \<Rightarrow> 'a ThreadPool" where
  "post_push t s =
     (if pool_stopping s then s
      else s\<lparr>pool_tasks := pool_tasks s @ [t], notifications := notifications s + 1, posted := posted s @ [t]\<rparr>)"

text \<open>The steps of one worker; \<open>None\<close> where it has to wait for the mutex or for a notification.\<close>

definition worker_step :: "nat \<Rightarrow> 'a ThreadPool \<Rightarrow> 'a ThreadPool option" where
  "worker_step w s =
     (case pool_workers s w of
        AtLoop \<Rightarrow> Some (go w (if pool_stopping s then Exited else Locking) s)
      | Locking \<Rightarrow> if mutex_holder s = None then Some (go w Checking (s\<lparr>mutex_holder := Some w\<rparr>)) else None
      | Checking \<Rightarrow> Some (go w (if pool_stopping s \<or> pool_tasks s \<noteq> [] then Deciding else Blocking) s)
      | Blocking \<Rightarrow> Some (go w Waiting (s\<lparr>mutex_holder := None\<rparr>))
      | Waiting \<Rightarrow> None
      | Deciding \<Rightarrow>
          if pool_stopping s \<and> pool_tasks s = [] then Some (go w Exited (s\<lparr>mutex_holder := None\<rparr>))
          else
            let t = hd (pool_tasks s)
            in Some (go w (Running t) (s\<lparr>mutex_holder := None, pool_tasks := tl (pool_tasks s), started := started s @ [t],
                 started_late := started_late s + (if pool_stopping s then 1 else 0)\<rparr>))
      | Running t \<Rightarrow> Some (go w AtLoop s)
      | Exited \<Rightarrow> None)"

definition destructor_step :: "'a ThreadPool \<Rightarrow> 'a ThreadPool option" where
  "destructor_step s =
     (case destructor s of
        Alive \<Rightarrow> Some (s\<lparr>pool_stopping := True, destructor := Notifying\<rparr>)
      | Notifying \<Rightarrow> Some (s\<lparr>pool_workers := (\<lambda>w. if pool_workers s w = Waiting then Locking else pool_workers s w),
            destructor := Joining\<rparr>)
      | Joining \<Rightarrow> if \<forall>w < worker_count s. pool_workers s w = Exited then Some (s\<lparr>destructor := Destroyed\<rparr>) else None
      | Destroyed \<Rightarrow> None)"

text \<open>\<open>wake\<close> is a wakeup the standard allows without any notification.\<close>

inductive pool_step :: "'a ThreadPool \<Rightarrow> 'a ThreadPool \<Rightarrow> bool" where
  post: "mutex_holder s = None \<Longrightarrow> pool_step s (post_push t s)"
| notify_none: "0 < notifications s \<Longrightarrow> \<forall>w < worker_count s. pool_workers s w \<noteq> Waiting \<Longrightarrow>
    pool_step s (s\<lparr>notifications := notifications s - 1\<rparr>)"
| notify_one: "0 < notifications s \<Longrightarrow> w < worker_count s \<Longrightarrow> pool_workers s w = Waiting \<Longrightarrow>
    pool_step s (go w Locking (s\<lparr>notifications := notifications s - 1\<rparr>))"
| worker: "w < worker_count s \<Longrightarrow> worker_step w s = Some s' \<Longrightarrow> pool_step s s'"
| destruct: "destructor_step s = Some s' \<Longrightarrow> pool_step s s'"

inductive spurious_wakeup :: "'a ThreadPool \<Rightarrow> 'a ThreadPool \<Rightarrow> bool" where
  wake: "w < worker_count s \<Longrightarrow> pool_workers s w = Waiting \<Longrightarrow> spurious_wakeup s (go w Locking s)"

inductive pool_reachable :: "nat \<Rightarrow> 'a ThreadPool \<Rightarrow> bool" for workers where
  fresh: "pool_reachable workers (new_thread_pool workers)"
| step: "pool_reachable workers s \<Longrightarrow> pool_step s s' \<Longrightarrow> pool_reachable workers s'"
| spurious: "pool_reachable workers s \<Longrightarrow> spurious_wakeup s s' \<Longrightarrow> pool_reachable workers s'"

section \<open>Invariant\<close>

fun holds_mutex :: "'a worker_pc \<Rightarrow> bool" where
  "holds_mutex Checking = True"
| "holds_mutex Blocking = True"
| "holds_mutex Deciding = True"
| "holds_mutex _ = False"

fun may_start :: "'a worker_pc \<Rightarrow> bool" where
  "may_start AtLoop = False"
| "may_start (Running t) = False"
| "may_start Exited = False"
| "may_start _ = True"

text \<open>What the place of a worker says about the shared data. A worker blocks while it still holds
  the mutex, so no task can have arrived since it looked; only \<open>stopping_\<close> may have changed.\<close>

fun place_ok :: "'a ThreadPool \<Rightarrow> 'a worker_pc \<Rightarrow> bool" where
  "place_ok s Blocking \<longleftrightarrow> pool_tasks s = []"
| "place_ok s Deciding \<longleftrightarrow> pool_stopping s \<or> pool_tasks s \<noteq> []"
| "place_ok s Exited \<longleftrightarrow> pool_stopping s"
| "place_ok s _ \<longleftrightarrow> True"

definition pool_ok :: "'a ThreadPool \<Rightarrow> bool" where
  "pool_ok s \<longleftrightarrow>
     0 < worker_count s \<and>
     (\<forall>w. holds_mutex (pool_workers s w) \<longleftrightarrow> mutex_holder s = Some w) \<and>
     (\<forall>w. place_ok s (pool_workers s w)) \<and>
     (pool_stopping s \<longleftrightarrow> destructor s \<noteq> Alive)"

definition fifo :: "'a ThreadPool \<Rightarrow> bool" where
  "fifo s \<longleftrightarrow> posted s = started s @ pool_tasks s"

definition no_lost_wakeup :: "'a ThreadPool \<Rightarrow> bool" where
  "no_lost_wakeup s \<longleftrightarrow> pool_tasks s \<noteq> [] \<and> \<not> pool_stopping s \<longrightarrow>
     0 < notifications s \<or> (\<exists>w < worker_count s. pool_workers s w \<noteq> Waiting)"

definition late_starters :: "'a ThreadPool \<Rightarrow> nat set" where
  "late_starters s = {w. w < worker_count s \<and> may_start (pool_workers s w)}"

definition few_late :: "'a ThreadPool \<Rightarrow> bool" where
  "few_late s \<longleftrightarrow> (if pool_stopping s then started_late s + card (late_starters s) \<le> worker_count s else started_late s = 0)"


lemma thread_pool_ok_new: "pool_ok (new_thread_pool n)"
  by (simp add: pool_ok_def new_thread_pool_def)

lemma place_ok_unheld: "\<not> holds_mutex pc \<Longrightarrow> pool_stopping s \<longrightarrow> pool_stopping s' \<Longrightarrow> place_ok s pc \<Longrightarrow> place_ok s' pc"
  by (cases pc) auto

lemma place_ok_same: "pool_tasks s' = pool_tasks s \<Longrightarrow> pool_stopping s' = pool_stopping s \<Longrightarrow> place_ok s' pc = place_ok s pc"
  by (cases pc) auto

lemma post_ok: "pool_ok s \<Longrightarrow> mutex_holder s = None \<Longrightarrow> pool_ok (post_push t s)"
  unfolding pool_ok_def by (auto simp: post_push_def intro: place_ok_unheld [of _ s])

lemma pool_ok_go:
  assumes "pool_ok s" and "holds_mutex pc \<longleftrightarrow> mutex_holder s' = Some w"
    and "\<forall>v. v \<noteq> w \<longrightarrow> (mutex_holder s' = Some v \<longleftrightarrow> mutex_holder s = Some v)"
    and "place_ok s' pc" and "\<forall>v. v \<noteq> w \<longrightarrow> place_ok s' (pool_workers s v)"
    and "pool_workers s' = pool_workers s" and "worker_count s' = worker_count s" and "pool_stopping s' = pool_stopping s"
    and "destructor s' = destructor s"
  shows "pool_ok (go w pc s')"
proof -
  have "place_ok (go w pc s') q = place_ok s' q" for q by (rule place_ok_same) simp_all
  with assms show ?thesis unfolding pool_ok_def by auto
qed

lemma worker_ok:
  assumes ok: "pool_ok s" and step: "worker_step w s = Some s'"
  shows "pool_ok s'"
proof -
  have place: "place_ok s (pool_workers s v)" and holder: "holds_mutex (pool_workers s v) \<longleftrightarrow> mutex_holder s = Some v" for v
    using ok unfolding pool_ok_def by blast+
  have other: "place_ok (s\<lparr>mutex_holder := h\<rparr>) (pool_workers s v)" for h v
    using place [of v] by (subst place_ok_same [of _ s]) simp_all
  show ?thesis
  proof (cases "pool_workers s w")
    case AtLoop
    then show ?thesis using step holder [of w] place by (cases "pool_stopping s") (auto simp: worker_step_def intro!: pool_ok_go [OF ok])
  next
    case Locking
    then show ?thesis using step other by (auto simp: worker_step_def split: if_splits intro!: pool_ok_go [OF ok])
  next
    case Checking
    then show ?thesis using step holder [of w] place
      by (cases "pool_stopping s \<or> pool_tasks s \<noteq> []") (auto simp: worker_step_def intro!: pool_ok_go [OF ok])
  next
    case Blocking
    then show ?thesis using step holder [of w] other by (auto simp: worker_step_def intro!: pool_ok_go [OF ok])
  next
    case Deciding
    then have h: "mutex_holder s = Some w" using holder [of w] by simp
    have free: "\<not> holds_mutex (pool_workers s v)" if "v \<noteq> w" for v using holder [of v] h that by auto
    show ?thesis
      using step Deciding h by (auto simp: worker_step_def Let_def split: if_splits
        intro!: pool_ok_go [OF ok] place_ok_unheld [OF free _ place])
  next
    case (Running t)
    then show ?thesis using step holder [of w] place by (auto simp: worker_step_def intro!: pool_ok_go [OF ok])
  qed (use step in \<open>simp_all add: worker_step_def\<close>)
qed

lemma pool_ok_wake:
  assumes ok: "pool_ok s" and "pool_workers s w = Waiting"
  shows "pool_ok (go w Locking (s\<lparr>notifications := n\<rparr>))"
proof -
  have "place_ok s (pool_workers s v)" "holds_mutex (pool_workers s v) \<longleftrightarrow> mutex_holder s = Some v" for v
    using ok unfolding pool_ok_def by blast+
  moreover from this(2) [of w] have "mutex_holder s \<noteq> Some w" using assms(2) by simp
  moreover have "place_ok (s\<lparr>notifications := n\<rparr>) pc = place_ok s pc" for pc by (rule place_ok_same) simp_all
  ultimately show ?thesis by (intro pool_ok_go [OF ok]) simp_all
qed

lemma pool_ok_destruct:
  assumes "pool_ok s" and "worker_count s' = worker_count s" and "mutex_holder s' = mutex_holder s"
    and "pool_tasks s' = pool_tasks s" and "pool_stopping s'" and "destructor s' \<noteq> Alive"
    and "\<And>w. pool_workers s' w = (if pool_workers s w = Waiting then Locking else pool_workers s w) \<or>
      pool_workers s' w = pool_workers s w"
  shows "pool_ok s'"
proof -
  have "holds_mutex (pool_workers s' w) = holds_mutex (pool_workers s w)" for w using assms(7) [of w] by (auto split: if_splits)
  moreover have "place_ok s' (pool_workers s' w)" for w
  proof -
    have "place_ok s (pool_workers s w)" using assms(1) by (simp add: pool_ok_def)
    then have "place_ok s' (pool_workers s w)" using assms(4,5) by (cases "pool_workers s w") auto
    then show ?thesis using assms(7) [of w] by (auto split: if_splits)
  qed
  ultimately show ?thesis using assms by (simp add: pool_ok_def)
qed

lemma destructor_ok:
  assumes ok: "pool_ok s" and step: "destructor_step s = Some s'"
  shows "pool_ok s'"
proof -
  have "destructor s \<noteq> Alive \<longrightarrow> pool_stopping s" using ok by (simp add: pool_ok_def)
  then show ?thesis using step
    by (cases "destructor s") (auto simp: destructor_step_def split: if_splits intro!: pool_ok_destruct [OF ok])
qed

lemma pool_step_ok: "pool_step s s' \<Longrightarrow> pool_ok s \<Longrightarrow> pool_ok s'"
proof (induction rule: pool_step.induct)
  case (notify_none s)
  have "place_ok (s\<lparr>notifications := notifications s - 1\<rparr>) pc = place_ok s pc" for pc by (rule place_ok_same) simp_all
  then show ?case using notify_none.prems by (simp add: pool_ok_def)
qed (auto intro: post_ok pool_ok_wake worker_ok destructor_ok)

lemma spurious_ok: "spurious_wakeup s s' \<Longrightarrow> pool_ok s \<Longrightarrow> pool_ok s'"
  by (induction rule: spurious_wakeup.induct) (metis ThreadPool.surjective ThreadPool.update_convs(6) pool_ok_wake)

lemma pool_step_fifo: "pool_step s s' \<Longrightarrow> pool_ok s \<Longrightarrow> fifo s \<Longrightarrow> fifo s'"
proof (induction rule: pool_step.induct)
  case (worker w s s')
  then have "place_ok s (pool_workers s w)" by (simp add: pool_ok_def)
  then show ?case using worker
    by (cases "pool_workers s w") (auto simp: worker_step_def fifo_def Let_def split: if_splits)
next
  case (destruct s s')
  then show ?case by (cases "destructor s") (auto simp: destructor_step_def fifo_def split: if_splits)
qed (simp_all add: fifo_def post_push_def)

lemma pool_step_awake: "pool_step s s' \<Longrightarrow> pool_ok s \<Longrightarrow> no_lost_wakeup s \<Longrightarrow> no_lost_wakeup s'"
proof (induction rule: pool_step.induct)
  case (post s t)
  then show ?case by (simp add: no_lost_wakeup_def post_push_def)
next
  case (notify_none s)
  then have "pool_workers s 0 \<noteq> Waiting" "0 < worker_count s" by (auto simp: pool_ok_def)
  then show ?case by (auto simp: no_lost_wakeup_def)
next
  case (notify_one s w)
  then show ?case by (auto simp: no_lost_wakeup_def)
next
  case (worker w s s')
  then have "place_ok s (pool_workers s w)" by (simp add: pool_ok_def)
  then have "pool_workers s' w \<noteq> Waiting \<or> pool_tasks s' = []" "worker_count s' = worker_count s"
    using worker by (cases "pool_workers s w"; simp add: worker_step_def Let_def split: if_splits; fastforce)+
  then show ?case using worker.hyps(1) by (auto simp: no_lost_wakeup_def)
next
  case (destruct s s')
  then have "pool_stopping s'" by (cases "destructor s") (auto simp: destructor_step_def pool_ok_def split: if_splits)
  then show ?case by (simp add: no_lost_wakeup_def)
qed

lemma finite_late [simp]: "finite (late_starters s)"
  by (simp add: late_starters_def)

lemma late_starters_le: "card (late_starters s) \<le> worker_count s"
  using card_mono [of "{..< worker_count s}" "late_starters s"] by (auto simp: late_starters_def)

lemma few_late_step:
  assumes "few_late s" and "late_starters s' \<subseteq> late_starters s" and "started_late s' = started_late s"
    and "worker_count s' = worker_count s" and "pool_stopping s' = pool_stopping s"
  shows "few_late s'"
  using assms card_mono [OF finite_late assms(2)] by (auto simp: few_late_def split: if_splits)

lemma pool_step_late: "pool_step s s' \<Longrightarrow> pool_ok s \<Longrightarrow> few_late s \<Longrightarrow> few_late s'"
proof (induction rule: pool_step.induct)
  case (post s t)
  then show ?case by (auto simp: few_late_def late_starters_def post_push_def)
next
  case (notify_none s)
  then show ?case by (auto simp: few_late_def late_starters_def)
next
  case (notify_one s w)
  then show ?case by (intro few_late_step [OF notify_one.prems(2)]) (auto simp: late_starters_def)
next
  case (worker w s s')
  show ?case
  proof (cases "pool_stopping s")
    case False
    then show ?thesis using worker by (cases "pool_workers s w") (auto simp: worker_step_def few_late_def Let_def split: if_splits)
  next
    case stop: True
    show ?thesis
    proof (cases "pool_workers s w = Deciding \<and> pool_tasks s \<noteq> []")
      case True
      then have s': "worker_count s' = worker_count s" "pool_stopping s'" "started_late s' = started_late s + 1"
        "late_starters s' = late_starters s - {w}" "w \<in> late_starters s"
        using worker.hyps stop by (auto simp: worker_step_def Let_def late_starters_def split: if_splits)
      moreover from this have "card (late_starters s') = card (late_starters s) - 1" "0 < card (late_starters s)"
        by (auto simp: card_gt_0_iff)
      ultimately show ?thesis using worker.prems(2) stop by (simp add: few_late_def)
    next
      case False
      with worker.hyps stop show ?thesis
        by (intro few_late_step [OF worker.prems(2)]; cases "pool_workers s w";
          auto simp: worker_step_def Let_def late_starters_def split: if_splits)
    qed
  qed
next
  case (destruct s s')
  show ?case
  proof (cases "destructor s = Alive")
    case True
    then have "pool_stopping s'" "started_late s' = 0" "worker_count s' = worker_count s"
      using destruct by (auto simp: destructor_step_def pool_ok_def few_late_def)
    then show ?thesis using late_starters_le [of s'] by (simp add: few_late_def)
  next
    case False
    then show ?thesis using destruct
      by (intro few_late_step [OF destruct.prems(2)]; cases "destructor s";
        auto simp: destructor_step_def late_starters_def split: if_splits)
  qed
qed

lemma spurious_keeps:
  "spurious_wakeup s s' \<Longrightarrow> fifo s \<Longrightarrow> fifo s'"
  "spurious_wakeup s s' \<Longrightarrow> no_lost_wakeup s'"
  "spurious_wakeup s s' \<Longrightarrow> few_late s \<Longrightarrow> few_late s'"
  by (auto simp: fifo_def no_lost_wakeup_def elim!: spurious_wakeup.cases)
     (rule few_late_step, auto simp: late_starters_def)

lemma worker_count_step: "pool_step s s' \<Longrightarrow> worker_count s' = worker_count s"
proof (induction rule: pool_step.induct)
  case (worker w s s')
  then show ?case by (cases "pool_workers s w") (auto simp: worker_step_def Let_def split: if_splits)
next
  case (destruct s s')
  then show ?case by (cases "destructor s") (auto simp: destructor_step_def split: if_splits)
qed (simp_all add: post_push_def)

lemma pool_invariants:
  "pool_reachable n s \<Longrightarrow> pool_ok s \<and> fifo s \<and> no_lost_wakeup s \<and> few_late s \<and> worker_count s = max 1 n"
proof (induction rule: pool_reachable.induct)
  case fresh
  have "fifo (new_thread_pool n)" "no_lost_wakeup (new_thread_pool n)" "few_late (new_thread_pool n)"
    "worker_count (new_thread_pool n) = max 1 n"
    by (auto simp: new_thread_pool_def fifo_def no_lost_wakeup_def few_late_def)
  then show ?case using thread_pool_ok_new by blast
next
  case (step s s')
  then show ?case using pool_step_ok pool_step_fifo pool_step_awake pool_step_late worker_count_step by metis
next
  case (spurious s s')
  moreover have "worker_count s' = worker_count s" using spurious.hyps(2) by (auto elim: spurious_wakeup.cases)
  ultimately show ?case using spurious_ok spurious_keeps by metis
qed

section \<open>A shutdown that hangs\<close>

text \<open>A worker in the wait set after \<open>notify_all\<close> has already happened.\<close>

definition hung :: "nat \<Rightarrow> 'a ThreadPool \<Rightarrow> bool" where
  "hung w s \<longleftrightarrow> w < worker_count s \<and> pool_workers s w = Waiting \<and> destructor s = Joining \<and>
     notifications s = 0 \<and> pool_stopping s"

lemma hung_step: "pool_step s s' \<Longrightarrow> hung w s \<Longrightarrow> hung w s'"
proof (induction rule: pool_step.induct)
  case (worker v s s')
  then show ?case by (cases "pool_workers s v") (auto simp: hung_def worker_step_def Let_def split: if_splits)
next
  case (destruct s s')
  then show ?case by (auto simp: hung_def destructor_step_def split: if_splits)
qed (auto simp: hung_def post_push_def)

interpretation tp_hung: step_invariant "hung w" pool_step "hung w" for w
  by unfold_locales (auto intro: hung_step)

lemma hung_reachable: "\<exists>s :: 'a ThreadPool. pool_reachable n s \<and> hung 0 s"
proof -
  let ?s0 = "new_thread_pool n :: 'a ThreadPool"
  let ?s1 = "go 0 Locking ?s0"
  let ?s2 = "go 0 Checking (?s1\<lparr>mutex_holder := Some 0\<rparr>)"
  let ?s3 = "go 0 Blocking ?s2"
  let ?s4 = "?s3\<lparr>pool_stopping := True, destructor := Notifying\<rparr>"
  let ?s5 = "?s4\<lparr>pool_workers := (\<lambda>w. if pool_workers ?s4 w = Waiting then Locking else pool_workers ?s4 w), destructor := Joining\<rparr>"
  let ?s6 = "go 0 Waiting (?s5\<lparr>mutex_holder := None\<rparr>)"
  note fields = worker_step_def destructor_step_def new_thread_pool_def go_def
  have "pool_reachable n ?s1" by (rule pool_reachable.step [OF fresh], rule worker [of 0]) (simp_all add: fields)
  then have "pool_reachable n ?s2" by (rule pool_reachable.step, intro worker [of 0]) (simp_all add: fields)
  then have "pool_reachable n ?s3" by (rule pool_reachable.step, intro worker [of 0]) (simp_all add: fields)
  then have "pool_reachable n ?s4" by (rule pool_reachable.step, intro destruct) (simp add: fields)
  then have "pool_reachable n ?s5" by (rule pool_reachable.step, intro destruct) (simp add: destructor_step_def)
  then have "pool_reachable n ?s6" by (rule pool_reachable.step, intro worker [of 0]) (simp_all add: fields)
  moreover have "hung 0 ?s6" by (simp add: hung_def fields)
  ultimately show ?thesis by blast
qed

section \<open>Properties\<close>

text \<open>C13: under every interleaving of posting threads, workers, notifications (spurious ones
  included) and the destructor, tasks are started in the order they were accepted and each
  exactly once: the accepted tasks are the started ones followed by the queued ones. While the
  pool is not stopping and tasks are queued, a notification is on its way or some worker is
  awake, so no queued task is forgotten; and once it is stopping, every worker starts at most
  one more task. The reference to the front of the queue is never taken on an empty queue.\<close>

theorem thread_pool_runs_tasks_in_order:
  assumes "pool_reachable n s"
  shows "posted s = started s @ pool_tasks s \<and>
    (pool_tasks s = [] \<or> pool_stopping s \<or> 0 < notifications s \<or> (\<exists>w < worker_count s. pool_workers s w \<noteq> Waiting)) \<and>
    started_late s \<le> max 1 n \<and>
    (\<forall>w. pool_workers s w = Deciding \<longrightarrow> pool_stopping s \<or> pool_tasks s \<noteq> [])"
proof -
  note inv = pool_invariants [OF assms]
  have "place_ok s (pool_workers s w)" for w using inv by (simp add: pool_ok_def)
  then have "pool_workers s w = Deciding \<longrightarrow> pool_stopping s \<or> pool_tasks s \<noteq> []" for w by (metis place_ok.simps(2))
  moreover have "started_late s \<le> max 1 n" using inv by (auto simp: few_late_def split: if_splits)
  ultimately show ?thesis using inv by (auto simp: fifo_def no_lost_wakeup_def)
qed

theorem thread_pool_runs_tasks_in_order_witness:
  "posted (post_push ''drain'' (new_thread_pool 4)) = [''drain''] \<and> started_late (post_push ''drain'' (new_thread_pool 4)) \<le> 4"
proof -
  have "pool_reachable 4 (post_push ''drain'' (new_thread_pool 4))"
    by (rule pool_reachable.step [OF fresh], rule post) (simp add: new_thread_pool_def)
  from thread_pool_runs_tasks_in_order [OF this] show ?thesis by (simp add: post_push_def new_thread_pool_def)
qed

text \<open>C35: destroying a pool can hang for ever. The destructor sets \<open>stopping_\<close> and notifies without
  taking the mutex, so both can fall between a worker's evaluation of the predicate and its
  entry into the wait set. A pool of any size reaches such a state without a spurious wakeup,
  and from there, spurious wakeups apart, whatever the threads do the destructor stays in
  \<open>join\<close>.\<close>

theorem thread_pool_destructor_can_hang:
  "\<exists>s :: 'a ThreadPool. pool_reachable n s \<and> pool_workers s 0 = Waiting \<and> pool_stopping s \<and>
     destructor ` {s'. pool_step\<^sup>*\<^sup>* s s'} = {Joining}"
proof -
  obtain s :: "'a ThreadPool" where s: "pool_reachable n s" "hung 0 s" using hung_reachable by blast
  then have "destructor ` {s'. pool_step\<^sup>*\<^sup>* s s'} = {Joining}"
    using tp_hung.from_any [of s _ 0] by (auto simp: hung_def image_iff)
  with s show ?thesis by (auto simp: hung_def)
qed

end
