(* ===== verification/Log_Queue.thy ===== *)
theory Log_Queue
  imports LB_Prelude "HOL-Library.Multiset"
begin

text \<open>
  The queue behind both loggers. \<^verbatim>\<open>logging/logger.cpp\<close> and \<^verbatim>\<open>logging/access_logger.cpp\<close>
  implement one protocol: calls of \<open>log\<close> push entries under a mutex; either a worker thread of
  the logger's own, waiting on a condition variable, or \<open>drain_queue\<close> tasks posted to the thread
  pool pop them and write them outside of the mutex; \<open>start\<close>, \<open>set_thread_pool\<close> and \<open>stop\<close> are
  called by one controlling thread. One step of the model is one access to shared data. The
  two loggers differ in which requests pass the tests at the head of \<open>log\<close> and in what is
  pushed for a request, the arguments \<open>passes\<close> and \<open>entry\<close>.
\<close>

section \<open>State\<close>

definition MAX_QUEUE_SIZE :: nat where
  "MAX_QUEUE_SIZE = 10000"

text \<open>A call of \<open>log\<close>, from the tests on; a call of \<open>drain_queue\<close>; and the worker thread.
  The worker holds the mutex in \<open>WCheck\<close>, \<open>WCheckPool\<close>, \<open>WBlock\<close>, \<open>WTest\<close> and \<open>WInner\<close>.\<close>

datatype 'e producer = PPush 'e | PSignal | PClaim | PPost | PDone

datatype 'e drainer = DReset | DLock | DWrite 'e | DDone

datatype 'e log_worker =
  WNone | WLoop | WPool | WLock | WCheck | WCheckPool | WBlock | WWait | WTest | WInner | WWrite 'e | WDone

text \<open>The controlling thread: idle, inside \<open>set_thread_pool\<close>, or inside \<open>stop\<close>.\<close>

datatype 'e log_control =
  CIdle | CPoolNotify | CPoolJoin | CStopPool | CStopNotify | CStopJoin | CStopWait | CStopDrain "'e drainer" | CStopped

record 'e log_queue =
  lq_running :: bool
  lq_pool :: bool
  lq_entries :: "'e list"
  lq_pending :: bool
  lq_posted :: nat
  lq_worker :: "'e log_worker"
  lq_drains :: "'e drainer list"
  lq_producers :: "'e producer list"
  lq_control :: "'e log_control"
  lq_output :: "'e list"
  lq_accepted :: "'e list"

definition new_log_queue :: "'e log_queue" where
  "new_log_queue = \<lparr>lq_running = False, lq_pool = False, lq_entries = [], lq_pending = False, lq_posted = 0,
     lq_worker = WNone, lq_drains = [], lq_producers = [], lq_control = CIdle, lq_output = [], lq_accepted = []\<rparr>"

fun worker_locked :: "'e log_worker \<Rightarrow> bool" where
  "worker_locked WCheck = True"
| "worker_locked WCheckPool = True"
| "worker_locked WBlock = True"
| "worker_locked WTest = True"
| "worker_locked WInner = True"
| "worker_locked _ = False"

abbreviation unlocked :: "'e log_queue \<Rightarrow> bool" where
  "unlocked s \<equiv> \<not> worker_locked (lq_worker s)"

section \<open>Steps\<close>

text \<open>One step of a call of \<open>log\<close>: the push, the choice between waking the worker and a drain by the
  pool, claiming the drain, and posting it. \<open>None\<close> where the mutex is taken or the call has returned.\<close>

definition wake_worker :: "'e log_queue \<Rightarrow> 'e log_queue" where
  "wake_worker s = (if lq_worker s = WWait then s\<lparr>lq_worker := WLock\<rparr> else s)"

fun producer_step :: "'e producer \<Rightarrow> 'e log_queue \<Rightarrow> ('e producer \<times> 'e log_queue) option" where
  "producer_step (PPush e) s =
     (if \<not> unlocked s then None
      else if length (lq_entries s) \<ge> MAX_QUEUE_SIZE then Some (PDone, s)
      else Some (PSignal, s\<lparr>lq_entries := lq_entries s @ [e], lq_accepted := lq_accepted s @ [e]\<rparr>))"
| "producer_step PSignal s =
     (if lq_pool s then Some (PClaim, s) else Some (PDone, wake_worker s))"
| "producer_step PClaim s =
     (if lq_pending s then Some (PDone, s) else Some (PPost, s\<lparr>lq_pending := True\<rparr>))"
| "producer_step PPost s = Some (PDone, s\<lparr>lq_posted := lq_posted s + 1\<rparr>)"
| "producer_step PDone s = None"

text \<open>\<open>drain_queue\<close>: the flag is cleared first, then entries are popped until none is left.\<close>

fun drain_step :: "'e drainer \<Rightarrow> 'e log_queue \<Rightarrow> ('e drainer \<times> 'e log_queue) option" where
  "drain_step DReset s = Some (DLock, s\<lparr>lq_pending := False\<rparr>)"
| "drain_step DLock s =
     (if \<not> unlocked s then None
      else case lq_entries s of
        [] \<Rightarrow> Some (DDone, s)
      | e # es \<Rightarrow> Some (DWrite e, s\<lparr>lq_entries := es\<rparr>))"
| "drain_step (DWrite e) s = Some (DLock, s\<lparr>lq_output := lq_output s @ [e]\<rparr>)"
| "drain_step DDone s = None"

text \<open>\<open>worker_loop\<close>. After writing, the worker takes the mutex again before it looks at the queue.\<close>

fun log_worker_step :: "'e log_worker \<Rightarrow> 'e log_queue \<Rightarrow> 'e log_queue option" where
  "log_worker_step WLoop s = Some (s\<lparr>lq_worker := (if lq_running s then WPool else WDone)\<rparr>)"
| "log_worker_step WPool s = Some (s\<lparr>lq_worker := (if lq_pool s then WDone else WLock)\<rparr>)"
| "log_worker_step WLock s = Some (s\<lparr>lq_worker := WCheck\<rparr>)"
| "log_worker_step WCheck s = Some (s\<lparr>lq_worker := (if lq_entries s \<noteq> [] \<or> \<not> lq_running s then WTest else WCheckPool)\<rparr>)"
| "log_worker_step WCheckPool s = Some (s\<lparr>lq_worker := (if lq_pool s then WTest else WBlock)\<rparr>)"
| "log_worker_step WBlock s = Some (s\<lparr>lq_worker := WWait\<rparr>)"
| "log_worker_step WTest s = Some (s\<lparr>lq_worker := (if lq_pool s then WDone else WInner)\<rparr>)"
| "log_worker_step WInner s =
     (case lq_entries s of
        [] \<Rightarrow> Some (s\<lparr>lq_worker := WLoop\<rparr>)
      | e # es \<Rightarrow> Some (s\<lparr>lq_worker := WWrite e, lq_entries := es\<rparr>))"
| "log_worker_step (WWrite e) s = Some (s\<lparr>lq_worker := WInner, lq_output := lq_output s @ [e]\<rparr>)"
| "log_worker_step _ s = None"

text \<open>\<open>start\<close>, \<open>set_thread_pool\<close> and \<open>stop\<close> up to their first shared access, and the steps that
  follow. A \<open>join\<close> waits until the worker has returned.\<close>

definition log_start :: "'e log_queue \<Rightarrow> 'e log_queue" where
  "log_start s =
     (if lq_running s then s
      else s\<lparr>lq_running := True, lq_worker := (if lq_pool s then lq_worker s else WLoop)\<rparr>)"

definition log_set_thread_pool :: "bool \<Rightarrow> 'e log_queue \<Rightarrow> 'e log_queue" where
  "log_set_thread_pool p s =
     (let s1 = s\<lparr>lq_pool := p\<rparr>
      in if p \<and> \<not> lq_pool s then s1\<lparr>lq_control := CPoolNotify\<rparr>
         else if \<not> p \<and> lq_pool s \<and> lq_running s then s1\<lparr>lq_worker := WLoop\<rparr>
         else s1)"

definition log_stop :: "'e log_queue \<Rightarrow> 'e log_queue" where
  "log_stop s = (if lq_running s then s\<lparr>lq_running := False, lq_control := CStopPool\<rparr> else s)"

fun control_step :: "'e log_control \<Rightarrow> 'e log_queue \<Rightarrow> 'e log_queue option" where
  "control_step CPoolNotify s = Some (wake_worker s\<lparr>lq_control := CPoolJoin\<rparr>)"
| "control_step CPoolJoin s =
     (if lq_worker s = WNone \<or> lq_worker s = WDone then Some (s\<lparr>lq_worker := WNone, lq_control := CIdle\<rparr>) else None)"
| "control_step CStopPool s = Some (s\<lparr>lq_pool := False, lq_control := CStopNotify\<rparr>)"
| "control_step CStopNotify s = Some (wake_worker s\<lparr>lq_control := CStopJoin\<rparr>)"
| "control_step CStopJoin s =
     (if lq_worker s = WNone \<or> lq_worker s = WDone then Some (s\<lparr>lq_worker := WNone, lq_control := CStopWait\<rparr>) else None)"
| "control_step CStopWait s = (if lq_pending s then None else Some (s\<lparr>lq_control := CStopDrain DReset\<rparr>))"
| "control_step (CStopDrain d) s =
     (if d = DDone then Some (s\<lparr>lq_control := CStopped\<rparr>)
      else map_option (\<lambda>(d', s'). s'\<lparr>lq_control := CStopDrain d'\<rparr>) (drain_step d s))"
| "control_step _ s = None"

inductive queue_step :: "('r \<Rightarrow> bool) \<Rightarrow> ('r \<Rightarrow> 'e) \<Rightarrow> 'e log_queue \<Rightarrow> 'e log_queue \<Rightarrow> bool"
  for passes entry where
  call: "lq_running s \<Longrightarrow> passes r \<Longrightarrow>
    queue_step passes entry s (s\<lparr>lq_producers := lq_producers s @ [PPush (entry r)]\<rparr>)"
| producer: "i < length (lq_producers s) \<Longrightarrow> producer_step (lq_producers s ! i) s = Some (p, s') \<Longrightarrow>
    queue_step passes entry s (s'\<lparr>lq_producers := (lq_producers s)[i := p]\<rparr>)"
| begin_drain: "0 < lq_posted s \<Longrightarrow>
    queue_step passes entry s (s\<lparr>lq_posted := lq_posted s - 1, lq_drains := lq_drains s @ [DReset]\<rparr>)"
| drain: "i < length (lq_drains s) \<Longrightarrow> drain_step (lq_drains s ! i) s = Some (d, s') \<Longrightarrow>
    queue_step passes entry s (s'\<lparr>lq_drains := (lq_drains s)[i := d]\<rparr>)"
| work: "log_worker_step (lq_worker s) s = Some s' \<Longrightarrow> queue_step passes entry s s'"
| spurious: "lq_worker s = WWait \<Longrightarrow> queue_step passes entry s (wake_worker s)"
| control: "control_step (lq_control s) s = Some s' \<Longrightarrow> queue_step passes entry s s'"
| start: "lq_control s = CIdle \<Longrightarrow> queue_step passes entry s (log_start s)"
| stop: "lq_control s = CIdle \<Longrightarrow> queue_step passes entry s (log_stop s)"
| set_pool: "lq_control s = CIdle \<Longrightarrow> queue_step passes entry s (log_set_thread_pool p s)"

definition log_reachable :: "('r \<Rightarrow> bool) \<Rightarrow> ('r \<Rightarrow> 'e) \<Rightarrow> 'e log_queue \<Rightarrow> bool" where
  "log_reachable passes entry s \<longleftrightarrow> (queue_step passes entry)\<^sup>*\<^sup>* new_log_queue s"

section \<open>No entry is lost or duplicated\<close>

fun held_drain :: "'e drainer \<Rightarrow> 'e list" where
  "held_drain (DWrite e) = [e]"
| "held_drain _ = []"

fun held_worker :: "'e log_worker \<Rightarrow> 'e list" where
  "held_worker (WWrite e) = [e]"
| "held_worker _ = []"

fun held_control :: "'e log_control \<Rightarrow> 'e list" where
  "held_control (CStopDrain d) = held_drain d"
| "held_control _ = []"

definition in_flight :: "'e log_queue \<Rightarrow> 'e multiset" where
  "in_flight s = mset (held_worker (lq_worker s)) + mset (held_control (lq_control s)) + mset (concat (map held_drain (lq_drains s)))"

definition conserved :: "'e log_queue \<Rightarrow> bool" where
  "conserved s \<longleftrightarrow> mset (lq_accepted s) = mset (lq_output s) + in_flight s + mset (lq_entries s)"

text \<open>When the controlling thread may start a worker, there is none; and after \<open>join\<close> there is none.\<close>

definition worker_ok :: "'e log_queue \<Rightarrow> bool" where
  "worker_ok s \<longleftrightarrow> (case lq_control s of
       CIdle \<Rightarrow> lq_running s \<and> \<not> lq_pool s \<or> lq_worker s = WNone
     | CStopWait \<Rightarrow> lq_worker s = WNone
     | CStopDrain d \<Rightarrow> lq_worker s = WNone
     | CStopped \<Rightarrow> lq_worker s = WNone
     | _ \<Rightarrow> True)"

lemma concat_update:
  "i < length xs \<Longrightarrow> count_list (concat (map f (xs[i := y]))) x + count_list (f (xs ! i)) x =
     count_list (concat (map f xs)) x + count_list (f y) x"
  by (induction xs arbitrary: i) (auto simp: nth_Cons split: nat.splits)

lemma wake_worker_sel [simp]:
  "lq_running (wake_worker s) = lq_running s" "lq_pool (wake_worker s) = lq_pool s"
  "lq_entries (wake_worker s) = lq_entries s" "lq_pending (wake_worker s) = lq_pending s"
  "lq_posted (wake_worker s) = lq_posted s" "lq_drains (wake_worker s) = lq_drains s"
  "lq_producers (wake_worker s) = lq_producers s" "lq_control (wake_worker s) = lq_control s"
  "lq_output (wake_worker s) = lq_output s" "lq_accepted (wake_worker s) = lq_accepted s"
  "held_worker (lq_worker (wake_worker s)) = held_worker (lq_worker s)"
  "(lq_worker (wake_worker s) = WNone) = (lq_worker s = WNone)"
  by (auto simp: wake_worker_def)

lemma producer_step_frame:
  assumes "producer_step p s = Some (p', s')"
  shows "lq_control s' = lq_control s" "lq_running s' = lq_running s" "lq_pool s' = lq_pool s" "lq_drains s' = lq_drains s"
    "lq_output s' = lq_output s" "held_worker (lq_worker s') = held_worker (lq_worker s)"
    "(lq_worker s' = WNone) = (lq_worker s = WNone)" "lq_producers s' = lq_producers s"
    "\<exists>es. lq_entries s' = lq_entries s @ es \<and> lq_accepted s' = lq_accepted s @ es"
  by (use assms in \<open>cases p; auto split: if_splits\<close>)+

lemma drain_step_frame:
  assumes "drain_step d s = Some (d', s')"
  shows "lq_control s' = lq_control s" "lq_running s' = lq_running s" "lq_pool s' = lq_pool s" "lq_drains s' = lq_drains s"
    "lq_worker s' = lq_worker s" "lq_accepted s' = lq_accepted s" "lq_producers s' = lq_producers s" "lq_posted s' = lq_posted s"
    "lq_output s' @ held_drain d' @ lq_entries s' = lq_output s @ held_drain d @ lq_entries s"
  by (use assms in \<open>cases d; auto split: if_splits list.splits\<close>)+

lemma worker_step_frame:
  assumes "log_worker_step w s = Some s'" and "lq_worker s = w"
  shows "lq_control s' = lq_control s" "lq_running s' = lq_running s" "lq_pool s' = lq_pool s" "lq_drains s' = lq_drains s"
    "lq_worker s' \<noteq> WNone" "lq_worker s \<noteq> WNone" "lq_accepted s' = lq_accepted s" "lq_producers s' = lq_producers s"
    "lq_posted s' = lq_posted s" "lq_pending s' = lq_pending s"
    "lq_output s' @ held_worker (lq_worker s') @ lq_entries s' = lq_output s @ held_worker (lq_worker s) @ lq_entries s"
  by (use assms in \<open>cases w; auto split: if_splits list.splits\<close>)+

lemma queue_step_worker_ok: "queue_step passes entry s s' \<Longrightarrow> worker_ok s \<Longrightarrow> worker_ok s'"
proof (induction rule: queue_step.induct)
  case (producer i s p s')
  note f = producer_step_frame [OF producer.hyps(2)]
  show ?case using producer.prems unfolding worker_ok_def by (simp add: f(1-3,7) cong: log_control.case_cong)
next
  case (drain i s d s')
  note f = drain_step_frame [OF drain.hyps(2)]
  show ?case using drain.prems unfolding worker_ok_def by (simp add: f(1-3,5) cong: log_control.case_cong)
next
  case (work s s')
  note f = worker_step_frame [OF work.hyps refl]
  show ?case using work.prems f(5,6) unfolding worker_ok_def f(1-3) by (auto split: log_control.splits)
next
  case (spurious s)
  then show ?case by (simp add: worker_ok_def cong: log_control.case_cong)
next
  case (control s s')
  then show ?case
    by (cases "lq_control s")
       (auto simp: worker_ok_def dest: drain_step_frame(5) split: if_splits)
next
  case (start s)
  then show ?case by (auto simp: worker_ok_def log_start_def)
next
  case (stop s)
  then show ?case by (auto simp: worker_ok_def log_stop_def)
next
  case (set_pool s p)
  then show ?case by (auto simp: worker_ok_def log_set_thread_pool_def Let_def)
qed (simp_all add: worker_ok_def cong: log_control.case_cong)

lemma conservedI:
  assumes "conserved s"
    and "\<And>x. count_list (lq_accepted s') x + count_list (lq_output s) x + count (in_flight s) x + count_list (lq_entries s) x =
      count_list (lq_accepted s) x + count_list (lq_output s') x + count (in_flight s') x + count_list (lq_entries s') x"
  shows "conserved s'"
proof -
  have "count_list (lq_accepted s) x = count_list (lq_output s) x + count (in_flight s) x + count_list (lq_entries s) x" for x
    using assms(1) unfolding conserved_def multiset_eq_iff by (simp add: count_mset)
  then have "count_list (lq_accepted s') x = count_list (lq_output s') x + count (in_flight s') x + count_list (lq_entries s') x" for x
    using assms(2) [of x] by simp
  then show ?thesis unfolding conserved_def multiset_eq_iff by (simp add: count_mset)
qed

lemma count_line:
  "xs @ ys @ zs = xs' @ ys' @ zs' \<Longrightarrow>
   count_list xs x + (count_list ys x + count_list zs x) = count_list xs' x + (count_list ys' x + count_list zs' x)"
  by (metis count_list_append)

lemma count_in_flight:
  "count (in_flight s) x = count_list (held_worker (lq_worker s)) x + count_list (held_control (lq_control s)) x +
     count_list (concat (map held_drain (lq_drains s))) x"
  by (simp add: in_flight_def count_mset)

lemma queue_step_conserved: "queue_step passes entry s s' \<Longrightarrow> worker_ok s \<Longrightarrow> conserved s \<Longrightarrow> conserved s'"
proof (induction rule: queue_step.induct)
  case (producer i s p s')
  note f = producer_step_frame [OF producer.hyps(2)]
  from f(9) obtain es where "lq_entries s' = lq_entries s @ es" "lq_accepted s' = lq_accepted s @ es" by blast
  then show ?case by (intro conservedI [OF producer.prems(2)]) (simp add: count_in_flight f)
next
  case (drain i s d s')
  note f = drain_step_frame [OF drain.hyps(2)]
  show ?case
  proof (rule conservedI [OF drain.prems(2)])
    fix x
    show "count_list (lq_accepted (s'\<lparr>lq_drains := (lq_drains s)[i := d]\<rparr>)) x + count_list (lq_output s) x +
        count (in_flight s) x + count_list (lq_entries s) x =
      count_list (lq_accepted s) x + count_list (lq_output (s'\<lparr>lq_drains := (lq_drains s)[i := d]\<rparr>)) x +
        count (in_flight (s'\<lparr>lq_drains := (lq_drains s)[i := d]\<rparr>)) x + count_list (lq_entries (s'\<lparr>lq_drains := (lq_drains s)[i := d]\<rparr>)) x"
      using count_line [OF f(9), of x] concat_update [OF drain.hyps(1), of held_drain d x]
      by (simp add: count_in_flight f(1-8))
  qed
next
  case (work s s')
  note f = worker_step_frame [OF work.hyps refl]
  have "count_list (lq_output s') x + (count_list (held_worker (lq_worker s')) x + count_list (lq_entries s') x) =
      count_list (lq_output s) x + (count_list (held_worker (lq_worker s)) x + count_list (lq_entries s) x)" for x
    by (rule count_line [OF f(11)])
  then show ?case by (intro conservedI [OF work.prems(2)]) (simp add: count_in_flight f(1-4,7))
next
  case (control s s')
  show ?case
  proof (cases "\<exists>d. lq_control s = CStopDrain d \<and> d \<noteq> DDone")
    case True
    then obtain d d' s1 where d: "lq_control s = CStopDrain d" "drain_step d s = Some (d', s1)" "s' = s1\<lparr>lq_control := CStopDrain d'\<rparr>"
      using control.hyps by auto
    note f = drain_step_frame [OF d(2)]
    have "count_list (lq_output s1) x + (count_list (held_drain d') x + count_list (lq_entries s1) x) =
      count_list (lq_output s) x + (count_list (held_drain d) x + count_list (lq_entries s) x)" for x
      by (rule count_line [OF f(9)])
    then show ?thesis by (intro conservedI [OF control.prems(2)]) (simp add: count_in_flight d(1,3) f(1-8))
  next
    case False
    with control show ?thesis
      by (cases "lq_control s") (auto simp: conserved_def in_flight_def split: if_splits)
  qed
next
  case (start s)
  then show ?case by (auto simp: conserved_def in_flight_def log_start_def worker_ok_def)
next
  case (stop s)
  then show ?case by (auto simp: conserved_def in_flight_def log_stop_def)
next
  case (set_pool s p)
  then show ?case by (auto simp: conserved_def in_flight_def log_set_thread_pool_def worker_ok_def Let_def)
qed (simp_all add: conserved_def in_flight_def)

section \<open>The bound of the queue and the pending drain\<close>

definition drain_coming :: "'e log_queue \<Rightarrow> bool" where
  "drain_coming s \<longleftrightarrow> lq_pending s \<longrightarrow> PPost \<in> set (lq_producers s) \<or> 0 < lq_posted s \<or> DReset \<in> set (lq_drains s)"

lemma in_set_update: "x \<in> set xs \<Longrightarrow> xs ! i \<noteq> x \<Longrightarrow> x \<in> set (xs[i := y])"
  by (metis in_set_conv_nth length_list_update nth_list_update_neq)

lemma queue_step_bounded:
  "queue_step passes entry s s' \<Longrightarrow> length (lq_entries s) \<le> MAX_QUEUE_SIZE \<Longrightarrow> length (lq_entries s') \<le> MAX_QUEUE_SIZE"
proof (induction rule: queue_step.induct)
  case (producer i s p s')
  then show ?case by (cases "lq_producers s ! i") (auto split: if_splits)
next
  case (drain i s d s')
  then show ?case by (cases "lq_drains s ! i") (auto split: if_splits list.splits)
next
  case (work s s')
  then show ?case by (cases "lq_worker s") (auto split: if_splits list.splits)
next
  case (control s s')
  show ?case
  proof (cases "lq_control s")
    case (CStopDrain d)
    then show ?thesis using control by (cases d) (auto split: if_splits list.splits)
  qed (use control in \<open>auto split: if_splits\<close>)
qed (auto simp: log_start_def log_stop_def log_set_thread_pool_def Let_def)

lemma queue_step_drain_coming: "queue_step passes entry s s' \<Longrightarrow> drain_coming s \<Longrightarrow> drain_coming s'"
proof (induction rule: queue_step.induct)
  case (producer i s p s')
  show ?case
  proof (cases "lq_producers s ! i = PPost \<or> lq_producers s ! i = PClaim \<and> \<not> lq_pending s")
    case True
    then show ?thesis using producer by (auto simp: drain_coming_def set_update_memI)
  next
    case False
    then have "lq_pending s' = lq_pending s" "lq_posted s' = lq_posted s" "lq_drains s' = lq_drains s"
      using producer.hyps by (cases "lq_producers s ! i"; auto split: if_splits)+
    then show ?thesis using producer.prems False by (auto simp: drain_coming_def intro: in_set_update)
  qed
next
  case (drain i s d s')
  show ?case
  proof (cases "lq_drains s ! i = DReset")
    case True
    then show ?thesis using drain by (auto simp: drain_coming_def)
  next
    case False
    then have "lq_pending s' = lq_pending s" using drain.hyps by (cases "lq_drains s ! i") (auto split: if_splits list.splits)
    then show ?thesis using drain.prems False by (auto simp: drain_coming_def drain_step_frame [OF drain.hyps(2)] intro: in_set_update)
  qed
next
  case (work s s')
  then show ?case using worker_step_frame [OF work.hyps refl] by (simp add: drain_coming_def)
next
  case (control s s')
  show ?case
  proof (cases "lq_control s")
    case (CStopDrain d)
    then show ?thesis using control by (cases d) (auto simp: drain_coming_def split: if_splits list.splits)
  qed (use control in \<open>auto simp: drain_coming_def split: if_splits\<close>)
qed (auto simp: drain_coming_def log_start_def log_stop_def log_set_thread_pool_def Let_def)

interpretation lq: step_invariant "\<lambda>s. s = new_log_queue" "queue_step passes entry"
  "\<lambda>s. worker_ok s \<and> conserved s \<and> length (lq_entries s) \<le> MAX_QUEUE_SIZE \<and> drain_coming s" for passes entry
  by unfold_locales
     (simp add: new_log_queue_def worker_ok_def conserved_def in_flight_def drain_coming_def,
      metis queue_step_worker_ok queue_step_conserved queue_step_bounded queue_step_drain_coming)

lemma log_invariants:
  "log_reachable passes entry s \<Longrightarrow>
   worker_ok s \<and> conserved s \<and> length (lq_entries s) \<le> MAX_QUEUE_SIZE \<and> drain_coming s"
  unfolding log_reachable_def by (rule lq.reachable) simp_all

section \<open>The order without a thread pool\<close>

definition alone :: "'e log_queue \<Rightarrow> bool" where
  "alone s \<longleftrightarrow> \<not> lq_pool s \<and> PClaim \<notin> set (lq_producers s) \<and> PPost \<notin> set (lq_producers s) \<and> lq_posted s = 0 \<and> lq_drains s = []"

definition in_order :: "'e log_queue \<Rightarrow> bool" where
  "in_order s \<longleftrightarrow> lq_accepted s = lq_output s @ held_worker (lq_worker s) @ held_control (lq_control s) @ lq_entries s"

lemma set_update_other: "x \<notin> set xs \<Longrightarrow> x \<noteq> y \<Longrightarrow> x \<notin> set (xs[i := y])"
  using set_update_subset_insert [of xs i y] by blast

lemma queue_step_alone: "queue_step passes entry s s' \<Longrightarrow> alone s \<Longrightarrow> \<not> lq_pool s' \<Longrightarrow> alone s'"
proof (induction rule: queue_step.induct)
  case (producer i s p s')
  then have "lq_producers s ! i \<noteq> PClaim" "lq_producers s ! i \<noteq> PPost" using nth_mem by (metis alone_def)+
  then have "p \<noteq> PClaim" "p \<noteq> PPost" "lq_posted s' = lq_posted s" "lq_pool s' = lq_pool s" "lq_drains s' = lq_drains s"
    using producer by (cases "lq_producers s ! i"; auto simp: alone_def split: if_splits)+
  then show ?case using producer.prems by (simp add: alone_def set_update_other)
next
  case (work s s')
  then show ?case using worker_step_frame [OF work.hyps refl] by (simp add: alone_def)
next
  case (control s s')
  show ?case
  proof (cases "lq_control s")
    case (CStopDrain d)
    then show ?thesis using control by (cases d) (auto simp: alone_def split: if_splits list.splits)
  qed (use control in \<open>auto simp: alone_def split: if_splits\<close>)
qed (auto simp: alone_def log_start_def log_stop_def log_set_thread_pool_def Let_def)

lemma queue_step_in_order:
  "queue_step passes entry s s' \<Longrightarrow> worker_ok s \<Longrightarrow> alone s \<Longrightarrow> in_order s \<Longrightarrow> in_order s'"
proof (induction rule: queue_step.induct)
  case (producer i s p s')
  note f = producer_step_frame [OF producer.hyps(2)]
  from f(9) obtain es where "lq_entries s' = lq_entries s @ es" "lq_accepted s' = lq_accepted s @ es" by blast
  then show ?case using producer.prems by (simp add: in_order_def f)
next
  case (drain i s d s')
  then show ?case by (simp add: alone_def)
next
  case (work s s')
  note f = worker_step_frame [OF work.hyps refl]
  have "held_control (lq_control s) = []" using work.prems(1) f(6) by (cases "lq_control s") (auto simp: worker_ok_def)
  then show ?case using work.prems f(11) by (simp add: in_order_def f(1,7))
next
  case (control s s')
  show ?case
  proof (cases "lq_control s")
    case (CStopDrain d)
    then show ?thesis using control by (cases d) (auto simp: in_order_def worker_ok_def split: if_splits list.splits)
  qed (use control in \<open>auto simp: in_order_def split: if_splits\<close>)
next
  case (start s)
  then show ?case by (auto simp: in_order_def log_start_def worker_ok_def)
next
  case (set_pool s p)
  then show ?case by (auto simp: in_order_def log_set_thread_pool_def worker_ok_def alone_def Let_def)
qed (auto simp: in_order_def log_stop_def)

interpretation lq_alone: step_invariant "\<lambda>s. s = new_log_queue" "\<lambda>s s'. queue_step passes entry s s' \<and> \<not> lq_pool s'"
  "\<lambda>s. worker_ok s \<and> alone s \<and> in_order s" for passes entry
  by unfold_locales
     (simp add: new_log_queue_def worker_ok_def alone_def in_order_def,
      metis queue_step_worker_ok queue_step_alone queue_step_in_order)

section \<open>Stopping\<close>

fun in_stop :: "'e log_control \<Rightarrow> bool" where
  "in_stop CIdle = False"
| "in_stop CPoolNotify = False"
| "in_stop CPoolJoin = False"
| "in_stop _ = True"

definition flushing :: "'e log_queue \<Rightarrow> bool" where
  "flushing s \<longleftrightarrow> \<not> lq_running s \<and> (\<forall>e. PPush e \<notin> set (lq_producers s)) \<and> in_stop (lq_control s) \<and>
     (lq_control s = CStopDrain DDone \<or> lq_control s = CStopped \<longrightarrow> lq_entries s = [])"

lemma queue_step_flushing: "queue_step passes entry s s' \<Longrightarrow> flushing s \<Longrightarrow> flushing s'"
proof (induction rule: queue_step.induct)
  case (producer i s p s')
  then have "\<forall>e. lq_producers s ! i \<noteq> PPush e" using nth_mem by (metis flushing_def)
  then have "\<forall>e. PPush e \<noteq> p" "lq_entries s' = lq_entries s"
    using producer.hyps by (cases "lq_producers s ! i"; auto split: if_splits)+
  then show ?case using producer.prems
    by (simp add: flushing_def producer_step_frame [OF producer.hyps(2)] set_update_other)
next
  case (drain i s d s')
  have "lq_entries s = [] \<longrightarrow> lq_entries s' = []"
    using drain.hyps by (cases "lq_drains s ! i") (auto split: if_splits list.splits)
  then show ?case using drain.prems by (auto simp: flushing_def drain_step_frame [OF drain.hyps(2)])
next
  case (work s s')
  have "lq_entries s = [] \<longrightarrow> lq_entries s' = []"
    using work.hyps by (cases "lq_worker s") (auto split: if_splits list.splits)
  then show ?case using work.prems worker_step_frame [OF work.hyps refl] by (auto simp: flushing_def)
next
  case (control s s')
  show ?case
  proof (cases "lq_control s")
    case (CStopDrain d)
    then show ?thesis using control by (cases d) (auto simp: flushing_def split: if_splits list.splits)
  qed (use control in \<open>auto simp: flushing_def split: if_splits\<close>)
qed (auto simp: flushing_def)

interpretation lq_flush: step_invariant flushing "queue_step passes entry" flushing for passes entry
  by unfold_locales (simp, rule queue_step_flushing)

section \<open>Running a schedule\<close>

datatype 'r log_action =
  ACall 'r | AProducer nat | ABegin | ADrain nat | AWork | AControl | AStart | AStop | ASetPool bool

fun log_act :: "('r \<Rightarrow> bool) \<Rightarrow> ('r \<Rightarrow> 'e) \<Rightarrow> 'r log_action \<Rightarrow> 'e log_queue \<Rightarrow> 'e log_queue option" where
  "log_act passes entry (ACall r) s =
     (if lq_running s \<and> passes r then Some (s\<lparr>lq_producers := lq_producers s @ [PPush (entry r)]\<rparr>) else None)"
| "log_act passes entry (AProducer i) s =
     (if i < length (lq_producers s)
      then map_option (\<lambda>(p, s'). s'\<lparr>lq_producers := (lq_producers s)[i := p]\<rparr>) (producer_step (lq_producers s ! i) s) else None)"
| "log_act passes entry ABegin s =
     (if 0 < lq_posted s then Some (s\<lparr>lq_posted := lq_posted s - 1, lq_drains := lq_drains s @ [DReset]\<rparr>) else None)"
| "log_act passes entry (ADrain i) s =
     (if i < length (lq_drains s)
      then map_option (\<lambda>(d, s'). s'\<lparr>lq_drains := (lq_drains s)[i := d]\<rparr>) (drain_step (lq_drains s ! i) s) else None)"
| "log_act passes entry AWork s = log_worker_step (lq_worker s) s"
| "log_act passes entry AControl s = control_step (lq_control s) s"
| "log_act passes entry AStart s = (if lq_control s = CIdle then Some (log_start s) else None)"
| "log_act passes entry AStop s = (if lq_control s = CIdle then Some (log_stop s) else None)"
| "log_act passes entry (ASetPool p) s = (if lq_control s = CIdle then Some (log_set_thread_pool p s) else None)"

fun log_run :: "('r \<Rightarrow> bool) \<Rightarrow> ('r \<Rightarrow> 'e) \<Rightarrow> 'r log_action list \<Rightarrow> 'e log_queue \<Rightarrow> 'e log_queue option" where
  "log_run passes entry [] s = Some s"
| "log_run passes entry (a # as) s =
     (case log_act passes entry a s of None \<Rightarrow> None | Some s' \<Rightarrow> log_run passes entry as s')"

lemma log_act_step: "log_act passes entry a s = Some s' \<Longrightarrow> queue_step passes entry s s'"
  by (cases a) (auto split: if_splits simp del: One_nat_def intro: queue_step.intros)

lemma log_run_steps: "log_run passes entry as s = Some s' \<Longrightarrow> (queue_step passes entry)\<^sup>*\<^sup>* s s'"
  by (induction as arbitrary: s) (auto split: option.splits dest: log_act_step intro: converse_rtranclp_into_rtranclp)

lemma log_run_reachable: "log_run passes entry as new_log_queue = Some s \<Longrightarrow> log_reachable passes entry s"
  unfolding log_reachable_def by (rule log_run_steps)

text \<open>With a thread pool: an entry is logged and a drain of the pool holds it, about to write it.\<close>

definition with_pool :: "'r \<Rightarrow> 'r log_action list" where
  "with_pool r = [ASetPool True, AControl, AControl, AStart, ACall r, AProducer 0, AProducer 0, AProducer 0, AProducer 0,
     ABegin, ADrain 0, ADrain 0]"

definition overtake :: "'r \<Rightarrow> 'r log_action list" where
  "overtake r = [ACall r, AProducer 1, AProducer 1, AProducer 1, AProducer 1, ABegin, ADrain 1, ADrain 1, ADrain 1, ADrain 0]"

definition run_stop :: "'r log_action list" where
  "run_stop = AStop # replicate 7 AControl"

lemma overtaken:
  assumes "passes a" and "passes b"
  shows "\<exists>s. log_run passes entry (with_pool a @ overtake b) new_log_queue = Some s \<and>
    lq_accepted s = [entry a, entry b] \<and> lq_output s = [entry b, entry a]"
  using assms by (simp add: with_pool_def overtake_def new_log_queue_def log_set_thread_pool_def log_start_def
    wake_worker_def MAX_QUEUE_SIZE_def Let_def)

lemma stopped_early:
  assumes "passes a"
  shows "\<exists>s. log_run passes entry (with_pool a @ run_stop) new_log_queue = Some s \<and>
    lq_control s = CStopped \<and> lq_drains s = [DWrite (entry a)]"
  using assms by (simp add: with_pool_def run_stop_def new_log_queue_def log_set_thread_pool_def log_start_def log_stop_def
    wake_worker_def MAX_QUEUE_SIZE_def Let_def numeral_eq_Suc)

section \<open>Properties\<close>

text \<open>C14: whatever the interleaving of \<open>log\<close> calls, the worker, pool drains, \<open>start\<close>, \<open>stop\<close> and
  \<open>set_thread_pool\<close>, the accepted entries are exactly, as a multiset, the written ones, the ones
  a thread holds between the pop and the write, and the queued ones: no entry is lost or
  written twice. The queue never holds more than \<open>MAX_QUEUE_SIZE\<close> entries, and a set
  \<open>drain_pending_\<close> always belongs to a drain that is about to be posted, posted, or started. The thread pool
  keeps its posted tasks here: that it discards them in its destructor is a property of \<open>Thread_Pool\<close>.\<close>

theorem log_entries_conserved:
  assumes "log_reachable passes entry s"
  shows "mset (lq_accepted s) = mset (lq_output s) + in_flight s + mset (lq_entries s) \<and>
    length (lq_entries s) \<le> MAX_QUEUE_SIZE \<and>
    (lq_pending s \<longrightarrow> PPost \<in> set (lq_producers s) \<or> 0 < lq_posted s \<or> DReset \<in> set (lq_drains s))"
  using log_invariants [OF assms] by (simp add: conserved_def drain_coming_def)

theorem log_entries_conserved_witness:
  "\<exists>s. log_run (\<lambda>_. True) id (with_pool ''a'' @ overtake ''b'') new_log_queue = Some s \<and>
     mset (lq_accepted s) = mset (lq_output s) + in_flight s + mset (lq_entries s)"
proof -
  obtain s where "log_run (\<lambda>_. True) id (with_pool ''a'' @ overtake ''b'') new_log_queue = Some s"
    using overtaken [of "\<lambda>_. True" "''a''" "''b''" id] by blast
  with log_entries_conserved [OF log_run_reachable [OF this]] show ?thesis by blast
qed

text \<open>Without a thread pool entries are written in the order in which they were pushed: what was
  accepted is what was written, then what the one consuming thread holds, then the queue.\<close>

theorem log_order_without_pool:
  assumes "(\<lambda>s s'. queue_step passes entry s s' \<and> \<not> lq_pool s')\<^sup>*\<^sup>* new_log_queue s"
  shows "lq_accepted s = lq_output s @ held_worker (lq_worker s) @ held_control (lq_control s) @ lq_entries s"
  using lq_alone.reachable [OF assms] by (simp add: in_order_def)

theorem log_order_without_pool_witness:
  "lq_accepted (log_start new_log_queue) = lq_output (log_start new_log_queue) @ lq_entries (log_start new_log_queue)"
proof -
  have "(\<lambda>s s'. queue_step (\<lambda>_. True) id s s' \<and> \<not> lq_pool s')\<^sup>*\<^sup>* new_log_queue (log_start new_log_queue)"
    by (rule r_into_rtranclp, intro conjI, rule queue_step.start) (simp_all add: new_log_queue_def log_start_def)
  from log_order_without_pool [OF this] show ?thesis by (simp add: log_start_def new_log_queue_def)
qed

text \<open>C38: with a thread pool they need not be. A drain clears \<open>drain_pending_\<close> before it pops, so a
  second drain can run beside it and write a later entry first. And \<open>stop\<close>, which waits for
  \<open>drain_pending_\<close> only, can return while a drain still holds an entry it has not written, after
  which the access logger's \<open>stop\<close> closes the file.\<close>

theorem pool_drains_reorder_and_outlive_stop:
  assumes "passes a" and "passes b"
  shows "(\<exists>s. log_reachable passes entry s \<and> lq_accepted s = [entry a, entry b] \<and> lq_output s = [entry b, entry a]) \<and>
    (\<exists>s. log_reachable passes entry s \<and> lq_control s = CStopped \<and> DWrite (entry a) \<in> set (lq_drains s))"
  using overtaken [of passes a b entry] stopped_early [of passes a entry] assms log_run_reachable by fastforce

theorem pool_drains_reorder_and_outlive_stop_witness:
  "\<exists>s. log_reachable (\<lambda>_. True) id s \<and> lq_accepted s = [''first'', ''second''] \<and> lq_output s = [''second'', ''first'']"
  using pool_drains_reorder_and_outlive_stop [of "\<lambda>_. True" "''first''" "''second''" id] by simp

text \<open>C28: \<open>stop\<close> flushes: when no \<open>log\<close> call is between its test of \<open>running_\<close> and its push at the
  moment \<open>stop\<close> clears \<open>running_\<close>, then once \<open>stop\<close> has returned the queue is empty, and the
  accepted entries are those written and those held by drains still running.\<close>

theorem log_stop_flushes:
  assumes "log_reachable passes entry s" and "lq_running s" and "lq_control s = CIdle"
    and "\<forall>e. PPush e \<notin> set (lq_producers s)"
    and "(queue_step passes entry)\<^sup>*\<^sup>* (log_stop s) s'" and "lq_control s' = CStopped"
  shows "lq_entries s' = [] \<and> mset (lq_accepted s') = mset (lq_output s') + mset (concat (map held_drain (lq_drains s')))"
proof -
  have "flushing (log_stop s)" using assms(2,4) by (simp add: log_stop_def flushing_def)
  then have empty: "lq_entries s' = []" using lq_flush.from_any [OF assms(5)] assms(6) by (simp add: flushing_def)
  have "log_reachable passes entry s'"
    using assms(1,5) queue_step.stop [OF assms(3)] unfolding log_reachable_def by (metis (no_types) rtranclp.rtrancl_into_rtrancl rtranclp_trans)
  then have "worker_ok s'" "conserved s'" using log_invariants by blast+
  then show ?thesis using empty assms(6) by (simp add: conserved_def in_flight_def worker_ok_def)
qed

theorem log_stop_flushes_witness:
  "\<exists>s. log_run (\<lambda>_. True) id (with_pool ''a'' @ ADrain 0 # ADrain 0 # run_stop) new_log_queue = Some s \<and>
     lq_entries s = [] \<and> mset (lq_accepted s) = mset (lq_output s) + mset (concat (map held_drain (lq_drains s)))"
proof -
  let ?run = "log_run (\<lambda>_. True) id" and ?pre = "with_pool ''a'' @ [ADrain 0, ADrain 0]"
  have "\<exists>s. ?run ?pre new_log_queue = Some s \<and> lq_running s \<and> lq_control s = CIdle \<and> lq_producers s = [PDone] \<and>
      (\<exists>s'. ?run (replicate 7 AControl) (log_stop s) = Some s' \<and> lq_control s' = CStopped \<and>
        ?run (with_pool ''a'' @ ADrain 0 # ADrain 0 # run_stop) new_log_queue = Some s')"
    by (simp add: with_pool_def run_stop_def new_log_queue_def log_set_thread_pool_def log_start_def log_stop_def
      wake_worker_def MAX_QUEUE_SIZE_def Let_def numeral_eq_Suc)
  then obtain s s' where s: "?run ?pre new_log_queue = Some s" "lq_running s" "lq_control s = CIdle" "lq_producers s = [PDone]"
    and s': "?run (replicate 7 AControl) (log_stop s) = Some s'" "lq_control s' = CStopped"
      "?run (with_pool ''a'' @ ADrain 0 # ADrain 0 # run_stop) new_log_queue = Some s'" by blast
  have "\<forall>e. PPush e \<notin> set (lq_producers s)" by (simp add: s(4))
  from log_stop_flushes [OF log_run_reachable [OF s(1)] s(2,3) this log_run_steps [OF s'(1)] s'(2)] s'(3)
  show ?thesis by blast
qed

end
