(* ===== verification/Loggers.thy ===== *)
theory Loggers
  imports Log_Queue LB_State
begin

text \<open>
  \<^verbatim>\<open>logging/logger.cpp\<close> and \<^verbatim>\<open>logging/access_logger.cpp\<close>: what the two loggers add to the queue
  they share: levels, output files and the lines they write. Local time comes from the C
  library and the environment: the rendered time is an argument (\<open>None\<close> where \<open>localtime_r\<close>
  fails), as is the decimal rendering of the latency in milliseconds.
\<close>

section \<open>Logger\<close>

datatype LogLevel = DEBUG | INFO | WARN | ERROR

fun level_number :: "LogLevel \<Rightarrow> nat" where
  "level_number DEBUG = 0"
| "level_number INFO = 1"
| "level_number WARN = 2"
| "level_number ERROR = 3"

lemma level_number_inj: "level_number a = level_number b \<Longrightarrow> a = b"
  by (cases a; cases b) simp_all

instantiation LogLevel :: linorder
begin

definition less_eq_LogLevel :: "LogLevel \<Rightarrow> LogLevel \<Rightarrow> bool" where
  "less_eq_LogLevel a b \<longleftrightarrow> level_number a \<le> level_number b"

definition less_LogLevel :: "LogLevel \<Rightarrow> LogLevel \<Rightarrow> bool" where
  "less_LogLevel a b \<longleftrightarrow> level_number a < level_number b"

instance
  by standard (auto simp: less_eq_LogLevel_def less_LogLevel_def level_number_inj)

end

text \<open>\<open>FILE*\<close> as the code uses it: null, the error stream, or an opened file.\<close>

datatype log_stream = NullStream | StdErr | LogFile string

record Logger =
  logger_level :: LogLevel
  logger_file_path :: string
  logger_file :: log_stream
  logger_closed :: "string list"
  logger_queue :: "string log_queue"

definition new_logger :: Logger where
  "new_logger = \<lparr>logger_level = INFO, logger_file_path = [], logger_file = NullStream, logger_closed = [], logger_queue = new_log_queue\<rparr>"

definition set_level :: "LogLevel \<Rightarrow> Logger \<Rightarrow> Logger" where
  "set_level l g = g\<lparr>logger_level := l\<rparr>"

definition close_logger_file :: "Logger \<Rightarrow> Logger" where
  "close_logger_file g = (case logger_file g of LogFile f \<Rightarrow> g\<lparr>logger_closed := logger_closed g @ [f]\<rparr> | _ \<Rightarrow> g)"

definition set_output_file :: "bool \<Rightarrow> string \<Rightarrow> Logger \<Rightarrow> Logger" where
  "set_output_file opens f g =
     (close_logger_file (g\<lparr>logger_file_path := f\<rparr>))\<lparr>logger_file := (if opens then LogFile f else StdErr)\<rparr>"

fun level_name :: "LogLevel \<Rightarrow> string" where
  "level_name DEBUG = ''DEBUG''"
| "level_name INFO = ''INFO''"
| "level_name WARN = ''WARN''"
| "level_name ERROR = ''ERROR''"

record log_request =
  rq_level :: LogLevel
  rq_time :: "string option"
  rq_message :: string

definition logger_passes :: "LogLevel \<Rightarrow> log_request \<Rightarrow> bool" where
  "logger_passes threshold r \<longleftrightarrow> \<not> rq_level r < threshold"

definition log_line :: "log_request \<Rightarrow> string" where
  "log_line r =
     (case rq_time r of None \<Rightarrow> ''1970-01-01 00:00:00'' | Some t \<Rightarrow> t) @ '' ['' @ level_name (rq_level r) @ ''] '' @
     rq_message r @ [CHR 0x0A]"

text \<open>\<open>debug\<close>, \<open>info\<close>, \<open>warn\<close> and \<open>error\<close> are \<open>log\<close> at their level.\<close>

definition log_at :: "LogLevel \<Rightarrow> string option \<Rightarrow> string \<Rightarrow> log_request" where
  "log_at l t m = \<lparr>rq_level = l, rq_time = t, rq_message = m\<rparr>"

definition logger_step :: "Logger \<Rightarrow> Logger \<Rightarrow> bool" where
  "logger_step g g' \<longleftrightarrow>
     (\<exists>q'. queue_step (logger_passes (logger_level g)) log_line (logger_queue g) q' \<and> g' = g\<lparr>logger_queue := q'\<rparr>)"

text \<open>Where \<open>write_log\<close> prints: what the stream's file has received.\<close>

definition write_stream :: "Logger \<Rightarrow> log_stream" where
  "write_stream g = (if logger_file g = NullStream then StdErr else logger_file g)"

section \<open>AccessLogger\<close>

record AccessLogger =
  access_enabled :: bool
  access_file_path :: string
  access_file :: "string option"
  access_queue :: "AccessLogEntry log_queue"
  access_written :: "(string option \<times> AccessLogEntry) list"

definition new_access_logger :: AccessLogger where
  "new_access_logger = \<lparr>access_enabled = False, access_file_path = [], access_file = None, access_queue = new_log_queue, access_written = []\<rparr>"

definition access_set_output_file :: "string \<Rightarrow> AccessLogger \<Rightarrow> AccessLogger" where
  "access_set_output_file f g = g\<lparr>access_file_path := f\<rparr>"

definition access_set_enabled :: "bool \<Rightarrow> AccessLogger \<Rightarrow> AccessLogger" where
  "access_set_enabled e g = g\<lparr>access_enabled := e\<rparr>"

definition access_start :: "bool \<Rightarrow> AccessLogger \<Rightarrow> AccessLogger" where
  "access_start opens g =
     (if lq_running (access_queue g) \<or> \<not> access_enabled g then g
      else
        let g1 = (if access_file_path g \<noteq> [] then g\<lparr>access_file := (if opens then Some (access_file_path g) else None)\<rparr> else g)
        in g1\<lparr>access_queue := log_start (access_queue g1)\<rparr>)"

definition access_passes :: "bool \<Rightarrow> AccessLogEntry \<Rightarrow> bool" where
  "access_passes enabled e \<longleftrightarrow> enabled"

text \<open>What a step of the queue means for the file: an entry that is written goes to the file that is
  open at that moment, or else to standard output; \<open>stop\<close> closes the file when its own drain
  has seen the queue empty.\<close>

definition access_follow :: "AccessLogger \<Rightarrow> AccessLogEntry log_queue \<Rightarrow> AccessLogger" where
  "access_follow g q' =
     (let q = access_queue g;
          g1 = g\<lparr>access_queue := q', access_written := access_written g @
            map (\<lambda>e. (access_file g, e)) (drop (length (lq_output q)) (lq_output q'))\<rparr>
      in if lq_control q \<noteq> CStopped \<and> lq_control q' = CStopped then g1\<lparr>access_file := None\<rparr> else g1)"

inductive access_step :: "AccessLogger \<Rightarrow> AccessLogger \<Rightarrow> bool" where
  queue: "queue_step (access_passes (access_enabled g)) id (access_queue g) q' \<Longrightarrow>
    lq_running q' \<longrightarrow> lq_running (access_queue g) \<Longrightarrow> access_step g (access_follow g q')"
| start: "lq_control (access_queue g) = CIdle \<Longrightarrow> access_step g (access_start opens g)"

definition format_entry :: "(time \<Rightarrow> string) \<Rightarrow> (int \<Rightarrow> string) \<Rightarrow> AccessLogEntry \<Rightarrow> string" where
  "format_entry stamp render e =
     al_client_ip e @ '' - - '' @ ''['' @ stamp (al_timestamp e) @ ''] '' @
     [CHR 0x22] @ al_method e @ '' '' @ al_path e @ '' HTTP/1.1'' @ [CHR 0x22] @ '' '' @
     int_to_string (al_status_code e) @ '' '' @ nat_to_string (al_bytes_sent e) @ '' '' @
     render (al_latency e) @ ''ms '' @ [CHR 0x22] @ al_backend e @ [CHR 0x22]"

text \<open>The lines written for a list of entries; they go to the file or else to standard output.\<close>

definition write_entry :: "(time \<Rightarrow> string) \<Rightarrow> (int \<Rightarrow> string) \<Rightarrow> AccessLogEntry \<Rightarrow> string" where
  "write_entry stamp render e = format_entry stamp render e @ [CHR 0x0A]"

section \<open>Properties\<close>

lemma accepted_requested:
  assumes "(queue_step passes entry)\<^sup>*\<^sup>* q q'"
    and "set (lq_accepted q) \<union> {e. PPush e \<in> set (lq_producers q)} \<subseteq> entry ` Collect passes"
  shows "set (lq_accepted q') \<union> {e. PPush e \<in> set (lq_producers q')} \<subseteq> entry ` Collect passes"
  using assms
proof (induction rule: rtranclp_induct)
  case (step q q')
  then have *: "set (lq_accepted q) \<union> {e. PPush e \<in> set (lq_producers q)} \<subseteq> entry ` Collect passes" by blast
  from step.hyps(2) show ?case
  proof (cases rule: queue_step.cases)
    case (producer i p s')
    have "PPush e \<noteq> p" for e using producer(3) by (cases "lq_producers q ! i") (auto split: if_splits)
    moreover have "set (lq_accepted s') \<subseteq> set (lq_accepted q) \<union> {e. lq_producers q ! i = PPush e}"
      using producer(3) by (cases "lq_producers q ! i") (auto split: if_splits)
    moreover have "{e. lq_producers q ! i = PPush e} \<subseteq> {e. PPush e \<in> set (lq_producers q)}"
      using producer(2) nth_mem by fastforce
    moreover have "{e. PPush e \<in> set ((lq_producers q)[i := p])} \<subseteq> {e. PPush e \<in> set (lq_producers q)} \<union> {e. PPush e = p}"
      using set_update_subset_insert [of "lq_producers q" i p] by blast
    ultimately show ?thesis using * unfolding producer(1) by simp (blast intro: order.trans)
  next
    case (drain i d s')
    then show ?thesis using * drain_step_frame [OF drain(3)] by simp
  next
    case (work)
    then show ?thesis using * worker_step_frame [OF work refl] by simp
  next
    case control
    have "lq_accepted q' = lq_accepted q \<and> lq_producers q' = lq_producers q"
    proof (cases "lq_control q")
      case (CStopDrain d)
      then show ?thesis using control by (cases d) (auto split: if_splits list.splits)
    qed (use control in \<open>auto split: if_splits\<close>)
    then show ?thesis using * by simp
  qed (use * in \<open>auto simp: log_start_def log_stop_def log_set_thread_pool_def Let_def\<close>)
qed simp

lemma logger_steps:
  "logger_step\<^sup>*\<^sup>* g g' \<Longrightarrow> logger_level g' = logger_level g \<and>
     (queue_step (logger_passes (logger_level g)) log_line)\<^sup>*\<^sup>* (logger_queue g) (logger_queue g')"
  by (induction rule: rtranclp_induct) (auto simp: logger_step_def intro: rtranclp.rtrancl_into_rtrancl)

text \<open>Every written line was requested at or above the logger's level.\<close>

lemma logger_lines_reach_level:
  assumes "logger_queue g = new_log_queue" and "logger_step\<^sup>*\<^sup>* g g'" and "line \<in> set (lq_output (logger_queue g'))"
  shows "\<exists>r. line = log_line r \<and> logger_level g \<le> rq_level r"
proof -
  have steps: "(queue_step (logger_passes (logger_level g)) log_line)\<^sup>*\<^sup>* new_log_queue (logger_queue g')"
    using logger_steps [OF assms(2)] assms(1) by simp
  have "set (lq_accepted new_log_queue) \<union> {e. PPush e \<in> set (lq_producers new_log_queue)} \<subseteq>
      log_line ` Collect (logger_passes (logger_level g))"
    by (simp add: new_log_queue_def)
  from accepted_requested [OF steps this]
  have "set (lq_accepted (logger_queue g')) \<subseteq> log_line ` Collect (logger_passes (logger_level g))" by blast
  moreover have "mset (lq_output (logger_queue g')) \<subseteq># mset (lq_accepted (logger_queue g'))"
    using log_invariants [OF steps [folded log_reachable_def]] by (simp add: conserved_def union_assoc)
  then have "line \<in> set (lq_accepted (logger_queue g'))" using assms(3) mset_subset_eqD by fastforce
  ultimately obtain r where "line = log_line r" "logger_passes (logger_level g) r" by blast
  then show ?thesis by (auto simp: logger_passes_def not_less)
qed

text \<open>Running the access logger on a schedule.\<close>

fun access_act :: "AccessLogEntry log_action \<Rightarrow> AccessLogger \<Rightarrow> AccessLogger option" where
  "access_act a g =
     (if a = AStart then (if lq_control (access_queue g) = CIdle then Some (access_start True g) else None)
      else map_option (access_follow g) (log_act (access_passes (access_enabled g)) id a (access_queue g)))"

fun access_run :: "AccessLogEntry log_action list \<Rightarrow> AccessLogger \<Rightarrow> AccessLogger option" where
  "access_run [] g = Some g"
| "access_run (a # as) g = (case access_act a g of None \<Rightarrow> None | Some g' \<Rightarrow> access_run as g')"

lemma log_act_running: "log_act p f a q = Some q' \<Longrightarrow> a \<noteq> AStart \<Longrightarrow> lq_running q' \<longrightarrow> lq_running q"
proof (cases a)
  case (AProducer i)
  then show "log_act p f a q = Some q' \<Longrightarrow> ?thesis" using producer_step_frame(2) by (fastforce split: if_splits)
next
  case (ADrain i)
  then show "log_act p f a q = Some q' \<Longrightarrow> ?thesis" using drain_step_frame(2) by (fastforce split: if_splits)
next
  case AWork
  then show "log_act p f a q = Some q' \<Longrightarrow> ?thesis" using worker_step_frame(2) by fastforce
next
  case AControl
  show "log_act p f a q = Some q' \<Longrightarrow> ?thesis"
  proof (cases "lq_control q")
    case (CStopDrain d)
    then show "log_act p f a q = Some q' \<Longrightarrow> ?thesis" using AControl by (cases d) (auto split: if_splits list.splits)
  qed (use AControl in \<open>auto split: if_splits\<close>)
qed (auto simp: log_stop_def log_set_thread_pool_def Let_def split: if_splits)

lemma access_act_step: "access_act a g = Some g' \<Longrightarrow> access_step g g'"
  by (auto split: if_splits intro: access_step.intros log_act_step dest: log_act_running)

lemma access_run_steps: "access_run as g = Some g' \<Longrightarrow> access_step\<^sup>*\<^sup>* g g'"
  by (induction as arbitrary: g)
     (auto simp del: access_act.simps split: option.splits dest: access_act_step intro: converse_rtranclp_into_rtranclp)

text \<open>An entry accepted before \<open>stop\<close> can be written after the file was closed, and then goes to
  standard output.\<close>

lemma access_entry_misses_file:
  assumes "f \<noteq> []"
  shows "\<exists>g. access_step\<^sup>*\<^sup>* (access_set_output_file f (access_set_enabled True new_access_logger)) g \<and>
    access_written g = [(None, e)]"
proof -
  have "\<exists>g. access_run (with_pool e @ run_stop @ [ADrain 0])
      (access_set_output_file f (access_set_enabled True new_access_logger)) = Some g \<and> access_written g = [(None, e)]"
    using assms by (simp add: with_pool_def run_stop_def new_access_logger_def access_set_output_file_def access_set_enabled_def
      access_start_def access_follow_def access_passes_def new_log_queue_def log_set_thread_pool_def log_start_def log_stop_def
      wake_worker_def MAX_QUEUE_SIZE_def Let_def numeral_eq_Suc)
  then show ?thesis using access_run_steps by blast
qed

end
