(* ===== verification/Tls_Context.thy ===== *)
theory Tls_Context
  imports Main
begin

text \<open>
  \<^verbatim>\<open>tls/tls_context.cpp\<close>: the wrapper around the TLS library. The library is not part of the
  program; what its calls answer is the argument \<open>openssl\<close>, and of its objects the model keeps
  what the wrapper decides: the protocol floor, the options and the loaded files of a context,
  and which contexts and sessions are allocated. The model is of a build against OpenSSL 1.1.1
  or later.
\<close>

record openssl =
  o_init_ssl :: bool
  o_method :: bool
  o_ctx_new :: bool
  o_min_proto :: bool
  o_certificate :: "string \<Rightarrow> bool"
  o_private_key :: "string \<Rightarrow> bool"
  o_key_matches :: "string \<Rightarrow> string \<Rightarrow> bool"
  o_ssl_new :: bool
  o_set_fd :: bool

datatype tls_option = NO_SSLv2 | NO_SSLv3 | CIPHER_SERVER_PREFERENCE | NO_RENEGOTIATION

datatype tls_version = SSL3 | TLS1_0 | TLS1_1 | TLS1_2 | TLS1_3

record SSL_CTX =
  ctx_min_version :: "tls_version option"
  ctx_options :: "tls_option set"
  ctx_certificate :: "string option"
  ctx_key :: "string option"

record ssl_session =
  ssl_fd :: "int option"
  ssl_accepting :: bool

text \<open>\<open>ctx_live\<close> counts the allocated contexts; \<open>ssl_objects\<close> are the allocated sessions.\<close>

record TlsContext =
  tls_ctx :: "SSL_CTX option"
  ctx_live :: nat
  ssl_objects :: "nat \<rightharpoonup> ssl_session"
  ssl_next :: nat

definition new_tls_context :: TlsContext where
  "new_tls_context = \<lparr>tls_ctx = None, ctx_live = 0, ssl_objects = Map.empty, ssl_next = 0\<rparr>"

definition destroy_tls_context :: "TlsContext \<Rightarrow> TlsContext" where
  "destroy_tls_context t = (if tls_ctx t \<noteq> None then t\<lparr>tls_ctx := None, ctx_live := ctx_live t - 1\<rparr> else t)"

definition tls_initialize :: "openssl \<Rightarrow> TlsContext \<Rightarrow> bool \<times> TlsContext" where
  "tls_initialize L t =
     (if \<not> o_init_ssl L then (False, t)
      else if \<not> o_method L then (False, t)
      else if \<not> o_ctx_new L then (False, t\<lparr>tls_ctx := None\<rparr>)
      else
        let c = \<lparr>ctx_min_version = None, ctx_options = {}, ctx_certificate = None, ctx_key = None\<rparr>;
            t1 = t\<lparr>tls_ctx := Some c, ctx_live := ctx_live t + 1\<rparr>
        in if \<not> o_min_proto L then (False, t1\<lparr>tls_ctx := None, ctx_live := ctx_live t1 - 1\<rparr>)
           else
             let c1 = c\<lparr>ctx_min_version := Some TLS1_2\<rparr>;
                 c2 = c1\<lparr>ctx_options := ctx_options c1 \<union> {NO_SSLv2, NO_SSLv3}\<rparr>;
                 c3 = c2\<lparr>ctx_options := ctx_options c2 \<union> {CIPHER_SERVER_PREFERENCE}\<rparr>;
                 c4 = c3\<lparr>ctx_options := ctx_options c3 \<union> {NO_RENEGOTIATION}\<rparr>
             in (True, t1\<lparr>tls_ctx := Some c4\<rparr>))"

definition load_certificate :: "openssl \<Rightarrow> string \<Rightarrow> string \<Rightarrow> TlsContext \<Rightarrow> bool \<times> TlsContext" where
  "load_certificate L cert key t =
     (case tls_ctx t of
        None \<Rightarrow> (False, t)
      | Some c \<Rightarrow>
          if \<not> o_certificate L cert then (False, t)
          else
            let c1 = c\<lparr>ctx_certificate := Some cert\<rparr>; t1 = t\<lparr>tls_ctx := Some c1\<rparr>
            in if \<not> o_private_key L key then (False, t1)
               else
                 let t2 = t1\<lparr>tls_ctx := Some (c1\<lparr>ctx_key := Some key\<rparr>)\<rparr>
                 in if \<not> o_key_matches L cert key then (False, t2) else (True, t2))"

definition create_ssl :: "openssl \<Rightarrow> int \<Rightarrow> TlsContext \<Rightarrow> nat option \<times> TlsContext" where
  "create_ssl L f t =
     (case tls_ctx t of
        None \<Rightarrow> (None, t)
      | Some c \<Rightarrow>
          if \<not> o_ssl_new L then (None, t)
          else
            let i = ssl_next t;
                t1 = t\<lparr>ssl_objects := (ssl_objects t)(i \<mapsto> \<lparr>ssl_fd = None, ssl_accepting = False\<rparr>), ssl_next := i + 1\<rparr>
            in if \<not> o_set_fd L then (None, t1\<lparr>ssl_objects := (ssl_objects t1)(i := None)\<rparr>)
               else (Some i, t1\<lparr>ssl_objects := (ssl_objects t1)(i \<mapsto> \<lparr>ssl_fd = Some f, ssl_accepting = True\<rparr>)\<rparr>))"

definition destroy_ssl :: "nat option \<Rightarrow> TlsContext \<Rightarrow> TlsContext" where
  "destroy_ssl p t = (case p of None \<Rightarrow> t | Some i \<Rightarrow> t\<lparr>ssl_objects := (ssl_objects t)(i := None)\<rparr>)"

text \<open>The library may refuse the second file after the first was taken, so a context that reports
  failure can hold a certificate; it is usable only after both were taken and match.\<close>

definition tls_hardened :: "SSL_CTX \<Rightarrow> bool" where
  "tls_hardened c \<longleftrightarrow> ctx_min_version c = Some TLS1_2 \<and>
     ctx_options c = {NO_SSLv2, NO_SSLv3, CIPHER_SERVER_PREFERENCE, NO_RENEGOTIATION}"

lemma tls_initialize_result:
  assumes "tls_initialize L t = (ok, t')" and "tls_ctx t = None"
  shows "ok \<longleftrightarrow> o_init_ssl L \<and> o_method L \<and> o_ctx_new L \<and> o_min_proto L"
    and "(case tls_ctx t' of None \<Rightarrow> \<not> ok \<and> ctx_live t' = ctx_live t | Some c \<Rightarrow> ok \<and> tls_hardened c \<and> ctx_live t' = ctx_live t + 1)"
    and "ssl_objects t' = ssl_objects t"
  using assms by (auto simp: tls_initialize_def tls_hardened_def Let_def split: if_splits)

lemma load_certificate_result:
  assumes "load_certificate L cert key t = (ok, t')"
  shows "ok \<longleftrightarrow> tls_ctx t \<noteq> None \<and> o_certificate L cert \<and> o_private_key L key \<and> o_key_matches L cert key"
    and "ok \<Longrightarrow> (\<exists>c. tls_ctx t' = Some c \<and> ctx_certificate c = Some cert \<and> ctx_key c = Some key)"
    and "map_option tls_hardened (tls_ctx t') = map_option tls_hardened (tls_ctx t)" and "ctx_live t' = ctx_live t"
    and "ssl_objects t' = ssl_objects t"
  using assms by (auto simp: load_certificate_def tls_hardened_def Let_def split: if_splits option.splits)

text \<open>C33: a TLS context that reports success is hardened and complete, and nothing leaks on failure.
  Starting from a fresh object, \<open>initialize\<close> followed by \<open>load_certificate\<close> both succeed exactly
  when every library call does; the context then accepts no protocol below TLS 1.2, has all four
  options set and carries the two given files. After a failed \<open>initialize\<close> no context is
  allocated; destroying the object frees its context in every case; and \<open>create_ssl\<close> leaves a
  session allocated exactly when it returns one, bound to the descriptor in accept state.\<close>

theorem tls_context_hardened_or_absent:
  assumes "tls_initialize L new_tls_context = (made, t1)" and "load_certificate L cert key t1 = (loaded, t2)"
    and "create_ssl L f t2 = (session, t3)"
  shows "(made \<and> loaded \<longleftrightarrow> o_init_ssl L \<and> o_method L \<and> o_ctx_new L \<and> o_min_proto L \<and>
       o_certificate L cert \<and> o_private_key L key \<and> o_key_matches L cert key) \<and>
    (made \<and> loaded \<longrightarrow> (\<exists>c. tls_ctx t2 = Some c \<and> tls_hardened c \<and> ctx_certificate c = Some cert \<and> ctx_key c = Some key)) \<and>
    (\<not> made \<longrightarrow> tls_ctx t2 = None \<and> ctx_live t2 = 0 \<and> \<not> loaded \<and> session = None) \<and>
    ctx_live (destroy_tls_context t3) = 0 \<and>
    ssl_objects t3 = (case session of None \<Rightarrow> Map.empty | Some i \<Rightarrow> [i \<mapsto> \<lparr>ssl_fd = Some f, ssl_accepting = True\<rparr>]) \<and>
    ssl_objects (destroy_ssl session t3) = Map.empty"
proof -
  have new: "tls_ctx new_tls_context = None" "ctx_live new_tls_context = 0" "ssl_objects new_tls_context = Map.empty"
    by (simp_all add: new_tls_context_def)
  note 1 = tls_initialize_result [OF assms(1) new(1)]
  note 2 = load_certificate_result [OF assms(2)]
  have made: "made \<longleftrightarrow> tls_ctx t1 \<noteq> None" using 1(2) by (auto split: option.splits)
  have ctx2: "tls_ctx t2 = None \<longleftrightarrow> \<not> made" using 2(3) made by (cases "tls_ctx t1"; cases "tls_ctx t2") auto
  have hard: "tls_ctx t2 = Some c \<Longrightarrow> tls_hardened c" for c
    using 2(3) 1(2) by (cases "tls_ctx t1") (auto split: option.splits)
  have live: "ctx_live t2 = (if made then 1 else 0)" using 1(2) 2(4) new(2) made by (auto split: option.splits)
  have ssl2: "ssl_objects t2 = Map.empty" using 1(3) 2(5) new(3) by simp
  have 3: "tls_ctx t3 = tls_ctx t2" "ctx_live t3 = ctx_live t2" "\<not> made \<longrightarrow> session = None"
    "ssl_objects t3 = (case session of None \<Rightarrow> Map.empty | Some i \<Rightarrow> [i \<mapsto> \<lparr>ssl_fd = Some f, ssl_accepting = True\<rparr>])"
    using assms(3) ssl2 ctx2 by (auto simp: create_ssl_def Let_def split: if_splits option.splits)
  have "ctx_live (destroy_tls_context t3) = 0" using 3(1,2) live ctx2 by (auto simp: destroy_tls_context_def)
  moreover have "ssl_objects (destroy_ssl session t3) = Map.empty" using 3(4) by (auto simp: destroy_ssl_def split: option.splits)
  moreover have "made \<and> loaded \<longrightarrow> (\<exists>c. tls_ctx t2 = Some c \<and> tls_hardened c \<and> ctx_certificate c = Some cert \<and> ctx_key c = Some key)"
    using 2(2) hard by blast
  moreover have "\<not> made \<longrightarrow> tls_ctx t2 = None \<and> ctx_live t2 = 0 \<and> \<not> loaded \<and> session = None"
    using ctx2 live 2(1) made 3(3) by auto
  ultimately show ?thesis using 1(1) 2(1) made 3(4) by blast
qed

definition example_openssl :: openssl where
  "example_openssl = \<lparr>o_init_ssl = True, o_method = True, o_ctx_new = True, o_min_proto = True,
     o_certificate = (\<lambda>p. p = ''cert.pem''), o_private_key = (\<lambda>p. p = ''key.pem''),
     o_key_matches = (\<lambda>c k. True), o_ssl_new = True, o_set_fd = True\<rparr>"

theorem tls_context_hardened_or_absent_witness:
  "\<exists>t1 t2 t3 i c. tls_initialize example_openssl new_tls_context = (True, t1) \<and>
     load_certificate example_openssl ''cert.pem'' ''key.pem'' t1 = (True, t2) \<and>
     create_ssl example_openssl 7 t2 = (Some i, t3) \<and> tls_ctx t2 = Some c \<and> tls_hardened c"
proof -
  obtain made t1 where 1: "tls_initialize example_openssl new_tls_context = (made, t1)" by fastforce
  obtain loaded t2 where 2: "load_certificate example_openssl ''cert.pem'' ''key.pem'' t1 = (loaded, t2)" by fastforce
  obtain session t3 where 3: "create_ssl example_openssl 7 t2 = (session, t3)" by fastforce
  note * = tls_context_hardened_or_absent [OF 1 2 3]
  have "made \<and> loaded" using * by (simp add: example_openssl_def)
  moreover from this obtain c where c: "tls_ctx t2 = Some c" "tls_hardened c" using * by blast
  moreover from c have "\<exists>i. session = Some i" using 3 by (auto simp: create_ssl_def example_openssl_def Let_def)
  ultimately show ?thesis using 1 2 3 by auto
qed

end
