(* ===== verification/Main_Program.thy ===== *)
theory Main_Program
  imports Reactor Loggers Metrics_Server
begin

text \<open>
  \<^verbatim>\<open>main.cpp\<close>: the command line, the configuration of the loggers, the choice between a
  configuration file and arguments, and the order of the shutdown. An argument \<open>std::stoi\<close>
  rejects ends the process through an uncaught exception: the value is then \<open>None\<close>. \<open>argv\<close> is a
  list with the name of the program first.
\<close>

section \<open>The backends argument\<close>

text \<open>One \<open>host:port\<close>; text without a colon is ignored. The port is what \<open>std::stoi\<close> reads, cast to
  16 bits.\<close>

definition add_backend_arg :: "string \<Rightarrow> lb_state \<Rightarrow> lb_state option" where
  "add_backend_arg b s =
     (case find_char (CHR '':'') b of
        None \<Rightarrow> Some s
      | Some colon \<Rightarrow>
          (case stoi (drop (colon + 1) b) of
             None \<Rightarrow> None
           | Some p \<Rightarrow> Some (add_backend (take colon b) (word_of_int p) 1 s)))"

function add_backends_arg :: "string \<Rightarrow> lb_state \<Rightarrow> lb_state option" where
  "add_backends_arg bs s =
     (case find_char (CHR '','') bs of
        None \<Rightarrow> add_backend_arg bs s
      | Some pos \<Rightarrow>
          (case add_backend_arg (take pos bs) s of
             None \<Rightarrow> None
           | Some s1 \<Rightarrow> add_backends_arg (drop (pos + 1) bs) s1))"
  by pat_completeness auto
termination by (relation "measure (length \<circ> fst)") (auto dest: find_char_Some)

declare add_backends_arg.simps [simp del]

text \<open>The arguments for the port, the host and the backends, from position \<open>i\<close> on.\<close>

definition listen_arguments :: "nat \<Rightarrow> string list \<Rightarrow> lb_state \<Rightarrow> (string \<times> u16 \<times> lb_state) option" where
  "listen_arguments i argv s =
     (case (if length argv \<ge> i + 1 then map_option word_of_int (stoi (argv ! i)) else Some 8080) of
        None \<Rightarrow> None
      | Some p \<Rightarrow>
          let h = (if length argv \<ge> i + 2 then argv ! (i + 1) else ''0.0.0.0'')
          in map_option (\<lambda>s1. (h, p, s1)) (if length argv \<ge> i + 3 then add_backends_arg (argv ! (i + 2)) s else Some s))"

section \<open>Loggers\<close>

definition configured_level :: "string \<Rightarrow> LogLevel" where
  "configured_level l =
     (if l = ''debug'' \<or> l = ''DEBUG'' then DEBUG
      else if l = ''warn'' \<or> l = ''WARN'' then WARN
      else if l = ''error'' \<or> l = ''ERROR'' then ERROR
      else INFO)"

definition configure_logger :: "bool \<Rightarrow> Config \<Rightarrow> Logger \<Rightarrow> Logger" where
  "configure_logger opens cfg g =
     (let g1 = (if log_file cfg \<noteq> [] then set_output_file opens (log_file cfg) g else g);
          g2 = set_level (configured_level (log_level cfg)) g1
      in g2\<lparr>logger_queue := log_start (logger_queue g2)\<rparr>)"

definition configure_access_logger :: "bool \<Rightarrow> Config \<Rightarrow> AccessLogger \<Rightarrow> AccessLogger" where
  "configure_access_logger opens cfg g =
     (if access_log_enabled cfg then
        let g1 = access_set_enabled True g;
            g2 = (if access_log_file cfg \<noteq> [] then access_set_output_file (access_log_file cfg) g1 else g1)
        in access_start opens g2
      else g)"

section \<open>Starting\<close>

text \<open>The configuration manager after the command line was read, and whether a file was loaded.\<close>

definition load_config_argument :: "'y yaml_api \<Rightarrow> 'y file_view \<Rightarrow> string list \<Rightarrow> bool \<times> ConfigManager" where
  "load_config_argument Y fv argv =
     (if length argv \<ge> 2 then
        (case load_from_file Y fv (argv ! 1) new_config_manager of
           (False, m) \<Rightarrow> (False, m)
         | (True, m) \<Rightarrow> (True, start_reload_watcher fv m))
      else (False, new_config_manager))"

text \<open>\<open>set_config_manager\<close> and \<open>initialize_from_config\<close> install the same callback, \<^const>\<open>periodic\<close>, every
  second. The clock is read when a callback is installed.\<close>

definition set_config_manager :: "ConfigManager \<Rightarrow> time \<Rightarrow> EpollReactor \<times> lb_state \<Rightarrow> EpollReactor \<times> lb_state" where
  "set_config_manager m now rs = (set_periodic_callback 1000 now (fst rs), (snd rs)\<lparr>config_manager := Some m\<rparr>)"

definition start_configured ::
    "kernel \<Rightarrow> Config \<Rightarrow> time \<Rightarrow> EpollReactor \<times> lb_state \<Rightarrow> bool \<times> EpollReactor \<times> lb_state" where
  "start_configured k cfg now rs =
     (let (ok, s) = initialize_from_config k cfg (snd rs)
      in (ok, if ok then set_periodic_callback 1000 now (fst rs) else fst rs, s))"

text \<open>The reactor and the balancer \<open>main\<close> runs: \<open>None\<close> for an uncaught exception, a negative flag for exit
  status 1. The three values of \<open>clock\<close> are those of the construction and of the two places that install the callback.\<close>

definition start_load_balancer ::
    "kernel \<Rightarrow> 'y yaml_api \<Rightarrow> 'y file_view \<Rightarrow> string list \<Rightarrow> time \<times> time \<times> time \<Rightarrow> lb_state \<Rightarrow>
     (bool \<times> EpollReactor \<times> lb_state) option" where
  "start_load_balancer k Y fv argv clock s =
     (let (constructed, managed, configured) = clock;
          (loaded, m) = load_config_argument Y fv argv;
          path_arg = (if length argv \<ge> 2 then argv ! 1 else []);
          (r1, s1) = (if path_arg \<noteq> [] then set_config_manager m managed (new_reactor constructed, s) else (new_reactor constructed, s))
      in if loaded then Some (start_configured k (config m) configured (r1, s1))
         else case listen_arguments (if length argv \<ge> 2 \<and> path_arg \<noteq> [] then 2 else 1) argv s1 of
           None \<Rightarrow> None
         | Some (h, p, s2) \<Rightarrow> Some (let (ok, s3) = initialize k h p s2 in (ok, r1, s3)))"

text \<open>The arguments are read from the second one on only when the first is the empty string, which
  \<open>std::stoi\<close> rejects: that reading of the command line never succeeds, and a program without
  arguments runs with no periodic callback.\<close>

lemma plain_arguments_dead:
  assumes "fst (load_config_argument Y fv argv) = False" and "length argv \<ge> 2" and "argv ! 1 = []"
  shows "start_load_balancer k Y fv argv clock s = None"
proof -
  have "stoi [] = None" by (simp add: stoi_def split_sign_def)
  then show ?thesis using assms
    by (cases clock; cases "load_config_argument Y fv argv") (simp add: start_load_balancer_def listen_arguments_def)
qed

lemma no_arguments_no_periodic:
  assumes "length argv < 2" and "start_load_balancer k Y fv argv clock s = Some (ok, r, s')"
  shows "periodic_interval_ms r = 0" and "run_periodic k Y t (r, s') = Some (r, s')"
proof -
  show r: "periodic_interval_ms r = 0"
    using assms by (auto simp: start_load_balancer_def load_config_argument_def new_reactor_def split: prod.splits option.splits if_splits)
  show "run_periodic k Y t (r, s') = Some (r, s')" using r by (simp add: run_periodic_def)
qed

lemma configured_start_periodic:
  assumes "start_load_balancer k Y fv argv clock s = Some (True, r, s')" and "length argv \<ge> 2" and "argv ! 1 \<noteq> []"
  shows "periodic_interval_ms r = 1000"
  using assms
  by (auto simp: start_load_balancer_def start_configured_def set_config_manager_def set_periodic_callback_def Let_def
    split: prod.splits option.splits if_splits)

definition start_metrics_server :: "start_answers \<Rightarrow> Config \<Rightarrow> bool \<Rightarrow> MetricsServer option" where
  "start_metrics_server a cfg pool =
     (if metrics_enabled cfg then
        let m = new_metrics_server (metrics_port cfg)
        in Some (metrics_start a (if pool then ms_set_thread_pool True m else m))
      else None)"

text \<open>One turn of the thread that watches for a signal: it stops after it has passed the request on.\<close>

definition watch_signal :: "kernel \<Rightarrow> bool \<Rightarrow> lb_state \<Rightarrow> (bool \<times> lb_state) option" where
  "watch_signal k g_shutdown s =
     (if g_shutdown then map_option (\<lambda>s1. (False, s1)) (shutdown_gracefully k s) else Some (True, s))"

section \<open>The backends argument, read back\<close>

definition print_backend :: "string \<times> u16 \<Rightarrow> string" where
  "print_backend b = fst b @ '':'' @ nat_to_string (unat (snd b))"

fun print_backends :: "(string \<times> u16) list \<Rightarrow> string" where
  "print_backends [] = []"
| "print_backends [b] = print_backend b"
| "print_backends (b # bs) = print_backend b @ '','' @ print_backends bs"

definition plain_host :: "string \<Rightarrow> bool" where
  "plain_host h \<longleftrightarrow> CHR '':'' \<notin> set h \<and> CHR '','' \<notin> set h"

lemma stoi_port: "stoi (nat_to_string (unat p)) = Some (int (unat p))" for p :: u16
proof (rule stoi_nat_to_string)
  have "unat p < 2 ^ 16" using unsigned_less [of p] by simp
  then show "unat p < 2 ^ 31" by simp
qed

lemma add_backend_arg_print:
  assumes "plain_host (fst b)"
  shows "add_backend_arg (print_backend b) s = Some (add_backend (fst b) (snd b) 1 s)"
proof -
  have "find_char (CHR '':'') (print_backend b) = Some (length (fst b))"
    using assms find_char_append_first [of "CHR '':''" "fst b"] by (simp add: print_backend_def plain_host_def)
  then show ?thesis by (simp add: add_backend_arg_def print_backend_def stoi_port)
qed

lemma comma_not_printed: "plain_host (fst b) \<Longrightarrow> CHR '','' \<notin> set (print_backend b)"
  using nat_to_string_digits [of "unat (snd b)"] by (auto simp: print_backend_def plain_host_def is_digit_def)

text \<open>C34: the backends argument reads back: for any list of hosts without colon or comma and 16-bit
  ports, printed as \<open>host:port\<close> with commas between them, \<open>main\<close> adds exactly these backends, in
  this order and with weight 1.\<close>

theorem backends_argument_roundtrip:
  assumes "\<forall>b \<in> set bs. plain_host (fst b)" and "bs \<noteq> []"
  shows "add_backends_arg (print_backends bs) s = Some (fold (\<lambda>b. add_backend (fst b) (snd b) 1) bs s)"
  using assms
proof (induction bs arbitrary: s rule: print_backends.induct)
  case (2 b)
  then have "find_char (CHR '','') (print_backend b) = None" using comma_not_printed by (simp add: find_char_None_iff)
  then show ?case using 2 by (simp add: add_backends_arg.simps [of "print_backend b"] add_backend_arg_print)
next
  case (3 b c bs)
  let ?rest = "print_backends (c # bs)"
  have b: "plain_host (fst b)" using 3(2) by simp
  then have "find_char (CHR '','') (print_backend b @ '','' @ ?rest) = Some (length (print_backend b))"
    using find_char_append_first [OF comma_not_printed, of b ?rest] by simp
  then have "add_backends_arg (print_backend b @ '','' @ ?rest) s = add_backends_arg ?rest (add_backend (fst b) (snd b) 1 s)"
    using b by (subst add_backends_arg.simps) (simp add: add_backend_arg_print)
  then show ?case using 3 by simp
qed simp

theorem backends_argument_roundtrip_witness:
  "add_backends_arg ''10.0.0.1:8080,10.0.0.2:8081'' new_load_balancer =
     Some (add_backend ''10.0.0.2'' 8081 1 (add_backend ''10.0.0.1'' 8080 1 new_load_balancer))"
proof -
  let ?bs = "[(''10.0.0.1'', 8080), (''10.0.0.2'', 8081)] :: (string \<times> u16) list"
  have "print_backends ?bs = ''10.0.0.1:8080,10.0.0.2:8081''"
    by (simp add: print_backend_def nat_to_string.simps digit_char_def char_of_def bit_0)
  moreover have "\<forall>b \<in> set ?bs. plain_host (fst b)" by (simp add: plain_host_def)
  ultimately show ?thesis using backends_argument_roundtrip [of ?bs new_load_balancer] by simp
qed

end
