(* ===== verification/Load_Generator.thy ===== *)
theory Load_Generator
  imports Http_Request Double_Quotient
begin

text \<open>
  \<^verbatim>\<open>bench/load_generator.cpp\<close>: the benchmark client. Its worker threads connect, send one request,
  wait for an answer and count it, until the main thread clears a flag, joins them and prints
  what they counted. The threads are a transition system whose steps are single accesses to the shared
  counters. Whether \<open>inet_pton\<close> accepts a host is an argument; the output of the progress line is left out.
\<close>

section \<open>Data\<close>

record Stats =
  requests :: u64
  successful :: u64
  failed :: u64
  connect_errors :: u64
  latencies_us :: "u64 list"

record Config =
  gen_host :: string
  gen_port :: int
  gen_connections :: int
  gen_duration_seconds :: int
  http_mode :: bool

definition new_stats :: Stats where
  "new_stats = \<lparr>requests = 0, successful = 0, failed = 0, connect_errors = 0, latencies_us = []\<rparr>"

definition record_latency :: "u64 \<Rightarrow> Stats \<Rightarrow> Stats" where
  "record_latency us st = st\<lparr>latencies_us := latencies_us st @ [us]\<rparr>"

text \<open>What the system answers to a worker: the new descriptor, whether the address can be connected to, the results
  of \<open>send\<close> and \<open>recv\<close>, and the clock before and after the exchange.\<close>

record net_answers =
  a_socket :: fd
  a_connect :: "string \<Rightarrow> u16 \<Rightarrow> bool"
  a_send :: "bytes \<Rightarrow> int"
  a_received :: int
  a_start :: time
  a_end :: time

section \<open>One exchange\<close>

text \<open>\<open>htons\<close> takes the low 16 bits of the port.\<close>

definition connect_to_server :: "(string \<Rightarrow> bool) \<Rightarrow> net_answers \<Rightarrow> string \<Rightarrow> int \<Rightarrow> fd set \<Rightarrow> fd \<times> fd set" where
  "connect_to_server pton a h p fds =
     (let f = a_socket a in
      if f < 0 then (- 1, fds)
      else if \<not> pton h then (- 1, insert f fds - {f})
      else if \<not> a_connect a h (word_of_int p) then (- 1, insert f fds - {f})
      else (f, insert f fds))"

definition http_request :: "string \<Rightarrow> int \<Rightarrow> bytes" where
  "http_request h p =
     ''GET / HTTP/1.1'' @ crlf @ ''Host: '' @ h @ '':'' @ int_to_string p @ crlf @ ''Connection: close'' @ crlf @ crlf"

definition send_http_request :: "net_answers \<Rightarrow> string \<Rightarrow> int \<Rightarrow> bool" where
  "send_http_request a h p \<longleftrightarrow> a_send a (http_request h p) = int (length (http_request h p))"

definition tcp_data :: bytes where
  "tcp_data = ''PING'' @ [LF]"

definition send_tcp_data :: "net_answers \<Rightarrow> bool" where
  "send_tcp_data a \<longleftrightarrow> a_send a tcp_data = int (length tcp_data)"

definition receive_response :: "net_answers \<Rightarrow> bool" where
  "receive_response a \<longleftrightarrow> a_received a > 0"

definition exchange :: "Config \<Rightarrow> net_answers \<Rightarrow> bool" where
  "exchange cfg a =
     (if http_mode cfg then if send_http_request a (gen_host cfg) (gen_port cfg) then receive_response a else False
      else if send_tcp_data a then receive_response a else False)"

section \<open>The threads\<close>

text \<open>Where a worker is in its loop.\<close>

datatype worker_pc =
    TestRunning
  | Connecting
  | ConnectFailed
  | Exchanging fd
  | CountRequest fd bool u64
  | CountResult fd bool u64
  | RecordLatency fd u64
  | Closing fd
  | Returned

record gen_shared =
  stats :: Stats
  running :: bool
  fds :: "fd set"

fun worker_step :: "(string \<Rightarrow> bool) \<Rightarrow> Config \<Rightarrow> net_answers \<Rightarrow> worker_pc \<Rightarrow> gen_shared \<Rightarrow> worker_pc \<times> gen_shared" where
  "worker_step pton cfg a TestRunning g = (if running g then Connecting else Returned, g)"
| "worker_step pton cfg a Connecting g =
     (let (f, opened) = connect_to_server pton a (gen_host cfg) (gen_port cfg) (fds g)
      in (if f < 0 then ConnectFailed else Exchanging f, g\<lparr>fds := opened\<rparr>))"
| "worker_step pton cfg a ConnectFailed g =
     (TestRunning, g\<lparr>stats := (stats g)\<lparr>connect_errors := connect_errors (stats g) + 1\<rparr>\<rparr>)"
| "worker_step pton cfg a (Exchanging f) g =
     (CountRequest f (exchange cfg a) (word_of_int (duration_cast_us (a_end a - a_start a))), g)"
| "worker_step pton cfg a (CountRequest f ok us) g =
     (CountResult f ok us, g\<lparr>stats := (stats g)\<lparr>requests := requests (stats g) + 1\<rparr>\<rparr>)"
| "worker_step pton cfg a (CountResult f ok us) g =
     (if ok then (RecordLatency f us, g\<lparr>stats := (stats g)\<lparr>successful := successful (stats g) + 1\<rparr>\<rparr>)
      else (Closing f, g\<lparr>stats := (stats g)\<lparr>failed := failed (stats g) + 1\<rparr>\<rparr>))"
| "worker_step pton cfg a (RecordLatency f us) g = (Closing f, g\<lparr>stats := record_latency us (stats g)\<rparr>)"
| "worker_step pton cfg a (Closing f) g = (TestRunning, g\<lparr>fds := fds g - {f}\<rparr>)"
| "worker_step pton cfg a Returned g = (Returned, g)"

text \<open>Where the main thread is, and its steps; \<open>None\<close> while it waits in \<open>join\<close>.\<close>

datatype main_pc = Spawning nat | Sleeping nat | Stopping | Joining nat | Printing

record gen_sys =
  shared :: gen_shared
  workers :: "worker_pc list"
  main_at :: main_pc

fun main_step :: "Config \<Rightarrow> main_pc \<Rightarrow> gen_sys \<Rightarrow> gen_sys option" where
  "main_step cfg (Spawning i) s =
     Some (if int i < gen_connections cfg then s\<lparr>workers := workers s @ [TestRunning], main_at := Spawning (i + 1)\<rparr>
           else s\<lparr>main_at := Sleeping 0\<rparr>)"
| "main_step cfg (Sleeping i) s =
     Some (if int i < gen_duration_seconds cfg \<and> running (shared s) then s\<lparr>main_at := Sleeping (i + 1)\<rparr>
           else s\<lparr>main_at := Stopping\<rparr>)"
| "main_step cfg Stopping s = Some (s\<lparr>shared := (shared s)\<lparr>running := False\<rparr>, main_at := Joining 0\<rparr>)"
| "main_step cfg (Joining i) s =
     (if i < length (workers s) then
        if workers s ! i = Returned then Some (s\<lparr>main_at := Joining (i + 1)\<rparr>) else None
      else Some (s\<lparr>main_at := Printing\<rparr>))"
| "main_step cfg Printing s = None"

definition gen_start :: "fd set \<Rightarrow> gen_sys" where
  "gen_start others =
     \<lparr>shared = \<lparr>stats = new_stats, running = True, fds = others\<rparr>, workers = [], main_at = Spawning 0\<rparr>"

text \<open>A new descriptor is one that is not open.\<close>

inductive gen_step :: "(string \<Rightarrow> bool) \<Rightarrow> Config \<Rightarrow> gen_sys \<Rightarrow> gen_sys \<Rightarrow> bool" for pton cfg where
  worker_moves: "i < length (workers s) \<Longrightarrow> a_socket a \<notin> fds (shared s) \<Longrightarrow>
    worker_step pton cfg a (workers s ! i) (shared s) = (pc, g) \<Longrightarrow>
    gen_step pton cfg s (s\<lparr>shared := g, workers := (workers s)[i := pc]\<rparr>)"
| main_moves: "main_step cfg (main_at s) s = Some s' \<Longrightarrow> gen_step pton cfg s s'"

section \<open>The results\<close>

text \<open>The rank is computed in double precision: the product is exact, the quotient is rounded and then
  truncated. The percentile is in microseconds.\<close>

definition percentile_index :: "nat \<Rightarrow> nat \<Rightarrow> nat" where
  "percentile_index p n = double_quotient (p * n) 100 div 2 ^ 84"

definition percentile :: "nat \<Rightarrow> u64 list \<Rightarrow> u64" where
  "percentile p sorted_latencies =
     sorted_latencies ! min (percentile_index p (length sorted_latencies)) (length sorted_latencies - 1)"

text \<open>How the \<open>double\<close> expressions of the report print: \<open>elapsed_seconds\<close>, \<open>100.0 * a / b\<close>, \<open>total / elapsed_seconds\<close> cut to an
  \<open>int\<close>, \<open>us / 1000.0\<close> and the mean of the latencies in milliseconds.\<close>

record number_format =
  nf_seconds :: "int \<Rightarrow> string"
  nf_percent :: "u64 \<Rightarrow> u64 \<Rightarrow> string"
  nf_rate :: "u64 \<Rightarrow> int \<Rightarrow> string"
  nf_ms :: "u64 \<Rightarrow> string"
  nf_mean_ms :: "u64 list \<Rightarrow> string"

definition count_to_string :: "u64 \<Rightarrow> string" where
  "count_to_string n = nat_to_string (unat n)"

definition print_latencies :: "number_format \<Rightarrow> u64 list \<Rightarrow> string" where
  "print_latencies nf latencies =
     (if latencies = [] then []
      else let l = sort latencies in
        [LF] @ ''Latency (ms):'' @ [LF] @
        ''  avg:    '' @ nf_mean_ms nf l @ [LF] @
        ''  p50:    '' @ nf_ms nf (percentile 50 l) @ [LF] @
        ''  p95:    '' @ nf_ms nf (percentile 95 l) @ [LF] @
        ''  p99:    '' @ nf_ms nf (percentile 99 l) @ [LF] @
        ''  max:    '' @ nf_ms nf (last l) @ [LF])"

definition print_results :: "number_format \<Rightarrow> Config \<Rightarrow> Stats \<Rightarrow> int \<Rightarrow> string" where
  "print_results nf cfg st elapsed_ms =
     (let total = requests st; percent = (\<lambda>n. if total > 0 then nf_percent nf n total else ''0.00'') in
      [LF] @ ''--- Results ---'' @ [LF] @
      ''Duration:        '' @ nf_seconds nf elapsed_ms @ ''s'' @ [LF] @
      ''Connections:     '' @ int_to_string (gen_connections cfg) @ [LF] @
      ''Total requests:  '' @ count_to_string total @ [LF] @
      ''Successful:      '' @ count_to_string (successful st) @ '' ('' @ percent (successful st) @ ''%)'' @ [LF] @
      ''Failed:          '' @ count_to_string (failed st) @ '' ('' @ percent (failed st) @ ''%)'' @ [LF] @
      ''Throughput:      '' @ nf_rate nf total elapsed_ms @ '' req/s'' @ [LF] @
      print_latencies nf (latencies_us st) @
      [LF] @ ''Connect errors:  '' @ count_to_string (connect_errors st) @ [LF])"

section \<open>The command line\<close>

text \<open>\<open>None\<close> is an exception of \<open>std::stoi\<close> or of \<open>reserve\<close> that nobody catches, \<open>Usage\<close> the exit with status 1.\<close>

datatype command_line = Usage | Run Config

fun parse_options :: "string list \<Rightarrow> Config \<Rightarrow> command_line option" where
  "parse_options [] cfg = Some (Run cfg)"
| "parse_options (arg # rest) cfg =
     (if (arg = ''-c'' \<or> arg = ''--connections'') \<and> rest \<noteq> [] then
        case stoi (hd rest) of
          None \<Rightarrow> None
        | Some n \<Rightarrow> parse_options (tl rest) (cfg\<lparr>gen_connections := n\<rparr>)
      else if (arg = ''-d'' \<or> arg = ''--duration'') \<and> rest \<noteq> [] then
        case stoi (hd rest) of
          None \<Rightarrow> None
        | Some n \<Rightarrow> parse_options (tl rest) (cfg\<lparr>gen_duration_seconds := n\<rparr>)
      else if arg = ''--http'' then parse_options rest (cfg\<lparr>http_mode := True\<rparr>)
      else if arg = ''--tcp'' then parse_options rest (cfg\<lparr>http_mode := False\<rparr>)
      else Some Usage)"

definition parse_arguments :: "string list \<Rightarrow> command_line option" where
  "parse_arguments argv =
     (if length argv < 3 then Some Usage
      else case stoi (argv ! 2) of
        None \<Rightarrow> None
      | Some p \<Rightarrow> parse_options (drop 3 argv)
          \<lparr>gen_host = argv ! 1, gen_port = p, gen_connections = 100, gen_duration_seconds = 30, http_mode = True\<rparr>)"

text \<open>\<open>workers.reserve\<close> refuses a negative number of connections.\<close>

definition generator_start :: "string list \<Rightarrow> fd set \<Rightarrow> (Config \<times> gen_sys) option option" where
  "generator_start argv others =
     (case parse_arguments argv of
        None \<Rightarrow> None
      | Some Usage \<Rightarrow> Some None
      | Some (Run cfg) \<Rightarrow> if gen_connections cfg < 0 then None else Some (Some (cfg, gen_start others)))"

section \<open>The request\<close>

text \<open>The request is one that the parser of the load balancer reads back.\<close>

definition generated_request :: "string \<Rightarrow> int \<Rightarrow> HttpRequest" where
  "generated_request h p = new_request\<lparr>http_method := GET, path := ''/'', req_version := HTTP_1_1,
     req_headers := [(''Host'', h @ '':'' @ int_to_string p), (''Connection'', ''close'')]\<rparr>"

lemma int_to_string_plain:
  assumes "c \<in> set (int_to_string p)"
  shows "\<not> isspace c"
proof -
  have "c = CHR ''-'' \<or> is_digit c"
    using assms nat_to_string_digits by (auto simp: int_to_string_def split: if_splits)
  then show ?thesis by (auto simp: is_digit_def isspace_def)
qed

lemma generated_request_printed: "serialize_http_request (generated_request h p) = http_request h p"
  by (simp add: serialize_http_request_def generated_request_def new_request_def http_request_def header_line_def)

lemma generated_request_ok:
  assumes "h \<noteq> []" and "\<forall>c \<in> set h. \<not> isspace c"
  shows "request_ok (generated_request h p)"
proof -
  let ?v = "h @ '':'' @ int_to_string p"
  have v: "\<not> isspace c" if "c \<in> set ?v" for c
  proof -
    have "\<not> isspace CHR '':''" by (simp add: isspace_def)
    with that assms(2) int_to_string_plain show ?thesis by (metis Un_iff empty_iff insert_iff list.set(1,2) set_append)
  qed
  have ends: "hd ?v \<in> set ?v" "last ?v \<in> set ?v" by (rule hd_in_set; simp) (rule last_in_set; simp)
  have blank: "\<not> is_blank c" "\<not> is_eol c" if "\<not> isspace c" for c
    using that by (auto simp: isspace_def is_blank_def is_eol_def TAB_def CR_def LF_def)
  have names: "\<not> is_content_length ''Host''" "\<not> is_content_length ''Connection''"
    by (simp_all add: is_content_length_def lower_def tolower_def)
  have plain: "\<not> is_eol c" "c \<noteq> CHR '':''" if "c \<in> set ''Host'' \<union> set ''Connection'' \<union> set ''close''" for c
    using that by (auto simp: is_eol_def CR_def LF_def)
  have "header_ok (''Host'', ?v)"
    unfolding header_ok_def fst_conv snd_conv
  proof (intro conjI)
    show "\<forall>c \<in> set ''Host'' \<union> set ?v. \<not> is_eol c" using v blank(2) plain(1) by blast
    show "CHR '':'' \<notin> set ''Host''" using plain(2) by blast
    show "?v = [] \<or> \<not> is_blank (hd ?v) \<and> \<not> is_blank (last ?v)" using v ends blank(1) by blast
  qed (use names in blast)
  moreover have "header_ok (''Connection'', ''close'')"
    unfolding header_ok_def fst_conv snd_conv using names plain by (simp add: is_blank_def TAB_def)
  moreover have "declared_length (req_headers (generated_request h p)) 0 = 0"
    by (simp add: declared_length_def generated_request_def names)
  ultimately show ?thesis
    by (simp add: request_ok_def generated_request_def new_request_def word_ok_def isspace_def)
qed

lemma load_generator_request_accepted:
  assumes "h \<noteq> []" and "\<forall>c \<in> set h. \<not> isspace c"
  obtains q where "parse_request (http_request h p @ rest) new_request_parser = (True, length (http_request h p), q)"
    and "message q = generated_request h p" and "pstate q = COMPLETE"
  using parse_printed_complete [OF generated_request_ok [OF assms, of p], of rest] that
  by (auto simp: generated_request_printed)

section \<open>Counting\<close>

text \<open>What the shared counters still miss of a worker, and the descriptor it holds.\<close>

fun uncounted :: "worker_pc \<Rightarrow> u64" where
  "uncounted (CountResult f ok us) = 1"
| "uncounted _ = 0"

fun unrecorded :: "worker_pc \<Rightarrow> u64" where
  "unrecorded (RecordLatency f us) = 1"
| "unrecorded _ = 0"

fun held :: "worker_pc \<Rightarrow> fd list" where
  "held (Exchanging f) = [f]"
| "held (CountRequest f ok us) = [f]"
| "held (CountResult f ok us) = [f]"
| "held (RecordLatency f us) = [f]"
| "held (Closing f) = [f]"
| "held _ = []"

definition counts_ok :: "gen_sys \<Rightarrow> bool" where
  "counts_ok s \<longleftrightarrow> (let st = stats (shared s) in
     requests st = successful st + failed st + sum_list (map uncounted (workers s)) \<and>
     successful st = of_nat (length (latencies_us st)) + sum_list (map unrecorded (workers s)))"

definition fds_held :: "fd set \<Rightarrow> gen_sys \<Rightarrow> bool" where
  "fds_held others s \<longleftrightarrow> (let hs = concat (map held (workers s)) in
     distinct hs \<and> set hs \<inter> others = {} \<and> fds (shared s) = others \<union> set hs)"

definition joined_ok :: "gen_sys \<Rightarrow> bool" where
  "joined_ok s \<longleftrightarrow> (case main_at s of
     Joining i \<Rightarrow> i \<le> length (workers s) \<and> (\<forall>j < i. workers s ! j = Returned)
   | Printing \<Rightarrow> set (workers s) \<subseteq> {Returned}
   | _ \<Rightarrow> True)"

lemma sum_list_word_update:
  fixes f :: "'a \<Rightarrow> 'w::len word"
  shows "i < length xs \<Longrightarrow> sum_list (map f (xs[i := x])) = sum_list (map f xs) - f (xs ! i) + f x"
  by (induction xs arbitrary: i) (auto simp: algebra_simps split: nat.splits)

lemma worker_counts:
  assumes "worker_step pton cfg a pc g = (pc', g')"
  shows "requests (stats g') - requests (stats g) =
      (successful (stats g') - successful (stats g)) + (failed (stats g') - failed (stats g)) + (uncounted pc' - uncounted pc)"
    and "successful (stats g') - successful (stats g) =
      of_nat (length (latencies_us (stats g'))) - of_nat (length (latencies_us (stats g))) + (unrecorded pc' - unrecorded pc)"
  using assms by (cases pc; auto simp: record_latency_def Let_def split: if_splits prod.splits)+

lemma counts_ok_step:
  assumes "gen_step pton cfg s s'" and "counts_ok s"
  shows "counts_ok s'"
  using assms
proof (induction rule: gen_step.induct)
  case (worker_moves i s a pc g)
  note w = worker_counts [OF worker_moves(3)]
  show ?case
    using worker_moves(4) w by (simp add: counts_ok_def Let_def sum_list_word_update [OF worker_moves(1)] algebra_simps)
next
  case (main_moves s s')
  then show ?case by (cases "main_at s") (auto simp: counts_ok_def split: if_splits)
qed

lemma worker_descriptors:
  assumes "worker_step pton cfg a pc g = (pc', g')" and "a_socket a \<notin> fds g"
  shows "held pc' = held pc \<and> fds g' = fds g \<or>
    held pc = [] \<and> held pc' = [a_socket a] \<and> fds g' = insert (a_socket a) (fds g) \<or>
    held pc' = [] \<and> fds g' = fds g - set (held pc)"
  using assms by (cases pc) (auto simp: connect_to_server_def Let_def split: if_splits)

lemma fds_held_step:
  assumes "gen_step pton cfg s s'" and "fds_held others s"
  shows "fds_held others s'"
  using assms
proof (induction rule: gen_step.induct)
  case (worker_moves i s a pc g)
  define A B where "A = concat (map held (take i (workers s)))" and "B = concat (map held (drop (Suc i) (workers s)))"
  have now: "concat (map held (workers s)) = A @ held (workers s ! i) @ B"
    using worker_moves(1) by (subst id_take_nth_drop [of i]) (simp_all add: A_def B_def)
  have after: "concat (map held ((workers s)[i := pc])) = A @ held pc @ B"
    using worker_moves(1) by (simp add: upd_conv_take_nth_drop A_def B_def)
  have ok: "distinct (A @ held (workers s ! i) @ B)" "set (A @ held (workers s ! i) @ B) \<inter> others = {}"
    "fds (shared s) = others \<union> set (A @ held (workers s ! i) @ B)"
    using worker_moves(4) by (simp_all only: fds_held_def Let_def now)
  from worker_descriptors [OF worker_moves(3,2)]
  have "distinct (A @ held pc @ B) \<and> set (A @ held pc @ B) \<inter> others = {} \<and> fds g = others \<union> set (A @ held pc @ B)"
  proof (elim disjE conjE)
    assume "held (workers s ! i) = []" "held pc = [a_socket a]" "fds g = insert (a_socket a) (fds (shared s))"
    with ok worker_moves(2) show ?thesis by auto
  next
    assume "held pc = []" "fds g = fds (shared s) - set (held (workers s ! i))"
    with ok show ?thesis by auto
  qed (use ok in simp)
  then show ?case by (simp add: fds_held_def Let_def after)
next
  case (main_moves s s')
  then have "concat (map held (workers s')) = concat (map held (workers s)) \<and> fds (shared s') = fds (shared s)"
    by (cases "main_at s") (auto split: if_splits)
  then show ?case using main_moves(2) by (simp only: fds_held_def)
qed

lemma joined_ok_step:
  assumes "gen_step pton cfg s s'" and "joined_ok s"
  shows "joined_ok s'"
  using assms
proof (induction rule: gen_step.induct)
  case (worker_moves i s a pc g)
  have "workers s ! i = Returned \<Longrightarrow> pc = Returned" using worker_moves(3) by simp
  then show ?case using worker_moves(1,4)
    by (auto simp: joined_ok_def nth_list_update set_update_subset_insert subset_iff in_set_conv_nth split: main_pc.splits)
next
  case (main_moves s s')
  then show ?case by (cases "main_at s")
    (auto simp: joined_ok_def less_Suc_eq in_set_conv_nth split: if_splits)
qed

text \<open>Once the flag is cleared a worker returns within seven steps of its own, whatever the system answers.\<close>

fun worker_run :: "(string \<Rightarrow> bool) \<Rightarrow> Config \<Rightarrow> net_answers list \<Rightarrow> worker_pc \<times> gen_shared \<Rightarrow> worker_pc \<times> gen_shared" where
  "worker_run pton cfg [] pg = pg"
| "worker_run pton cfg (a # as) pg = worker_run pton cfg as (worker_step pton cfg a (fst pg) (snd pg))"

fun steps_left :: "worker_pc \<Rightarrow> nat" where
  "steps_left Connecting = 7"
| "steps_left (Exchanging f) = 6"
| "steps_left (CountRequest f ok us) = 5"
| "steps_left (CountResult f ok us) = 4"
| "steps_left (RecordLatency f us) = 3"
| "steps_left (Closing f) = 2"
| "steps_left ConnectFailed = 2"
| "steps_left TestRunning = 1"
| "steps_left Returned = 0"

lemma worker_step_stopped:
  assumes "\<not> running g"
  shows "\<not> running (snd (worker_step pton cfg a pc g))"
    and "steps_left (fst (worker_step pton cfg a pc g)) \<le> steps_left pc - 1"
  using assms by (cases pc; simp add: Let_def split: prod.splits)+

lemma worker_returns:
  "\<not> running g \<Longrightarrow> steps_left pc \<le> length as \<Longrightarrow> fst (worker_run pton cfg as (pc, g)) = Returned"
proof (induction as arbitrary: pc g)
  case Nil
  then show ?case by (cases pc) simp_all
next
  case (Cons a as)
  obtain pc' g' where w: "worker_step pton cfg a pc g = (pc', g')" by fastforce
  with Cons worker_step_stopped [OF Cons.prems(1), of pton cfg a pc] show ?case by simp
qed

section \<open>Percentiles\<close>

lemma percentile_index_exact:
  assumes "p \<le> 100" and "p * n < 2 ^ 32"
  shows "percentile_index p n = p * n div 100"
  unfolding percentile_index_def by (rule double_quotient_floor) (use assms in simp_all)

lemma sorted_rank:
  assumes "sorted xs" and "i < length xs"
  shows "i < length (filter (\<lambda>x. x \<le> xs ! i) xs)" and "length xs - i \<le> length (filter (\<lambda>x. xs ! i \<le> x) xs)"
proof -
  have t: "\<forall>x \<in> set (take (Suc i) xs). x \<le> xs ! i" using assms by (auto simp: in_set_conv_nth less_Suc_eq_le intro!: sorted_nth_mono)
  have "length (filter (\<lambda>x. x \<le> xs ! i) xs) \<ge> length (filter (\<lambda>x. x \<le> xs ! i) (take (Suc i) xs))"
    by (metis append_take_drop_id filter_append le_add1 length_append)
  then show "i < length (filter (\<lambda>x. x \<le> xs ! i) xs)" using t assms(2) by (simp add: filter_True)
  have d: "\<forall>x \<in> set (drop i xs). xs ! i \<le> x" using assms by (auto simp: in_set_conv_nth intro!: sorted_nth_mono)
  have "length (filter (\<lambda>x. xs ! i \<le> x) xs) \<ge> length (filter (\<lambda>x. xs ! i \<le> x) (drop i xs))"
    by (metis append_take_drop_id filter_append le_add2 length_append)
  then show "length xs - i \<le> length (filter (\<lambda>x. xs ! i \<le> x) xs)" using d by (simp add: filter_True)
qed

text \<open>More than \<open>p\<close> percent of the latencies are at most the reported percentile, and at least
  \<open>100 - p\<close> percent are at least as long.\<close>

lemma percentile_rank:
  assumes "latencies \<noteq> []" and "p < 100" and "p * length latencies < 2 ^ 32"
  shows "p * length latencies < 100 * length (filter (\<lambda>x. x \<le> percentile p (sort latencies)) latencies)"
    and "(100 - p) * length latencies \<le> 100 * length (filter (\<lambda>x. percentile p (sort latencies) \<le> x) latencies)"
proof -
  let ?l = "sort latencies" and ?n = "length latencies" and ?i = "p * length latencies div 100"
  have i: "?i < ?n" using assms(1,2) by (simp add: div_less_iff_less_mult)
  have v: "percentile p ?l = ?l ! ?i" using percentile_index_exact [of p ?n] assms(2,3) i by (simp add: percentile_def)
  have len: "length (filter P ?l) = length (filter P latencies)" for P
    by (simp add: filter_sort)
  note r = sorted_rank [of ?l ?i]
  have "?i < length (filter (\<lambda>x. x \<le> ?l ! ?i) latencies)" using r(1) i by (simp add: len)
  then show "p * ?n < 100 * length (filter (\<lambda>x. x \<le> percentile p ?l) latencies)" unfolding v by linarith
  have "?n - ?i \<le> length (filter (\<lambda>x. ?l ! ?i \<le> x) latencies)" using r(2) i by (simp add: len)
  moreover have "100 * ?i \<le> p * ?n" by simp
  ultimately show "(100 - p) * ?n \<le> 100 * length (filter (\<lambda>x. percentile p ?l \<le> x) latencies)"
    unfolding v using i by (simp add: diff_mult_distrib)
qed

text \<open>A schedule: \<open>Some (i, a)\<close> is a step of worker \<open>i\<close> with the answers \<open>a\<close>, \<open>None\<close> one of the main thread.\<close>

fun gen_run :: "(string \<Rightarrow> bool) \<Rightarrow> Config \<Rightarrow> (nat \<times> net_answers) option list \<Rightarrow> gen_sys \<Rightarrow> gen_sys option" where
  "gen_run pton cfg [] s = Some s"
| "gen_run pton cfg (None # as) s =
     (case main_step cfg (main_at s) s of None \<Rightarrow> None | Some s' \<Rightarrow> gen_run pton cfg as s')"
| "gen_run pton cfg (Some (i, a) # as) s =
     (if i < length (workers s) \<and> a_socket a \<notin> fds (shared s) then
        let (pc, g) = worker_step pton cfg a (workers s ! i) (shared s)
        in gen_run pton cfg as (s\<lparr>shared := g, workers := (workers s)[i := pc]\<rparr>)
      else None)"

lemma gen_run_steps: "gen_run pton cfg as s = Some s' \<Longrightarrow> (gen_step pton cfg)\<^sup>*\<^sup>* s s'"
proof (induction pton cfg as s rule: gen_run.induct)
  case (2 pton cfg as s)
  then obtain s1 where "main_step cfg (main_at s) s = Some s1" "(gen_step pton cfg)\<^sup>*\<^sup>* s1 s'" by (auto split: option.splits)
  then show ?case by (meson converse_rtranclp_into_rtranclp main_moves)
next
  case (3 pton cfg i a as s)
  obtain pc g where w: "worker_step pton cfg a (workers s ! i) (shared s) = (pc, g)" by fastforce
  with 3 have "i < length (workers s)" "a_socket a \<notin> fds (shared s)"
    "(gen_step pton cfg)\<^sup>*\<^sup>* (s\<lparr>shared := g, workers := (workers s)[i := pc]\<rparr>) s'" by (auto split: if_splits)
  then show ?case using converse_rtranclp_into_rtranclp [where r = "gen_step pton cfg"] worker_moves [OF _ _ w] by blast
qed simp

section \<open>Properties\<close>

text \<open>C29: the report of the load generator is exact. However its threads interleave and whatever the system
  answers, every open descriptor is one that was open before or is held by exactly one worker, and the request
  counter is ahead of the counted outcomes by the workers that are between the two increments.
  When the main thread has joined the workers and prints, every request is counted once as successful or failed, there is one latency
  for every success, all sockets are closed, and no worker runs.\<close>

theorem load_generator_report_exact:
  assumes "(gen_step pton cfg)\<^sup>*\<^sup>* (gen_start others) s"
  shows "distinct (concat (map held (workers s))) \<and> fds (shared s) = others \<union> set (concat (map held (workers s))) \<and>
    requests (stats (shared s)) =
      successful (stats (shared s)) + failed (stats (shared s)) + sum_list (map uncounted (workers s)) \<and>
    (main_at s = Printing \<longrightarrow>
       requests (stats (shared s)) = successful (stats (shared s)) + failed (stats (shared s)) \<and>
       successful (stats (shared s)) = of_nat (length (latencies_us (stats (shared s)))) \<and>
       fds (shared s) = others \<and> set (workers s) \<subseteq> {Returned})"
proof -
  have start: "counts_ok (gen_start others) \<and> fds_held others (gen_start others) \<and> joined_ok (gen_start others)"
    by (simp add: gen_start_def counts_ok_def fds_held_def joined_ok_def new_stats_def)
  have "step_invariant (\<lambda>s. s = gen_start others) (gen_step pton cfg) (\<lambda>s. counts_ok s \<and> fds_held others s \<and> joined_ok s)"
    by unfold_locales (simp add: start, blast intro: counts_ok_step fds_held_step joined_ok_step)
  then have inv: "counts_ok s" "fds_held others s" "joined_ok s" using step_invariant.reachable [OF _ assms] by blast+
  have "sum_list (map uncounted ws) = 0 \<and> sum_list (map unrecorded ws) = 0 \<and> concat (map held ws) = []"
    if "set ws \<subseteq> {Returned}" for ws using that by (induction ws) auto
  note quiet = this [of "workers s"]
  have "set (workers s) \<subseteq> {Returned}" if "main_at s = Printing" using inv(3) that by (simp add: joined_ok_def)
  then show ?thesis using inv(1,2) quiet by (simp add: counts_ok_def fds_held_def Let_def)
qed

definition example_answers :: net_answers where
  "example_answers = \<lparr>a_socket = 3, a_connect = (\<lambda>h p. p = 8080), a_send = (\<lambda>d. int (length d)), a_received = 12,
     a_start = 1000, a_end = 251000\<rparr>"

definition example_gen :: Config where
  "example_gen = \<lparr>gen_host = ''127.0.0.1'', gen_port = 8080, gen_connections = 1, gen_duration_seconds = 0, http_mode = False\<rparr>"

text \<open>One worker makes one request before the flag is cleared.\<close>

definition example_schedule :: "(nat \<times> net_answers) option list" where
  "example_schedule = (let w = Some (0, example_answers); v = Some (0, example_answers\<lparr>a_socket := 4\<rparr>) in
     [None, None, w, w, v, v, v, v, v, None, None, w, None, None])"

lemma example_generated:
  "\<exists>s. gen_run (\<lambda>_. True) example_gen example_schedule (gen_start {0, 1, 2}) = Some s \<and> main_at s = Printing \<and>
    requests (stats (shared s)) = 1 \<and> latencies_us (stats (shared s)) = [250]"
  by (simp add: example_schedule_def example_gen_def example_answers_def gen_start_def new_stats_def connect_to_server_def
      exchange_def send_tcp_data_def tcp_data_def receive_response_def record_latency_def duration_cast_us_def Let_def)

theorem load_generator_report_exact_witness:
  "\<exists>s. (gen_step (\<lambda>_. True) example_gen)\<^sup>*\<^sup>* (gen_start {0, 1, 2}) s \<and> main_at s = Printing \<and>
     latencies_us (stats (shared s)) = [250] \<and> successful (stats (shared s)) = 1 \<and> fds (shared s) = {0, 1, 2}"
proof -
  obtain s where s: "gen_run (\<lambda>_. True) example_gen example_schedule (gen_start {0, 1, 2}) = Some s" "main_at s = Printing"
    "latencies_us (stats (shared s)) = [250]" using example_generated by blast
  note r = gen_run_steps [OF s(1)]
  have "successful (stats (shared s)) = of_nat (length (latencies_us (stats (shared s)))) \<and> fds (shared s) = {0, 1, 2}"
    using load_generator_report_exact [OF r] s(2) by blast
  with r s(2,3) show ?thesis by (intro exI [of _ s]) simp
qed

end
