(* ===== verification/Spec2Isabelle.thy ===== *)
theory Spec2Isabelle
  imports Memory_Budget Backend_Pool Config_Manager Session_Manager Backpressure_Manager Admission
    Metrics Metrics_Server Http_Handler Health_Checker Net_Connection Connection_Pool Connection_Safety
    Data_Forwarder Connection_Frames Backend_Connector Connector_Safety Load_Balancer Reactor Event_Loop
    Http_Forwarding Splice_Safety Buffer_Sizes Shutdown Reconfiguration Thread_Pool Log_Queue Loggers Tls_Context Main_Program Load_Generator
begin

text \<open>
  \<^bold>\<open>A verified model of the load balancer.\<close>

  The program (\<^verbatim>\<open>src/src\<close>) is a single-threaded event loop with helpers. An \<open>EpollReactor\<close>
  (\<^verbatim>\<open>net/epoll_reactor.cpp\<close>) waits for descriptors and runs callbacks; \<open>LoadBalancer\<close>
  (\<^verbatim>\<open>core/load_balancer.cpp\<close>) accepts clients, applies its admission rules, and lets a
  \<open>BackendConnector\<close> choose a backend from the \<open>BackendPool\<close> and pair it with the client; the
  \<open>EventHandlers\<close> read, write and forward, through buffers, through kernel pipes or through the
  HTTP forwarder; the \<open>ConnectionManager\<close> owns and closes connections. A \<open>MemoryBudget\<close> bounds the
  buffered bytes, a \<open>HealthChecker\<close> thread changes the states of backends, a \<open>ConfigManager\<close> reloads
  the configuration, and a \<open>ThreadPool\<close> runs the drains of two loggers and the requests of the
  metrics server.

  \<^bold>\<open>How the model is built.\<close> Structures are records and enumerations datatypes, with the names
  of the source; machine integers are words of their width where they can wrap, the differences of
  \<open>size_t\<close> values included. Connection
  objects live in an explicit heap (\<open>conn_heap\<close>), shared by number: an operation that touches a
  destroyed object, frees an SSL object twice or dereferences a null listener has the value
  \<open>None\<close>. Closing a descriptor that is not open is recorded in \<open>bad_closes\<close>. What the kernel, OpenSSL
  and the clock answer comes from the record \<open>kernel\<close>, indexed by the number of questions asked so
  far (\<open>steps\<close>), and is universally quantified in the theorems; the only assumption ever made on it
  is \<open>kernel_fresh\<close> (a new descriptor is not already open and is below \<open>MAX_FD\<close>). yaml-cpp is the record \<open>yaml_api\<close>.
  Loops are total recursive functions where the code's loop ends for all inputs; loops the
  environment can keep alive are \<open>partial_function (option)\<close> (\<open>None\<close> when they do not return) or
  run over a list of answers (\<open>None\<close> when the list ends first), so no fuel constant is chosen
  anywhere. Iterations over hash tables take the order of iteration as an argument.

  \<^bold>\<open>Theories and sources.\<close>
  \<^item> \<open>LB_Prelude\<close>: types, time arithmetic, decimal printing, string search, the locale \<open>step_invariant\<close>.
  \<^item> \<open>Memory_Budget\<close> (\<^verbatim>\<open>core/memory_budget.h\<close>): the sequential operations, the compare-exchange
    loops, all interleavings of threads (\<open>budget_step\<close>), also with limits that change (\<open>reloaded_step\<close>);
    locale \<open>byte_accounting\<close>.
  \<^item> \<open>Backend_Node\<close>, \<open>Double_Quotient\<close>, \<open>Backend_Pool\<close> (\<^verbatim>\<open>core/backend_node\<close>, \<^verbatim>\<open>core/backend_pool\<close>): routing, with
    the IEEE rounding of the load quotient.
  \<^item> \<open>Config_Manager\<close> (\<^verbatim>\<open>config/\<close>), \<open>Session_Manager\<close> (locale \<open>session_store\<close>), \<open>Backpressure_Manager\<close>, \<open>Admission\<close> (the IP
    filter and the rate limit of \<^verbatim>\<open>core/load_balancer.cpp\<close>), \<open>Metrics\<close>, \<open>Metrics_Server\<close> (\<^verbatim>\<open>metrics/\<close>).
  \<^item> \<open>Http_Message\<close>, \<open>Http_Request\<close>, \<open>Http_Response\<close>, \<open>Http_Handler\<close> (\<^verbatim>\<open>http/\<close>): parsers, printers, header rewriting.
  \<^item> \<open>Health_Checker\<close> (\<^verbatim>\<open>health/\<close>): the probes and the state machine of a backend.
  \<^item> \<open>Net_Connection\<close>, \<open>Connection_Pool\<close> (\<^verbatim>\<open>net/connection.cpp\<close>, \<^verbatim>\<open>core/connection_pool.cpp\<close>), \<open>LB_State\<close> (the members of
    the load balancer, descriptors, heap and reactor tables), \<open>Connection_Manager\<close>, \<open>Data_Forwarder\<close>,
    \<open>Splice_Forwarder\<close>, \<open>Http_Data_Forwarder\<close>, \<open>Backend_Connector\<close> (with the retry handler), \<open>Event_Handlers\<close>,
    \<open>Load_Balancer\<close>, \<open>Reactor\<close>: the operations of the files of the same names.
  \<^item> \<open>Thread_Pool\<close>, \<open>Log_Queue\<close>, \<open>Loggers\<close> (\<^verbatim>\<open>core/thread_pool.cpp\<close>, \<^verbatim>\<open>logging/\<close>): threads, condition variables and flags as
    transition systems whose steps are single accesses to shared data.
  \<^item> \<open>Tls_Context\<close> (\<^verbatim>\<open>tls/\<close>), \<open>Main_Program\<close> (\<^verbatim>\<open>main.cpp\<close>), \<open>Load_Generator\<close> (\<^verbatim>\<open>bench/load_generator.cpp\<close>, the benchmark client:
    its threads, its report and its command line).

  \<^bold>\<open>What is proved.\<close>
  \<^item> The tables: \<open>Connection_Invariants\<close> states the invariant (every object has one owner and an open descriptor
    of its own, peers point at each other, counters and budget are exact), \<open>Connection_Safety\<close> proves it for
    closing through the locale \<open>closing\<close>, \<open>Connection_Frames\<close> and \<open>Connection_Wiring\<close> say what the steps leave alone,
    \<open>Connector_Safety\<close> treats connecting and retrying, \<open>Registrations\<close> the callbacks of the reactor against
    the tables (closing leaves callbacks behind, which does no harm), \<open>Http_Safety\<close>, \<open>Handler_Safety\<close> and \<open>Accept_Safety\<close> HTTP
    forwarding, the event handlers, accepting and the timeouts, \<open>Periodic_Safety\<close> the periodic callback with its reload of the
    configuration, and \<open>Event_Loop\<close> puts them together: every state reachable from start-up is consistent. \<open>Buffer_Sizes\<close> has the bound on
    the buffers (locales \<open>connection_property\<close> and \<open>rewritten_property\<close>): of both buffers in TCP mode, of the write buffers in HTTP mode,
    where a rewritten message can make a read buffer longer.
  \<^item> Forwarding keeps the byte stream (\<open>Data_Forwarder\<close>); pipes stay within their size, without wrap-around, but outlive their
    connections (\<open>Splice_Safety\<close>).
  \<^item> Routing is sound, fair, equal to a table lookup, and minimal (\<open>Backend_Pool\<close>); applying a configuration
    makes the active backends the configured ones (\<open>Reconfiguration\<close>); a shutdown ends (\<open>Shutdown\<close>).
  \<^item> The concurrent parts are safe under all interleavings: the budget is never overcommitted and its loops are linearisable, tasks run in
    order and once, log entries are neither lost nor duplicated, the load generator counts every request once; where the code is wrong (lost
    wakeup, reordering, a stop that returns early) that is proved instead.
  \<^item> Parsers and printers round-trip; a message that arrives in two pieces is mishandled unless the cut is in its first line, which is
    proved too. \<open>Http_Forwarding\<close> lifts
    the round trip to the forwarder: what a request becomes in the buffer, and that no error page is ever sent.

  \<^bold>\<open>Not modelled.\<close> The tests are programs of their own. Log messages are
  not part of the state of the load balancer. Of the getters of \<^verbatim>\<open>metrics.cpp\<close> only those that look up a backend have a
  definition; the others are the fields of the record. The rendering of local times and of floating-point
  numbers is an argument. The consistency theorem covers TCP and HTTP mode with buffers, under changing configurations: with
  splicing, a connection pool or a client queue, and from the request of a graceful shutdown on, the operations are
  defined, and their properties are those of the single components.
\<close>

end
